(* ===== verification/QModem_Prelude.thy ===== *)
theory QModem_Prelude
  imports Main "HOL-Library.Word"
begin

text \<open>
  Shared vocabulary of the QModem development.

  \<^item> The machine types of the C sources (\<open>uint8_t\<close> to \<open>uint64_t\<close>) as words, the C
    strings as \<open>string\<close> (the characters before the terminating NUL), and the few functions of
    the C library the sources call on them.
  \<^item> Ring buffers: the list a circular array denotes, with the lemmas about dropping the oldest
    and appending the newest element that both queues of the program need.
  \<^item> Two interfaces: an inductive invariant of a transition system, and a bounded first-in
    first-out queue that discards its oldest element when it is full.
\<close>

section \<open>Machine types\<close>

type_synonym u8 = "8 word"
type_synonym u16 = "16 word"
type_synonym u32 = "32 word"
type_synonym u64 = "64 word"

text \<open>Facts that unfold the model's own small helper functions.\<close>

named_theorems helper_defs

section \<open>C strings\<close>

text \<open>\<open>strncmp(s, p, strlen(p)) == 0\<close>.\<close>

definition has_prefix :: "string \<Rightarrow> string \<Rightarrow> bool" where
  "has_prefix s p \<longleftrightarrow> take (length p) s = p"

text \<open>\<open>snprintf(buf, n, "%s", s)\<close> or \<open>strncpy\<close> with a forced terminator: what the
  buffer of \<open>n\<close> bytes holds as a string.\<close>

definition c_copy :: "nat \<Rightarrow> string \<Rightarrow> string" where
  "c_copy n s = take (n - 1) s"

text \<open>The part of a C string before its first NUL.\<close>

definition c_str :: "string \<Rightarrow> string" where
  "c_str s = takeWhile (\<lambda>c. c \<noteq> CHR 0x00) s"

text \<open>\<open>strchr(s, c)\<close>: the rest of the string from the first occurrence on.\<close>

fun strchr :: "string \<Rightarrow> char \<Rightarrow> string option" where
  "strchr [] c = None"
| "strchr (x # xs) c = (if x = c then Some (x # xs) else strchr xs c)"

definition is_digit :: "char \<Rightarrow> bool" where
  "is_digit c \<longleftrightarrow> 48 \<le> (of_char c :: nat) \<and> (of_char c :: nat) \<le> 57"

text \<open>The white space of \<open>isspace\<close> in the C locale.\<close>

definition is_space :: "char \<Rightarrow> bool" where
  "is_space c \<longleftrightarrow> (of_char c :: nat) = 32 \<or> (9 \<le> (of_char c :: nat) \<and> (of_char c :: nat) \<le> 13)"

fun digits_value :: "int \<Rightarrow> string \<Rightarrow> int" where
  "digits_value acc [] = acc"
| "digits_value acc (c # cs) = digits_value (10 * acc + (int (of_char c) - 48)) cs"

text \<open>
  \<open>strtol(s, &end, 10)\<close> with a 64-bit \<open>long\<close>: leading white space, an optional sign,
  then digits. The second component is the string \<open>end\<close> points to; it is the whole argument
  when there is no digit. Values outside the range of \<open>long\<close> saturate.
\<close>

definition long_clamp :: "int \<Rightarrow> int" where
  "long_clamp v = max (- (2 ^ 63)) (min (2 ^ 63 - 1) v)"

definition strtol10 :: "string \<Rightarrow> int \<times> string" where
  "strtol10 s =
     (let t = dropWhile is_space s;
          neg = (t \<noteq> [] \<and> hd t = CHR ''-'');
          u = (if t \<noteq> [] \<and> (hd t = CHR ''-'' \<or> hd t = CHR ''+'') then tl t else t);
          ds = takeWhile is_digit u;
          v = digits_value 0 ds
      in if ds = [] then (0, s)
         else (long_clamp (if neg then - v else v), dropWhile is_digit u))"

text \<open>The conversion of a \<open>long\<close> to a 32-bit \<open>int\<close> that keeps the low bits.\<close>

definition to_int32 :: "int \<Rightarrow> int" where
  "to_int32 v = (v + 2 ^ 31) mod 2 ^ 32 - 2 ^ 31"

definition is_alnum :: "char \<Rightarrow> bool" where
  "is_alnum c \<longleftrightarrow> is_digit c \<or> (65 \<le> (of_char c :: nat) \<and> (of_char c :: nat) \<le> 90) \<or>
     (97 \<le> (of_char c :: nat) \<and> (of_char c :: nat) \<le> 122)"

text \<open>The conversions \<open>%d\<close> and \<open>%u\<close> of \<open>printf\<close> for a number that is not negative.\<close>

definition dec_digit :: "nat \<Rightarrow> char" where
  "dec_digit n = char_of (48 + n)"

fun dec_nat :: "nat \<Rightarrow> string" where
  "dec_nat n = (if n < 10 then [dec_digit n] else dec_nat (n div 10) @ [dec_digit (n mod 10)])"

declare dec_nat.simps [simp del]

text \<open>The conversion \<open>%u\<close> of \<open>sscanf\<close>: white space, a sign, digits; a number too large for a
  \<open>long\<close> is the largest, and the result keeps 32 bits. The second component is what follows.\<close>

definition scan_unsigned :: "string \<Rightarrow> (u32 \<times> string) option" where
  "scan_unsigned s =
     (let t = dropWhile is_space s;
          neg = (t \<noteq> [] \<and> hd t = CHR ''-'');
          u = (if t \<noteq> [] \<and> (hd t = CHR ''-'' \<or> hd t = CHR ''+'') then tl t else t);
          ds = takeWhile is_digit u;
          v = digits_value 0 ds
      in if ds = [] then None
         else Some (word_of_int (if v > 2 ^ 64 - 1 then 2 ^ 64 - 1 else if neg then - v else v), dropWhile is_digit u))"

text \<open>The index of the first element that fits.\<close>

fun first_index :: "('a \<Rightarrow> bool) \<Rightarrow> 'a list \<Rightarrow> nat option" where
  "first_index P [] = None"
| "first_index P (x # xs) = (if P x then Some 0 else map_option Suc (first_index P xs))"

lemma first_index_Some: "first_index P xs = Some i \<Longrightarrow> i < length xs \<and> P (xs ! i)"
  by (induction xs arbitrary: i) (auto split: if_splits)

lemma first_index_None: "first_index P xs = None \<longleftrightarrow> (\<forall>x \<in> set xs. \<not> P x)"
  by (induction xs) auto

lemma first_index_unique:
  assumes "i < length xs" "P (xs ! i)" "\<And>j. j < length xs \<Longrightarrow> P (xs ! j) \<Longrightarrow> j = i"
  shows "first_index P xs = Some i"
proof (cases "first_index P xs")
  case None
  then show ?thesis using assms(1,2) by (auto simp: first_index_None)
next
  case (Some k)
  then show ?thesis using first_index_Some [OF Some] assms(3) by simp
qed

lemma has_prefix_append [simp]: "has_prefix (p @ s) p"
  by (simp add: has_prefix_def)

lemma has_prefix_iff: "has_prefix s p \<longleftrightarrow> (\<exists>r. s = p @ r)"
  by (metis append_eq_conv_conj append_take_drop_id has_prefix_def)

lemma length_c_copy: "0 < n \<Longrightarrow> length (c_copy n s) < n"
  by (simp add: c_copy_def)

lemma c_copy_id: "length s < n \<Longrightarrow> c_copy n s = s"
  by (simp add: c_copy_def)

lemma c_str_id: "CHR 0x00 \<notin> set s \<Longrightarrow> c_str s = s"
  by (auto simp: c_str_def takeWhile_eq_all_conv)

lemma strchr_Some: "strchr s c = Some r \<Longrightarrow> \<exists>l. s = l @ r \<and> c \<notin> set l \<and> r \<noteq> [] \<and> hd r = c"
proof (induction s)
  case Nil
  then show ?case by simp
next
  case (Cons x xs)
  show ?case
  proof (cases "x = c")
    case True
    with Cons.prems show ?thesis by force
  next
    case False
    with Cons.prems have "strchr xs c = Some r" by simp
    then obtain l where "xs = l @ r \<and> c \<notin> set l \<and> r \<noteq> [] \<and> hd r = c"
      using Cons.IH by blast
    with False show ?thesis by (intro exI [of _ "x # l"]) auto
  qed
qed

lemma strchr_None: "strchr s c = None \<longleftrightarrow> c \<notin> set s"
  by (induction s) auto

section \<open>Results of methods on the bus\<close>

datatype ubus_status = UBUS_STATUS_OK | UBUS_STATUS_INVALID_ARGUMENT | UBUS_STATUS_NOT_FOUND | UBUS_STATUS_NOT_SUPPORTED
| UBUS_STATUS_UNKNOWN_ERROR | UBUS_STATUS_PERMISSION_DENIED

section \<open>The last elements of a list\<close>

definition lastn :: "nat \<Rightarrow> 'a list \<Rightarrow> 'a list" where
  "lastn n xs = drop (length xs - n) xs"

lemma length_lastn [simp]: "length (lastn n xs) = min n (length xs)"
  by (simp add: lastn_def)

lemma lastn_all: "length xs \<le> n \<Longrightarrow> lastn n xs = xs"
  by (simp add: lastn_def)

lemma lastn_Nil [simp]: "lastn n [] = []"
  by (simp add: lastn_def)

lemma lastn_append_lastn: "lastn n (lastn n xs @ ys) = lastn n (xs @ ys)"
proof (cases "length xs \<le> n")
  case True
  then show ?thesis by (simp add: lastn_all)
next
  case False
  then have "n + length ys - n = length ys" by simp
  with False show ?thesis
    by (cases "length ys \<le> n") (auto simp: lastn_def algebra_simps)
qed

lemma lastn_snoc_full: "length xs = n \<Longrightarrow> 0 < n \<Longrightarrow> lastn n (xs @ [x]) = tl xs @ [x]"
  by (cases xs) (auto simp: lastn_def)

section \<open>Ring buffers\<close>

text \<open>The elements of a circular array \<open>buf\<close> of \<open>cap\<close> cells, oldest first.\<close>

definition ring_list :: "nat \<Rightarrow> 'a list \<Rightarrow> nat \<Rightarrow> nat \<Rightarrow> 'a list" where
  "ring_list cap buf first n = map (\<lambda>i. buf ! ((first + i) mod cap)) [0..<n]"

lemma length_ring_list [simp]: "length (ring_list cap buf first n) = n"
  by (simp add: ring_list_def)

lemma ring_list_0 [simp]: "ring_list cap buf first 0 = []"
  by (simp add: ring_list_def)

lemma ring_list_Suc:
  "ring_list cap buf first (Suc n) = buf ! (first mod cap) # ring_list cap buf (Suc first mod cap) n"
proof -
  have "map (\<lambda>i. buf ! ((first + i) mod cap)) [0..<Suc n]
      = buf ! (first mod cap) # map (\<lambda>i. buf ! ((first + Suc i) mod cap)) [0..<n]"
    by (simp add: upt_conv_Cons map_Suc_upt [symmetric] del: upt_Suc map_Suc_upt)
  moreover have "(first + Suc i) mod cap = (Suc first mod cap + i) mod cap" for i
    by (simp add: mod_simps)
  ultimately show ?thesis by (simp add: ring_list_def del: upt_Suc)
qed

lemma ring_list_mod [simp]: "ring_list cap buf (first mod cap) n = ring_list cap buf first n"
  by (simp add: ring_list_def mod_simps)

lemma ring_index_inj:
  assumes "i < cap" "j < cap" "(first + i) mod cap = (first + j) mod (cap::nat)"
  shows "i = j"
proof -
  define f where "f = first mod cap"
  have f: "f < cap" using assms(1) by (simp add: f_def)
  have eq: "(f + i) mod cap = (f + j) mod cap"
    using assms(3) by (simp add: f_def mod_simps)
  have small: "(f + k) mod cap = (if f + k < cap then f + k else f + k - cap)" if "k < cap" for k
    using f that by (simp add: mod_if)
  from eq show ?thesis
    using small [OF assms(1)] small [OF assms(2)] f assms(1,2) by (auto split: if_splits)
qed

lemma ring_list_update_outside:
  assumes "n \<le> k" "k < cap" "length buf = cap"
  shows "ring_list cap (buf[(first + k) mod cap := x]) first n = ring_list cap buf first n"
proof -
  have "buf[(first + k) mod cap := x] ! ((first + i) mod cap) = buf ! ((first + i) mod cap)"
    if "i < n" for i
    using that assms ring_index_inj [of i cap k first] by (metis less_le_trans nth_list_update_neq
        order.strict_trans nless_le)
  then show ?thesis by (simp add: ring_list_def)
qed

lemma ring_list_append:
  assumes "n < cap" "length buf = cap"
  shows "ring_list cap (buf[(first + n) mod cap := x]) first (Suc n) = ring_list cap buf first n @ [x]"
proof -
  have "ring_list cap (buf[(first + n) mod cap := x]) first (Suc n)
      = ring_list cap (buf[(first + n) mod cap := x]) first n @ [buf[(first + n) mod cap := x] ! ((first + n) mod cap)]"
    by (simp add: ring_list_def)
  with assms show ?thesis by (simp add: ring_list_update_outside)
qed

lemma ring_list_map: "first < cap \<Longrightarrow> length buf = cap \<Longrightarrow>
    ring_list cap (map f buf) first n = map f (ring_list cap buf first n)"
  by (simp add: ring_list_def)

section \<open>Bytes of a word\<close>

lemma byte_of: "unat (ucast (drop_bit n w) :: u8) = unat w div 2 ^ n mod 256"
  by (simp add: unsigned_ucast_eq unsigned_drop_bit_eq take_bit_eq_mod drop_bit_eq_div [of n "unat w"])

lemma low_byte: "unat (ucast w :: u8) = unat w mod 256"
  using byte_of [of 0 w] by simp

section \<open>Inductive invariants\<close>

text \<open>The states a transition system reaches from its initial states.\<close>

inductive reach :: "('s \<Rightarrow> bool) \<Rightarrow> ('s \<Rightarrow> 's \<Rightarrow> bool) \<Rightarrow> 's \<Rightarrow> bool" for init step where
  reach_init: "init s \<Longrightarrow> reach init step s"
| reach_step: "reach init step s \<Longrightarrow> step s t \<Longrightarrow> reach init step t"

text \<open>The contract of an invariant: it holds at the start and every step keeps it.\<close>

locale inductive_invariant =
  fixes init :: "'s \<Rightarrow> bool"
    and step :: "'s \<Rightarrow> 's \<Rightarrow> bool"
    and inv :: "'s \<Rightarrow> bool"
  assumes init_inv: "init s \<Longrightarrow> inv s"
    and step_inv: "inv s \<Longrightarrow> step s t \<Longrightarrow> inv t"
begin

lemma reach_inv: "reach init step s \<Longrightarrow> inv s"
  by (induction rule: reach.induct) (auto intro: init_inv step_inv)

end

section \<open>Bounded queues that drop their oldest element\<close>

text \<open>
  The contract both queues of the program promise: a push always succeeds and keeps the most
  recent \<open>capacity\<close> elements, a pop returns the oldest one.
\<close>

datatype 'e fifo_op = Put 'e | Get

text \<open>The results of the reads of a sequence of operations, on a queue and on the plain list it
  stands for.\<close>

fun fifo_run :: "('e \<Rightarrow> 'q \<Rightarrow> 'q) \<Rightarrow> ('q \<Rightarrow> ('e \<times> 'q) option) \<Rightarrow> 'e fifo_op list \<Rightarrow> 'q \<Rightarrow> 'e option list" where
  "fifo_run push pop [] q = []"
| "fifo_run push pop (Put e # ops) q = fifo_run push pop ops (push e q)"
| "fifo_run push pop (Get # ops) q =
     (case pop q of None \<Rightarrow> None # fifo_run push pop ops q | Some (e, q') \<Rightarrow> Some e # fifo_run push pop ops q')"

fun list_run :: "nat \<Rightarrow> 'e fifo_op list \<Rightarrow> 'e list \<Rightarrow> 'e option list" where
  "list_run cap [] xs = []"
| "list_run cap (Put e # ops) xs = list_run cap ops (lastn cap (xs @ [e]))"
| "list_run cap (Get # ops) [] = None # list_run cap ops []"
| "list_run cap (Get # ops) (x # xs) = Some x # list_run cap ops xs"

locale bounded_fifo =
  fixes capacity :: nat
    and contents :: "'q \<Rightarrow> 'e list"
    and wf :: "'q \<Rightarrow> bool"
    and push :: "'e \<Rightarrow> 'q \<Rightarrow> 'q"
    and pop :: "'q \<Rightarrow> ('e \<times> 'q) option"
  assumes wf_bound: "wf q \<Longrightarrow> length (contents q) \<le> capacity"
    and push_wf: "wf q \<Longrightarrow> wf (push e q)"
    and push_contents: "wf q \<Longrightarrow> contents (push e q) = lastn capacity (contents q @ [e])"
    and pop_empty: "wf q \<Longrightarrow> pop q = None \<longleftrightarrow> contents q = []"
    and pop_some: "wf q \<Longrightarrow> pop q = Some (e, q') \<Longrightarrow> wf q' \<and> contents q = e # contents q'"
begin

lemma fold_push_wf: "wf q \<Longrightarrow> wf (fold push es q)"
  by (induction es arbitrary: q) (auto simp: push_wf)

text \<open>After any burst the queue holds exactly the most recent elements, in order.\<close>

lemma fold_push_contents: "wf q \<Longrightarrow> contents (fold push es q) = lastn capacity (contents q @ es)"
proof (induction es arbitrary: q)
  case Nil
  then show ?case by (simp add: lastn_all wf_bound)
next
  case (Cons e es)
  have "contents (fold push es (push e q)) = lastn capacity (lastn capacity (contents q @ [e]) @ es)"
    using Cons.prems by (simp add: Cons.IH push_wf push_contents)
  then show ?case by (simp add: lastn_append_lastn)
qed

lemma pop_cons:
  assumes "wf q" "contents q = e # es"
  shows "\<exists>q'. pop q = Some (e, q') \<and> wf q' \<and> contents q' = es"
proof -
  from assms have "pop q \<noteq> None" by (simp add: pop_empty)
  then obtain e' q' where p: "pop q = Some (e', q')" by auto
  with pop_some [OF assms(1) p] assms(2) show ?thesis by auto
qed

text \<open>In any order of writes and reads the queue behaves as the list.\<close>

lemma run_refines: "wf q \<Longrightarrow> fifo_run push pop ops q = list_run capacity ops (contents q)"
proof (induction ops arbitrary: q)
  case (Cons op ops)
  show ?case
  proof (cases op)
    case (Put e)
    then show ?thesis using Cons by (simp add: push_wf push_contents)
  next
    case Get
    show ?thesis
    proof (cases "contents q")
      case Nil
      then show ?thesis using Get Cons pop_empty [OF Cons.prems] by simp
    next
      case c: (Cons e es)
      then obtain q' where "pop q = Some (e, q')" "wf q'" "contents q' = es"
        using pop_cons [OF Cons.prems] by blast
      then show ?thesis using Get c Cons.IH by simp
    qed
  qed
qed simp

text \<open>An element pushed into a queue with room comes out after those already there.\<close>

lemma push_not_full: "wf q \<Longrightarrow> length (contents q) < capacity \<Longrightarrow> contents (push e q) = contents q @ [e]"
  by (simp add: push_contents lastn_all)

end

end
