(* ===== verification/At_Control.thy ===== *)
theory At_Control
  imports QModem_Prelude
begin

text \<open>
  Leases and registrations of the AT daemon, \<open>application/ubus_at_daemon/src/control.c\<close>.

  A lease gives one owner a port for a limited time; a registration asks for the unsolicited
  lines of a port that start with a prefix. The part of the daemon context these functions use is
  the record \<open>at_control\<close>, its linked lists are lists in the same order, the monotonic clock
  is the argument \<open>now\<close> and a failing allocation is the argument \<open>mem\<close> being false.
\<close>

section \<open>Data\<close>

abbreviation MAX_PORT_PATH_SIZE :: nat where "MAX_PORT_PATH_SIZE \<equiv> 64"
abbreviation MAX_PREFIX_SIZE :: nat where "MAX_PREFIX_SIZE \<equiv> 64"
abbreviation OWNER_SIZE :: nat where "OWNER_SIZE \<equiv> 64"
abbreviation TOKEN_SIZE :: nat where "TOKEN_SIZE \<equiv> 96"

record at_lease =
  ls_port :: string
  ls_owner :: string
  ls_token :: string
  ls_expires_ms :: u64

record at_urc =
  ur_port :: string
  ur_owner :: string
  ur_id :: string
  ur_prefix :: string

record at_control =
  ac_daemon_epoch :: u64
  ac_leases :: "at_lease list"
  ac_urcs :: "at_urc list"
  ac_next_lease_id :: u64

definition at_monotonic_ms :: "nat \<Rightarrow> nat \<Rightarrow> u64" where
  "at_monotonic_ms sec nsec = of_nat sec * 1000 + of_nat nsec div 1000000"

section \<open>Hexadecimal numbers\<close>

definition hex_digit :: "nat \<Rightarrow> char" where
  "hex_digit d = char_of (if d < 10 then 48 + d else 87 + d)"

text \<open>What \<open>%llx\<close> prints.\<close>

fun hex_nat :: "nat \<Rightarrow> string" where
  "hex_nat n = (if n < 16 then [hex_digit n] else hex_nat (n div 16) @ [hex_digit (n mod 16)])"

declare hex_nat.simps [simp del]

section \<open>Leases\<close>

definition expire_leases :: "u64 \<Rightarrow> at_control \<Rightarrow> at_control" where
  "expire_leases now s = s\<lparr>ac_leases := filter (\<lambda>l. \<not> ls_expires_ms l \<le> now) (ac_leases s)\<rparr>"

definition valid_component :: "string option \<Rightarrow> nat \<Rightarrow> bool" where
  "valid_component v maximum = (case v of None \<Rightarrow> False | Some s \<Rightarrow> s \<noteq> [] \<and> length s < maximum)"

definition lease_token :: "u64 \<Rightarrow> u64 \<Rightarrow> string" where
  "lease_token epoch lease_id = c_copy TOKEN_SIZE (hex_nat (unat epoch) @ ''-'' @ hex_nat (unat lease_id))"

text \<open>The status, what is written to \<open>token\<close> and \<open>expires_ms\<close> on success, and the state.\<close>

definition at_lease_acquire ::
  "u64 \<Rightarrow> bool \<Rightarrow> string option \<Rightarrow> string option \<Rightarrow> u32 \<Rightarrow> nat \<Rightarrow> at_control
   \<Rightarrow> int \<times> (string \<times> u64) option \<times> at_control" where
  "at_lease_acquire now mem port owner ttl token_size s =
     (if \<not> valid_component port MAX_PORT_PATH_SIZE \<or> \<not> valid_component owner OWNER_SIZE \<or>
         ttl < 1 \<or> ttl > 300 then (-1, None, s)
      else let s1 = expire_leases now s in
      if list_ex (\<lambda>l. ls_port l = the port) (ac_leases s1) then (-2, None, s1)
      else if \<not> mem then (-3, None, s1)
      else let lid = ac_next_lease_id s1 + 1;
               lease = \<lparr>ls_port = c_copy MAX_PORT_PATH_SIZE (the port), ls_owner = c_copy OWNER_SIZE (the owner),
                        ls_token = lease_token (ac_daemon_epoch s1) lid,
                        ls_expires_ms = now + ucast ttl * 1000\<rparr>
           in (0, Some (c_copy token_size (ls_token lease), ls_expires_ms lease),
               s1\<lparr>ac_next_lease_id := lid, ac_leases := lease # ac_leases s1\<rparr>))"

definition lease_matches :: "string \<Rightarrow> string \<Rightarrow> string \<Rightarrow> at_lease \<Rightarrow> bool" where
  "lease_matches port owner token l \<longleftrightarrow> ls_port l = port \<and> ls_owner l = owner \<and> ls_token l = token"

text \<open>Applies a change to the first element that matches.\<close>

fun update_first :: "('a \<Rightarrow> bool) \<Rightarrow> ('a \<Rightarrow> 'a) \<Rightarrow> 'a list \<Rightarrow> 'a list" where
  "update_first P f [] = []"
| "update_first P f (x # xs) = (if P x then f x # xs else x # update_first P f xs)"

fun remove_first :: "('a \<Rightarrow> bool) \<Rightarrow> 'a list \<Rightarrow> 'a list" where
  "remove_first P [] = []"
| "remove_first P (x # xs) = (if P x then xs else x # remove_first P xs)"

definition at_lease_renew ::
  "u64 \<Rightarrow> string option \<Rightarrow> string option \<Rightarrow> string option \<Rightarrow> u32 \<Rightarrow> at_control \<Rightarrow> int \<times> u64 option \<times> at_control" where
  "at_lease_renew now port owner token ttl s =
     (if \<not> valid_component port MAX_PORT_PATH_SIZE \<or> \<not> valid_component owner OWNER_SIZE \<or>
         \<not> valid_component token TOKEN_SIZE \<or> ttl < 1 \<or> ttl > 300 then (-1, None, s)
      else let s1 = expire_leases now s; m = lease_matches (the port) (the owner) (the token);
               until = now + ucast ttl * 1000 in
      if list_ex m (ac_leases s1)
      then (0, Some until, s1\<lparr>ac_leases := update_first m (\<lambda>l. l\<lparr>ls_expires_ms := until\<rparr>) (ac_leases s1)\<rparr>)
      else (-2, None, s1))"

definition at_lease_release :: "u64 \<Rightarrow> string \<Rightarrow> string \<Rightarrow> string \<Rightarrow> at_control \<Rightarrow> int \<times> at_control" where
  "at_lease_release now port owner token s =
     (let s1 = expire_leases now s; m = lease_matches port owner token in
      if list_ex m (ac_leases s1) then (0, s1\<lparr>ac_leases := remove_first m (ac_leases s1)\<rparr>)
      else (-1, s1))"

definition at_lease_authorize :: "u64 \<Rightarrow> string \<Rightarrow> string option \<Rightarrow> at_control \<Rightarrow> int \<times> at_control" where
  "at_lease_authorize now port owner s =
     (let s1 = expire_leases now s in
      (case List.find (\<lambda>l. ls_port l = port) (ac_leases s1) of
         None \<Rightarrow> 0 | Some l \<Rightarrow> if owner = Some (ls_owner l) then 0 else -1, s1))"

section \<open>Registrations\<close>

text \<open>The walk of \<open>at_urc_register\<close> over the list: registrations of the same owner and id on
  another port are removed until one on this port is found, whose prefix is replaced. The first
  component tells whether one was found.\<close>

fun urc_walk :: "string \<Rightarrow> string \<Rightarrow> string \<Rightarrow> string \<Rightarrow> at_urc list \<Rightarrow> bool \<times> at_urc list" where
  "urc_walk port owner uid prefix [] = (False, [])"
| "urc_walk port owner uid prefix (u # us) =
     (if ur_owner u = owner \<and> ur_id u = uid then
        (if ur_port u \<noteq> port then urc_walk port owner uid prefix us
         else (True, u\<lparr>ur_prefix := c_copy MAX_PREFIX_SIZE prefix\<rparr> # us))
      else (let (found, vs) = urc_walk port owner uid prefix us in (found, u # vs)))"

definition at_urc_register ::
  "bool \<Rightarrow> string option \<Rightarrow> string option \<Rightarrow> string option \<Rightarrow> string option \<Rightarrow> at_control \<Rightarrow> int \<times> at_control" where
  "at_urc_register mem port owner uid prefix s =
     (if \<not> valid_component port MAX_PORT_PATH_SIZE \<or> \<not> valid_component owner OWNER_SIZE \<or>
         \<not> valid_component uid OWNER_SIZE \<or> \<not> valid_component prefix MAX_PREFIX_SIZE then (-1, s)
      else let (found, us) = urc_walk (the port) (the owner) (the uid) (the prefix) (ac_urcs s);
               s1 = s\<lparr>ac_urcs := us\<rparr> in
      if found then (0, s1)
      else if \<not> mem then (-2, s1)
      else (0, s1\<lparr>ac_urcs := \<lparr>ur_port = c_copy MAX_PORT_PATH_SIZE (the port), ur_owner = c_copy OWNER_SIZE (the owner),
                             ur_id = c_copy OWNER_SIZE (the uid), ur_prefix = c_copy MAX_PREFIX_SIZE (the prefix)\<rparr> # us\<rparr>))"

definition at_urc_unregister :: "string \<Rightarrow> string \<Rightarrow> string \<Rightarrow> at_control \<Rightarrow> int \<times> at_control" where
  "at_urc_unregister port owner uid s =
     (let m = (\<lambda>u. ur_port u = port \<and> ur_owner u = owner \<and> ur_id u = uid) in
      if list_ex m (ac_urcs s) then (0, s\<lparr>ac_urcs := remove_first m (ac_urcs s)\<rparr>) else (-1, s))"

definition at_control_cleanup :: "at_control \<Rightarrow> at_control" where
  "at_control_cleanup s = s\<lparr>ac_leases := [], ac_urcs := []\<rparr>"

section \<open>Tokens are unique\<close>

definition hex_char_value :: "char \<Rightarrow> nat" where
  "hex_char_value c = (if of_char c < (58::nat) then of_char c - 48 else of_char c - 87)"

definition hex_value :: "string \<Rightarrow> nat" where
  "hex_value = foldl (\<lambda>a c. 16 * a + hex_char_value c) 0"

lemma hex_char_value_digit: "d < 16 \<Longrightarrow> hex_char_value (hex_digit d) = d"
  by (auto simp: hex_char_value_def hex_digit_def)

lemma hex_value_nat: "hex_value (hex_nat n) = n"
proof (induction n rule: hex_nat.induct)
  case (1 n)
  then show ?case
    by (subst hex_nat.simps) (simp add: hex_value_def hex_char_value_digit)
qed

lemma length_hex_nat: "n < 16 ^ Suc k \<Longrightarrow> length (hex_nat n) \<le> Suc k"
proof (induction k arbitrary: n)
  case 0
  then show ?case by (subst hex_nat.simps) simp
next
  case (Suc k)
  show ?case
  proof (cases "n < 16")
    case True
    then show ?thesis by (subst hex_nat.simps) simp
  next
    case False
    from Suc.prems have "n div 16 < 16 ^ Suc k" by (simp add: less_mult_imp_div_less)
    with Suc.IH [of "n div 16"] False show ?thesis by (subst hex_nat.simps) simp
  qed
qed

lemma length_hex_word: "length (hex_nat (unat (w :: u64))) \<le> 16"
proof -
  have "unat w < 16 ^ Suc 15" using unsigned_less [of w] by simp
  from length_hex_nat [OF this] show ?thesis by simp
qed

lemma lease_token_full: "lease_token e i = hex_nat (unat e) @ ''-'' @ hex_nat (unat i)"
  using length_hex_word [of e] length_hex_word [of i]
  by (simp add: lease_token_def c_copy_id)

lemma lease_token_inject: "lease_token e i = lease_token e j \<longleftrightarrow> i = j"
  by (metis append.assoc hex_value_nat lease_token_full same_append_eq word_unat_eq_iff)

lemma length_lease_token: "length (lease_token e i) < TOKEN_SIZE"
  by (simp add: lease_token_def c_copy_def)

section \<open>The invariant of the control state\<close>

definition lease_known :: "at_control \<Rightarrow> at_lease \<Rightarrow> bool" where
  "lease_known s l \<longleftrightarrow> (\<exists>i \<le> ac_next_lease_id s. ls_token l = lease_token (ac_daemon_epoch s) i)"

definition control_ok :: "at_control \<Rightarrow> bool" where
  "control_ok s \<longleftrightarrow> distinct (map ls_port (ac_leases s)) \<and> distinct (map ls_token (ac_leases s)) \<and>
     (\<forall>l \<in> set (ac_leases s). lease_known s l) \<and>
     distinct (map (\<lambda>u. (ur_owner u, ur_id u)) (ac_urcs s))"

lemma map_update_first: "(\<And>x. g (f x) = g x) \<Longrightarrow> map g (update_first P f xs) = map g xs"
  by (induction xs) auto

lemma set_update_first: "x \<in> set (update_first P f xs) \<Longrightarrow> x \<in> set xs \<or> (\<exists>y \<in> set xs. P y \<and> x = f y)"
  by (induction xs) (auto split: if_splits)

lemma set_remove_first: "set (remove_first P xs) \<subseteq> set xs"
  by (induction xs) auto

lemma distinct_map_remove_first: "distinct (map g xs) \<Longrightarrow> distinct (map g (remove_first P xs))"
proof (induction xs)
  case (Cons x xs)
  then show ?case using set_remove_first [of P xs] by auto
qed simp

lemma remove_first_keeps: "x \<in> set xs \<Longrightarrow> \<not> P x \<Longrightarrow> x \<in> set (remove_first P xs)"
  by (induction xs) auto

lemma update_first_keeps: "x \<in> set xs \<Longrightarrow> \<not> P x \<Longrightarrow> x \<in> set (update_first P f xs)"
  by (induction xs) auto

lemma control_ok_expire: "control_ok s \<Longrightarrow> control_ok (expire_leases now s)"
  by (auto simp: control_ok_def expire_leases_def lease_known_def distinct_map_filter)

lemma expire_fields [simp]:
  "ac_next_lease_id (expire_leases now s) = ac_next_lease_id s"
  "ac_daemon_epoch (expire_leases now s) = ac_daemon_epoch s"
  "ac_urcs (expire_leases now s) = ac_urcs s"
  by (simp_all add: expire_leases_def)

lemma control_ok_new_lease:
  assumes ok: "control_ok s" and free: "\<not> list_ex (\<lambda>l. ls_port l = ls_port n) (ac_leases s)"
    and tok: "ls_token n = lease_token (ac_daemon_epoch s) (ac_next_lease_id s + 1)"
    and room: "ac_next_lease_id s \<noteq> - 1"
  shows "control_ok (s\<lparr>ac_next_lease_id := ac_next_lease_id s + 1, ac_leases := n # ac_leases s\<rparr>)"
proof -
  have less: "ac_next_lease_id s < ac_next_lease_id s + 1"
    using room by (simp add: inc_less_eq_self_iff_eq flip: not_le)
  have fresh: "ls_token n \<noteq> ls_token l" if l: "l \<in> set (ac_leases s)" for l
  proof -
    from ok l obtain i where "i \<le> ac_next_lease_id s" "ls_token l = lease_token (ac_daemon_epoch s) i"
      by (auto simp: control_ok_def lease_known_def)
    with tok less show ?thesis by (metis lease_token_inject leD)
  qed
  have known: "lease_known (s\<lparr>ac_next_lease_id := ac_next_lease_id s + 1, ac_leases := n # ac_leases s\<rparr>) l"
    if "l \<in> set (n # ac_leases s)" for l
    using that ok less tok unfolding control_ok_def lease_known_def
    by auto (meson order.trans less_imp_le)
  show ?thesis
    using ok free fresh known
    by (auto simp: control_ok_def list_ex_iff)
qed

lemma urc_walk_keys:
  assumes "distinct (map (\<lambda>u. (ur_owner u, ur_id u)) us)" "urc_walk port owner uid prefix us = (found, vs)"
  shows "distinct (map (\<lambda>u. (ur_owner u, ur_id u)) vs) \<and>
     (\<lambda>u. (ur_owner u, ur_id u)) ` set vs \<subseteq> (\<lambda>u. (ur_owner u, ur_id u)) ` set us \<and>
     (\<not> found \<longrightarrow> (owner, uid) \<notin> (\<lambda>u. (ur_owner u, ur_id u)) ` set vs)"
  using assms
proof (induction us arbitrary: found vs)
  case (Cons u us)
  obtain g ws where w: "urc_walk port owner uid prefix us = (g, ws)" by fastforce
  have IH: "distinct (map (\<lambda>u. (ur_owner u, ur_id u)) ws)"
    "(\<lambda>u. (ur_owner u, ur_id u)) ` set ws \<subseteq> (\<lambda>u. (ur_owner u, ur_id u)) ` set us"
    "\<not> g \<longrightarrow> (owner, uid) \<notin> (\<lambda>u. (ur_owner u, ur_id u)) ` set ws"
    using Cons.IH [OF _ w] Cons.prems(1) by simp_all
  show ?case
  proof (cases "ur_owner u = owner \<and> ur_id u = uid")
    case True
    then show ?thesis using Cons.prems IH w by (auto split: if_splits)
  next
    case False
    then have "found = g" "vs = u # ws" using Cons.prems(2) w by (auto split: if_splits)
    then show ?thesis using Cons.prems(1) IH False by auto
  qed
qed simp

lemma urc_walk_found:
  assumes "urc_walk port owner uid prefix us = (True, vs)"
  shows "\<exists>v \<in> set vs. ur_owner v = owner \<and> ur_id v = uid \<and> ur_port v = port \<and> ur_prefix v = c_copy MAX_PREFIX_SIZE prefix"
  using assms by (induction us arbitrary: vs) (auto split: if_splits prod.splits)

lemma filter_distinct:
  assumes "distinct (map f xs)" "x \<in> set xs"
  shows "filter (\<lambda>y. f y = f x) xs = [x]"
  using assms by (induction xs) (auto simp: filter_empty_conv image_iff)

section \<open>The control state as a transition system\<close>

datatype control_op =
  Acquire bool "string option" "string option" u32 nat
| Renew "string option" "string option" "string option" u32
| Release string string string
| Authorize string "string option"
| Register bool "string option" "string option" "string option" "string option"
| Unregister string string string
| Cleanup

fun run_control :: "u64 \<Rightarrow> control_op \<Rightarrow> at_control \<Rightarrow> int \<times> at_control" where
  "run_control now (Acquire mem port owner ttl n) s =
     (let (r, _, s') = at_lease_acquire now mem port owner ttl n s in (r, s'))"
| "run_control now (Renew port owner token ttl) s =
     (let (r, _, s') = at_lease_renew now port owner token ttl s in (r, s'))"
| "run_control now (Release port owner token) s = at_lease_release now port owner token s"
| "run_control now (Authorize port owner) s = at_lease_authorize now port owner s"
| "run_control now (Register mem port owner uid prefix) s = at_urc_register mem port owner uid prefix s"
| "run_control now (Unregister port owner uid) s = at_urc_unregister port owner uid s"
| "run_control now Cleanup s = (0, at_control_cleanup s)"

text \<open>The lease counter has 64 bits; a run in which it would wrap around is not considered.\<close>

inductive control_step :: "at_control \<Rightarrow> at_control \<Rightarrow> bool" where
  "ac_next_lease_id s \<noteq> - 1 \<Longrightarrow> control_step s (snd (run_control now op s))"

inductive_cases control_stepE: "control_step s t"

lemma acquire_ok: "control_ok s \<Longrightarrow> ac_next_lease_id s \<noteq> - 1 \<Longrightarrow>
   control_ok (snd (snd (at_lease_acquire now mem port owner ttl n s)))"
  using control_ok_new_lease [of "expire_leases now s" "\<lparr>ls_port = the port, ls_owner = c_copy OWNER_SIZE (the owner),
                        ls_token = lease_token (ac_daemon_epoch s) (ac_next_lease_id s + 1),
                        ls_expires_ms = now + ucast ttl * 1000\<rparr>"]
  by (auto simp: at_lease_acquire_def Let_def control_ok_expire valid_component_def c_copy_id
      split: option.splits)

lemma renew_ok: "control_ok s \<Longrightarrow> control_ok (snd (snd (at_lease_renew now port owner token ttl s)))"
proof -
  assume "control_ok s"
  then have "control_ok (expire_leases now s)" by (rule control_ok_expire)
  then have "control_ok ((expire_leases now s)\<lparr>ac_leases := update_first m (\<lambda>l. l\<lparr>ls_expires_ms := x\<rparr>)
      (ac_leases (expire_leases now s))\<rparr>)" for m x
    by (auto simp: control_ok_def map_update_first lease_known_def dest!: set_update_first)
  with \<open>control_ok s\<close> show ?thesis
    by (simp add: at_lease_renew_def Let_def control_ok_expire)
qed

lemma release_ok: "control_ok s \<Longrightarrow> control_ok (snd (at_lease_release now port owner token s))"
proof -
  assume "control_ok s"
  then have ok: "control_ok (expire_leases now s)" by (rule control_ok_expire)
  then have "control_ok ((expire_leases now s)\<lparr>ac_leases := remove_first m (ac_leases (expire_leases now s))\<rparr>)" for m
    using set_remove_first [of m "ac_leases (expire_leases now s)"]
    by (auto simp: control_ok_def distinct_map_remove_first lease_known_def)
  with ok show ?thesis by (simp add: at_lease_release_def Let_def)
qed

lemma authorize_ok: "control_ok s \<Longrightarrow> control_ok (snd (at_lease_authorize now port owner s))"
  by (simp add: at_lease_authorize_def Let_def control_ok_expire)

lemma register_ok:
  assumes "control_ok s"
  shows "control_ok (snd (at_urc_register mem port owner uid prefix s))"
proof -
  obtain found us where w: "urc_walk (the port) (the owner) (the uid) (the prefix) (ac_urcs s) = (found, us)"
    by fastforce
  with assms urc_walk_keys [OF _ w] show ?thesis
    by (auto simp: at_urc_register_def control_ok_def Let_def lease_known_def valid_component_def c_copy_id
        split: option.splits)
qed

lemma unregister_ok: "control_ok s \<Longrightarrow> control_ok (snd (at_urc_unregister port owner uid s))"
  by (simp add: at_urc_unregister_def Let_def control_ok_def lease_known_def distinct_map_remove_first)

lemma cleanup_ok: "control_ok (at_control_cleanup s)"
  by (simp add: at_control_cleanup_def control_ok_def)

lemma control_step_ok: "control_ok s \<Longrightarrow> control_step s t \<Longrightarrow> control_ok t"
proof (erule control_stepE)
  fix now op
  assume ok: "control_ok s" and room: "ac_next_lease_id s \<noteq> - 1" and t: "t = snd (run_control now op s)"
  have "control_ok (snd (run_control now op s))"
    using ok room
    by (cases op) (simp_all add: split_beta acquire_ok renew_ok release_ok authorize_ok register_ok unregister_ok
        cleanup_ok)
  then show "control_ok t" using t by simp
qed

definition control_start :: "at_control \<Rightarrow> bool" where
  "control_start s \<longleftrightarrow> ac_leases s = [] \<and> ac_urcs s = [] \<and> ac_next_lease_id s = 0"

interpretation control: inductive_invariant control_start control_step control_ok
proof
  show "control_ok s" if "control_start s" for s
    using that by (simp add: control_start_def control_ok_def)
qed (rule control_step_ok)

section \<open>A lease excludes everyone else\<close>

text \<open>The operations that may end or change the lease \<open>l\<close> before it expires.\<close>

fun touches :: "at_lease \<Rightarrow> control_op \<Rightarrow> bool" where
  "touches l (Release port owner token) = lease_matches port owner token l"
| "touches l (Renew port owner token ttl) = lease_matches (the port) (the owner) (the token) l"
| "touches l Cleanup = True"
| "touches l _ = False"

lemma expire_keeps: "l \<in> set (ac_leases s) \<Longrightarrow> now < ls_expires_ms l \<Longrightarrow> l \<in> set (ac_leases (expire_leases now s))"
  by (simp add: expire_leases_def)

lemma lease_kept:
  assumes "l \<in> set (ac_leases s)" "now < ls_expires_ms l" "\<not> touches l op"
  shows "l \<in> set (ac_leases (snd (run_control now op s)))"
proof -
  have e: "l \<in> set (ac_leases (expire_leases now s))" using assms(1,2) by (rule expire_keeps)
  show ?thesis
  proof (cases op)
    case (Register mem port owner uid prefix)
    then show ?thesis using assms(1)
      by (auto simp: at_urc_register_def Let_def split: prod.split)
  qed (use assms e in \<open>auto simp: at_lease_acquire_def at_lease_renew_def at_lease_release_def
        at_lease_authorize_def at_urc_unregister_def Let_def intro: update_first_keeps remove_first_keeps\<close>)
qed

definition run_trace :: "(u64 \<times> control_op) list \<Rightarrow> at_control \<Rightarrow> at_control" where
  "run_trace ops s = fold (\<lambda>(t, op) x. snd (run_control t op x)) ops s"

lemma lease_kept_trace:
  assumes "l \<in> set (ac_leases s)" "list_all (\<lambda>(t, op). t < ls_expires_ms l \<and> \<not> touches l op) ops"
  shows "l \<in> set (ac_leases (run_trace ops s))"
  using assms
proof (induction ops arbitrary: s)
  case (Cons x ops)
  obtain t op where x: "x = (t, op)" by (cases x)
  with Cons.prems have "l \<in> set (ac_leases (snd (run_control t op s)))" by (intro lease_kept) auto
  with Cons show ?case by (simp add: x run_trace_def)
qed (simp add: run_trace_def)

lemma held_refuses:
  assumes "l \<in> set (ac_leases s)" "now < ls_expires_ms l"
  shows "fst (at_lease_acquire now mem (Some (ls_port l)) owner ttl n s) \<noteq> 0"
  using expire_keeps [OF assms]
  by (auto simp: at_lease_acquire_def Let_def list_ex_iff)

lemma find_distinct:
  assumes "distinct (map f xs)" "x \<in> set xs"
  shows "List.find (\<lambda>y. f y = f x) xs = Some x"
  using assms by (induction xs) (auto simp: image_iff)

lemma held_authorizes:
  assumes "distinct (map ls_port (ac_leases s))" "l \<in> set (ac_leases s)" "now < ls_expires_ms l"
  shows "fst (at_lease_authorize now (ls_port l) w s) = 0 \<longleftrightarrow> w = Some (ls_owner l)"
proof -
  have "List.find (\<lambda>y. ls_port y = ls_port l) (ac_leases (expire_leases now s)) = Some l"
    using assms(1) expire_keeps [OF assms(2,3)]
    by (intro find_distinct) (simp_all add: expire_leases_def distinct_map_filter)
  then show ?thesis by (simp add: at_lease_authorize_def Let_def)
qed

lemma acquire_adds:
  assumes "at_lease_acquire now mem port owner ttl n s = (0, out, s')"
  shows "\<exists>p w. port = Some p \<and> owner = Some w \<and>
    \<lparr>ls_port = p, ls_owner = w, ls_token = lease_token (ac_daemon_epoch s) (ac_next_lease_id s + 1),
     ls_expires_ms = now + ucast ttl * 1000\<rparr> \<in> set (ac_leases s') \<and> out = Some
       (c_copy n (lease_token (ac_daemon_epoch s) (ac_next_lease_id s + 1)), now + ucast ttl * 1000)"
  using assms by (auto simp: at_lease_acquire_def Let_def valid_component_def c_copy_id
      split: if_splits option.splits)

text \<open>At most one lease per port, even if the counter wrapped.\<close>

lemma ports_distinct_op:
  assumes "distinct (map ls_port (ac_leases s))"
  shows "distinct (map ls_port (ac_leases (snd (run_control now op s))))"
proof -
  have e: "distinct (map ls_port (ac_leases (expire_leases now s)))"
    using assms by (simp add: expire_leases_def distinct_map_filter)
  show ?thesis
  proof (cases op)
    case (Acquire mem port owner ttl n)
    have "distinct (map ls_port (ac_leases (snd (snd (at_lease_acquire now mem port owner ttl n s)))))"
      using assms e by (auto simp: at_lease_acquire_def Let_def list_ex_iff valid_component_def c_copy_id
          split: option.splits)
    then show ?thesis by (simp add: Acquire split_beta)
  next
    case (Register mem port owner uid prefix)
    then show ?thesis using assms by (auto simp: at_urc_register_def Let_def split: prod.split)
  qed (use assms e in \<open>auto simp: at_lease_renew_def at_lease_release_def at_lease_authorize_def
        at_urc_unregister_def at_control_cleanup_def Let_def map_update_first distinct_map_remove_first\<close>)
qed

lemma ports_distinct_trace:
  "distinct (map ls_port (ac_leases s)) \<Longrightarrow> distinct (map ls_port (ac_leases (run_trace ops s)))"
proof (induction ops arbitrary: s)
  case (Cons x ops)
  then show ?case using ports_distinct_op [of s "fst x" "snd x"]
    by (simp add: run_trace_def split_beta)
qed (simp add: run_trace_def)

section \<open>Properties\<close>

text \<open>C8: a lease excludes everyone else until it expires. Once an owner was granted a port, then
  after any operations of anybody that come before the expiry, none of which releases or renews
  that very lease, no further lease of the port is granted and only the owner is authorized.\<close>

theorem at_lease_mutual_exclusion:
  assumes "reach control_start control_step s"
    and "at_lease_acquire t0 mem (Some p) (Some w) ttl n s = (0, Some (token, expires), s1)"
    and "list_all (\<lambda>(t, op). t < expires \<and>
           \<not> touches \<lparr>ls_port = p, ls_owner = w, ls_token = lease_token (ac_daemon_epoch s)
               (ac_next_lease_id s + 1), ls_expires_ms = expires\<rparr> op) ops"
    and "now < expires"
  shows "fst (at_lease_acquire now mem' (Some p) w' ttl' n' (run_trace ops s1)) \<noteq> 0 \<and>
         (fst (at_lease_authorize now p who (run_trace ops s1)) = 0 \<longleftrightarrow> who = Some w)"
proof -
  let ?l = "\<lparr>ls_port = p, ls_owner = w, ls_token = lease_token (ac_daemon_epoch s)
               (ac_next_lease_id s + 1), ls_expires_ms = expires\<rparr>"
  have "distinct (map ls_port (ac_leases s))"
    using control.reach_inv [OF assms(1)] by (simp add: control_ok_def)
  then have "distinct (map ls_port (ac_leases s1))"
    using ports_distinct_op [of s t0 "Acquire mem (Some p) (Some w) ttl n"] assms(2) by simp
  then have d: "distinct (map ls_port (ac_leases (run_trace ops s1)))" by (rule ports_distinct_trace)
  have "?l \<in> set (ac_leases s1)" using acquire_adds [OF assms(2)] by auto
  then have l: "?l \<in> set (ac_leases (run_trace ops s1))"
    using assms(3) by (intro lease_kept_trace) auto
  show ?thesis
    using held_refuses [OF l, of now] held_authorizes [OF d l, of now] assms(4) by simp
qed

definition sample_control :: at_control where
  "sample_control = \<lparr>ac_daemon_epoch = 0x1f, ac_leases = [], ac_urcs = [], ac_next_lease_id = 0\<rparr>"

theorem at_lease_mutual_exclusion_witness:
  "let s1 = snd (snd (at_lease_acquire 1000 True (Some ''/dev/ttyUSB2'') (Some ''sms'') 10 96 sample_control));
       s2 = run_trace [(2000, Acquire True (Some ''/dev/ttyUSB2'') (Some ''voip'') 10 96)] s1
   in fst (at_lease_authorize 3000 ''/dev/ttyUSB2'' (Some ''voip'') s2) \<noteq> 0 \<and>
      fst (at_lease_authorize 3000 ''/dev/ttyUSB2'' (Some ''sms'') s2) = 0"
proof -
  let ?a = "at_lease_acquire 1000 True (Some ''/dev/ttyUSB2'') (Some ''sms'') 10 96 sample_control"
  have eq: "?a = (0, Some (''1f-1'', 11000), snd (snd ?a))" by code_simp
  have r: "reach control_start control_step sample_control"
    by (rule reach_init) (simp add: control_start_def sample_control_def)
  show ?thesis
    using at_lease_mutual_exclusion [OF r eq, of "[(2000, Acquire True (Some ''/dev/ttyUSB2'') (Some ''voip'') 10 96)]" 3000]
    by (simp add: Let_def)
qed

text \<open>The leases of a running daemon have different ports and different tokens, and a
  registration is identified by its owner and id: there is never a second one.\<close>

lemma at_control_invariant:
  assumes "reach control_start control_step s"
  shows "distinct (map ls_port (ac_leases s)) \<and> distinct (map ls_token (ac_leases s)) \<and>
         distinct (map (\<lambda>u. (ur_owner u, ur_id u)) (ac_urcs s))"
  using control.reach_inv [OF assms] by (simp add: control_ok_def)

text \<open>A registration that succeeds is in force: exactly one registration carries the owner
  and id, and it has the port and the prefix that were asked for.\<close>

lemma at_urc_register_in_force:
  assumes "reach control_start control_step s"
    and "at_urc_register mem (Some port) (Some owner) (Some uid) (Some prefix) s = (0, s')"
  shows "filter (\<lambda>u. ur_owner u = owner \<and> ur_id u = uid) (ac_urcs s') =
           [\<lparr>ur_port = port, ur_owner = owner, ur_id = uid, ur_prefix = prefix\<rparr>]"
proof -
  have "control_ok s'"
    using register_ok [OF control.reach_inv [OF assms(1)], of mem "Some port" "Some owner" "Some uid" "Some prefix"]
      assms(2) by simp
  then have d: "distinct (map (\<lambda>u. (ur_owner u, ur_id u)) (ac_urcs s'))" by (simp add: control_ok_def)
  have "\<exists>v \<in> set (ac_urcs s'). v = \<lparr>ur_port = port, ur_owner = owner, ur_id = uid, ur_prefix = prefix\<rparr>"
    using assms(2) urc_walk_found [of port owner uid prefix "ac_urcs s"]
    by (auto simp: at_urc_register_def Let_def valid_component_def c_copy_id split: if_splits prod.splits)
       (metis (full_types) at_urc.surjective old.unit.exhaust)
  then show ?thesis
    using filter_distinct [OF d, of "\<lparr>ur_port = port, ur_owner = owner, ur_id = uid, ur_prefix = prefix\<rparr>"] by simp
qed

end
