(* ===== verification/At_Line_Events.thy ===== *)
theory At_Line_Events
  imports At_Control
begin

text \<open>
  The queue that carries every line a modem sends from the reader threads of the AT daemon to its
  event loop, \<open>application/ubus_at_daemon/src/line_events.c\<close>.

  The circular array is a list with a head and a count; the pipe that wakes the event loop is
  represented by whether it holds unread bytes. \<open>queue_push\<close> is what
  \<open>at_line_event_enqueue\<close> does while it holds the lock; the write to the pipe follows after
  the lock is released, so the wake-up protocol is stated over the separate steps of the readers
  and of the event loop.
\<close>

section \<open>Data\<close>

abbreviation AT_LINE_QUEUE_CAPACITY :: nat where "AT_LINE_QUEUE_CAPACITY \<equiv> 256"
abbreviation AT_LINE_EVENT_DRAIN_BUDGET :: nat where "AT_LINE_EVENT_DRAIN_BUDGET \<equiv> 64"
abbreviation MAX_AT_LINE_SIZE :: nat where "MAX_AT_LINE_SIZE \<equiv> 4096"

datatype at_correlation =
  AT_CORRELATION_IDLE | AT_CORRELATION_RESPONSE | AT_CORRELATION_TERMINAL | AT_CORRELATION_AMBIGUOUS

record at_line_event_t =
  le_port :: string
  le_epoch :: u64
  le_sequence :: u64
  le_monotonic_ms :: u64
  le_line :: string
  le_line_len :: nat
  le_command_id :: u64
  le_correlation :: at_correlation
  le_drop_count :: u64

record at_line_queue =
  lq_entries :: "at_line_event_t list"
  lq_head :: nat
  lq_count :: nat
  lq_drop_count :: u64
  lq_pending_drop_count :: u64
  lq_notified :: bool

text \<open>The fields of a port that number its lines.\<close>

record port_events =
  pe_path :: string
  pe_restart_epoch :: u64
  pe_line_sequence :: u64

section \<open>Operations\<close>

definition at_port_event_state_snapshot :: "'a port_events_scheme \<Rightarrow> u64 \<times> u64" where
  "at_port_event_state_snapshot port = (pe_restart_epoch port, pe_line_sequence port)"

definition at_port_next_line_event_state :: "'a port_events_scheme \<Rightarrow> u64 \<times> u64 \<times> 'a port_events_scheme" where
  "at_port_next_line_event_state port =
     (let port1 = port\<lparr>pe_line_sequence := pe_line_sequence port + 1\<rparr>
      in (pe_restart_epoch port1, pe_line_sequence port1, port1))"

definition at_port_advance_restart_epoch :: "'a port_events_scheme \<Rightarrow> 'a port_events_scheme" where
  "at_port_advance_restart_epoch port = port\<lparr>pe_restart_epoch := pe_restart_epoch port + 1\<rparr>"

fun at_correlation_name :: "at_correlation \<Rightarrow> string" where
  "at_correlation_name AT_CORRELATION_IDLE = ''idle''"
| "at_correlation_name AT_CORRELATION_RESPONSE = ''response''"
| "at_correlation_name AT_CORRELATION_TERMINAL = ''terminal''"
| "at_correlation_name AT_CORRELATION_AMBIGUOUS = ''ambiguous''"

definition zero_event :: at_line_event_t where
  "zero_event = \<lparr>le_port = [], le_epoch = 0, le_sequence = 0, le_monotonic_ms = 0, le_line = [],
     le_line_len = 0, le_command_id = 0, le_correlation = AT_CORRELATION_IDLE, le_drop_count = 0\<rparr>"

definition at_line_events_init :: at_line_queue where
  "at_line_events_init = \<lparr>lq_entries = replicate AT_LINE_QUEUE_CAPACITY zero_event, lq_head = 0,
     lq_count = 0, lq_drop_count = 0, lq_pending_drop_count = 0, lq_notified = False\<rparr>"

definition notify_consumer :: "at_line_queue \<Rightarrow> at_line_queue" where
  "notify_consumer q = q\<lparr>lq_notified := True\<rparr>"

text \<open>A full queue drops its oldest line and leaves the number of drops so far in the line that
  is now the oldest.\<close>

definition queue_make_room :: "at_line_queue \<Rightarrow> at_line_queue" where
  "queue_make_room q =
     (let head = (lq_head q + 1) mod AT_LINE_QUEUE_CAPACITY; drops = lq_drop_count q + 1
      in q\<lparr>lq_head := head, lq_count := lq_count q - 1, lq_drop_count := drops,
           lq_pending_drop_count := drops,
           lq_entries := (lq_entries q)[head := (lq_entries q ! head)\<lparr>le_drop_count := drops\<rparr>]\<rparr>)"

definition queue_push :: "at_line_event_t \<Rightarrow> at_line_queue \<Rightarrow> at_line_queue" where
  "queue_push ev q =
     (let overflowed = (lq_count q = AT_LINE_QUEUE_CAPACITY);
          q1 = (if overflowed then queue_make_room q else q);
          drops = (if overflowed then 0 else lq_pending_drop_count q1);
          slot = (lq_head q1 + lq_count q1) mod AT_LINE_QUEUE_CAPACITY
      in q1\<lparr>lq_entries := (lq_entries q1)[slot := ev\<lparr>le_drop_count := drops\<rparr>],
            lq_pending_drop_count := (if \<not> overflowed \<and> drops \<noteq> 0 then 0 else lq_pending_drop_count q1),
            lq_count := lq_count q1 + 1\<rparr>)"

definition queue_drop_long :: "at_line_queue \<Rightarrow> at_line_queue" where
  "queue_drop_long q = q\<lparr>lq_drop_count := lq_drop_count q + 1,
                         lq_pending_drop_count := lq_drop_count q + 1\<rparr>"

definition at_line_event_enqueue ::
  "u64 \<Rightarrow> at_line_queue \<Rightarrow> 'a port_events_scheme \<Rightarrow> string \<Rightarrow> u64 \<Rightarrow> at_correlation
   \<Rightarrow> at_line_queue \<times> 'a port_events_scheme" where
  "at_line_event_enqueue now q port line command_id correlation =
     (let (epoch, sequence, port1) = at_port_next_line_event_state port in
      if length line \<ge> MAX_AT_LINE_SIZE then (queue_drop_long q, port1)
      else (notify_consumer (queue_push \<lparr>le_port = c_copy MAX_PORT_PATH_SIZE (pe_path port),
              le_epoch = epoch, le_sequence = sequence, le_monotonic_ms = now, le_line = line,
              le_line_len = length line, le_command_id = command_id, le_correlation = correlation,
              le_drop_count = 0\<rparr> q), port1))"

definition at_line_event_dequeue :: "at_line_queue \<Rightarrow> (at_line_event_t \<times> at_line_queue) option" where
  "at_line_event_dequeue q =
     (if lq_count q > 0 then
        let ev = lq_entries q ! lq_head q
        in Some (ev, q\<lparr>lq_head := (lq_head q + 1) mod AT_LINE_QUEUE_CAPACITY, lq_count := lq_count q - 1,
              lq_pending_drop_count := (if le_drop_count ev \<noteq> 0 \<and> le_drop_count ev = lq_drop_count q
                                        then 0 else lq_pending_drop_count q)\<rparr>)
      else None)"

text \<open>The loop of the consumer: the events handed to the publisher, in order.\<close>

fun drain :: "nat \<Rightarrow> at_line_queue \<Rightarrow> at_line_event_t list \<times> at_line_queue" where
  "drain 0 q = ([], q)"
| "drain (Suc budget) q =
     (case at_line_event_dequeue q of None \<Rightarrow> ([], q)
      | Some (ev, q1) \<Rightarrow> let (evs, q2) = drain budget q1 in (ev # evs, q2))"

definition at_line_events_consume :: "at_line_queue \<Rightarrow> nat \<Rightarrow> at_line_event_t list \<times> at_line_queue" where
  "at_line_events_consume q budget =
     (let (evs, q1) = drain budget (q\<lparr>lq_notified := False\<rparr>)
      in (evs, if lq_count q1 > 0 then notify_consumer q1 else q1))"

section \<open>Publishing\<close>

text \<open>The messages an event sends over the bus.\<close>

datatype at_bus_message =
  Bus_line string u64 u64 u64 string u64 string u64
| Bus_urc string string string string u64 u64 u64

definition urc_wants :: "at_line_event_t \<Rightarrow> at_urc \<Rightarrow> bool" where
  "urc_wants ev u \<longleftrightarrow> ur_port u = le_port ev \<and> has_prefix (le_line ev) (ur_prefix u)"

definition publish_line_event :: "at_urc list \<Rightarrow> at_line_event_t \<Rightarrow> at_bus_message list" where
  "publish_line_event urcs ev =
     Bus_line (le_port ev) (le_epoch ev) (le_sequence ev) (le_monotonic_ms ev) (le_line ev)
       (le_command_id ev) (at_correlation_name (le_correlation ev)) (le_drop_count ev) #
     (if le_correlation ev \<noteq> AT_CORRELATION_IDLE then []
      else map (\<lambda>u. Bus_urc (le_port ev) (ur_owner u) (ur_id u) (le_line ev) (le_epoch ev)
                      (le_sequence ev) (le_drop_count ev)) (filter (urc_wants ev) urcs))"

definition publish_line_events :: "at_urc list \<Rightarrow> at_line_queue \<Rightarrow> at_bus_message list \<times> at_line_queue" where
  "publish_line_events urcs q =
     (let (evs, q1) = at_line_events_consume q AT_LINE_EVENT_DRAIN_BUDGET
      in (concat (map (publish_line_event urcs) evs), q1))"

section \<open>The queue holds the most recent lines\<close>

text \<open>What an event says apart from the drop counter, which later overflows rewrite.\<close>

type_synonym line_payload = "string \<times> u64 \<times> u64 \<times> u64 \<times> string \<times> nat \<times> u64 \<times> at_correlation"

definition payload :: "at_line_event_t \<Rightarrow> line_payload" where
  "payload ev = (le_port ev, le_epoch ev, le_sequence ev, le_monotonic_ms ev, le_line ev,
     le_line_len ev, le_command_id ev, le_correlation ev)"

fun payload_event :: "line_payload \<Rightarrow> at_line_event_t" where
  "payload_event (port, epoch, sequence, ms, line, len, command_id, correlation) =
     \<lparr>le_port = port, le_epoch = epoch, le_sequence = sequence, le_monotonic_ms = ms, le_line = line,
      le_line_len = len, le_command_id = command_id, le_correlation = correlation, le_drop_count = 0\<rparr>"

definition queue_contents :: "at_line_queue \<Rightarrow> line_payload list" where
  "queue_contents q = map payload (ring_list AT_LINE_QUEUE_CAPACITY (lq_entries q) (lq_head q) (lq_count q))"

definition queue_wf :: "at_line_queue \<Rightarrow> bool" where
  "queue_wf q \<longleftrightarrow> length (lq_entries q) = AT_LINE_QUEUE_CAPACITY \<and> lq_head q < AT_LINE_QUEUE_CAPACITY \<and>
     lq_count q \<le> AT_LINE_QUEUE_CAPACITY"

definition queue_pop :: "at_line_queue \<Rightarrow> (line_payload \<times> at_line_queue) option" where
  "queue_pop q = map_option (apfst payload) (at_line_event_dequeue q)"

definition queue_push_payload :: "line_payload \<Rightarrow> at_line_queue \<Rightarrow> at_line_queue" where
  "queue_push_payload p q = queue_push (payload_event p) q"

lemma payload_drop [simp]: "payload (ev\<lparr>le_drop_count := n\<rparr>) = payload ev"
  by (simp add: payload_def)

lemma payload_payload_event [simp]: "payload (payload_event p) = p"
  by (cases p rule: payload_event.cases) (simp add: payload_def)

lemma length_queue_contents [simp]: "length (queue_contents q) = lq_count q"
  by (simp add: queue_contents_def)

lemma queue_wf_init: "queue_wf at_line_events_init"
  by (simp add: queue_wf_def at_line_events_init_def)

text \<open>Rewriting the drop counter of an entry leaves the payloads of the array as they are.\<close>

lemma map_payload_update:
  "i < length xs \<Longrightarrow> map payload (xs[i := (xs ! i)\<lparr>le_drop_count := n\<rparr>]) = map payload xs"
  by (metis list_update_id map_update nth_map payload_drop)

lemma contents_map:
  "queue_wf q \<Longrightarrow> queue_contents q =
     ring_list AT_LINE_QUEUE_CAPACITY (map payload (lq_entries q)) (lq_head q) (lq_count q)"
  by (simp add: queue_contents_def queue_wf_def ring_list_map)

lemma make_room:
  assumes "queue_wf q" "lq_count q = AT_LINE_QUEUE_CAPACITY"
  shows "queue_wf (queue_make_room q)" "queue_contents (queue_make_room q) = tl (queue_contents q)"
    "lq_count (queue_make_room q) = AT_LINE_QUEUE_CAPACITY - 1"
proof -
  have len: "length (lq_entries q) = AT_LINE_QUEUE_CAPACITY" using assms(1) by (simp add: queue_wf_def)
  show wf: "queue_wf (queue_make_room q)"
    using assms by (simp add: queue_make_room_def queue_wf_def Let_def)
  have "queue_contents (queue_make_room q) =
      ring_list AT_LINE_QUEUE_CAPACITY (map payload (lq_entries q)) ((lq_head q + 1) mod AT_LINE_QUEUE_CAPACITY) 255"
    unfolding contents_map [OF wf]
    using assms len by (simp add: queue_make_room_def Let_def map_payload_update del: mod_mod_trivial ring_list_mod)
  moreover have "queue_contents q = ring_list AT_LINE_QUEUE_CAPACITY (map payload (lq_entries q)) (lq_head q) (Suc 255)"
    unfolding contents_map [OF assms(1)] using assms(2) by simp
  ultimately show "queue_contents (queue_make_room q) = tl (queue_contents q)"
    unfolding ring_list_Suc by simp
  show "lq_count (queue_make_room q) = AT_LINE_QUEUE_CAPACITY - 1"
    using assms(2) by (simp add: queue_make_room_def Let_def)
qed

lemma push_into_room:
  assumes wf: "queue_wf q" and room: "lq_count q < AT_LINE_QUEUE_CAPACITY"
  shows "map payload (ring_list AT_LINE_QUEUE_CAPACITY
     ((lq_entries q)[(lq_head q + lq_count q) mod AT_LINE_QUEUE_CAPACITY := ev\<lparr>le_drop_count := n\<rparr>])
     (lq_head q) (Suc (lq_count q))) = queue_contents q @ [payload ev]"
  using assms unfolding queue_contents_def queue_wf_def
  by (subst ring_list_append) auto

lemma push_contents_ok:
  assumes wf: "queue_wf q"
  shows "queue_wf (queue_push ev q)"
    "queue_contents (queue_push ev q) = lastn AT_LINE_QUEUE_CAPACITY (queue_contents q @ [payload ev])"
proof -
  define q1 where "q1 = (if lq_count q = AT_LINE_QUEUE_CAPACITY then queue_make_room q else q)"
  have wf1: "queue_wf q1" and room: "lq_count q1 < AT_LINE_QUEUE_CAPACITY"
    using wf make_room [OF wf] by (auto simp: q1_def queue_wf_def)
  have c1: "queue_contents q1 = (if lq_count q = AT_LINE_QUEUE_CAPACITY then tl (queue_contents q) else queue_contents q)"
    using make_room(2) [OF wf] by (simp add: q1_def)
  show "queue_wf (queue_push ev q)"
    unfolding queue_push_def Let_def q1_def [symmetric] using wf1 room by (simp add: queue_wf_def)
  have "queue_contents (queue_push ev q) = queue_contents q1 @ [payload ev]"
    using push_into_room [OF wf1 room, where ev = ev]
    unfolding queue_push_def Let_def q1_def [symmetric] by (subst queue_contents_def) simp
  also have "\<dots> = lastn AT_LINE_QUEUE_CAPACITY (queue_contents q @ [payload ev])"
  proof (cases "lq_count q = AT_LINE_QUEUE_CAPACITY")
    case True
    then show ?thesis using c1 by (simp add: lastn_snoc_full)
  next
    case False
    then have "lq_count q < AT_LINE_QUEUE_CAPACITY" using wf by (simp add: queue_wf_def)
    with c1 False show ?thesis by (simp add: lastn_all)
  qed
  finally show "queue_contents (queue_push ev q) = lastn AT_LINE_QUEUE_CAPACITY (queue_contents q @ [payload ev])" .
qed

lemma dequeue_ok:
  assumes wf: "queue_wf q" and "at_line_event_dequeue q = Some (ev, q')"
  shows "queue_wf q' \<and> queue_contents q = payload ev # queue_contents q'"
proof -
  from assms(2) have pos: "lq_count q > 0" and ev: "ev = lq_entries q ! lq_head q"
    and q': "lq_entries q' = lq_entries q" "lq_head q' = (lq_head q + 1) mod AT_LINE_QUEUE_CAPACITY"
      "lq_count q' = lq_count q - 1"
    by (auto simp: at_line_event_dequeue_def Let_def split: if_splits)
  from pos have n: "lq_count q = Suc (lq_count q')" by (simp add: q')
  have "queue_wf q'" using wf by (auto simp: queue_wf_def q')
  moreover have "queue_contents q = payload ev # queue_contents q'"
    unfolding queue_contents_def n ring_list_Suc using wf by (simp add: queue_wf_def q' ev)
  ultimately show ?thesis ..
qed

interpretation atq: bounded_fifo AT_LINE_QUEUE_CAPACITY queue_contents queue_wf queue_push_payload queue_pop
proof
  show "length (queue_contents q) \<le> AT_LINE_QUEUE_CAPACITY" if "queue_wf q" for q
    using that by (simp add: queue_wf_def)
  show "queue_wf (queue_push_payload e q)" if "queue_wf q" for e q
    using push_contents_ok(1) [OF that] by (simp add: queue_push_payload_def)
  show "queue_contents (queue_push_payload e q) = lastn AT_LINE_QUEUE_CAPACITY (queue_contents q @ [e])"
    if "queue_wf q" for e q
    using push_contents_ok(2) [OF that] by (simp add: queue_push_payload_def)
  show "queue_pop q = None \<longleftrightarrow> queue_contents q = []" if "queue_wf q" for q
    using length_queue_contents [of q]
    by (auto simp: queue_pop_def at_line_event_dequeue_def Let_def simp del: length_queue_contents)
  show "queue_wf q' \<and> queue_contents q = e # queue_contents q'"
    if "queue_wf q" "queue_pop q = Some (e, q')" for q e q'
    using that dequeue_ok [OF that(1)] by (auto simp: queue_pop_def)
qed

lemma drain_ok:
  assumes "queue_wf q"
  shows "map payload (fst (drain budget q)) = take budget (queue_contents q)"
    "queue_contents (snd (drain budget q)) = drop budget (queue_contents q)"
    "queue_wf (snd (drain budget q))"
proof -
  have "map payload (fst (drain budget q)) = take budget (queue_contents q) \<and>
    queue_contents (snd (drain budget q)) = drop budget (queue_contents q) \<and> queue_wf (snd (drain budget q))"
    using assms
  proof (induction budget q rule: drain.induct)
    case (2 budget q)
    show ?case
    proof (cases "at_line_event_dequeue q")
      case None
      then have "queue_contents q = []"
        by (simp add: at_line_event_dequeue_def Let_def queue_contents_def split: if_splits)
      with None 2 show ?thesis by simp
    next
      case (Some x)
      obtain ev q1 where x: "x = (ev, q1)" by (cases x)
      have "queue_wf q1" "queue_contents q = payload ev # queue_contents q1"
        using dequeue_ok [OF 2(2)] Some x by auto
      with 2(1) [OF Some x [symmetric]] Some x show ?thesis by (simp add: split_beta)
    qed
  qed simp
  then show "map payload (fst (drain budget q)) = take budget (queue_contents q)"
    "queue_contents (snd (drain budget q)) = drop budget (queue_contents q)"
    "queue_wf (snd (drain budget q))" by auto
qed

lemma queue_notified_irrelevant [simp]:
  "queue_contents (q\<lparr>lq_notified := b\<rparr>) = queue_contents q" "queue_wf (q\<lparr>lq_notified := b\<rparr>) = queue_wf q"
  by (simp_all add: queue_contents_def queue_wf_def)

section \<open>The wake-up protocol\<close>

text \<open>
  The reader threads and the event loop interleave at their lock sections. \<open>wk_pending\<close> counts
  the readers that have pushed a line but not yet written to the pipe; \<open>wk_loop\<close> is where the
  event loop stands inside \<open>at_line_events_consume\<close>.
\<close>

datatype loop_phase = Waiting | Draining nat | Decided bool

record wake_state =
  wk_queue :: at_line_queue
  wk_pending :: nat
  wk_loop :: loop_phase

inductive wake_step :: "wake_state \<Rightarrow> wake_state \<Rightarrow> bool" where
  reader_push: "wake_step w (w\<lparr>wk_queue := queue_push ev (wk_queue w), wk_pending := wk_pending w + 1\<rparr>)"
| reader_drop: "wake_step w (w\<lparr>wk_queue := queue_drop_long (wk_queue w)\<rparr>)"
| reader_write: "wk_pending w > 0 \<Longrightarrow>
    wake_step w (w\<lparr>wk_queue := notify_consumer (wk_queue w), wk_pending := wk_pending w - 1\<rparr>)"
| loop_start: "wk_loop w = Waiting \<Longrightarrow> lq_notified (wk_queue w) \<Longrightarrow>
    wake_step w (w\<lparr>wk_queue := (wk_queue w)\<lparr>lq_notified := False\<rparr>, wk_loop := Draining 0\<rparr>)"
| loop_take: "wk_loop w = Draining n \<Longrightarrow> n < AT_LINE_EVENT_DRAIN_BUDGET \<Longrightarrow> at_line_event_dequeue (wk_queue w) = Some (ev, q) \<Longrightarrow>
    wake_step w (w\<lparr>wk_queue := q, wk_loop := Draining (n + 1)\<rparr>)"
| loop_check: "wk_loop w = Draining n \<Longrightarrow>
    wake_step w (w\<lparr>wk_loop := Decided (lq_count (wk_queue w) > 0)\<rparr>)"
| loop_end: "wk_loop w = Decided remaining \<Longrightarrow>
    wake_step w (w\<lparr>wk_queue := (if remaining then notify_consumer (wk_queue w) else wk_queue w),
                  wk_loop := Waiting\<rparr>)"

definition wake_ok :: "wake_state \<Rightarrow> bool" where
  "wake_ok w \<longleftrightarrow> lq_count (wk_queue w) > 0 \<longrightarrow>
     lq_notified (wk_queue w) \<or> wk_pending w > 0 \<or> (\<exists>n. wk_loop w = Draining n) \<or> wk_loop w = Decided True"

definition wake_start :: "wake_state \<Rightarrow> bool" where
  "wake_start w \<longleftrightarrow> w = \<lparr>wk_queue = at_line_events_init, wk_pending = 0, wk_loop = Waiting\<rparr>"

lemma notified_kept:
  "lq_notified (queue_push ev q) = lq_notified q" "lq_notified (queue_drop_long q) = lq_notified q"
  "lq_count (queue_drop_long q) = lq_count q"
  by (simp_all add: queue_push_def queue_make_room_def queue_drop_long_def Let_def)

lemma wake_step_ok:
  assumes "wake_ok w" "wake_step w w'"
  shows "wake_ok w'"
  using assms(2,1)
  by cases (auto simp: wake_ok_def notify_consumer_def notified_kept)

interpretation wake: inductive_invariant wake_start wake_step wake_ok
proof
  show "wake_ok w" if "wake_start w" for w
    using that by (simp add: wake_start_def wake_ok_def at_line_events_init_def)
qed (rule wake_step_ok)

section \<open>Properties\<close>

text \<open>C14: the line queue is a bounded first-in first-out queue. After any burst of lines it holds
  the most recent 256 of them in order, and the event loop publishes exactly the oldest ones, as
  many as its budget allows, and leaves the rest.\<close>

theorem at_line_queue_fifo:
  assumes "queue_wf q" and "at_line_events_consume (fold queue_push_payload ps q) budget = r"
  shows "map payload (fst r) = take budget (lastn AT_LINE_QUEUE_CAPACITY (queue_contents q @ ps)) \<and>
         queue_contents (snd r) = drop budget (lastn AT_LINE_QUEUE_CAPACITY (queue_contents q @ ps)) \<and>
         queue_wf (snd r)"
proof -
  let ?q = "(fold queue_push_payload ps q)\<lparr>lq_notified := False\<rparr>"
  have "queue_wf ?q" "queue_contents ?q = lastn AT_LINE_QUEUE_CAPACITY (queue_contents q @ ps)"
    using atq.fold_push_wf [OF assms(1)] atq.fold_push_contents [OF assms(1)] by simp_all
  with drain_ok [of ?q budget] show ?thesis
    by (auto simp: assms(2) [symmetric] at_line_events_consume_def Let_def split_beta notify_consumer_def)
qed

theorem at_line_queue_fifo_witness:
  "let p = (\<lambda>n. (''/dev/ttyUSB2'', 1, n, 0, ''RING'', 4, 0, AT_CORRELATION_IDLE));
       r = at_line_events_consume (fold queue_push_payload [p 1, p 2, p 3] at_line_events_init) 2
   in map payload (fst r) = [p 1, p 2] \<and> queue_contents (snd r) = [p 3]"
  using at_line_queue_fifo [OF queue_wf_init, of "[(''/dev/ttyUSB2'', 1, 1, 0, ''RING'', 4, 0, AT_CORRELATION_IDLE),
     (''/dev/ttyUSB2'', 1, 2, 0, ''RING'', 4, 0, AT_CORRELATION_IDLE),
     (''/dev/ttyUSB2'', 1, 3, 0, ''RING'', 4, 0, AT_CORRELATION_IDLE)]" 2, OF refl]
  by (simp add: Let_def lastn_def queue_contents_def at_line_events_init_def)

text \<open>C15: no wake-up is lost. Whenever lines are queued, in any interleaving of the reader threads
  with the event loop, the pipe is readable, or a reader is about to write to it, or the event loop
  is still at work and will look at the queue again: the loop never sleeps on a non-empty queue.\<close>

theorem at_line_no_lost_wakeup:
  assumes "reach wake_start wake_step w" and "wk_loop w = Waiting" and "wk_pending w = 0"
    and "lq_count (wk_queue w) > 0"
  shows "lq_notified (wk_queue w)"
  using wake.reach_inv [OF assms(1)] assms by (simp add: wake_ok_def)

theorem at_line_no_lost_wakeup_witness:
  "let q = notify_consumer (queue_push zero_event at_line_events_init);
       w = \<lparr>wk_queue = q, wk_pending = 0, wk_loop = Waiting\<rparr>
   in reach wake_start wake_step w \<and> lq_count q > 0 \<and> lq_notified q"
proof -
  let ?w0 = "\<lparr>wk_queue = at_line_events_init, wk_pending = 0, wk_loop = Waiting\<rparr>"
  let ?w1 = "\<lparr>wk_queue = queue_push zero_event at_line_events_init, wk_pending = 1, wk_loop = Waiting\<rparr>"
  let ?w2 = "\<lparr>wk_queue = notify_consumer (queue_push zero_event at_line_events_init), wk_pending = 0, wk_loop = Waiting\<rparr>"
  have r0: "reach wake_start wake_step ?w0" by (rule reach_init) (simp add: wake_start_def)
  have "wake_step ?w0 ?w1" using reader_push [of ?w0 zero_event] by simp
  with r0 have r1: "reach wake_start wake_step ?w1" by (rule reach_step)
  have "wake_step ?w1 ?w2" using reader_write [of ?w1] by simp
  with r1 have r2: "reach wake_start wake_step ?w2" by (rule reach_step)
  have "lq_count (wk_queue ?w2) > 0"
    by (simp add: queue_push_def queue_make_room_def at_line_events_init_def notify_consumer_def Let_def)
  then show ?thesis using at_line_no_lost_wakeup [OF r2] r2 by simp
qed

text \<open>A loss is reported. When a line arrives at a full queue, the next line the event loop
  takes carries the total number of lines dropped so far.\<close>

lemma at_line_overflow_reported:
  assumes "queue_wf q" "lq_count q = AT_LINE_QUEUE_CAPACITY"
  shows "\<exists>ev' q'. at_line_event_dequeue (queue_push ev q) = Some (ev', q') \<and>
           le_drop_count ev' = lq_drop_count q + 1 \<and> lq_drop_count q' = lq_drop_count q + 1"
proof -
  define h where "h = Suc (lq_head q) mod AT_LINE_QUEUE_CAPACITY"
  have len: "length (lq_entries q) = AT_LINE_QUEUE_CAPACITY" and h: "h < AT_LINE_QUEUE_CAPACITY"
    using assms(1) by (simp_all add: queue_wf_def h_def)
  have slot: "(h + 255) mod AT_LINE_QUEUE_CAPACITY \<noteq> h"
    using h by (auto simp: mod_if)
  show ?thesis
    using assms(2) len h slot
    by (simp add: at_line_event_dequeue_def queue_push_def queue_make_room_def Let_def h_def [symmetric]
        nth_list_update)
qed

definition full_queue :: at_line_queue where
  "full_queue = at_line_events_init\<lparr>lq_count := AT_LINE_QUEUE_CAPACITY, lq_drop_count := 6\<rparr>"

text \<open>An unsolicited line reaches exactly the registrations that asked for it: after the line
  itself one message is published per registration on that port whose prefix the line starts with,
  and none for a line that answers a command.\<close>

lemma at_urc_delivery:
  "publish_line_event urcs ev \<noteq> [] \<and>
   (Bus_urc (le_port ev) w i (le_line ev) (le_epoch ev) (le_sequence ev) (le_drop_count ev)
      \<in> set (tl (publish_line_event urcs ev)) \<longleftrightarrow>
    le_correlation ev = AT_CORRELATION_IDLE \<and>
    (\<exists>u \<in> set urcs. ur_owner u = w \<and> ur_id u = i \<and> ur_port u = le_port ev \<and>
       has_prefix (le_line ev) (ur_prefix u))) \<and>
   length (tl (publish_line_event urcs ev)) =
     (if le_correlation ev = AT_CORRELATION_IDLE then length (filter (urc_wants ev) urcs) else 0)"
  by (auto simp: publish_line_event_def urc_wants_def)

end
