(* ===== verification/At_Port.thy ===== *)
theory At_Port
  imports At_Line_Events
begin

text \<open>
  An AT port of the daemon: \<open>at_handler.c\<close>, \<open>port_manager.c\<close> and
  \<open>event_callback.c\<close> of \<open>application/ubus_at_daemon/src\<close>.

  The port record extends the numbering fields of \<^theory_text>\<open>At_Line_Events\<close>. A system call that can
  fail gives its result through the record \<open>port_env\<close>. The reader thread is modelled by what
  it does with one chunk of bytes it read: the C string functions see the buffer up to its first
  NUL byte. Waiting for the answer of a command is split into sending it and collecting the
  response.
\<close>

section \<open>Data\<close>

abbreviation MAX_BUFFER_SIZE :: nat where "MAX_BUFFER_SIZE \<equiv> 32768"
abbreviation MAX_SCRIPT_PATH_SIZE :: nat where "MAX_SCRIPT_PATH_SIZE \<equiv> 256"
abbreviation MAX_REGEX_SIZE :: nat where "MAX_REGEX_SIZE \<equiv> 128"
abbreviation END_FLAG_SIZE :: nat where "END_FLAG_SIZE \<equiv> 64"

record event_callback =
  ec_script :: string
  ec_reg :: string
  ec_prefix :: string
  ec_compiled :: string
  ec_has_regex :: bool
  ec_match_all :: bool

text \<open>The terminal settings the daemon changes: speed, character size, parity, stop bits and the
  flags it clears or sets whatever the configuration.\<close>

record line_settings =
  ls_speed :: int
  ls_csize :: int
  ls_parenb :: bool
  ls_parodd :: bool
  ls_cstopb :: bool
  ls_clocal_cread :: bool
  ls_canonical_echo :: bool
  ls_flow_and_cr_mapping :: bool
  ls_opost :: bool
  ls_vmin :: nat
  ls_vtime :: nat

record at_port = port_events +
  ap_fd :: int
  ap_termios :: "line_settings option"
  ap_baudrate :: int
  ap_databits :: int
  ap_parity :: int
  ap_stopbits :: int
  ap_reader_valid :: bool
  ap_read_buffer :: string
  ap_response :: string
  ap_status :: int
  ap_end_flag_matched :: string
  ap_waiting :: bool
  ap_next_command_id :: u64
  ap_active_command_id :: u64
  ap_end_flags :: "string list"
  ap_callbacks :: "event_callback list"
  ap_is_open :: bool
  ap_should_stop :: bool
  ap_last_check_time :: int
  ap_check_interval :: int

section \<open>Commands given in hexadecimal\<close>

definition hex_char :: "char \<Rightarrow> nat option" where
  "hex_char c =
     (let n = of_char c :: nat in
      if 48 \<le> n \<and> n \<le> 57 then Some (n - 48)
      else if 97 \<le> n \<and> n \<le> 102 then Some (n - 87)
      else if 65 \<le> n \<and> n \<le> 70 then Some (n - 55)
      else None)"

fun hex_prefix_value :: "int \<Rightarrow> string \<Rightarrow> int" where
  "hex_prefix_value acc [] = acc"
| "hex_prefix_value acc (c # cs) =
     (case hex_char c of None \<Rightarrow> acc | Some d \<Rightarrow> hex_prefix_value (16 * acc + int d) cs)"

text \<open>\<open>strtol(s, NULL, 16)\<close> for a string of at most two characters: white space, a sign,
  then the hexadecimal digits; 0 when there are none.\<close>

definition strtol16 :: "string \<Rightarrow> int" where
  "strtol16 s =
     (let t = dropWhile is_space s;
          neg = (t \<noteq> [] \<and> hd t = CHR ''-'');
          u = (if t \<noteq> [] \<and> (hd t = CHR ''-'' \<or> hd t = CHR ''+'') then tl t else t);
          v = hex_prefix_value 0 u
      in if neg then - v else v)"

fun hex_bytes :: "string \<Rightarrow> string" where
  "hex_bytes (a # b # cs) = char_of (nat (strtol16 [a, b] mod 256)) # hex_bytes cs"
| "hex_bytes _ = []"

definition hex_to_string :: "string \<Rightarrow> string option" where
  "hex_to_string s = (if length s mod 2 \<noteq> 0 then None else Some (hex_bytes s))"

section \<open>The end of a response\<close>

definition default_flags :: "string list" where
  "default_flags = [''OK'', ''ERROR'', ''+CMS ERROR:'', ''+CME ERROR:'', ''NO CARRIER'']"

text \<open>\<open>strtok(s, ",")\<close>: the maximal parts without a comma that are not empty.\<close>

fun comma_tokens :: "string \<Rightarrow> string \<Rightarrow> string list" where
  "comma_tokens acc [] = (if acc = [] then [] else [rev acc])"
| "comma_tokens acc (c # cs) =
     (if c = CHR '','' then (if acc = [] then comma_tokens [] cs else rev acc # comma_tokens [] cs)
      else comma_tokens (c # acc) cs)"

definition is_blank :: "char \<Rightarrow> bool" where
  "is_blank c \<longleftrightarrow> c = CHR '' '' \<or> c = CHR 0x09"

text \<open>The trailing loop never removes the first character.\<close>

definition trim_token :: "string \<Rightarrow> string" where
  "trim_token s =
     (let t = dropWhile is_blank s
      in if t = [] then [] else hd t # rev (dropWhile is_blank (rev (tl t))))"

definition parse_end_flags :: "string option \<Rightarrow> string list" where
  "parse_end_flags v =
     (case v of None \<Rightarrow> default_flags
      | Some s \<Rightarrow>
          if s = [] then default_flags
          else let flags = take 5 (filter (\<lambda>t. t \<noteq> []) (map trim_token (comma_tokens [] (c_copy 512 s))))
               in if flags = [] then default_flags else map (c_copy END_FLAG_SIZE) flags)"

definition is_line_space :: "char \<Rightarrow> bool" where
  "is_line_space c \<longleftrightarrow> c = CHR '' '' \<or> c = CHR 0x09 \<or> c = CHR 0x0D \<or> c = CHR 0x0A"

definition trim_line :: "string \<Rightarrow> string" where
  "trim_line s = rev (dropWhile is_line_space (rev (dropWhile is_line_space (c_copy 1024 s))))"

text \<open>\<open>start[flag_len]\<close> with the terminating NUL as \<open>None\<close>.\<close>

definition flag_matches :: "string \<Rightarrow> string \<Rightarrow> bool" where
  "flag_matches start flag \<longleftrightarrow> start = flag \<or>
     (flag \<noteq> [] \<and> has_prefix start flag \<and>
      (case drop (length flag) start of
         [] \<Rightarrow> last flag = CHR '':''
       | c # _ \<Rightarrow> c = CHR '' '' \<or> c = CHR 0x09))"

definition check_end_flags :: "string list \<Rightarrow> string \<Rightarrow> string option" where
  "check_end_flags flags line = List.find (flag_matches (trim_line line)) flags"

section \<open>Event callbacks\<close>

text \<open>The regular expression library is a parameter: whether a pattern compiles, and whether it
  matches a line.\<close>

record regex_engine =
  rx_compiles :: "string \<Rightarrow> bool"
  rx_matches :: "string \<Rightarrow> string \<Rightarrow> bool"

definition add_event_callback ::
  "regex_engine \<Rightarrow> at_port \<Rightarrow> string \<Rightarrow> string option \<Rightarrow> string option \<Rightarrow> at_port" where
  "add_event_callback rx port script regex prefix =
     (let cb = \<lparr>ec_script = c_copy MAX_SCRIPT_PATH_SIZE script, ec_reg = [], ec_prefix = [],
                ec_compiled = [], ec_has_regex = False, ec_match_all = True\<rparr>;
          cb1 = (case regex of
                   Some (r # rs) \<Rightarrow>
                     let c1 = cb\<lparr>ec_reg := c_copy MAX_REGEX_SIZE (r # rs)\<rparr>
                     in if rx_compiles rx (r # rs) then c1\<lparr>ec_compiled := r # rs, ec_has_regex := True, ec_match_all := False\<rparr>
                        else c1
                 | _ \<Rightarrow> (case prefix of
                          Some (p # ps) \<Rightarrow> cb\<lparr>ec_prefix := c_copy MAX_PREFIX_SIZE (p # ps), ec_match_all := False\<rparr>
                        | _ \<Rightarrow> cb))
      in port\<lparr>ap_callbacks := cb1 # ap_callbacks port\<rparr>)"

definition remove_event_callback :: "at_port \<Rightarrow> string \<Rightarrow> at_port" where
  "remove_event_callback port script =
     port\<lparr>ap_callbacks := remove_first (\<lambda>cb. ec_script cb = script) (ap_callbacks port)\<rparr>"

definition clear_event_callbacks :: "at_port \<Rightarrow> at_port" where
  "clear_event_callbacks port = port\<lparr>ap_callbacks := []\<rparr>"

definition callback_triggers :: "regex_engine \<Rightarrow> string \<Rightarrow> event_callback \<Rightarrow> bool" where
  "callback_triggers rx data cb =
     (if ec_match_all cb then True
      else if ec_has_regex cb then rx_matches rx (ec_compiled cb) data
      else ec_prefix cb \<noteq> [] \<and> has_prefix data (ec_prefix cb))"

text \<open>The shell commands that are started for a line.\<close>

definition process_incoming_data :: "regex_engine \<Rightarrow> at_port \<Rightarrow> string \<Rightarrow> string list" where
  "process_incoming_data rx port data =
     map (\<lambda>cb. c_copy (MAX_SCRIPT_PATH_SIZE + MAX_BUFFER_SIZE + 32)
                  (ec_script cb @ [CHR '' '', CHR 0x22] @ data @ [CHR 0x22]))
       (filter (callback_triggers rx data) (ap_callbacks port))"

section \<open>The reader\<close>

text \<open>What the reader thread works on: the shared queue, the port, and the commands it started.\<close>

record reader_state =
  rd_queue :: at_line_queue
  rd_port :: at_port
  rd_started :: "string list"

text \<open>The first line and what follows it, when the text contains a line end.\<close>

fun split_crlf :: "string \<Rightarrow> (string \<times> string) option" where
  "split_crlf (a # b # cs) =
     (if a = CHR 0x0D \<and> b = CHR 0x0A then Some ([], cs)
      else map_option (apfst ((#) a)) (split_crlf (b # cs)))"
| "split_crlf _ = None"

text \<open>An answer has ended: the waiting command is released.\<close>

definition finish_response :: "string \<Rightarrow> at_port \<Rightarrow> at_port" where
  "finish_response flag port = port\<lparr>ap_end_flag_matched := flag, ap_status := 0, ap_waiting := False\<rparr>"

definition line_correlation :: "bool \<Rightarrow> bool \<Rightarrow> string \<Rightarrow> at_correlation" where
  "line_correlation is_terminal was_waiting line =
     (if is_terminal then AT_CORRELATION_TERMINAL
      else if was_waiting \<and> (line = ''RING'' \<or> has_prefix line ''+CLIP:'') then AT_CORRELATION_AMBIGUOUS
      else if was_waiting then AT_CORRELATION_RESPONSE
      else AT_CORRELATION_IDLE)"

definition reader_line :: "regex_engine \<Rightarrow> u64 \<Rightarrow> string \<Rightarrow> reader_state \<Rightarrow> reader_state" where
  "reader_line rx now line st =
     (if line = [] \<or> has_prefix line ''AT'' then st
      else let port = rd_port st;
               was_waiting = ap_waiting port;
               command_id = (if was_waiting then ap_active_command_id port else 0);
               matched = (if was_waiting then check_end_flags (ap_end_flags port) line else None);
               port1 = (case matched of None \<Rightarrow> port | Some flag \<Rightarrow> finish_response flag port);
               (queue, port2) = at_line_event_enqueue now (rd_queue st) port1 line command_id
                                  (line_correlation (matched \<noteq> None) was_waiting line)
           in st\<lparr>rd_queue := queue, rd_port := port2,
                 rd_started := rd_started st @ process_incoming_data rx port2 line\<rparr>)"

text \<open>The loop over the complete lines of the buffer; the second component is the unread rest.\<close>

function reader_lines :: "regex_engine \<Rightarrow> u64 \<Rightarrow> string \<Rightarrow> reader_state \<Rightarrow> reader_state \<times> string" where
  "reader_lines rx now s st =
     (case split_crlf (c_str s) of None \<Rightarrow> (st, s)
      | Some (line, _) \<Rightarrow> reader_lines rx now (drop (length line + 2) s) (reader_line rx now line st))"
  by pat_completeness auto

lemma split_crlf_append: "split_crlf s = Some (line, rest) \<Longrightarrow> s = line @ [CHR 0x0D, CHR 0x0A] @ rest"
proof (induction s arbitrary: line rule: split_crlf.induct)
  case (1 a b cs)
  then show ?case by (auto split: if_splits)
qed auto

lemma split_crlf_c_str:
  assumes "split_crlf (c_str s) = Some (line, rest)"
  shows "length line + 2 \<le> length s"
proof -
  have "length (c_str s) = length line + 2 + length rest"
    using split_crlf_append [OF assms] by simp
  moreover have "length (c_str s) \<le> length s" by (simp add: c_str_def length_takeWhile_le)
  ultimately show ?thesis by linarith
qed

termination reader_lines
  by (relation "measure (\<lambda>(rx, now, s, st). length s)") (auto dest!: split_crlf_c_str)

declare reader_lines.simps [simp del]

definition standalone_prompt :: "at_port \<Rightarrow> string \<Rightarrow> bool" where
  "standalone_prompt port s \<longleftrightarrow> c_str s \<noteq> [] \<and> ap_waiting port \<and>
     check_end_flags (ap_end_flags port) (c_str s) = Some ''>''"

definition collect_response :: "string \<Rightarrow> at_port \<Rightarrow> at_port" where
  "collect_response bytes port =
     (if ap_waiting port \<and> length (ap_response port) + length bytes < MAX_BUFFER_SIZE - 1
      then port\<lparr>ap_response := ap_response port @ bytes\<rparr> else port)"

definition reader_chunk :: "regex_engine \<Rightarrow> u64 \<Rightarrow> string \<Rightarrow> reader_state \<Rightarrow> reader_state" where
  "reader_chunk rx now bytes st =
     (let st1 = st\<lparr>rd_port := collect_response bytes (rd_port st)\<rparr>;
          buffer = ap_read_buffer (rd_port st1) in
      if length bytes > MAX_BUFFER_SIZE - length buffer - 1
      then st1\<lparr>rd_port := (rd_port st1)\<lparr>ap_read_buffer := []\<rparr>\<rparr>
      else let whole = buffer @ bytes;
               (st2, rest) = reader_lines rx now whole st1;
               prompt = standalone_prompt (rd_port st2) rest;
               st3 = (if prompt then st2\<lparr>rd_port := finish_response ''>'' (rd_port st2)\<rparr> else st2);
               moved = (prompt \<or> length rest < length whole);
               left = (if prompt then [] else if moved then c_str rest else whole)
           in st3\<lparr>rd_port := (rd_port st3)\<lparr>ap_read_buffer := left\<rparr>\<rparr>)"

text \<open>A read error closes the port from the reader's side; the descriptor is left to the next open
  or close.\<close>

definition reader_error :: "at_port \<Rightarrow> at_port" where
  "reader_error port =
     (if ap_reader_valid port then port\<lparr>ap_is_open := False, ap_should_stop := True\<rparr> else port)"

section \<open>The life of a port\<close>

text \<open>The answers of the system calls, and whether the caller is the port's own reader thread.\<close>

record port_env =
  pv_self_is_reader :: bool
  pv_fd_valid :: bool
  pv_file_exists :: bool
  pv_open :: int
  pv_termios :: line_settings
  pv_thread_created :: bool
  pv_time :: int

text \<open>What a port operation does to descriptors.\<close>

datatype fd_action = Fd_opened int | Fd_closed int

definition new_port_instance :: "u64 \<Rightarrow> int \<Rightarrow> string \<Rightarrow> at_port" where
  "new_port_instance daemon_epoch now path =
     \<lparr>pe_path = c_copy MAX_PORT_PATH_SIZE path, pe_restart_epoch = daemon_epoch, pe_line_sequence = 0,
      ap_fd = -1, ap_termios = None, ap_baudrate = 0, ap_databits = 0, ap_parity = 0, ap_stopbits = 0,
      ap_reader_valid = False, ap_read_buffer = [], ap_response = [], ap_status = 0,
      ap_end_flag_matched = [], ap_waiting = False, ap_next_command_id = 0, ap_active_command_id = 0,
      ap_end_flags = [], ap_callbacks = [], ap_is_open = False, ap_should_stop = False,
      ap_last_check_time = now, ap_check_interval = 30\<rparr>"

text \<open>The new port goes to the front of the daemon's list.\<close>

definition create_port_instance :: "u64 \<Rightarrow> int \<Rightarrow> string \<Rightarrow> at_port list \<Rightarrow> at_port \<times> at_port list" where
  "create_port_instance daemon_epoch now path ports =
     (let port = new_port_instance daemon_epoch now path in (port, port # ports))"

definition find_port_instance :: "at_port list \<Rightarrow> string \<Rightarrow> at_port option" where
  "find_port_instance ports path = List.find (\<lambda>p. pe_path p = path) ports"

definition stop_reader :: "port_env \<Rightarrow> at_port \<Rightarrow> bool \<times> at_port" where
  "stop_reader e port =
     (if ap_reader_valid port then
        (if pv_self_is_reader e then (True, port\<lparr>ap_should_stop := True\<rparr>)
         else (False, port\<lparr>ap_should_stop := True, ap_reader_valid := False\<rparr>))
      else (False, port))"

definition mark_port_closed :: "at_port \<Rightarrow> at_port \<times> fd_action list" where
  "mark_port_closed port =
     (port\<lparr>ap_fd := -1, ap_is_open := False\<rparr>, if ap_fd port \<ge> 0 then [Fd_closed (ap_fd port)] else [])"

text \<open>The port once the device is configured: a new epoch starts and the input is discarded.\<close>

definition serial_speed :: "int \<Rightarrow> int" where
  "serial_speed baudrate =
     (if baudrate \<in> {9600, 19200, 38400, 57600, 115200, 230400, 460800, 921600} then baudrate else 115200)"

definition serial_options :: "int \<Rightarrow> int \<Rightarrow> int \<Rightarrow> int \<Rightarrow> line_settings \<Rightarrow> line_settings" where
  "serial_options baudrate databits parity stopbits opts =
     opts\<lparr>ls_speed := serial_speed baudrate,
       ls_csize := (if databits \<in> {5, 6, 7, 8} then databits else 8),
       ls_parenb := (parity = 1 \<or> parity = 2),
       ls_parodd := (if parity = 1 then True else if parity = 2 then False else ls_parodd opts),
       ls_cstopb := (stopbits = 2), ls_clocal_cread := True, ls_canonical_echo := False,
       ls_flow_and_cr_mapping := False, ls_opost := False, ls_vmin := 0, ls_vtime := 1\<rparr>"

definition configure_port :: "port_env \<Rightarrow> int \<Rightarrow> int \<Rightarrow> int \<Rightarrow> int \<Rightarrow> at_port \<Rightarrow> at_port" where
  "configure_port e baudrate databits parity stopbits port =
     (at_port_advance_restart_epoch port)\<lparr>ap_read_buffer := [],
        ap_termios := Some (serial_options baudrate databits parity stopbits (pv_termios e)), ap_baudrate := baudrate,
        ap_databits := databits, ap_parity := parity, ap_stopbits := stopbits, ap_fd := pv_open e,
        ap_is_open := True, ap_should_stop := False\<rparr>"

definition open_at_port ::
  "port_env \<Rightarrow> at_port \<Rightarrow> int \<Rightarrow> int \<Rightarrow> int \<Rightarrow> int \<Rightarrow> int \<times> at_port \<times> fd_action list" where
  "open_at_port e port baudrate databits parity stopbits =
     (let already_open = (ap_is_open port \<and> ap_fd port \<ge> 0 \<and> ap_reader_valid port \<and>
            ap_baudrate port = baudrate \<and> ap_databits port = databits \<and> ap_parity port = parity \<and>
            ap_stopbits port = stopbits \<and> pv_fd_valid e) in
      if already_open then (0, port, [])
      else let (self, port1) = stop_reader e port in
      if self then (-1, port1, [])
      else let (port2, acts) = mark_port_closed port1 in
      if \<not> pv_file_exists e then (-1, port2, acts)
      else if pv_open e < 0 then (-1, port2, acts)
      else let port3 = configure_port e baudrate databits parity stopbits port2;
             acts1 = acts @ [Fd_opened (pv_open e)] in
      if \<not> pv_thread_created e
      then (-1, port3\<lparr>ap_fd := -1, ap_is_open := False, ap_should_stop := True\<rparr>, acts1 @ [Fd_closed (pv_open e)])
      else (0, port3\<lparr>ap_reader_valid := True\<rparr>, acts1))"

definition close_at_port :: "port_env \<Rightarrow> at_port \<Rightarrow> at_port \<times> fd_action list" where
  "close_at_port e port = mark_port_closed (snd (stop_reader e port))"

text \<open>Ports are told apart by their path, which the daemon never gives to two of them.\<close>

definition destroy_port_instance :: "port_env \<Rightarrow> at_port \<Rightarrow> at_port list \<Rightarrow> at_port list \<times> fd_action list" where
  "destroy_port_instance e port ports =
     (remove_first (\<lambda>p. pe_path p = pe_path port) ports, snd (close_at_port e port))"

text \<open>Opens \<open>port\<close> with the configuration recorded in \<open>conf\<close>, or the defaults.\<close>

definition reopen_port :: "port_env \<Rightarrow> at_port \<Rightarrow> at_port \<Rightarrow> at_port \<times> fd_action list" where
  "reopen_port e conf port =
     snd (open_at_port e port (if ap_baudrate conf > 0 then ap_baudrate conf else 115200)
            (if ap_databits conf > 0 then ap_databits conf else 8) (ap_parity conf)
            (if ap_stopbits conf > 0 then ap_stopbits conf else 1))"

definition check_and_reconnect_port :: "port_env \<Rightarrow> at_port \<Rightarrow> at_port \<times> fd_action list" where
  "check_and_reconnect_port e port =
     (if pv_time e - ap_last_check_time port < ap_check_interval port then (port, [])
      else let port1 = port\<lparr>ap_last_check_time := pv_time e\<rparr>;
               bad_fd = (ap_is_open port1 \<and> ap_fd port1 \<ge> 0 \<and> \<not> pv_fd_valid e) in
      if \<not> ap_is_open port1 then
        (if pv_file_exists e then reopen_port e port1 port1 else (port1, []))
      else if \<not> pv_file_exists e then close_at_port e port1
      else if bad_fd then
        (let (port2, acts) = close_at_port e port1;
             (port3, acts') = reopen_port e port1 port2
         in (port3, acts @ acts'))
      else (port1, []))"

text \<open>One round of the monitor thread.\<close>

definition port_monitor_round :: "(at_port \<Rightarrow> port_env) \<Rightarrow> at_port list \<Rightarrow> (at_port \<times> fd_action list) list" where
  "port_monitor_round e ports = map (\<lambda>p. check_and_reconnect_port (e p) p) ports"

section \<open>Sending commands\<close>

text \<open>What a command puts on the wire; \<open>None\<close> when it is refused.\<close>

definition command_bytes :: "bool \<Rightarrow> string \<Rightarrow> string option" where
  "command_bytes is_raw cmd =
     (if is_raw then (if cmd = [] \<or> length cmd mod 2 \<noteq> 0 then None else hex_to_string cmd)
      else Some (cmd @ [CHR 0x0D, CHR 0x0A]))"

text \<open>The first half of \<open>send_at_command_with_response\<close>, up to the wait. \<open>written\<close> is what
  \<open>write\<close> returns for the given bytes. The last component is what was written.\<close>

definition send_start ::
  "port_env \<Rightarrow> (string \<Rightarrow> int) \<Rightarrow> at_port \<Rightarrow> string \<Rightarrow> string option \<Rightarrow> bool
   \<Rightarrow> int \<times> at_port \<times> fd_action list \<times> string option" where
  "send_start e written port cmd end_flag is_raw =
     (let (r, port1, acts) = (if ap_is_open port then (0, port, []) else open_at_port e port 115200 8 0 1) in
      if r \<noteq> 0 then (-1, port1, acts, None)
      else let port2 = port1\<lparr>ap_end_flags := parse_end_flags end_flag, ap_response := [], ap_status := 0,
             ap_end_flag_matched := [], ap_next_command_id := ap_next_command_id port1 + 1,
             ap_active_command_id := ap_next_command_id port1 + 1, ap_waiting := True\<rparr> in
      case command_bytes is_raw cmd of
        None \<Rightarrow> (-1, port2\<lparr>ap_waiting := False\<rparr>, acts, None)
      | Some data \<Rightarrow>
          if \<not> (ap_is_open port2 \<and> ap_fd port2 \<ge> 0) then (-1, port2\<lparr>ap_waiting := False\<rparr>, acts, None)
          else if written data \<noteq> int (length data) then (-1, port2\<lparr>ap_waiting := False\<rparr>, acts, Some data)
          else (0, port2, acts, Some data))"

text \<open>The second half: the wait ended, by the reader or by the timeout.\<close>

definition send_finish :: "bool \<Rightarrow> at_port \<Rightarrow> int \<times> string \<times> string \<times> at_port" where
  "send_finish timed_out port =
     (let status = (if timed_out then -1 else ap_status port);
          port1 = (if timed_out then port\<lparr>ap_waiting := False\<rparr> else port)
      in (status, ap_response port, ap_end_flag_matched port, port1\<lparr>ap_active_command_id := 0\<rparr>))"

definition send_at_command_only ::
  "port_env \<Rightarrow> (string \<Rightarrow> int) \<Rightarrow> at_port \<Rightarrow> string \<Rightarrow> bool \<Rightarrow> int \<times> at_port \<times> fd_action list \<times> string option" where
  "send_at_command_only e written port cmd is_raw =
     (let (r, port1, acts) = (if ap_is_open port then (0, port, []) else open_at_port e port 115200 8 0 1) in
      if r \<noteq> 0 then (-1, port1, acts, None)
      else case (if is_raw then command_bytes True cmd else Some cmd) of
             None \<Rightarrow> (-1, port1, acts, None)
           | Some data \<Rightarrow>
               if \<not> (ap_is_open port1 \<and> ap_fd port1 \<ge> 0) then (-1, port1, acts, None)
               else (if written data = int (length data) then 0 else -1, port1, acts, Some data))"

section \<open>Hexadecimal commands\<close>

definition byte_hex :: "char \<Rightarrow> string" where
  "byte_hex c = [hex_digit (of_char c div 16), hex_digit (of_char c mod 16)]"

lemma hex_digit_cases:
  assumes "d < 16"
  shows "hex_char (hex_digit d) = Some d" "\<not> is_space (hex_digit d)"
    "hex_digit d \<noteq> CHR ''-''" "hex_digit d \<noteq> CHR ''+''"
proof -
  have n: "(of_char (hex_digit d) :: nat) = (if d < 10 then 48 + d else 87 + d)"
    using assms by (simp add: hex_digit_def)
  show "hex_char (hex_digit d) = Some d" "\<not> is_space (hex_digit d)"
    using assms by (auto simp: hex_char_def is_space_def n Let_def)
  show "hex_digit d \<noteq> CHR ''-''" "hex_digit d \<noteq> CHR ''+''"
    using assms n by (auto dest: arg_cong [where f = "of_char :: char \<Rightarrow> nat"] split: if_splits)
qed

lemma strtol16_pair:
  assumes "a < 16" "b < 16"
  shows "strtol16 [hex_digit a, hex_digit b] = int (16 * a + b)"
  using hex_digit_cases [OF assms(1)] hex_digit_cases [OF assms(2)]
  by (simp add: strtol16_def)

lemma hex_bytes_hex: "hex_bytes (concat (map byte_hex bs)) = bs"
proof (induction bs)
  case (Cons c bs)
  have "of_char c < (256 :: nat)" by simp
  then have "strtol16 [hex_digit (of_char c div 16), hex_digit (of_char c mod 16)] = int (of_char c)"
    by (subst strtol16_pair) (simp_all add: less_mult_imp_div_less)
  moreover have "nat (int (of_char c) mod 256) = of_char c"
    using \<open>of_char c < 256\<close> by simp
  ultimately show ?case using Cons by (simp add: byte_hex_def)
qed simp

lemma length_hex: "length (concat (map byte_hex bs)) = 2 * length bs"
  by (induction bs) (simp_all add: byte_hex_def)

section \<open>End flags\<close>

lemma trim_token_nonempty: "t \<in> set (filter (\<lambda>t. t \<noteq> []) ts) \<Longrightarrow> t \<noteq> []"
  by simp

lemma parse_end_flags_ok:
  "parse_end_flags v \<noteq> []" "length (parse_end_flags v) \<le> 5"
  "f \<in> set (parse_end_flags v) \<Longrightarrow> f \<noteq> [] \<and> length f < END_FLAG_SIZE"
proof -
  have def: "default_flags \<noteq> []" "length default_flags \<le> 5"
    "\<forall>f \<in> set default_flags. f \<noteq> [] \<and> length f < END_FLAG_SIZE"
    by (simp_all add: default_flags_def)
  have cut: "f \<noteq> [] \<and> length f < END_FLAG_SIZE"
    if "f \<in> set (map (c_copy END_FLAG_SIZE) (take 5 (filter (\<lambda>t. t \<noteq> []) ts)))" for f ts
    using that by (auto simp: c_copy_def dest!: in_set_takeD)
  show "parse_end_flags v \<noteq> []" "length (parse_end_flags v) \<le> 5"
    "f \<in> set (parse_end_flags v) \<Longrightarrow> f \<noteq> [] \<and> length f < END_FLAG_SIZE"
    using def cut [of f] by (auto simp: parse_end_flags_def Let_def split: option.splits if_splits)
qed

lemma flag_matches_iff:
  "flag_matches t f \<longleftrightarrow> t = f \<or> (f \<noteq> [] \<and> (has_prefix t (f @ '' '') \<or> has_prefix t (f @ [CHR 0x09])))"
proof -
  have "has_prefix t (f @ [c]) \<longleftrightarrow> has_prefix t f \<and> (\<exists>r. drop (length f) t = c # r)" for c
    by (auto simp: has_prefix_iff)
  moreover have "t = f" if "has_prefix t f" "drop (length f) t = []"
    using that by (auto simp: has_prefix_iff)
  ultimately show ?thesis by (auto simp: flag_matches_def split: list.splits)
qed

section \<open>Framing does not depend on how the bytes arrive\<close>

lemma split_crlf_mono: "split_crlf s = Some (l, r) \<Longrightarrow> split_crlf (s @ b) = Some (l, r @ b)"
proof (induction s arbitrary: l rule: split_crlf.induct)
  case (1 x y cs)
  then show ?case by (auto split: if_splits)
qed auto

lemma reader_lines_append:
  assumes "CHR 0x00 \<notin> set (a @ b)"
  shows "reader_lines rx now (a @ b) st =
    (let (st1, r1) = reader_lines rx now a st in reader_lines rx now (r1 @ b) st1)"
  using assms
proof (induction rx now a st rule: reader_lines.induct)
  case (1 rx now s st)
  have nul: "c_str s = s" "c_str (s @ b) = s @ b" using 1(2) by (auto intro: c_str_id)
  show ?case
  proof (cases "split_crlf s")
    case None
    then show ?thesis by (subst (2) reader_lines.simps) (simp add: nul)
  next
    case (Some x)
    obtain line rest where x: "x = (line, rest)" by (cases x)
    have s: "s = line @ [CHR 0x0D, CHR 0x0A] @ rest"
      using Some x split_crlf_append [of s line rest] by simp
    have e: "split_crlf (c_str (s @ b)) = Some (line, rest @ b)" "split_crlf (c_str s) = Some (line, rest)"
      using split_crlf_mono [of s line rest b] Some x nul by simp_all
    have d: "drop (length line + 2) (s @ b) = rest @ b" "drop (length line + 2) s = rest"
      unfolding s by simp_all
    have "CHR 0x00 \<notin> set (rest @ b)" using 1(2) unfolding s by auto
    then have "reader_lines rx now (rest @ b) (reader_line rx now line st) =
      (let (st1, r1) = reader_lines rx now rest (reader_line rx now line st) in reader_lines rx now (r1 @ b) st1)"
      by (rule 1(1) [OF e(2) refl, unfolded d])
    moreover have "reader_lines rx now (s @ b) st = reader_lines rx now (rest @ b) (reader_line rx now line st)"
      by (subst reader_lines.simps) (simp only: e d option.case prod.case)
    moreover have "reader_lines rx now s st = reader_lines rx now rest (reader_line rx now line st)"
      by (subst reader_lines.simps) (simp only: e d option.case prod.case)
    ultimately show ?thesis by simp
  qed
qed

text \<open>The state without the text of the response and the unread bytes.\<close>

definition with_text :: "string \<Rightarrow> string \<Rightarrow> reader_state \<Rightarrow> reader_state" where
  "with_text r b st = st\<lparr>rd_port := (rd_port st)\<lparr>ap_response := r, ap_read_buffer := b\<rparr>\<rparr>"

lemma reader_line_text:
  "reader_line rx now line (with_text r b st) = with_text r b (reader_line rx now line st)"
  by (simp add: reader_line_def with_text_def at_line_event_enqueue_def at_port_next_line_event_state_def
      Let_def process_incoming_data_def finish_response_def split_beta split: option.split)

lemma reader_lines_text:
  "reader_lines rx now s (with_text r b st) = apfst (with_text r b) (reader_lines rx now s st)"
proof (induction rx now s st rule: reader_lines.induct)
  case (1 rx now s st)
  show ?case
  proof (cases "split_crlf (c_str s)")
    case None
    then show ?thesis by (subst (1 2) reader_lines.simps) simp
  next
    case (Some x)
    then show ?thesis
      using 1 [of x "fst x" "snd x"]
      by (subst (1 2) reader_lines.simps) (simp add: split_beta reader_line_text)
  qed
qed

lemma reader_line_flags: "ap_end_flags (rd_port (reader_line rx now line st)) = ap_end_flags (rd_port st)"
  by (simp add: reader_line_def at_line_event_enqueue_def at_port_next_line_event_state_def Let_def
      finish_response_def split_beta split: option.split)

lemma reader_lines_flags: "ap_end_flags (rd_port (fst (reader_lines rx now s st))) = ap_end_flags (rd_port st)"
proof (induction rx now s st rule: reader_lines.induct)
  case (1 rx now s st)
  show ?case
  proof (cases "split_crlf (c_str s)")
    case None
    then show ?thesis by (subst reader_lines.simps) simp
  next
    case (Some x)
    then show ?thesis
      using 1 [of x "fst x" "snd x"]
      by (subst reader_lines.simps) (simp add: split_beta reader_line_flags)
  qed
qed

lemma reader_lines_rest:
  assumes "CHR 0x00 \<notin> set s"
  shows "\<exists>l. s = l @ snd (reader_lines rx now s st)"
  using assms
proof (induction rx now s st rule: reader_lines.induct)
  case (1 rx now s st)
  have nul: "c_str s = s" using 1(2) by (rule c_str_id)
  show ?case
  proof (cases "split_crlf s")
    case None
    then show ?thesis by (subst reader_lines.simps) (simp add: nul)
  next
    case (Some x)
    obtain line rest where x: "x = (line, rest)" by (cases x)
    have s: "s = line @ [CHR 0x0D, CHR 0x0A] @ rest"
      using Some x split_crlf_append [of s line rest] by simp
    have e: "split_crlf (c_str s) = Some (line, rest)" using Some x nul by simp
    have d: "drop (length line + 2) s = rest" unfolding s by simp
    have "CHR 0x00 \<notin> set rest" using 1(2) unfolding s by auto
    then obtain l where l: "rest = l @ snd (reader_lines rx now rest (reader_line rx now line st))"
      using 1(1) [OF e refl] unfolding d by auto
    have eq: "reader_lines rx now s st = reader_lines rx now rest (reader_line rx now line st)"
      by (subst reader_lines.simps) (simp only: e d option.case prod.case)
    have "s = (line @ [CHR 0x0D, CHR 0x0A] @ l) @ snd (reader_lines rx now s st)"
      unfolding eq append_assoc l [symmetric] by (rule s)
    then show ?thesis ..
  qed
qed

lemma collect_response_text:
  "\<exists>r. st\<lparr>rd_port := collect_response bytes (rd_port st)\<rparr> = with_text r (ap_read_buffer (rd_port st)) st"
proof (cases "ap_waiting (rd_port st) \<and> length (ap_response (rd_port st)) + length bytes < MAX_BUFFER_SIZE - 1")
  case True
  then show ?thesis
    by (intro exI [of _ "ap_response (rd_port st) @ bytes"]) (simp add: collect_response_def with_text_def)
next
  case False
  then show ?thesis
    by (intro exI [of _ "ap_response (rd_port st)"]) (auto simp: collect_response_def with_text_def)
qed

text \<open>A chunk of text that fits: the lines are handled, the rest is kept, and only the text of the
  response depends on more than that.\<close>

lemma reader_chunk_text:
  assumes nul: "CHR 0x00 \<notin> set (ap_read_buffer (rd_port st) @ bytes)"
    and fits: "length (ap_read_buffer (rd_port st)) + length bytes < MAX_BUFFER_SIZE"
    and flags: "''>'' \<notin> set (ap_end_flags (rd_port st))"
  shows "\<exists>r. reader_chunk rx now bytes st =
     (let (st', rest) = reader_lines rx now (ap_read_buffer (rd_port st) @ bytes) st in with_text r rest st')"
proof -
  let ?whole = "ap_read_buffer (rd_port st) @ bytes"
  obtain r where r: "st\<lparr>rd_port := collect_response bytes (rd_port st)\<rparr> = with_text r (ap_read_buffer (rd_port st)) st"
    using collect_response_text by blast
  obtain st' rest where l: "reader_lines rx now ?whole st = (st', rest)" by fastforce
  have l1: "reader_lines rx now ?whole (with_text r (ap_read_buffer (rd_port st)) st) =
      (with_text r (ap_read_buffer (rd_port st)) st', rest)"
    using reader_lines_text [of rx now ?whole r] l by simp
  have "ap_end_flags (rd_port st') = ap_end_flags (rd_port st)"
    using reader_lines_flags [of rx now ?whole st] l by simp
  then have noprompt: "\<not> standalone_prompt (rd_port (with_text r (ap_read_buffer (rd_port st)) st')) rest"
    using flags by (auto simp: standalone_prompt_def check_end_flags_def with_text_def find_Some_iff)
  obtain pre where pre: "?whole = pre @ rest" using reader_lines_rest [OF nul, of rx now st] l by auto
  have rest: "c_str rest = rest" using nul unfolding pre by (intro c_str_id) auto
  have same: "length rest < length ?whole \<or> ?whole = rest" unfolding pre by auto
  have buf: "ap_read_buffer (rd_port (with_text r (ap_read_buffer (rd_port st)) st)) = ap_read_buffer (rd_port st)"
    by (simp add: with_text_def)
  have left: "(if length rest < length ?whole then c_str rest else ?whole) = rest"
    using same rest by auto
  have "reader_chunk rx now bytes st = with_text r rest st'"
    unfolding reader_chunk_def Let_def r buf l1 prod.case
    using fits noprompt left by (simp add: with_text_def)
  then show ?thesis by (auto simp: l)
qed

lemma with_text_with_text [simp]: "with_text r b (with_text r' b' st) = with_text r b st"
  by (simp add: with_text_def)

lemma reader_chunk_append:
  assumes nul: "CHR 0x00 \<notin> set (ap_read_buffer (rd_port st) @ a @ b)"
    and fits: "length (ap_read_buffer (rd_port st)) + length a + length b < MAX_BUFFER_SIZE"
    and flags: "''>'' \<notin> set (ap_end_flags (rd_port st))"
  shows "\<exists>r. reader_chunk rx now b (reader_chunk rx now a st) =
     with_text r (ap_read_buffer (rd_port (reader_chunk rx now (a @ b) st))) (reader_chunk rx now (a @ b) st)"
proof -
  let ?buf = "ap_read_buffer (rd_port st)"
  obtain st1 rest1 where l1: "reader_lines rx now (?buf @ a) st = (st1, rest1)" by fastforce
  obtain r1 where c1: "reader_chunk rx now a st = with_text r1 rest1 st1"
    using reader_chunk_text [of st a rx now] nul fits flags l1 by auto
  obtain pre where pre: "?buf @ a = pre @ rest1"
    using reader_lines_rest [of "?buf @ a" rx now st] nul l1 by auto
  have f1: "ap_end_flags (rd_port st1) = ap_end_flags (rd_port st)"
    using reader_lines_flags [of rx now "?buf @ a" st] l1 by simp
  have len: "length rest1 \<le> length ?buf + length a"
    using arg_cong [OF pre, of length] by simp
  obtain st2 rest2 where l2: "reader_lines rx now (rest1 @ b) st1 = (st2, rest2)" by fastforce
  have "\<exists>r. reader_chunk rx now b (with_text r1 rest1 st1) =
     (let (st', rest) = reader_lines rx now (rest1 @ b) (with_text r1 rest1 st1) in with_text r rest st')"
    using reader_chunk_text [of "with_text r1 rest1 st1" b rx now] nul fits flags f1 len pre
    by (auto simp: with_text_def dest!: arg_cong [where f = set])
  then obtain r2 where c2: "reader_chunk rx now b (reader_chunk rx now a st) = with_text r2 rest2 st2"
    by (auto simp: c1 reader_lines_text l2)
  have "reader_lines rx now (?buf @ a @ b) st = (st2, rest2)"
    using reader_lines_append [of "?buf @ a" b rx now st] nul l1 l2 by simp
  then obtain r where "reader_chunk rx now (a @ b) st = with_text r rest2 st2"
    using reader_chunk_text [of st "a @ b" rx now] nul fits flags by auto
  then show ?thesis unfolding c2 by (intro exI [of _ r2]) (simp add: with_text_def)
qed

section \<open>Ports neither leak descriptors nor lie about being open\<close>

fun fd_apply :: "fd_action \<Rightarrow> int set \<Rightarrow> int set" where
  "fd_apply (Fd_opened f) S = insert f S"
| "fd_apply (Fd_closed f) S = S - {f}"

text \<open>A port with the descriptors the process holds for it.\<close>

type_synonym port_fds = "at_port \<times> int set"

definition held :: "at_port \<Rightarrow> int set" where
  "held p = (if ap_fd p \<ge> 0 then {ap_fd p} else {})"

definition port_ok :: "port_fds \<Rightarrow> bool" where
  "port_ok s \<longleftrightarrow> snd s = held (fst s) \<and> (ap_is_open (fst s) \<longrightarrow> ap_fd (fst s) \<ge> 0 \<and> ap_reader_valid (fst s))"

inductive port_step :: "port_fds \<Rightarrow> port_fds \<Rightarrow> bool" where
  port_open: "open_at_port e p baud bits par stop = (r, p', acts) \<Longrightarrow> port_step (p, S) (p', fold fd_apply acts S)"
| port_close: "close_at_port e p = (p', acts) \<Longrightarrow> port_step (p, S) (p', fold fd_apply acts S)"
| port_check: "check_and_reconnect_port e p = (p', acts) \<Longrightarrow> port_step (p, S) (p', fold fd_apply acts S)"
| port_send: "send_start e written p cmd flag raw = (r, p', acts, out) \<Longrightarrow> port_step (p, S) (p', fold fd_apply acts S)"
| port_send_only: "send_at_command_only e written p cmd raw = (r, p', acts, out) \<Longrightarrow>
    port_step (p, S) (p', fold fd_apply acts S)"
| port_finish: "send_finish timed_out p = (r, text, flag, p') \<Longrightarrow> port_step (p, S) (p', S)"
| port_read: "reader_chunk rx now bytes (st\<lparr>rd_port := p\<rparr>) = st' \<Longrightarrow> port_step (p, S) (rd_port st', S)"
| port_read_error: "port_step (p, S) (reader_error p, S)"

definition port_start :: "port_fds \<Rightarrow> bool" where
  "port_start s \<longleftrightarrow> (\<exists>epoch now path. s = (new_port_instance epoch now path, {}))"

definition open_state :: "at_port \<Rightarrow> bool \<times> int \<times> bool" where
  "open_state p = (ap_is_open p, ap_fd p, ap_reader_valid p)"

lemma port_ok_same: "port_ok (p, S) \<Longrightarrow> open_state p' = open_state p \<Longrightarrow> port_ok (p', S)"
  by (simp add: port_ok_def open_state_def held_def)

lemma mark_closed_ok: "snd s = held (fst s) \<Longrightarrow> mark_port_closed (fst s) = (p', acts) \<Longrightarrow>
   fold fd_apply acts (snd s) = {} \<and> ap_fd p' = -1 \<and> \<not> ap_is_open p'"
  by (auto simp: mark_port_closed_def held_def)

lemma close_ok:
  assumes "port_ok (p, S)" "close_at_port e p = (p', acts)"
  shows "port_ok (p', fold fd_apply acts S)"
proof -
  have "S = held (snd (stop_reader e p))"
    using assms(1) by (simp add: port_ok_def held_def stop_reader_def)
  with mark_closed_ok [of "(snd (stop_reader e p), S)" p' acts] assms(2) show ?thesis
    by (simp add: close_at_port_def port_ok_def held_def)
qed

lemma configure_fields [simp]:
  "ap_fd (configure_port e ba da pa sb p) = pv_open e" "ap_is_open (configure_port e ba da pa sb p)"
  "ap_reader_valid (configure_port e ba da pa sb p) = ap_reader_valid p"
  by (simp_all add: configure_port_def at_port_advance_restart_epoch_def)

lemma open_ok:
  assumes ok: "port_ok (p, S)" and "open_at_port e p baud bits par stop = (r, p', acts)"
  shows "port_ok (p', fold fd_apply acts S)"
proof -
  obtain self p1 where s: "stop_reader e p = (self, p1)" by fastforce
  obtain p2 acts2 where m: "mark_port_closed p1 = (p2, acts2)" by fastforce
  have p1: "ap_is_open p1 = ap_is_open p" "ap_fd p1 = ap_fd p" "self \<longrightarrow> ap_reader_valid p1 = ap_reader_valid p"
    using s by (auto simp: stop_reader_def split: if_splits)
  have ok1: "port_ok (p1, S)" if self using ok p1 that by (simp add: port_ok_def held_def)
  have held1: "S = held p1" using ok p1 by (simp add: port_ok_def held_def)
  have closed: "fold fd_apply acts2 S = {}" "ap_fd p2 = -1" "\<not> ap_is_open p2"
    using mark_closed_ok [of "(p1, S)" p2 acts2] m held1 by simp_all
  define a where "a = (ap_is_open p \<and> ap_fd p \<ge> 0 \<and> ap_reader_valid p \<and>
            ap_baudrate p = baud \<and> ap_databits p = bits \<and> ap_parity p = par \<and>
            ap_stopbits p = stop \<and> pv_fd_valid e)"
  define p3 where "p3 = configure_port e baud bits par stop p2"
  have eq: "open_at_port e p baud bits par stop =
     (if a then (0, p, []) else if self then (-1, p1, [])
      else if \<not> pv_file_exists e \<or> pv_open e < 0 then (-1, p2, acts2)
      else if \<not> pv_thread_created e
      then (-1, p3\<lparr>ap_fd := -1, ap_is_open := False, ap_should_stop := True\<rparr>,
            (acts2 @ [Fd_opened (pv_open e)]) @ [Fd_closed (pv_open e)])
      else (0, p3\<lparr>ap_reader_valid := True\<rparr>, acts2 @ [Fd_opened (pv_open e)]))"
    unfolding open_at_port_def Let_def s m prod.case a_def [symmetric] p3_def [symmetric] by simp
  consider "a" | "\<not> a" "self" | "\<not> a" "\<not> self" "\<not> pv_file_exists e \<or> pv_open e < 0"
    | "\<not> a" "\<not> self" "pv_file_exists e" "pv_open e \<ge> 0" "\<not> pv_thread_created e"
    | "\<not> a" "\<not> self" "pv_file_exists e" "pv_open e \<ge> 0" "pv_thread_created e"
    by (meson not_less)
  then show ?thesis
  proof cases
    case 1
    then show ?thesis using assms(2) ok by (simp add: eq)
  next
    case 2
    then show ?thesis using assms(2) ok1 by (simp add: eq)
  next
    case 3
    then have "p' = p2" "acts = acts2" using assms(2) by (auto simp: eq)
    then show ?thesis using closed by (simp add: port_ok_def held_def)
  next
    case 4
    then have "p' = p3\<lparr>ap_fd := -1, ap_is_open := False, ap_should_stop := True\<rparr>"
      "acts = acts2 @ [Fd_opened (pv_open e)] @ [Fd_closed (pv_open e)]" using assms(2) by (auto simp: eq)
    then show ?thesis using closed by (simp add: port_ok_def held_def)
  next
    case 5
    then have "p' = p3\<lparr>ap_reader_valid := True\<rparr>" "acts = acts2 @ [Fd_opened (pv_open e)]"
      using assms(2) by (auto simp: eq)
    then show ?thesis using closed 5 by (simp add: port_ok_def held_def p3_def)
  qed
qed

lemma reopen_ok:
  assumes "port_ok (p, S)" "reopen_port e conf p = (p', acts)"
  shows "port_ok (p', fold fd_apply acts S)"
proof -
  obtain r where "open_at_port e p (if ap_baudrate conf > 0 then ap_baudrate conf else 115200)
            (if ap_databits conf > 0 then ap_databits conf else 8) (ap_parity conf)
            (if ap_stopbits conf > 0 then ap_stopbits conf else 1) = (r, p', acts)"
    using assms(2) unfolding reopen_port_def by (metis prod.collapse)
  then show ?thesis by (rule open_ok [OF assms(1)])
qed

lemma check_ok:
  assumes "port_ok (p, S)" "check_and_reconnect_port e p = (p', acts)"
  shows "port_ok (p', fold fd_apply acts S)"
proof -
  define p1 where "p1 = p\<lparr>ap_last_check_time := pv_time e\<rparr>"
  have p1: "port_ok (p1, S)" using assms(1) by (simp add: p1_def port_ok_def held_def)
  obtain p2 acts2 where c: "close_at_port e p1 = (p2, acts2)" by fastforce
  obtain p3 acts3 where o3: "reopen_port e p1 p2 = (p3, acts3)" by fastforce
  obtain p4 acts4 where o4: "reopen_port e p1 p1 = (p4, acts4)" by fastforce
  have ok2: "port_ok (p2, fold fd_apply acts2 S)" by (rule close_ok [OF p1 c])
  have ok3: "port_ok (p3, fold fd_apply (acts2 @ acts3) S)" using reopen_ok [OF ok2 o3] by simp
  have ok4: "port_ok (p4, fold fd_apply acts4 S)" by (rule reopen_ok [OF p1 o4])
  have "(p', acts) \<in> {(p, []), (p4, acts4), (p1, []), (p2, acts2), (p3, acts2 @ acts3)}"
    using assms(2) unfolding check_and_reconnect_port_def Let_def p1_def [symmetric] c o4 prod.case o3
    by (simp split: if_splits)
  then show ?thesis using assms(1) p1 ok2 ok3 ok4 by auto
qed

lemma reader_line_open: "open_state (rd_port (reader_line rx now line st)) = open_state (rd_port st)"
  by (simp add: reader_line_def at_line_event_enqueue_def at_port_next_line_event_state_def Let_def
      finish_response_def open_state_def split_beta split: option.split)

lemma reader_lines_open: "open_state (rd_port (fst (reader_lines rx now s st))) = open_state (rd_port st)"
proof (induction rx now s st rule: reader_lines.induct)
  case (1 rx now s st)
  show ?case
  proof (cases "split_crlf (c_str s)")
    case None
    then show ?thesis by (subst reader_lines.simps) simp
  next
    case (Some x)
    then show ?thesis
      using 1 [of x "fst x" "snd x"]
      by (subst reader_lines.simps) (simp add: split_beta reader_line_open)
  qed
qed

lemma reader_chunk_open: "open_state (rd_port (reader_chunk rx now bytes st)) = open_state (rd_port st)"
proof -
  have c: "open_state (collect_response bytes p) = open_state p" for p
    by (simp add: collect_response_def open_state_def)
  have upd: "open_state (p\<lparr>ap_read_buffer := b\<rparr>) = open_state p"
    "open_state (finish_response f p) = open_state p" for p b f
    by (simp_all add: open_state_def finish_response_def)
  show ?thesis
    using reader_lines_open [of rx now _ "st\<lparr>rd_port := collect_response bytes (rd_port st)\<rparr>"]
    by (simp add: reader_chunk_def Let_def split_beta c upd)
qed

lemma send_ok:
  assumes "port_ok (p, S)"
  shows "send_start e written p cmd flag raw = (r, p', acts, out) \<Longrightarrow> port_ok (p', fold fd_apply acts S)"
    "send_at_command_only e written p cmd raw = (r, p', acts, out) \<Longrightarrow> port_ok (p', fold fd_apply acts S)"
proof -
  obtain r1 p1 acts1 where o1: "(if ap_is_open p then (0, p, []) else open_at_port e p 115200 8 0 1) = (r1, p1, acts1)"
    by (metis prod.collapse)
  have ok1: "port_ok (p1, fold fd_apply acts1 S)"
    using o1 assms open_ok [OF assms, of e 115200 8 0 1 r1 p1 acts1] by (cases "ap_is_open p") auto
  show "port_ok (p', fold fd_apply acts S)" if "send_start e written p cmd flag raw = (r, p', acts, out)"
  proof -
    have "acts = acts1 \<and> open_state p' = open_state p1"
      using that unfolding send_start_def o1 Let_def prod.case
      by (auto simp: open_state_def split: if_splits option.splits)
    then show ?thesis using port_ok_same [OF ok1] by simp
  qed
  show "port_ok (p', fold fd_apply acts S)" if "send_at_command_only e written p cmd raw = (r, p', acts, out)"
  proof -
    have "acts = acts1 \<and> p' = p1"
      using that unfolding send_at_command_only_def o1 Let_def prod.case
      by (auto split: if_splits option.splits)
    then show ?thesis using ok1 by simp
  qed
qed

lemma port_step_ok:
  assumes "port_ok s" "port_step s t"
  shows "port_ok t"
  using assms(2,1)
proof cases
  case (port_open e p baud bits par stop r p' acts S)
  then show ?thesis using assms(1) open_ok by blast
next
  case (port_close e p p' acts S)
  then show ?thesis using assms(1) close_ok by blast
next
  case (port_check e p p' acts S)
  then show ?thesis using assms(1) check_ok by blast
next
  case (port_send e written p cmd flag raw r p' acts out S)
  then show ?thesis using assms(1) send_ok(1) by blast
next
  case (port_send_only e written p cmd raw r p' acts out S)
  then show ?thesis using assms(1) send_ok(2) by blast
next
  case (port_finish timed_out p r body flag p' S)
  then have "open_state p' = open_state p" by (auto simp: send_finish_def open_state_def Let_def split: if_splits)
  then show ?thesis using port_finish assms(1) port_ok_same by blast
next
  case (port_read rx now bytes p st st' S)
  then have "open_state (rd_port st') = open_state p"
    using reader_chunk_open [of rx now bytes "st\<lparr>rd_port := p\<rparr>"] by simp
  then show ?thesis using port_read assms(1) port_ok_same by blast
next
  case (port_read_error p S)
  then show ?thesis using assms(1) by (auto simp: port_ok_def reader_error_def held_def)
qed

interpretation ports: inductive_invariant port_start port_step port_ok
proof
  show "port_ok s" if "port_start s" for s
    using that by (auto simp: port_start_def port_ok_def new_port_instance_def held_def)
qed (rule port_step_ok)

section \<open>Properties\<close>


definition sample_port :: at_port where
  "sample_port = (new_port_instance 7 0 ''/dev/ttyUSB2'')\<lparr>ap_end_flags := default_flags, ap_waiting := True,
     ap_next_command_id := 3, ap_active_command_id := 3\<rparr>"

definition sample_reader :: reader_state where
  "sample_reader = \<lparr>rd_queue = at_line_events_init, rd_port = sample_port, rd_started = []\<rparr>"


text \<open>The answer of a command ends with the first line that matches one of its end flags. That
  line releases the command with success, is published as terminal under the id of the command, and
  the next line is no longer part of the response.\<close>

lemma at_terminal_line:
  assumes "ap_waiting (rd_port st)" "line \<noteq> []" "\<not> has_prefix line ''AT''" "length line < MAX_AT_LINE_SIZE"
    and "check_end_flags (ap_end_flags (rd_port st)) line = Some flag"
    and "queue_wf (rd_queue st)" "lq_count (rd_queue st) < AT_LINE_QUEUE_CAPACITY"
  shows "\<not> ap_waiting (rd_port (reader_line rx now line st)) \<and>
         ap_status (rd_port (reader_line rx now line st)) = 0 \<and>
         ap_end_flag_matched (rd_port (reader_line rx now line st)) = flag \<and>
         queue_contents (rd_queue (reader_line rx now line st)) =
           queue_contents (rd_queue st) @ [(c_copy MAX_PORT_PATH_SIZE (pe_path (rd_port st)),
             pe_restart_epoch (rd_port st), pe_line_sequence (rd_port st) + 1, now, line, length line,
             ap_active_command_id (rd_port st), AT_CORRELATION_TERMINAL)]"
proof -
  define p1 where "p1 = finish_response flag (rd_port st)"
  define ev where "ev = \<lparr>le_port = c_copy MAX_PORT_PATH_SIZE (pe_path (rd_port st)),
      le_epoch = pe_restart_epoch (rd_port st), le_sequence = pe_line_sequence (rd_port st) + 1,
      le_monotonic_ms = now, le_line = line, le_line_len = length line,
      le_command_id = ap_active_command_id (rd_port st), le_correlation = AT_CORRELATION_TERMINAL, le_drop_count = 0\<rparr>"
  have enq: "at_line_event_enqueue now (rd_queue st) p1 line (ap_active_command_id (rd_port st)) AT_CORRELATION_TERMINAL =
     (notify_consumer (queue_push ev (rd_queue st)), p1\<lparr>pe_line_sequence := pe_line_sequence p1 + 1\<rparr>)"
    using assms(4) by (simp add: at_line_event_enqueue_def at_port_next_line_event_state_def Let_def p1_def
        finish_response_def ev_def)
  have rl: "reader_line rx now line st = st\<lparr>rd_queue := notify_consumer (queue_push ev (rd_queue st)),
      rd_port := p1\<lparr>pe_line_sequence := pe_line_sequence p1 + 1\<rparr>,
      rd_started := rd_started st @ process_incoming_data rx (p1\<lparr>pe_line_sequence := pe_line_sequence p1 + 1\<rparr>) line\<rparr>"
    using assms enq by (simp add: reader_line_def Let_def line_correlation_def p1_def)
  have "queue_contents (queue_push ev (rd_queue st)) = queue_contents (rd_queue st) @ [payload ev]"
    using push_contents_ok(2) [OF assms(6), of ev] assms(7) by (simp add: lastn_all)
  then show ?thesis
    by (simp add: rl p1_def finish_response_def notify_consumer_def ev_def payload_def)
qed

text \<open>An end flag list is always usable: it has one to five flags, none of them empty and each
  short enough for its buffer, and a line matches a flag exactly when, trimmed, it is the flag or
  continues it with a blank.\<close>

lemma at_end_flags:
  "parse_end_flags v \<noteq> [] \<and> length (parse_end_flags v) \<le> 5 \<and>
   list_all (\<lambda>f. f \<noteq> [] \<and> length f < END_FLAG_SIZE) (parse_end_flags v) \<and>
   (check_end_flags (parse_end_flags v) line = None \<longleftrightarrow>
      \<not> list_ex (\<lambda>f. trim_line line = f \<or> has_prefix (trim_line line) (f @ '' '') \<or>
                     has_prefix (trim_line line) (f @ [CHR 0x09])) (parse_end_flags v))"
proof -
  have ne: "f \<noteq> []" if "f \<in> set (parse_end_flags v)" for f
    using parse_end_flags_ok(3) [OF that] ..
  have "check_end_flags (parse_end_flags v) line = None \<longleftrightarrow>
     (\<forall>f \<in> set (parse_end_flags v). \<not> flag_matches (trim_line line) f)"
    by (auto simp: check_end_flags_def find_None_iff)
  moreover have "flag_matches (trim_line line) f \<longleftrightarrow> trim_line line = f \<or> has_prefix (trim_line line) (f @ '' '') \<or>
                     has_prefix (trim_line line) (f @ [CHR 0x09])" if "f \<in> set (parse_end_flags v)" for f
    using ne [OF that] by (simp add: flag_matches_iff)
  ultimately show ?thesis
    using parse_end_flags_ok(1,2) [of v] parse_end_flags_ok(3) [of _ v]
    by (auto simp: list_all_iff list_ex_iff)
qed

text \<open>A raw command travels unchanged: the hexadecimal form of any bytes is accepted and
  decodes to exactly those bytes.\<close>

lemma at_hex_round_trip: "hex_to_string (concat (map byte_hex bytes)) = Some bytes"
  by (simp add: hex_to_string_def length_hex hex_bytes_hex)

text \<open>C23: opening, closing, monitoring, sending and reading never leak a descriptor: the process
  holds exactly the descriptor the port records, or none, and a port that is marked open has a
  descriptor and a running reader.\<close>

theorem at_port_no_leak:
  assumes "reach port_start port_step (p, fds)"
  shows "fds = (if ap_fd p \<ge> 0 then {ap_fd p} else {}) \<and> (ap_is_open p \<longrightarrow> ap_fd p \<ge> 0 \<and> ap_reader_valid p)"
  using ports.reach_inv [OF assms] by (simp add: port_ok_def held_def)

definition sample_port_env :: port_env where
  "sample_port_env = \<lparr>pv_self_is_reader = False, pv_fd_valid = True, pv_file_exists = True, pv_open = 5,
     pv_termios = \<lparr>ls_speed = 9600, ls_csize = 8, ls_parenb = False, ls_parodd = False, ls_cstopb = False,
       ls_clocal_cread = False, ls_canonical_echo = True, ls_flow_and_cr_mapping = True, ls_opost = True,
       ls_vmin = 1, ls_vtime = 0\<rparr>,
     pv_thread_created = True, pv_time = 100\<rparr>"

theorem at_port_no_leak_witness:
  "let r = open_at_port sample_port_env (new_port_instance 7 0 ''/dev/ttyUSB2'') 115200 8 0 1
   in ap_is_open (fst (snd r)) \<and> fold fd_apply (snd (snd r)) {} = {5}"
proof -
  let ?p = "new_port_instance 7 0 ''/dev/ttyUSB2''"
  let ?r = "open_at_port sample_port_env ?p 115200 8 0 1"
  have "reach port_start port_step (?p, {})"
    by (rule reach_init) (auto simp: port_start_def)
  moreover have "port_step (?p, {}) (fst (snd ?r), fold fd_apply (snd (snd ?r)) {})"
    by (rule port_open [of sample_port_env _ 115200 8 0 1 "fst ?r"]) simp
  ultimately have "reach port_start port_step (fst (snd ?r), fold fd_apply (snd (snd ?r)) {})"
    by (rule reach_step)
  moreover have "ap_is_open (fst (snd ?r))" "ap_fd (fst (snd ?r)) = 5" by code_simp+
  ultimately show ?thesis
    using at_port_no_leak [of "fst (snd ?r)" "fold fd_apply (snd (snd ?r)) {}"] by (simp add: Let_def)
qed
end
