(* ===== verification/G711.thy ===== *)
theory G711
  imports QModem_Prelude
begin

text \<open>
  The audio codecs of \<open>application/voipd/src/g711.h\<close>: G.711 \<open>\<mu>\<close>-law and A-law, one
  16-bit sample to one byte and back.

  The C code computes in \<open>int\<close>; no intermediate value leaves its range, so the model uses
  unbounded integers and reads and writes samples as signed 16-bit words.
\<close>

unbundle bit_operations_syntax

type_synonym i16 = "16 word"

text \<open>The loop both encoders use to find the segment of a magnitude.\<close>

fun find_exponent :: "nat \<Rightarrow> int \<Rightarrow> nat" where
  "find_exponent 0 sample = 0"
| "find_exponent (Suc e) sample = (if bit sample (Suc e + 7) then Suc e else find_exponent e sample)"

definition qmodem_g711_ulaw_encode :: "i16 \<Rightarrow> u8" where
  "qmodem_g711_ulaw_encode v =
     (let sign = (sint v < 0);
          sample = (if sign then - sint v else sint v);
          sample = (if sample > 32635 then 32635 else sample);
          sample = sample + 132;
          exponent = find_exponent 7 sample;
          mantissa = drop_bit (exponent + 3) sample AND 15
      in NOT (word_of_int (push_bit 7 (if sign then 1 else 0) OR push_bit 4 (int exponent) OR mantissa)))"

definition qmodem_g711_ulaw_decode :: "u8 \<Rightarrow> i16" where
  "qmodem_g711_ulaw_decode v =
     (let sample = push_bit 3 (NOT (uint v) AND 15) + 132;
          exponent = nat (drop_bit 4 (NOT (uint v)) AND 7);
          sample = push_bit exponent sample
      in word_of_int (if NOT (uint v) AND 128 \<noteq> 0 then 132 - sample else sample - 132))"

definition qmodem_g711_alaw_encode :: "i16 \<Rightarrow> u8" where
  "qmodem_g711_alaw_encode v =
     (let sign = (sint v \<ge> 0);
          sample = (if sign then sint v else - sint v - 1);
          sample = (if sample > 32767 then 32767 else sample);
          exponent = find_exponent 7 sample;
          mantissa = (if exponent \<noteq> 0 then drop_bit (exponent + 3) sample AND 15 else drop_bit 4 sample AND 15)
      in word_of_int ((push_bit 7 (if sign then 1 else 0) OR push_bit 4 (int exponent) OR mantissa) XOR 0x55))"

definition qmodem_g711_alaw_decode :: "u8 \<Rightarrow> i16" where
  "qmodem_g711_alaw_decode v =
     (let data = uint v XOR 0x55;
          sample = push_bit 4 (data AND 15);
          exponent = nat (drop_bit 4 data AND 7);
          sample = (if exponent = 0 then sample + 8
                    else if exponent = 1 then sample + 0x108
                    else push_bit (exponent - 1) (sample + 0x108))
      in word_of_int (if data AND 128 \<noteq> 0 then sample else - sample))"

section \<open>Segments\<close>

lemma and_15: "(x::int) AND 15 = x mod 16" and and_7: "(x::int) AND 7 = x mod 8"
  using take_bit_eq_mask [of 4 x] take_bit_eq_mask [of 3 x]
  by (simp_all add: take_bit_eq_mod mask_eq_exp_minus_1)

lemma bit_top:
  assumes "0 \<le> (s::int)" "s < 2 ^ Suc n"
  shows "bit s n \<longleftrightarrow> 2 ^ n \<le> s"
proof (cases "2 ^ n \<le> s")
  case True
  have "(s - 2 ^ n) div 2 ^ n = 0" using True assms by (intro div_pos_pos_trivial) auto
  moreover have "s div 2 ^ n = (s - 2 ^ n) div 2 ^ n + 1"
    using div_add_self2 [of "2 ^ n" "s - 2 ^ n"] by simp
  ultimately show ?thesis using True by (simp add: bit_iff_odd)
next
  case False
  then show ?thesis using assms by (simp add: bit_iff_odd div_pos_pos_trivial)
qed

lemma find_exponent_spec:
  "0 \<le> s \<Longrightarrow> s < 2 ^ (k + 8) \<Longrightarrow>
   find_exponent k s \<le> k \<and> s < 2 ^ (find_exponent k s + 8) \<and> (0 < find_exponent k s \<longrightarrow> 2 ^ (find_exponent k s + 7) \<le> s)"
proof (induction k)
  case (Suc k)
  have "bit s (Suc k + 7) \<longleftrightarrow> 2 ^ (Suc k + 7) \<le> s"
    using Suc.prems by (intro bit_top) (simp_all add: add.commute)
  then show ?case
    using Suc by (cases "bit s (Suc k + 7)") (auto simp: not_le add.commute)
qed simp

text \<open>A magnitude of segment \<open>e\<close>, cut into sixteen steps.\<close>

lemma segment_unique:
  assumes "e \<le> 7" "0 \<le> m" "m < 16" "0 \<le> r" "r < 2 ^ (e + 3)"
    and s: "s = (16 + m) * 2 ^ (e + 3) + r"
  shows "find_exponent 7 s = e" "drop_bit (e + 3) s AND 15 = m" "0 \<le> s" "s < 2 ^ 15"
proof -
  have p: "(2::int) ^ (e + 3) > 0" by simp
  have lo: "2 ^ (e + 7) \<le> s"
  proof -
    have "(2::int) ^ (e + 7) = 16 * 2 ^ (e + 3)" by (simp add: power_add)
    also have "\<dots> \<le> (16 + m) * 2 ^ (e + 3)" using assms(2) p by (intro mult_right_mono) auto
    finally show ?thesis using assms(4) s by simp
  qed
  have hi: "s < 2 ^ (e + 8)"
  proof -
    have "s < (16 + m) * 2 ^ (e + 3) + 2 ^ (e + 3)" using s assms(5) by simp
    also have "\<dots> = (17 + m) * 2 ^ (e + 3)" by (simp add: algebra_simps)
    also have "\<dots> \<le> 32 * 2 ^ (e + 3)" using assms(3) p by (intro mult_right_mono) auto
    finally show ?thesis by (simp add: power_add)
  qed
  show nn: "0 \<le> s" using lo by (smt (verit) zero_less_power)
  have "(2::int) ^ (e + 8) \<le> 2 ^ 15" using assms(1) by (intro power_increasing) auto
  then show big: "s < 2 ^ 15" using hi by simp
  define f where "f = find_exponent 7 s"
  have f: "f \<le> 7" "s < 2 ^ (f + 8)" "0 < f \<longrightarrow> 2 ^ (f + 7) \<le> s"
    using find_exponent_spec [of s 7] nn big by (auto simp: f_def)
  have "\<not> f < e"
  proof
    assume "f < e"
    then have "(2::int) ^ (f + 8) \<le> 2 ^ (e + 7)" by (intro power_increasing) auto
    with f(2) lo show False by simp
  qed
  moreover have "\<not> e < f"
  proof
    assume "e < f"
    then have "(2::int) ^ (e + 8) \<le> 2 ^ (f + 7)" by (intro power_increasing) auto
    with f(3) hi \<open>e < f\<close> show False by simp
  qed
  ultimately show "find_exponent 7 s = e" by (simp add: f_def)
  have "s div 2 ^ (e + 3) = 16 + m"
    using s assms(4,5) by (simp add: div_pos_pos_trivial)
  then have "drop_bit (e + 3) s AND 15 = (16 + m) mod 16"
    by (simp add: drop_bit_eq_div and_15)
  then show "drop_bit (e + 3) s AND 15 = m" using assms(2,3) by simp
qed


section \<open>Codes\<close>

text \<open>Sign, segment and step of a code as one number.\<close>

definition g711_code :: "bool \<Rightarrow> nat \<Rightarrow> int \<Rightarrow> int" where
  "g711_code s e m = 128 * (if s then 1 else 0) + 16 * int e + m"

lemma or_low:
  assumes "0 \<le> m" "m < 2 ^ n"
  shows "push_bit n a OR m = 2 ^ n * a + (m::int)"
proof -
  have "take_bit n m = m" using assms by (simp add: take_bit_int_eq_self_iff)
  then show ?thesis
    using concat_bit_eq [of n m a] concat_bit_def [of n m a]
    by (simp add: or.commute push_bit_eq_mult algebra_simps)
qed

lemma code_or:
  assumes "e \<le> 7" "0 \<le> m" "m < 16"
  shows "push_bit 7 (if s then 1 else 0) OR push_bit 4 (int e) OR m = g711_code s e m"
proof -
  have "push_bit 4 (int e) OR m = 16 * int e + m" using or_low [of m 4 "int e"] assms by simp
  moreover have "16 * int e + m < 2 ^ 7" using assms by simp
  ultimately show ?thesis
    using or_low [of "16 * int e + m" 7 "if s then 1 else 0"] assms by (simp add: g711_code_def)
qed

lemma code_range: "e \<le> 7 \<Longrightarrow> 0 \<le> m \<Longrightarrow> m < 16 \<Longrightarrow> 0 \<le> g711_code s e m \<and> g711_code s e m < 256"
  by (simp add: g711_code_def)

lemma code_split:
  "g711_code s e m - 256 * k = m + 16 * (int e + 8 * ((if s then 1 else 0) - 2 * k))"
  "g711_code s e m - 256 * k = (16 * int e + m) + 128 * ((if s then 1 else 0) - 2 * k)"
  by (simp_all add: g711_code_def algebra_simps)

lemma code_fields:
  assumes "e \<le> 7" "0 \<le> m" "m < 16"
  shows "(g711_code s e m - 256 * k) mod 16 = m" "(g711_code s e m - 256 * k) div 16 mod 8 = int e"
    "(g711_code s e m - 256 * k) AND 128 \<noteq> 0 \<longleftrightarrow> s"
proof -
  show "(g711_code s e m - 256 * k) mod 16 = m"
    unfolding code_split(1) mod_mult_self2 using assms by simp
  have "(g711_code s e m - 256 * k) div 16 = int e + 8 * ((if s then 1 else 0) - 2 * k)"
    unfolding code_split(1) using assms by (subst div_mult_self2) simp_all
  also have "\<dots> mod 8 = int e" using assms by (simp only: mod_mult_self2) simp
  finally show "(g711_code s e m - 256 * k) div 16 mod 8 = int e" .
  have "(g711_code s e m - 256 * k) AND 128 \<noteq> 0 \<longleftrightarrow> bit (g711_code s e m - 256 * k) 7"
    using bit_iff_and_push_bit_not_eq_0 [of "g711_code s e m - 256 * k" 7] by simp
  also have "(g711_code s e m - 256 * k) div 128 = (if s then 1 else 0) - 2 * k"
    unfolding code_split(2) using assms by (subst div_mult_self2) simp_all
  then have "bit (g711_code s e m - 256 * k) 7 \<longleftrightarrow> s" by (simp add: bit_iff_odd)
  finally show "(g711_code s e m - 256 * k) AND 128 \<noteq> 0 \<longleftrightarrow> s" .
qed

lemma code_bits:
  assumes "e \<le> 7" "0 \<le> m" "m < 16"
  shows "(g711_code s e m - 256 * k) AND 15 = m" "drop_bit 4 (g711_code s e m - 256 * k) AND 7 = int e"
    "((g711_code s e m - 256 * k) AND 128 \<noteq> 0) = s"
  using code_fields [OF assms, of s k] by (simp_all add: and_15 and_7 drop_bit_eq_div)

lemma code_cases:
  assumes "0 \<le> c" "c < 256"
  obtains s e m where "c = g711_code s e m" "e \<le> 7" "0 \<le> m" "m < 16"
proof
  have "c div 16 div 8 = (if c \<ge> 128 then 1 else 0)"
    using assms by (simp add: zdiv_zmult2_eq [symmetric] div_pos_geq div_pos_pos_trivial)
  with mult_div_mod_eq [of 16 c] mult_div_mod_eq [of 8 "c div 16"]
  have "c = 128 * (if c \<ge> 128 then 1 else 0) + 16 * (c div 16 mod 8) + c mod 16" by linarith
  then show "c = g711_code (c \<ge> 128) (nat (c div 16 mod 8)) (c mod 16)"
    unfolding g711_code_def by simp
qed (use pos_mod_bound [of 8 "c div 16"] in auto)

section \<open>The \<open>\<mu>\<close>-law\<close>

definition ulaw_level :: "nat \<Rightarrow> int \<Rightarrow> int" where
  "ulaw_level e m = (8 * m + 132) * 2 ^ e - 132"

lemma power_le_128: "e \<le> 7 \<Longrightarrow> 1 \<le> (2::int) ^ e \<and> (2::int) ^ e \<le> 128"
  using power_increasing [of e 7 "2::int"] by simp

lemma ulaw_level_range: "e \<le> 7 \<Longrightarrow> 0 \<le> m \<Longrightarrow> m < 16 \<Longrightarrow> 0 \<le> ulaw_level e m \<and> ulaw_level e m \<le> 32124"
proof -
  assume a: "e \<le> 7" "0 \<le> m" "m < 16"
  have "(8 * m + 132) * 2 ^ e \<le> 252 * 128" using a power_le_128 [OF a(1)] by (intro mult_mono) auto
  moreover have "132 * 1 \<le> (8 * m + 132) * 2 ^ e" using a power_le_128 [OF a(1)] by (intro mult_mono) auto
  ultimately show ?thesis by (simp add: ulaw_level_def)
qed

lemma uint_not_code:
  assumes "0 \<le> c" "c < 256"
  shows "NOT (uint (NOT (word_of_int c :: u8))) = c - 256 * 1"
proof -
  have "NOT (word_of_int c :: u8) = word_of_int (255 - c)" by (simp add: not_eq_complement)
  moreover have "uint (word_of_int (255 - c) :: u8) = 255 - c"
    using assms by (subst uint_word_of_int_eq) (simp add: take_bit_int_eq_self_iff)
  ultimately show ?thesis by (simp add: not_int_def)
qed

lemma ulaw_decode_code:
  assumes "e \<le> 7" "0 \<le> m" "m < 16"
  shows "qmodem_g711_ulaw_decode (NOT (word_of_int (g711_code s e m))) =
     word_of_int (if s then - ulaw_level e m else ulaw_level e m)"
proof -
  have "0 \<le> g711_code s e m" "g711_code s e m < 256" using code_range [OF assms] by auto
  note x = uint_not_code [OF this]
  show ?thesis
    unfolding qmodem_g711_ulaw_decode_def Let_def x code_bits [OF assms] nat_int push_bit_eq_mult ulaw_level_def
    by (simp add: algebra_simps)
qed

lemma ulaw_encode_code:
  assumes "e \<le> 7" "0 \<le> m" "m < 16" "0 \<le> r" "r < 2 ^ (e + 3)"
    and "\<bar>sint v\<bar> \<le> 32635" "\<bar>sint v\<bar> + 132 = (16 + m) * 2 ^ (e + 3) + r"
  shows "qmodem_g711_ulaw_encode v = NOT (word_of_int (g711_code (sint v < 0) e m))"
proof -
  have "(if sint v < 0 then - sint v else sint v) = \<bar>sint v\<bar>" by simp
  moreover note segment_unique [OF assms(1-5) refl] code_or [OF assms(1-3), of "sint v < 0"]
  ultimately show ?thesis
    using assms(6) unfolding qmodem_g711_ulaw_encode_def Let_def assms(7) by (simp add: assms(7))
qed


lemma sint_small: "- 32768 \<le> i \<Longrightarrow> i < 32768 \<Longrightarrow> sint (word_of_int i :: i16) = i"
  by (simp add: sint_sbintrunc' signed_take_bit_int_eq_self)

lemma sint_range: "- 32768 \<le> sint (v :: i16) \<and> sint v < 32768"
  using sint_greater_eq [of v] sint_less [of v] by simp

text \<open>Every magnitude of at least 132 lies in one step of one segment.\<close>

lemma segment_exists:
  assumes "128 \<le> (s::int)" "s < 2 ^ 15"
  obtains e m r where "e \<le> 7" "0 \<le> m" "m < 16" "0 \<le> r" "r < 2 ^ (e + 3)" "s = (16 + m) * 2 ^ (e + 3) + r"
proof -
  define e where "e = find_exponent 7 s"
  have e: "e \<le> 7" "s < 2 ^ (e + 8)" "2 ^ (e + 7) \<le> s"
    using find_exponent_spec [of s 7] assms by (cases "find_exponent 7 s"; auto simp: e_def)+
  have p: "(2::int) ^ (e + 3) > 0" by simp
  have "s div 2 ^ (e + 3) < 32"
  proof (rule ccontr)
    assume "\<not> s div 2 ^ (e + 3) < 32"
    then have "32 * 2 ^ (e + 3) \<le> s div 2 ^ (e + 3) * 2 ^ (e + 3)" by (intro mult_right_mono) auto
    also have "\<dots> \<le> s" using div_mult_mod_eq [of s "2 ^ (e + 3)"] pos_mod_sign [OF p, of s] by linarith
    finally show False using e(2) by (simp add: power_add)
  qed
  moreover have "16 \<le> s div 2 ^ (e + 3)"
    using e(3) zdiv_mono1 [of "16 * 2 ^ (e + 3)" s "2 ^ (e + 3)"] p by (simp add: power_add)
  moreover have "s = (16 + (s div 2 ^ (e + 3) - 16)) * 2 ^ (e + 3) + s mod 2 ^ (e + 3)"
    using div_mult_mod_eq [of s "2 ^ (e + 3)"] by simp
  ultimately show ?thesis
    using that [of e "s div 2 ^ (e + 3) - 16" "s mod 2 ^ (e + 3)"] e(1) by simp
qed

lemma ulaw_middle: "(8 * m + 132) * 2 ^ e = (16 + m) * 2 ^ (e + 3) + (2::int) ^ (e + 2)"
  by (simp add: power_add algebra_simps)

lemma ulaw_level_pos: "e \<le> 7 \<Longrightarrow> 0 \<le> m \<Longrightarrow> m < 16 \<Longrightarrow> ulaw_level e m = 0 \<longleftrightarrow> e = 0 \<and> m = 0"
proof
  assume a: "e \<le> 7" "0 \<le> m" "m < 16" "ulaw_level e m = 0"
  then have eq: "(8 * m + 132) * 2 ^ e = 132" by (simp add: ulaw_level_def)
  have "132 * 2 ^ e \<le> (8 * m + 132) * 2 ^ e" using a by (intro mult_right_mono) auto
  with eq have "(2::int) ^ e \<le> 1" by simp
  moreover have "(2::int) ^ e \<ge> 2" if "e \<noteq> 0" using that power_increasing [of 1 e "2::int"] by simp
  ultimately have "e = 0" by force
  with eq show "e = 0 \<and> m = 0" by simp
qed (simp add: ulaw_level_def)

lemma ulaw_code_round_trip:
  assumes "b \<noteq> 0x7f"
  shows "qmodem_g711_ulaw_encode (qmodem_g711_ulaw_decode b) = b"
proof -
  have "0 \<le> uint b" "uint b < 256" using uint_lt2p [of b] by simp_all
  then have r: "0 \<le> 255 - uint b" "255 - uint b < 256" by linarith+
  then obtain s e m where c: "255 - uint b = g711_code s e m" and em: "e \<le> 7" "0 \<le> m" "m < 16"
    by (rule code_cases)
  have b: "b = NOT (word_of_int (g711_code s e m))"
    unfolding c [symmetric] by (simp add: not_eq_complement)
  define l where "l = (if s then - ulaw_level e m else ulaw_level e m)"
  have d: "qmodem_g711_ulaw_decode b = word_of_int l" unfolding b l_def by (rule ulaw_decode_code [OF em])
  have lr: "0 \<le> ulaw_level e m" "ulaw_level e m \<le> 32124" using ulaw_level_range [OF em] by auto
  then have sl: "sint (word_of_int l :: i16) = l" by (intro sint_small) (auto simp: l_def)
  have al: "\<bar>l\<bar> = ulaw_level e m" using lr by (simp add: l_def)
  have "\<bar>l\<bar> + 132 = (16 + m) * 2 ^ (e + 3) + 2 ^ (e + 2)"
    unfolding al using ulaw_middle [of m e] by (simp add: ulaw_level_def)
  then have "qmodem_g711_ulaw_encode (word_of_int l) = NOT (word_of_int (g711_code (l < 0) e m))"
    using ulaw_encode_code [of e m "2 ^ (e + 2)" "word_of_int l"] em al lr sl by (simp add: power_add)
  moreover have "(l < 0) = s"
  proof (cases "ulaw_level e m = 0")
    case True
    then have "e = 0" "m = 0" using ulaw_level_pos [OF em] by auto
    then have "s \<Longrightarrow> b = 0x7f" unfolding b by (simp add: g711_code_def)
    then show ?thesis using assms True by (auto simp: l_def)
  qed (use lr in \<open>auto simp: l_def\<close>)
  ultimately have "qmodem_g711_ulaw_encode (word_of_int l) = b" using b by simp
  then show ?thesis by (simp add: d)
qed

text \<open>Each step is reproduced by its middle, so the error is at most half a step, a thirty-second
  of the biased magnitude.\<close>

lemma ulaw_quantisation:
  assumes "\<bar>sint v\<bar> \<le> 32635"
  shows "32 * \<bar>sint (qmodem_g711_ulaw_decode (qmodem_g711_ulaw_encode v)) - sint v\<bar> \<le> \<bar>sint v\<bar> + 132"
proof -
  have "128 \<le> \<bar>sint v\<bar> + 132" "\<bar>sint v\<bar> + 132 < 2 ^ 15" using assms by auto
  then obtain e m r where em: "e \<le> 7" "0 \<le> m" "m < 16" and r: "0 \<le> r" "r < 2 ^ (e + 3)"
    and s: "\<bar>sint v\<bar> + 132 = (16 + m) * 2 ^ (e + 3) + r" by (rule segment_exists)
  have "qmodem_g711_ulaw_decode (qmodem_g711_ulaw_encode v) =
      word_of_int (if sint v < 0 then - ulaw_level e m else ulaw_level e m)"
    unfolding ulaw_encode_code [OF em r assms s] by (rule ulaw_decode_code [OF em])
  moreover have "sint (word_of_int (if sint v < 0 then - ulaw_level e m else ulaw_level e m) :: i16) =
      (if sint v < 0 then - ulaw_level e m else ulaw_level e m)"
    using ulaw_level_range [OF em] by (intro sint_small) auto
  ultimately have "\<bar>sint (qmodem_g711_ulaw_decode (qmodem_g711_ulaw_encode v)) - sint v\<bar> = \<bar>ulaw_level e m - \<bar>sint v\<bar>\<bar>"
    by (simp add: abs_if)
  also have "ulaw_level e m - \<bar>sint v\<bar> = 2 ^ (e + 2) - r"
    using s ulaw_middle [of m e] by (simp add: ulaw_level_def)
  also have "\<bar>2 ^ (e + 2) - r\<bar> \<le> 2 ^ (e + 2)" using r by (simp add: power_add)
  finally have "32 * \<bar>sint (qmodem_g711_ulaw_decode (qmodem_g711_ulaw_encode v)) - sint v\<bar> \<le> 32 * 2 ^ (e + 2)" by simp
  also have "32 * (2::int) ^ (e + 2) = 16 * 2 ^ (e + 3)" by (simp add: power_add)
  also have "\<dots> \<le> (16 + m) * 2 ^ (e + 3)" using em by (intro mult_right_mono) auto
  also have "\<dots> \<le> \<bar>sint v\<bar> + 132" using s r by simp
  finally show ?thesis .
qed


section \<open>The A-law\<close>

definition alaw_level :: "nat \<Rightarrow> int \<Rightarrow> int" where
  "alaw_level e m = (if e = 0 then 16 * m + 8 else (16 * m + 264) * 2 ^ (e - 1))"

lemma alaw_middle: "0 < e \<Longrightarrow> alaw_level e m = (16 + m) * 2 ^ (e + 3) + (2::int) ^ (e + 2)"
  by (cases e) (simp_all add: alaw_level_def power_add algebra_simps)

lemma alaw_level_range:
  assumes "e \<le> 7" "0 \<le> m" "m < 16"
  shows "8 \<le> alaw_level e m \<and> alaw_level e m \<le> 32256"
proof (cases e)
  case (Suc k)
  have "(2::int) ^ k \<le> 2 ^ 6" using assms(1) Suc by (intro power_increasing) auto
  then have "(16 * m + 264) * 2 ^ k \<le> 504 * 64" using assms by (intro mult_mono) auto
  moreover have "8 * 1 \<le> (16 * m + 264) * 2 ^ k" using assms by (intro mult_mono) auto
  ultimately show ?thesis using Suc by (simp add: alaw_level_def)
qed (use assms in \<open>simp add: alaw_level_def\<close>)

lemma uint_xor_code:
  assumes "0 \<le> c" "c < 256"
  shows "uint (word_of_int (c XOR 0x55) :: u8) XOR 0x55 = c - 256 * 0"
proof -
  have "uint (word_of_int (c XOR 0x55) :: u8) = take_bit 8 c XOR 0x55"
    by (simp add: unsigned_of_int take_bit_xor)
  also have "take_bit 8 c = c" using assms by (simp add: take_bit_int_eq_self_iff)
  finally show ?thesis by (simp add: xor.assoc)
qed

lemma alaw_decode_code:
  assumes "e \<le> 7" "0 \<le> m" "m < 16"
  shows "qmodem_g711_alaw_decode (word_of_int (g711_code s e m XOR 0x55)) =
     word_of_int (if s then alaw_level e m else - alaw_level e m)"
proof -
  have "0 \<le> g711_code s e m" "g711_code s e m < 256" using code_range [OF assms] by auto
  note x = uint_xor_code [OF this]
  show ?thesis
    unfolding qmodem_g711_alaw_decode_def Let_def x code_bits [OF assms] nat_int push_bit_eq_mult alaw_level_def
    by (cases "e = 1") (simp_all add: algebra_simps)
qed

text \<open>The magnitude the encoder works on: zero and the positive samples as they are, the negative ones
  shifted by one.\<close>

definition alaw_magnitude :: "i16 \<Rightarrow> int" where
  "alaw_magnitude v = (if sint v \<ge> 0 then sint v else - sint v - 1)"

lemma alaw_magnitude_range: "0 \<le> alaw_magnitude v \<and> alaw_magnitude v < 2 ^ 15"
  using sint_range [of v] by (simp add: alaw_magnitude_def)

text \<open>Every magnitude lies in one step, below 256 in a step of 16.\<close>

definition alaw_step :: "int \<Rightarrow> nat \<Rightarrow> int \<Rightarrow> bool" where
  "alaw_step s e m \<longleftrightarrow> e \<le> 7 \<and> 0 \<le> m \<and> m < 16 \<and>
     (if e = 0 then 0 \<le> s - 16 * m \<and> s - 16 * m < 16
      else 0 \<le> s - (16 + m) * 2 ^ (e + 3) \<and> s - (16 + m) * 2 ^ (e + 3) < 2 ^ (e + 3))"

lemma alaw_encode_code:
  assumes "alaw_step (alaw_magnitude v) e m"
  shows "qmodem_g711_alaw_encode v = word_of_int (g711_code (sint v \<ge> 0) e m XOR 0x55)"
proof -
  define s where "s = alaw_magnitude v"
  have em: "e \<le> 7" "0 \<le> m" "m < 16" using assms by (auto simp: alaw_step_def)
  have sr: "0 \<le> s" "s < 2 ^ 15" using alaw_magnitude_range by (auto simp: s_def)
  have "find_exponent 7 s = e \<and> (if e \<noteq> 0 then drop_bit (e + 3) s AND 15 else drop_bit 4 s AND 15) = m"
  proof (cases "e = 0")
    case True
    then have s0: "0 \<le> s - 16 * m" "s - 16 * m < 16" using assms by (auto simp: alaw_step_def s_def)
    then have "s < 256" using em by simp
    have "find_exponent 7 s = 0"
    proof (rule ccontr)
      assume "find_exponent 7 s \<noteq> 0"
      then have "2 ^ (find_exponent 7 s + 7) \<le> s" using find_exponent_spec [of s 7] sr by simp
      moreover have "(2::int) ^ 8 \<le> 2 ^ (find_exponent 7 s + 7)"
        using \<open>find_exponent 7 s \<noteq> 0\<close> by (intro power_increasing) auto
      ultimately show False using \<open>s < 256\<close> by simp
    qed
    moreover have "s div 16 = m" using s0 by (intro int_div_pos_eq [of s 16 m "s - 16 * m"]) auto
    ultimately show ?thesis using True em by (simp add: and_15 drop_bit_eq_div)
  next
    case False
    then show ?thesis
      using segment_unique [of e m "s - (16 + m) * 2 ^ (e + 3)" s] em assms
      by (simp add: alaw_step_def s_def)
  qed
  moreover have "(if sint v \<ge> 0 then sint v else - sint v - 1) = s" by (simp add: s_def alaw_magnitude_def)
  moreover have "(if 32767 < s then 32767 else s) = s" using sr by simp
  ultimately show ?thesis
    unfolding qmodem_g711_alaw_encode_def Let_def by (simp only: code_or [OF em] if_True)
qed

lemma alaw_step_exists:
  assumes "0 \<le> s" "s < 2 ^ 15"
  obtains e m where "alaw_step s e m"
proof (cases "s < 256")
  case True
  have "alaw_step s 0 (s div 16)" using True assms pos_mod_bound [of 16 s]
    by (auto simp: alaw_step_def minus_mult_div_eq_mod)
  then show ?thesis by (rule that)
next
  case False
  then obtain e m r where em: "e \<le> 7" "0 \<le> m" "m < 16" "0 \<le> r" "r < 2 ^ (e + 3)"
    and s: "s = (16 + m) * 2 ^ (e + 3) + r" using segment_exists [of s] assms by auto
  have "e \<noteq> 0"
  proof
    assume "e = 0"
    then have "s < 256" using em s by simp
    with False show False by simp
  qed
  with em s have "alaw_step s e m" by (simp add: alaw_step_def)
  then show ?thesis by (rule that)
qed

text \<open>The decoder returns the middle of the step.\<close>

lemma alaw_level_step: "e \<le> 7 \<Longrightarrow> 0 \<le> m \<Longrightarrow> m < 16 \<Longrightarrow> d \<in> {0, 1} \<Longrightarrow> alaw_step (alaw_level e m - d) e m"
proof (cases "e = 0")
  case False
  assume a: "e \<le> 7" "0 \<le> m" "m < 16" "d \<in> {0, 1}"
  have "1 \<le> (2::int) ^ e" by (rule one_le_power) simp
  then have "1 \<le> 4 * (2::int) ^ e" by linarith
  with False a show ?thesis by (auto simp: alaw_step_def alaw_middle power_add)
qed (auto simp: alaw_step_def alaw_level_def)

lemma alaw_code_round_trip: "qmodem_g711_alaw_encode (qmodem_g711_alaw_decode b) = b"
proof -
  have "0 \<le> uint b XOR 0x55" "uint b XOR 0x55 < 256"
    using uint_bounded [of b] uint_ge_0 [of b] XOR_upper [of "uint b" 8 "0x55"] by simp_all
  then obtain s e m where c: "uint b XOR 0x55 = g711_code s e m" and em: "e \<le> 7" "0 \<le> m" "m < 16"
    by (rule code_cases)
  have "g711_code s e m XOR 0x55 = uint b" unfolding c [symmetric] by (simp add: xor.assoc)
  then have b: "b = word_of_int (g711_code s e m XOR 0x55)" by simp
  define l where "l = (if s then alaw_level e m else - alaw_level e m)"
  have d: "qmodem_g711_alaw_decode b = word_of_int l" unfolding b l_def by (rule alaw_decode_code [OF em])
  have lr: "8 \<le> alaw_level e m" "alaw_level e m \<le> 32256" using alaw_level_range [OF em] by auto
  then have sl: "sint (word_of_int l :: i16) = l" by (intro sint_small) (auto simp: l_def)
  have "alaw_magnitude (word_of_int l) = alaw_level e m - (if s then 0 else 1)" "(l \<ge> 0) = s"
    using lr sl by (auto simp: alaw_magnitude_def l_def)
  then have "alaw_step (alaw_magnitude (word_of_int l)) e m" using alaw_level_step [OF em] by simp
  from alaw_encode_code [OF this] have "qmodem_g711_alaw_encode (word_of_int l) = b" using sl \<open>(l \<ge> 0) = s\<close> b by simp
  then show ?thesis by (simp add: d)
qed

lemma alaw_quantisation:
  "32 * \<bar>sint (qmodem_g711_alaw_decode (qmodem_g711_alaw_encode v)) - sint v\<bar> \<le> max 256 \<bar>sint v\<bar> + 32"
proof -
  define s where "s = alaw_magnitude v"
  obtain e m where st: "alaw_step s e m"
    using alaw_step_exists [of s] alaw_magnitude_range [of v] by (auto simp: s_def)
  then have em: "e \<le> 7" "0 \<le> m" "m < 16" by (auto simp: alaw_step_def)
  have "qmodem_g711_alaw_decode (qmodem_g711_alaw_encode v) =
      word_of_int (if sint v \<ge> 0 then alaw_level e m else - alaw_level e m)"
    unfolding alaw_encode_code [OF st [unfolded s_def]] by (rule alaw_decode_code [OF em])
  moreover have "sint (word_of_int (if sint v \<ge> 0 then alaw_level e m else - alaw_level e m) :: i16) =
      (if sint v \<ge> 0 then alaw_level e m else - alaw_level e m)"
    using alaw_level_range [OF em] by (intro sint_small) auto
  ultimately have "\<bar>sint (qmodem_g711_alaw_decode (qmodem_g711_alaw_encode v)) - sint v\<bar> \<le> \<bar>alaw_level e m - s\<bar> + 1"
    by (auto simp: s_def alaw_magnitude_def)
  moreover have "32 * \<bar>alaw_level e m - s\<bar> \<le> max 256 s"
  proof (cases "e = 0")
    case True
    then show ?thesis using st by (auto simp: alaw_step_def alaw_level_def)
  next
    case False
    define r where "r = s - (16 + m) * 2 ^ (e + 3)"
    have r: "0 \<le> r" "r < 2 ^ (e + 3)" using st False by (auto simp: alaw_step_def r_def)
    have "\<bar>alaw_level e m - s\<bar> = \<bar>2 ^ (e + 2) - r\<bar>" using False by (simp add: alaw_middle r_def)
    also have "\<dots> \<le> 2 ^ (e + 2)" using r by (simp add: power_add)
    finally have "32 * \<bar>alaw_level e m - s\<bar> \<le> 16 * 2 ^ (e + 3)" by (simp add: power_add)
    also have "\<dots> \<le> (16 + m) * 2 ^ (e + 3)" using em by (intro mult_right_mono) auto
    also have "\<dots> \<le> s" using r by (simp add: r_def)
    finally show ?thesis by simp
  qed
  moreover have "s \<le> \<bar>sint v\<bar>" by (simp add: s_def alaw_magnitude_def)
  ultimately show ?thesis by (simp add: max_def split: if_splits)
qed

section \<open>Properties\<close>

text \<open>A G.711 byte that is decoded and encoded again is the same byte, for both laws, so a
  gateway that transcodes between the modem and the telephone does not degrade the audio further.
  The \<open>\<mu>\<close>-law code of negative zero becomes the code of zero.\<close>

lemma g711_transcoding_stable:
  "qmodem_g711_alaw_encode (qmodem_g711_alaw_decode b) = b \<and>
   qmodem_g711_ulaw_encode (qmodem_g711_ulaw_decode b) = (if b = 0x7f then 0xff else b)"
proof -
  have "qmodem_g711_ulaw_encode (qmodem_g711_ulaw_decode 0x7f) = 0xff" by code_simp
  then show ?thesis using alaw_code_round_trip ulaw_code_round_trip by simp
qed

text \<open>Coding keeps a sample to within half a step of its segment: the decoded value differs
  from the sample by at most a thirty-second of its magnitude, plus a constant near zero.\<close>

lemma g711_quantisation:
  assumes "\<bar>sint v\<bar> \<le> 32635"
  shows "32 * \<bar>sint (qmodem_g711_ulaw_decode (qmodem_g711_ulaw_encode v)) - sint v\<bar> \<le> \<bar>sint v\<bar> + 132 \<and>
         32 * \<bar>sint (qmodem_g711_alaw_decode (qmodem_g711_alaw_encode v)) - sint v\<bar> \<le> max 256 \<bar>sint v\<bar> + 32"
  using ulaw_quantisation [OF assms] alaw_quantisation by blast

end
