(* ===== verification/Json_Values.thy ===== *)
theory Json_Values
  imports QModem_Prelude
begin

text \<open>
  What the sources use of the JSON library json-c, which is not part of them. The library is a
  parameter: its parser and its printer, the lookup of a member of an object, and the conversions of
  a value to text and to a 64-bit integer. Only the types of values the sources tell apart are
  constructors.
\<close>

datatype json = JNull | JBool bool | JInt int | JString string | JArray "json list"
| JObject "(string \<times> json) list" | JOther

record json_library =
  jl_parse :: "string \<Rightarrow> json option"
  jl_print :: "json \<Rightarrow> string"
  jl_member :: "json \<Rightarrow> string \<Rightarrow> json option"
  jl_string :: "json \<Rightarrow> string option"
  jl_int64 :: "json \<Rightarrow> int"

end
