(* ===== verification/Modem_Profile.thy ===== *)
theory Modem_Profile
  imports Json_Values
begin

text \<open>
  The modem profiles of \<open>application/voipd/src/modem_profile.c\<close>: the built-in profile, loading
  an entry of the profile file, and selecting the profile of the modem that is present.

  Files and directories are arguments holding what was read from them.
\<close>

section \<open>Profiles\<close>

record qmodem_voip_modem_profile =
  pr_model :: string
  pr_usb_id :: string
  pr_method :: string
  pr_socket_path :: string
  pr_idle_clcc_poll :: bool
  pr_interface_number :: u32
  pr_sample_rate :: u32
  pr_frame_ms :: u32
  pr_transfer_bytes :: u32
  pr_transfer_interval_ms :: u32
  pr_qaudmod :: string
  pr_qpcmv :: string
  pr_qpcmv_cfg :: string
  pr_adb_unlock :: bool
  pr_voice_server_media_gate :: bool
  pr_voice_server_restart :: bool
  pr_voice_server_dependency_service :: string
  pr_voice_server_service :: string
  pr_frame_samples :: u32
  pr_frame_bytes :: u32

text \<open>The size of a frame follows from the rate and the duration, in 32-bit arithmetic.\<close>

definition set_frame_size :: "qmodem_voip_modem_profile \<Rightarrow> qmodem_voip_modem_profile" where
  "set_frame_size p = p\<lparr>pr_frame_samples := pr_sample_rate p * pr_frame_ms p div 1000,
     pr_frame_bytes := pr_sample_rate p * pr_frame_ms p div 1000 * 2\<rparr>"

definition qmodem_voip_profile_default :: qmodem_voip_modem_profile where
  "qmodem_voip_profile_default = set_frame_size
     \<lparr>pr_model = ''RM520N-GL'', pr_usb_id = ''2c7c:0801'', pr_method = ''serial_pcm'', pr_socket_path = [],
      pr_idle_clcc_poll = False, pr_interface_number = 1, pr_sample_rate = 8000, pr_frame_ms = 20,
      pr_transfer_bytes = 1024, pr_transfer_interval_ms = 60, pr_qaudmod = ''2'', pr_qpcmv = ''1,0'',
      pr_qpcmv_cfg = ''8000,20'', pr_adb_unlock = False, pr_voice_server_media_gate = False,
      pr_voice_server_restart = False, pr_voice_server_dependency_service = [],
      pr_voice_server_service = ''quectel-voice-server.service'', pr_frame_samples = 0, pr_frame_bytes = 0\<rparr>"

text \<open>The string kept in a buffer of \<open>size\<close> bytes: an absent or empty value leaves it.\<close>

definition copy_string :: "string \<Rightarrow> string option \<Rightarrow> nat \<Rightarrow> string" where
  "copy_string target v sz = (case v of None \<Rightarrow> target | Some s \<Rightarrow> if s = [] then target else c_copy sz s)"

text \<open>\<open>(unsigned)strtoul(s, NULL, 10)\<close> with a 64-bit \<open>unsigned long\<close>.\<close>

definition strtoul10 :: "string \<Rightarrow> u32" where
  "strtoul10 s =
     (let t = dropWhile is_space s;
          neg = (t \<noteq> [] \<and> hd t = CHR ''-'');
          u = (if t \<noteq> [] \<and> (hd t = CHR ''-'' \<or> hd t = CHR ''+'') then tl t else t);
          v = digits_value 0 (takeWhile is_digit u)
      in if v \<ge> 2 ^ 64 then - 1 else word_of_int (if neg then - v else v))"

definition json_unsigned :: "json \<Rightarrow> u32" where
  "json_unsigned j = (case j of JInt n \<Rightarrow> word_of_int n | JBool b \<Rightarrow> (if b then 1 else 0)
     | JString s \<Rightarrow> strtoul10 s | _ \<Rightarrow> 0)"

definition service_char :: "char \<Rightarrow> bool" where
  "service_char c \<longleftrightarrow> is_alnum c \<or> c \<in> set ''-_.@''"

definition service_name_valid :: "string \<Rightarrow> bool" where
  "service_name_valid s \<longleftrightarrow> s \<noteq> [] \<and> is_alnum (hd s) \<and> list_all service_char s"

section \<open>Loading an entry\<close>

text \<open>Whether an entry is the one asked for; \<open>None\<close> asks for any model or identifier.\<close>

definition entry_matches :: "json_library \<Rightarrow> string option \<Rightarrow> string option \<Rightarrow> json \<Rightarrow> bool" where
  "entry_matches lib model usb_id entry =
     (case (entry, jl_member lib entry ''model'') of
        (JObject _, Some m) \<Rightarrow>
         (let entry_model = jl_string lib m;
              entry_usb = (case jl_member lib entry ''usb_id'' of Some (JString s) \<Rightarrow> jl_string lib (JString s) | _ \<Rightarrow> None)
          in \<not> (model \<noteq> None \<and> entry_model \<noteq> None \<and> entry_model \<noteq> model) \<and>
             \<not> (entry_usb \<noteq> None \<and> usb_id \<noteq> None \<and> entry_usb \<noteq> usb_id))
      | _ \<Rightarrow> False)"

text \<open>Setting a text or number of the profile from an optional member.\<close>

definition text_member :: "json_library \<Rightarrow> json \<Rightarrow> string \<Rightarrow> nat \<Rightarrow> string \<Rightarrow> string" where
  "text_member lib j name sz old =
     (case jl_member lib j name of None \<Rightarrow> old | Some v \<Rightarrow> copy_string old (jl_string lib v) sz)"

definition number_member :: "json_library \<Rightarrow> json \<Rightarrow> string \<Rightarrow> u32 \<Rightarrow> u32" where
  "number_member lib j name old = (case jl_member lib j name of None \<Rightarrow> old | Some v \<Rightarrow> json_unsigned v)"

definition flag_member :: "json_library \<Rightarrow> json \<Rightarrow> string \<Rightarrow> bool \<Rightarrow> bool" where
  "flag_member lib j name old = (case jl_member lib j name of None \<Rightarrow> old | Some v \<Rightarrow> json_unsigned v \<noteq> 0)"

definition entry_identity :: "json_library \<Rightarrow> json \<Rightarrow> qmodem_voip_modem_profile \<Rightarrow> qmodem_voip_modem_profile" where
  "entry_identity lib entry p =
     p\<lparr>pr_model := (case jl_member lib entry ''model'' of
          Some m \<Rightarrow> (case jl_string lib m of Some s \<Rightarrow> c_copy 64 s | None \<Rightarrow> pr_model p) | None \<Rightarrow> pr_model p),
       pr_usb_id := (case jl_member lib entry ''usb_id'' of
          Some (JString s) \<Rightarrow> (case jl_string lib (JString s) of Some u \<Rightarrow> c_copy 32 u | None \<Rightarrow> pr_usb_id p)
        | _ \<Rightarrow> pr_usb_id p)\<rparr>"

definition entry_audio :: "json_library \<Rightarrow> json \<Rightarrow> json \<Rightarrow> qmodem_voip_modem_profile \<Rightarrow> qmodem_voip_modem_profile" where
  "entry_audio lib entry audio p =
     p\<lparr>pr_method := text_member lib audio ''method'' 16 ''serial_pcm'',
       pr_socket_path := text_member lib audio ''socket_path'' 108 (pr_socket_path p),
       pr_idle_clcc_poll := flag_member lib entry ''idle_clcc_poll'' (pr_idle_clcc_poll p),
       pr_interface_number := (case jl_member lib audio ''interface_number'' of
          None \<Rightarrow> pr_interface_number p | Some v \<Rightarrow> word_of_int (jl_int64 lib v)),
       pr_sample_rate := number_member lib audio ''sample_rate'' (pr_sample_rate p),
       pr_frame_ms := number_member lib audio ''frame_ms'' (pr_frame_ms p),
       pr_transfer_bytes := number_member lib audio ''transfer_bytes'' (pr_transfer_bytes p),
       pr_transfer_interval_ms := number_member lib audio ''transfer_interval_ms'' (pr_transfer_interval_ms p),
       pr_qaudmod := text_member lib audio ''qaudmod'' 16 (pr_qaudmod p),
       pr_qpcmv := text_member lib audio ''qpcmv'' 32 (pr_qpcmv p),
       pr_qpcmv_cfg := text_member lib audio ''qpcmv_cfg'' 32 (pr_qpcmv_cfg p)\<rparr>"

definition entry_services :: "json_library \<Rightarrow> json \<Rightarrow> qmodem_voip_modem_profile \<Rightarrow> qmodem_voip_modem_profile" where
  "entry_services lib entry p =
     p\<lparr>pr_adb_unlock := flag_member lib entry ''adb_unlock'' (pr_adb_unlock p),
       pr_voice_server_media_gate := flag_member lib entry ''voice_server_media_gate'' (pr_voice_server_media_gate p),
       pr_voice_server_restart := flag_member lib entry ''voice_server_restart'' (pr_voice_server_restart p),
       pr_voice_server_dependency_service :=
         text_member lib entry ''voice_server_dependency_service'' 96 (pr_voice_server_dependency_service p),
       pr_voice_server_service := text_member lib entry ''voice_server_service'' 96 (pr_voice_server_service p)\<rparr>"

definition services_refused :: "qmodem_voip_modem_profile \<Rightarrow> bool" where
  "services_refused p \<longleftrightarrow> (pr_voice_server_media_gate p \<and> \<not> pr_adb_unlock p) \<or>
     (pr_voice_server_dependency_service p \<noteq> [] \<and> \<not> service_name_valid (pr_voice_server_dependency_service p)) \<or>
     (pr_voice_server_restart p \<and> \<not> service_name_valid (pr_voice_server_service p))"

definition load_entry ::
  "json_library \<Rightarrow> json \<Rightarrow> qmodem_voip_modem_profile \<Rightarrow> int \<times> qmodem_voip_modem_profile" where
  "load_entry lib entry p =
     (case jl_member lib entry ''audio'' of
        Some (JObject members) \<Rightarrow>
          let p1 = entry_services lib entry (entry_audio lib entry (JObject members) (entry_identity lib entry p)) in
          if services_refused p1 then (-1, p1)
          else let p2 = set_frame_size p1 in
          if pr_method p2 = ''pcm_socket'' then
            (if pr_socket_path p2 = [] \<or> hd (pr_socket_path p2) \<noteq> CHR ''/'' \<or> pr_sample_rate p2 \<noteq> 8000 \<or>
                pr_frame_ms p2 \<noteq> 20 then -1 else 0, p2)
          else (if pr_interface_number p2 = 0 \<or> pr_sample_rate p2 = 0 \<or> pr_frame_samples p2 = 0 \<or>
                   pr_frame_bytes p2 = 0 \<or> pr_transfer_bytes p2 = 0 \<or> pr_transfer_interval_ms p2 = 0
                then -1 else 0, p2)
      | _ \<Rightarrow> (-1, p))"

text \<open>\<open>file\<close> is the text of the profile file, if it could be read.\<close>

definition qmodem_voip_profile_load ::
  "json_library \<Rightarrow> string option \<Rightarrow> string option \<Rightarrow> string option \<Rightarrow> qmodem_voip_modem_profile
   \<Rightarrow> int \<times> qmodem_voip_modem_profile" where
  "qmodem_voip_profile_load lib file model usb_id p =
     (case file of
        None \<Rightarrow> (-1, p)
      | Some body \<Rightarrow>
          if body = [] \<or> length body > 65536 then (-1, p)
          else case jl_parse lib body of
            None \<Rightarrow> (-1, p)
          | Some root \<Rightarrow>
              (case jl_member lib root ''modems'' of
                 Some (JArray entries) \<Rightarrow>
                   (case List.find (entry_matches lib model usb_id) entries of
                      None \<Rightarrow> (-1, p)
                    | Some entry \<Rightarrow> load_entry lib entry p)
               | _ \<Rightarrow> (-1, p)))"

section \<open>Selecting the profile\<close>

definition without_line_end :: "string \<Rightarrow> string" where
  "without_line_end s = takeWhile (\<lambda>c. c \<noteq> CHR 0x0D \<and> c \<noteq> CHR 0x0A) s"

definition slot_char :: "char \<Rightarrow> bool" where
  "slot_char c \<longleftrightarrow> is_digit c \<or> c = CHR ''.'' \<or> c = CHR ''-''"

text \<open>\<open>lines\<close> are the successive results of \<open>fgets\<close> on the journal; the last slot wins.\<close>

definition journal_slot :: "string list option \<Rightarrow> nat \<Rightarrow> string option" where
  "journal_slot lines sz =
     (case lines of
        None \<Rightarrow> None
      | Some ls \<Rightarrow> fold (\<lambda>l found.
          if \<not> has_prefix l ''slot='' then found
          else let s = without_line_end (drop 5 l)
               in if s \<noteq> [] \<and> length s < sz \<and> list_all slot_char s then Some s else found) ls None)"

definition hex_digit_char :: "char \<Rightarrow> bool" where
  "hex_digit_char c \<longleftrightarrow> is_digit c \<or> c \<in> set ''abcdefABCDEF''"

text \<open>\<open>line\<close> is the first line of the file, if it can be read; \<open>fgets\<close> keeps
  \<open>size - 1\<close> characters of it.\<close>

definition sysfs_hex :: "string option \<Rightarrow> nat \<Rightarrow> string option" where
  "sysfs_hex line sz =
     (case line of
        None \<Rightarrow> None
      | Some l \<Rightarrow> let v = without_line_end (c_copy sz l) in if v \<noteq> [] \<and> list_all hex_digit_char v then Some v else None)"

text \<open>\<open>sysfs slot name\<close> is the first line of that attribute of the device.\<close>

definition load_for_slot ::
  "json_library \<Rightarrow> string option \<Rightarrow> (string \<Rightarrow> string \<Rightarrow> string option) \<Rightarrow> string \<Rightarrow> int \<times> qmodem_voip_modem_profile" where
  "load_for_slot lib file sysfs slot =
     (case (sysfs_hex (sysfs slot ''idVendor'') 8, sysfs_hex (sysfs slot ''idProduct'') 8) of
        (Some vendor, Some product) \<Rightarrow>
          qmodem_voip_profile_load lib file None (Some (c_copy 32 (vendor @ '':'' @ product))) qmodem_voip_profile_default
      | _ \<Rightarrow> (-1, qmodem_voip_profile_default))"

text \<open>The first device of the directory whose profile loads.\<close>

fun scan_devices ::
  "json_library \<Rightarrow> string option \<Rightarrow> (string \<Rightarrow> string \<Rightarrow> string option) \<Rightarrow> string list \<Rightarrow> qmodem_voip_modem_profile option" where
  "scan_devices lib file sysfs [] = None"
| "scan_devices lib file sysfs (d # ds) =
     (if d = [] \<or> \<not> list_all slot_char d then scan_devices lib file sysfs ds
      else let (r, p) = load_for_slot lib file sysfs d
           in if r = 0 then Some p else scan_devices lib file sysfs ds)"

definition qmodem_voip_profile_select ::
  "json_library \<Rightarrow> string option \<Rightarrow> (string \<Rightarrow> string \<Rightarrow> string option) \<Rightarrow> string list option \<Rightarrow> string list
   \<Rightarrow> qmodem_voip_modem_profile" where
  "qmodem_voip_profile_select lib file sysfs journal devices =
     (let from_journal = (case journal_slot journal 64 of
            None \<Rightarrow> None
          | Some slot \<Rightarrow> let (r, p) = load_for_slot lib file sysfs slot in if r = 0 then Some p else None)
      in case from_journal of
        Some p \<Rightarrow> p
      | None \<Rightarrow>
          (case scan_devices lib file sysfs devices of
             Some p \<Rightarrow> p
           | None \<Rightarrow>
               let (r, p) = qmodem_voip_profile_load lib file (Some ''RM520N-GL'') (Some ''2c7c:0801'')
                              qmodem_voip_profile_default
               in if r = 0 then p else qmodem_voip_profile_default))"

section \<open>A selected profile is usable\<close>

text \<open>What the media engine and the daemon rely on.\<close>

definition profile_ok :: "qmodem_voip_modem_profile \<Rightarrow> bool" where
  "profile_ok p \<longleftrightarrow> \<not> services_refused p \<and>
     pr_frame_samples p = pr_sample_rate p * pr_frame_ms p div 1000 \<and> pr_frame_bytes p = pr_frame_samples p * 2 \<and>
     (if pr_method p = ''pcm_socket''
      then pr_socket_path p \<noteq> [] \<and> hd (pr_socket_path p) = CHR ''/'' \<and> pr_frame_bytes p = 320
      else pr_interface_number p \<noteq> 0 \<and> pr_frame_bytes p \<noteq> 0 \<and> pr_transfer_bytes p \<noteq> 0 \<and>
           pr_transfer_interval_ms p \<noteq> 0)"

lemma services_set_frame_size [simp]: "services_refused (set_frame_size p) = services_refused p"
  by (simp add: services_refused_def set_frame_size_def)

lemma profile_ok_default: "profile_ok qmodem_voip_profile_default"
  by code_simp

lemma load_entry_ok:
  assumes "load_entry lib entry p = (0, p')"
  shows "profile_ok p'"
proof (cases "jl_member lib entry ''audio''")
  case None
  with assms show ?thesis by (simp add: load_entry_def)
next
  case (Some j)
  show ?thesis
  proof (cases j)
    case (JObject members)
    define p1 where "p1 = entry_services lib entry (entry_audio lib entry (JObject members) (entry_identity lib entry p))"
    show ?thesis
      using assms Some JObject unfolding load_entry_def p1_def [symmetric]
      by (auto simp: Let_def profile_ok_def split: if_splits) (auto simp: set_frame_size_def services_refused_def)
  qed (use assms Some in \<open>simp_all add: load_entry_def\<close>)
qed

lemma profile_load_ok: "qmodem_voip_profile_load lib file model usb_id p = (0, p') \<Longrightarrow> profile_ok p'"
  by (auto simp: qmodem_voip_profile_load_def load_entry_ok split: option.splits if_splits json.splits)

lemma load_for_slot_ok: "load_for_slot lib file sysfs slot = (0, p) \<Longrightarrow> profile_ok p"
  by (auto simp: load_for_slot_def profile_load_ok split: option.splits)

lemma scan_devices_ok: "scan_devices lib file sysfs ds = Some p \<Longrightarrow> profile_ok p"
  by (induction ds) (auto simp: load_for_slot_ok split: if_splits prod.splits)

section \<open>Properties\<close>

text \<open>Whatever the profile file, the journal and the devices hold, the selected profile is
  usable: its frame size is that of its rate, it names an audio path, and the service names it
  passes to commands are empty, unused or made of letters, digits and the characters -, _, . and
  @, so no file can smuggle in a shell command.\<close>

lemma profile_select_usable:
  "profile_ok (qmodem_voip_profile_select lib file sysfs journal devices)"
proof -
  have "profile_ok p" if "(case journal_slot journal 64 of None \<Rightarrow> None
      | Some slot \<Rightarrow> let (r, p) = load_for_slot lib file sysfs slot in if r = 0 then Some p else None) = Some p" for p
    using that load_for_slot_ok by (auto split: option.splits prod.splits if_splits)
  then show ?thesis
    unfolding qmodem_voip_profile_select_def
    by (auto simp: Let_def scan_devices_ok profile_ok_default profile_load_ok split: option.splits prod.splits)
qed

end
