(* ===== verification/Media_Core.thy ===== *)
theory Media_Core
  imports G711 Modem_Profile
begin

text \<open>
  The media engine of the voice daemon, \<open>application/voipd/src/media_core.c\<close> with the types of
  \<open>media.h\<close>: the two queues of 20 ms frames between the modem and the far end, the G.711
  conversion of a frame, resampling, attaching a session to the engine and detaching it, and the
  bookkeeping of received RTP packets.

  The resampling library is a parameter. The analysis of the self-test tone works on floating
  point numbers and is not modelled. A queue whose lock could not be created refuses every
  operation, as in the code; locking itself is taken to succeed.
\<close>

abbreviation QMODEM_VOIP_MEDIA_SAMPLES :: nat where "QMODEM_VOIP_MEDIA_SAMPLES \<equiv> 160"
abbreviation QMODEM_VOIP_MEDIA_QUEUE_FRAMES :: nat where "QMODEM_VOIP_MEDIA_QUEUE_FRAMES \<equiv> 25"

section \<open>Types\<close>

datatype qmodem_voip_media_backend =
  QMODEM_VOIP_MEDIA_BACKEND_NONE | QMODEM_VOIP_MEDIA_BACKEND_UAC | QMODEM_VOIP_MEDIA_BACKEND_SERIAL |
  QMODEM_VOIP_MEDIA_BACKEND_PCM_SOCKET

text \<open>The codec is carried as its RTP payload type, which may also be a number that is no codec.\<close>

abbreviation QMODEM_VOIP_MEDIA_PCMA :: nat where "QMODEM_VOIP_MEDIA_PCMA \<equiv> 8"
abbreviation QMODEM_VOIP_MEDIA_PCMU :: nat where "QMODEM_VOIP_MEDIA_PCMU \<equiv> 0"

datatype qmodem_voip_media_attachment =
  QMODEM_VOIP_MEDIA_ATTACH_NONE | QMODEM_VOIP_MEDIA_ATTACH_BROWSER | QMODEM_VOIP_MEDIA_ATTACH_LAN_SIP |
  QMODEM_VOIP_MEDIA_ATTACH_CELLULAR | QMODEM_VOIP_MEDIA_ATTACH_SOCKET

record qmodem_voip_media_frame =
  fr_samples :: "i16 list"
  fr_sequence :: u64
  fr_timestamp_ms :: u64

record qmodem_voip_media_queue =
  mq_frames :: "qmodem_voip_media_frame list"
  mq_first :: nat
  mq_count :: nat
  mq_next_sequence :: u64
  mq_dropped :: u64
  mq_underruns :: u64
  mq_drift_ppm :: int
  mq_lock_ready :: bool

record qmodem_voip_media_device =
  dv_slot :: string
  dv_pcm_name :: string
  dv_card :: u32
  dv_device :: u32
  dv_capture_rate :: u32
  dv_playback_rate :: u32
  dv_full_duplex :: bool

text \<open>The capture buffer is kept as an array of bytes with the number in use; the playback buffer
  likewise.\<close>

record qmodem_voip_serial_state =
  sr_fd :: int
  sr_active :: bool
  sr_running :: bool
  sr_attached :: bool
  sr_captured_frames :: u64
  sr_poll_wakeups :: u64
  sr_read_bytes :: u64
  sr_read_eagain :: u64
  sr_read_errors :: u64
  sr_write_bytes :: u64
  sr_write_eagain :: u64
  sr_write_errors :: u64
  sr_reopen_count :: u64
  sr_reopen_pending :: bool
  sr_thread_started :: bool
  sr_path :: string
  sr_capture :: "u8 list"
  sr_capture_used :: nat
  sr_playback :: "u8 list"
  sr_playback_used :: nat
  sr_playback_offset :: nat
  sr_next_playback_ms :: u64

record qmodem_voip_pcm_socket_state =
  ps_fd :: int
  ps_next_playback_ms :: u64
  ps_retry_at_ms :: u64
  ps_capture_frames :: u64
  ps_playback_frames :: u64
  ps_connects :: u64
  ps_errors :: u64

record qmodem_voip_rtp_endpoint =
  re_address :: u32
  re_port :: u16
  re_sequence :: u16
  re_timestamp :: u32
  re_ssrc :: u32
  re_codec :: nat
  re_received_packets :: u64
  re_sent_packets :: u64

record qmodem_voip_media_engine =
  me_device :: qmodem_voip_media_device
  me_profile :: qmodem_voip_modem_profile
  me_modem_to_canonical :: qmodem_voip_media_queue
  me_canonical_to_modem :: qmodem_voip_media_queue
  me_rtp :: qmodem_voip_rtp_endpoint
  me_attachment :: qmodem_voip_media_attachment
  me_session_id :: u64
  me_tone_failures :: u64
  me_rtp_received_packets :: u64
  me_rtp_sent_packets :: u64
  me_pcm_handles :: bool
  me_serial :: qmodem_voip_serial_state
  me_pcm_socket :: qmodem_voip_pcm_socket_state
  me_backend :: qmodem_voip_media_backend
  me_ready :: bool
  me_browser_media_ready :: bool

section \<open>Frame queues\<close>

definition zero_frame :: qmodem_voip_media_frame where
  "zero_frame = \<lparr>fr_samples = replicate QMODEM_VOIP_MEDIA_SAMPLES 0, fr_sequence = 0, fr_timestamp_ms = 0\<rparr>"

definition zero_queue :: qmodem_voip_media_queue where
  "zero_queue = \<lparr>mq_frames = replicate QMODEM_VOIP_MEDIA_QUEUE_FRAMES zero_frame, mq_first = 0, mq_count = 0,
     mq_next_sequence = 0, mq_dropped = 0, mq_underruns = 0, mq_drift_ppm = 0, mq_lock_ready = False\<rparr>"

text \<open>\<open>lock\<close> says whether the mutex could be created.\<close>

definition qmodem_voip_media_queue_init :: "bool \<Rightarrow> qmodem_voip_media_queue" where
  "qmodem_voip_media_queue_init lock = zero_queue\<lparr>mq_lock_ready := lock\<rparr>"

text \<open>The oldest frame of a full queue is erased.\<close>

definition media_queue_drop :: "qmodem_voip_media_queue \<Rightarrow> qmodem_voip_media_queue" where
  "media_queue_drop q =
     q\<lparr>mq_frames := (mq_frames q)[mq_first q := zero_frame],
       mq_first := (mq_first q + 1) mod QMODEM_VOIP_MEDIA_QUEUE_FRAMES,
       mq_count := mq_count q - 1, mq_dropped := mq_dropped q + 1\<rparr>"

definition media_queue_store :: "i16 list \<Rightarrow> u64 \<Rightarrow> qmodem_voip_media_queue \<Rightarrow> qmodem_voip_media_queue" where
  "media_queue_store samples timestamp_ms q =
     (let q1 = (if mq_count q = QMODEM_VOIP_MEDIA_QUEUE_FRAMES then media_queue_drop q else q);
          slot = (mq_first q1 + mq_count q1) mod QMODEM_VOIP_MEDIA_QUEUE_FRAMES
      in q1\<lparr>mq_frames := (mq_frames q1)[slot := \<lparr>fr_samples = samples, fr_sequence = mq_next_sequence q1,
              fr_timestamp_ms = timestamp_ms\<rparr>],
            mq_next_sequence := mq_next_sequence q1 + 1, mq_count := mq_count q1 + 1\<rparr>)"

definition qmodem_voip_media_queue_push ::
  "qmodem_voip_media_queue \<Rightarrow> i16 list \<Rightarrow> u64 \<Rightarrow> int \<times> qmodem_voip_media_queue" where
  "qmodem_voip_media_queue_push q samples timestamp_ms =
     (if length samples \<noteq> QMODEM_VOIP_MEDIA_SAMPLES then (-1, q)
      else if \<not> mq_lock_ready q then (-1, q)
      else (0, media_queue_store samples timestamp_ms q))"

definition qmodem_voip_media_queue_pop ::
  "qmodem_voip_media_queue \<Rightarrow> int \<times> qmodem_voip_media_frame \<times> qmodem_voip_media_queue" where
  "qmodem_voip_media_queue_pop q =
     (if \<not> mq_lock_ready q then (-1, zero_frame, q)
      else if mq_count q = 0
      then (1, zero_frame\<lparr>fr_sequence := mq_next_sequence q\<rparr>,
            q\<lparr>mq_next_sequence := mq_next_sequence q + 1, mq_underruns := mq_underruns q + 1\<rparr>)
      else (0, mq_frames q ! mq_first q,
            q\<lparr>mq_frames := (mq_frames q)[mq_first q := zero_frame],
              mq_first := (mq_first q + 1) mod QMODEM_VOIP_MEDIA_QUEUE_FRAMES, mq_count := mq_count q - 1\<rparr>))"

definition qmodem_voip_media_queue_clear :: "qmodem_voip_media_queue \<Rightarrow> qmodem_voip_media_queue" where
  "qmodem_voip_media_queue_clear q =
     (if \<not> mq_lock_ready q then q
      else q\<lparr>mq_frames := replicate QMODEM_VOIP_MEDIA_QUEUE_FRAMES zero_frame, mq_first := 0, mq_count := 0\<rparr>)"

definition qmodem_voip_media_queue_drift :: "qmodem_voip_media_queue \<Rightarrow> int \<Rightarrow> qmodem_voip_media_queue" where
  "qmodem_voip_media_queue_drift q observed_ppm =
     (if \<not> mq_lock_ready q then q
      else let ppm = (if observed_ppm > 100 then 100 else observed_ppm);
               ppm = (if ppm < -100 then -100 else ppm)
           in q\<lparr>mq_drift_ppm := ppm\<rparr>)"

section \<open>Conversions\<close>

definition qmodem_voip_media_g711_encode :: "nat \<Rightarrow> i16 list \<Rightarrow> u8 list option" where
  "qmodem_voip_media_g711_encode codec input =
     (if codec \<noteq> QMODEM_VOIP_MEDIA_PCMA \<and> codec \<noteq> QMODEM_VOIP_MEDIA_PCMU then None
      else Some (map (\<lambda>s. if codec = QMODEM_VOIP_MEDIA_PCMA then qmodem_g711_alaw_encode s
                          else qmodem_g711_ulaw_encode s) input))"

definition qmodem_voip_media_g711_decode :: "nat \<Rightarrow> u8 list \<Rightarrow> i16 list option" where
  "qmodem_voip_media_g711_decode codec input =
     (if codec \<noteq> QMODEM_VOIP_MEDIA_PCMA \<and> codec \<noteq> QMODEM_VOIP_MEDIA_PCMU then None
      else Some (map (\<lambda>b. if codec = QMODEM_VOIP_MEDIA_PCMA then qmodem_g711_alaw_decode b
                          else qmodem_g711_ulaw_decode b) input))"

text \<open>\<open>soxr input_rate output_rate input capacity\<close> is what the resampling library writes, if it
  reports no error. The products are 64-bit in the code and stay far below that.\<close>

definition qmodem_voip_media_resample ::
  "(nat \<Rightarrow> nat \<Rightarrow> i16 list \<Rightarrow> nat \<Rightarrow> i16 list option) \<Rightarrow> i16 list \<Rightarrow> nat \<Rightarrow> nat \<Rightarrow> nat \<Rightarrow> i16 list option" where
  "qmodem_voip_media_resample soxr input input_rate output_capacity output_rate =
     (if input_rate = 0 \<or> output_rate = 0 then None
      else let required = (length input * output_rate + input_rate div 2) div input_rate in
      if required = 0 \<or> required > output_capacity then None
      else case soxr input_rate output_rate input output_capacity of
             None \<Rightarrow> None
           | Some output \<Rightarrow> if length output \<noteq> required then None else Some output)"

section \<open>The engine\<close>

definition qmodem_voip_media_attach ::
  "qmodem_voip_media_engine \<Rightarrow> qmodem_voip_media_attachment \<Rightarrow> u64 \<Rightarrow> int \<times> qmodem_voip_media_engine" where
  "qmodem_voip_media_attach engine attachment session_id =
     (if \<not> me_ready engine \<or> session_id = 0 \<or> attachment = QMODEM_VOIP_MEDIA_ATTACH_NONE \<or>
         (me_session_id engine \<noteq> 0 \<and> me_session_id engine \<noteq> session_id) then (-1, engine)
      else (0, engine\<lparr>me_session_id := session_id, me_attachment := attachment\<rparr>))"

text \<open>\<open>qmodem_voip_serial_set_attached\<close> of \<open>media_serial.c\<close>, which detaching uses.\<close>

definition qmodem_voip_serial_set_attached :: "bool \<Rightarrow> qmodem_voip_media_engine \<Rightarrow> qmodem_voip_media_engine" where
  "qmodem_voip_serial_set_attached attached engine =
     engine\<lparr>me_serial := (me_serial engine)\<lparr>sr_attached := attached,
       sr_reopen_pending := (attached \<and> \<not> sr_active (me_serial engine))\<rparr>\<rparr>"

definition zero_rtp :: qmodem_voip_rtp_endpoint where
  "zero_rtp = \<lparr>re_address = 0, re_port = 0, re_sequence = 0, re_timestamp = 0, re_ssrc = 0, re_codec = 0,
     re_received_packets = 0, re_sent_packets = 0\<rparr>"

definition qmodem_voip_media_detach :: "qmodem_voip_media_engine \<Rightarrow> qmodem_voip_media_engine" where
  "qmodem_voip_media_detach engine =
     (let e1 = (if me_backend engine = QMODEM_VOIP_MEDIA_BACKEND_SERIAL
                then qmodem_voip_serial_set_attached False engine else engine)
      in e1\<lparr>me_modem_to_canonical := qmodem_voip_media_queue_clear (me_modem_to_canonical e1),
            me_canonical_to_modem := qmodem_voip_media_queue_clear (me_canonical_to_modem e1),
            me_rtp := zero_rtp, me_attachment := QMODEM_VOIP_MEDIA_ATTACH_NONE, me_session_id := 0\<rparr>)"

definition zero_serial :: qmodem_voip_serial_state where
  "zero_serial = \<lparr>sr_fd = 0, sr_active = False, sr_running = False, sr_attached = False, sr_captured_frames = 0,
     sr_poll_wakeups = 0, sr_read_bytes = 0, sr_read_eagain = 0, sr_read_errors = 0, sr_write_bytes = 0,
     sr_write_eagain = 0, sr_write_errors = 0, sr_reopen_count = 0, sr_reopen_pending = False,
     sr_thread_started = False, sr_path = [], sr_capture = replicate 1600 0, sr_capture_used = 0,
     sr_playback = replicate 1600 0, sr_playback_used = 0, sr_playback_offset = 0, sr_next_playback_ms = 0\<rparr>"

definition zero_pcm_socket :: qmodem_voip_pcm_socket_state where
  "zero_pcm_socket = \<lparr>ps_fd = 0, ps_next_playback_ms = 0, ps_retry_at_ms = 0, ps_capture_frames = 0,
     ps_playback_frames = 0, ps_connects = 0, ps_errors = 0\<rparr>"

definition zero_device :: qmodem_voip_media_device where
  "zero_device = \<lparr>dv_slot = [], dv_pcm_name = [], dv_card = 0, dv_device = 0, dv_capture_rate = 0, dv_playback_rate = 0, dv_full_duplex = False\<rparr>"

definition zero_engine :: "qmodem_voip_modem_profile \<Rightarrow> qmodem_voip_media_engine" where
  "zero_engine p = \<lparr>me_device = zero_device, me_profile = p, me_modem_to_canonical = zero_queue,
     me_canonical_to_modem = zero_queue, me_rtp = zero_rtp, me_attachment = QMODEM_VOIP_MEDIA_ATTACH_NONE,
     me_session_id = 0, me_tone_failures = 0, me_rtp_received_packets = 0, me_rtp_sent_packets = 0,
     me_pcm_handles = False, me_serial = zero_serial, me_pcm_socket = zero_pcm_socket,
     me_backend = QMODEM_VOIP_MEDIA_BACKEND_NONE, me_ready = False, me_browser_media_ready = False\<rparr>"

text \<open>The close functions of the two backends; the second component are the descriptors closed.\<close>

definition qmodem_voip_serial_close :: "qmodem_voip_media_engine \<Rightarrow> qmodem_voip_media_engine \<times> int list" where
  "qmodem_voip_serial_close engine =
     (engine\<lparr>me_serial := zero_serial\<rparr>, if sr_active (me_serial engine) then [sr_fd (me_serial engine)] else [])"

definition qmodem_voip_pcm_socket_close :: "qmodem_voip_media_engine \<Rightarrow> qmodem_voip_media_engine \<times> int list" where
  "qmodem_voip_pcm_socket_close engine =
     (engine\<lparr>me_pcm_socket := (me_pcm_socket engine)\<lparr>ps_fd := -1\<rparr>\<rparr>,
      if ps_fd (me_pcm_socket engine) \<ge> 0 then [ps_fd (me_pcm_socket engine)] else [])"

definition qmodem_voip_media_release :: "qmodem_voip_media_engine \<Rightarrow> qmodem_voip_media_engine \<times> int list" where
  "qmodem_voip_media_release engine =
     (let (e1, c1) = (if me_backend engine = QMODEM_VOIP_MEDIA_BACKEND_SERIAL
                      then qmodem_voip_serial_close engine else (engine, []));
          (e2, c2) = (if me_backend e1 = QMODEM_VOIP_MEDIA_BACKEND_PCM_SOCKET
                      then qmodem_voip_pcm_socket_close e1 else (e1, []))
      in (zero_engine (me_profile engine), c1 @ c2))"

text \<open>A packet is a list of bytes. The result carries the digit passed to the DTMF callback.\<close>

definition be16 :: "u8 \<Rightarrow> u8 \<Rightarrow> nat" where
  "be16 hi lo = unat hi * 256 + unat lo"

definition be32 :: "u8 list \<Rightarrow> nat \<Rightarrow> u32" where
  "be32 p i = of_nat (be16 (p ! i) (p ! (i + 1)) * 65536 + be16 (p ! (i + 2)) (p ! (i + 3)))"

definition rtp_note :: "u8 list \<Rightarrow> u32 \<Rightarrow> u16 \<Rightarrow> qmodem_voip_rtp_endpoint \<Rightarrow> qmodem_voip_rtp_endpoint" where
  "rtp_note packet source_address source_port rtp =
     rtp\<lparr>re_address := source_address, re_port := source_port,
         re_sequence := of_nat (be16 (packet ! 2) (packet ! 3)), re_timestamp := be32 packet 4\<rparr>"

definition qmodem_voip_media_rtp_receive ::
  "qmodem_voip_media_engine \<Rightarrow> u8 list \<Rightarrow> u32 \<Rightarrow> u16 \<Rightarrow> int \<times> qmodem_voip_media_engine \<times> nat option" where
  "qmodem_voip_media_rtp_receive engine packet source_address source_port =
     (if length packet < 12 \<or> unat (packet ! 0) div 64 \<noteq> 2 then (-1, engine, None)
      else let offset = 12 + unat (packet ! 0) mod 16 * 4;
               extension = bit (packet ! 0) 4 in
      if extension \<and> length packet < offset + 4 then (-1, engine, None)
      else let offset = (if extension then offset + 4 + be16 (packet ! (offset + 2)) (packet ! (offset + 3)) else offset) in
      if offset > length packet then (-1, engine, None)
      else let payload_type = unat (packet ! 1) mod 128;
               e1 = engine\<lparr>me_rtp := rtp_note packet source_address source_port (me_rtp engine)\<rparr>;
               digit = (if payload_type = 101 \<and> length packet \<ge> offset + 4
                        then Some (unat (packet ! offset) mod 16) else None)
      in (if payload_type = QMODEM_VOIP_MEDIA_PCMA \<or> payload_type = QMODEM_VOIP_MEDIA_PCMU \<or> payload_type = 101
          then 0 else -1, e1, digit))"

section \<open>The queues are bounded first-in first-out queues\<close>

text \<open>What a frame carries besides the sequence number the queue gives it.\<close>

definition frame_data :: "qmodem_voip_media_frame \<Rightarrow> i16 list \<times> u64" where
  "frame_data f = (fr_samples f, fr_timestamp_ms f)"

definition mq_contents :: "qmodem_voip_media_queue \<Rightarrow> (i16 list \<times> u64) list" where
  "mq_contents q = map frame_data (ring_list QMODEM_VOIP_MEDIA_QUEUE_FRAMES (mq_frames q) (mq_first q) (mq_count q))"

definition mq_wf :: "qmodem_voip_media_queue \<Rightarrow> bool" where
  "mq_wf q \<longleftrightarrow> length (mq_frames q) = QMODEM_VOIP_MEDIA_QUEUE_FRAMES \<and>
     mq_first q < QMODEM_VOIP_MEDIA_QUEUE_FRAMES \<and> mq_count q \<le> QMODEM_VOIP_MEDIA_QUEUE_FRAMES \<and> mq_lock_ready q"

definition mq_put :: "i16 list \<times> u64 \<Rightarrow> qmodem_voip_media_queue \<Rightarrow> qmodem_voip_media_queue" where
  "mq_put d q = media_queue_store (fst d) (snd d) q"

definition mq_get :: "qmodem_voip_media_queue \<Rightarrow> ((i16 list \<times> u64) \<times> qmodem_voip_media_queue) option" where
  "mq_get q = (case qmodem_voip_media_queue_pop q of (r, f, q') \<Rightarrow> if r = 0 then Some (frame_data f, q') else None)"

lemma length_mq_contents [simp]: "length (mq_contents q) = mq_count q"
  by (simp add: mq_contents_def)

text \<open>Taking the oldest frame away, erasing its cell.\<close>

lemma mq_behead:
  assumes "mq_wf q" "mq_count q = Suc n"
  shows "mq_contents q = frame_data (mq_frames q ! mq_first q) #
    map frame_data (ring_list QMODEM_VOIP_MEDIA_QUEUE_FRAMES ((mq_frames q)[mq_first q := zero_frame])
      ((mq_first q + 1) mod QMODEM_VOIP_MEDIA_QUEUE_FRAMES) n)"
proof -
  have wf: "length (mq_frames q) = 25" "mq_first q < 25" "n < 25" using assms by (auto simp: mq_wf_def)
  have slot: "mq_first q = (Suc (mq_first q) mod 25 + 24) mod 25"
    using wf(2) by (simp add: mod_simps)
  have "ring_list 25 ((mq_frames q)[mq_first q := zero_frame]) (Suc (mq_first q) mod 25) n =
        ring_list 25 (mq_frames q) (Suc (mq_first q) mod 25) n"
    using ring_list_update_outside [of n 24 25 "mq_frames q" "Suc (mq_first q) mod 25" zero_frame] wf slot by simp
  then show ?thesis using wf assms(2) by (simp add: mq_contents_def ring_list_Suc del: ring_list_mod)
qed

lemma drop_ok:
  assumes "mq_wf q" "mq_count q = 25"
  shows "mq_wf (media_queue_drop q)" "mq_contents (media_queue_drop q) = tl (mq_contents q)"
    "mq_count (media_queue_drop q) = 24"
  using assms mq_behead [of q 24]
  by (auto simp: mq_wf_def media_queue_drop_def mq_contents_def [of "media_queue_drop q"] simp del: ring_list_mod)
    (simp add: mq_contents_def media_queue_drop_def del: ring_list_mod)

lemma store_ok:
  assumes "mq_wf q"
  shows "mq_wf (media_queue_store s ts q)"
    "mq_contents (media_queue_store s ts q) = lastn QMODEM_VOIP_MEDIA_QUEUE_FRAMES (mq_contents q @ [(s, ts)])"
proof -
  define q1 where "q1 = (if mq_count q = 25 then media_queue_drop q else q)"
  have wf1: "mq_wf q1" and room: "mq_count q1 < 25"
    using assms drop_ok [OF assms] by (auto simp: q1_def mq_wf_def)
  have c1: "mq_contents q1 = (if mq_count q = 25 then tl (mq_contents q) else mq_contents q)"
    using drop_ok(2) [OF assms] by (simp add: q1_def)
  show "mq_wf (media_queue_store s ts q)"
    unfolding media_queue_store_def Let_def q1_def [symmetric] using wf1 room by (simp add: mq_wf_def)
  have "mq_contents (media_queue_store s ts q) = mq_contents q1 @ [(s, ts)]"
    unfolding media_queue_store_def Let_def q1_def [symmetric]
    using wf1 room by (simp add: mq_contents_def mq_wf_def ring_list_append frame_data_def)
  also have "\<dots> = lastn 25 (mq_contents q @ [(s, ts)])"
  proof (cases "mq_count q = 25")
    case True
    then show ?thesis using c1 by (simp add: lastn_snoc_full)
  next
    case False
    then have "mq_count q < 25" using assms by (simp add: mq_wf_def)
    with c1 False show ?thesis by (simp add: lastn_all)
  qed
  finally show "mq_contents (media_queue_store s ts q) = lastn 25 (mq_contents q @ [(s, ts)])" .
qed

lemma get_ok:
  assumes "mq_wf q" "mq_get q = Some (d, q')"
  shows "mq_wf q' \<and> mq_contents q = d # mq_contents q'"
proof -
  from assms have "mq_count q \<noteq> 0"
    by (auto simp: mq_get_def qmodem_voip_media_queue_pop_def mq_wf_def split: if_splits)
  then obtain n where n: "mq_count q = Suc n" by (cases "mq_count q") auto
  from assms n have "d = frame_data (mq_frames q ! mq_first q)"
    "q' = q\<lparr>mq_frames := (mq_frames q)[mq_first q := zero_frame], mq_first := (mq_first q + 1) mod 25, mq_count := n\<rparr>"
    by (auto simp: mq_get_def qmodem_voip_media_queue_pop_def mq_wf_def split: if_splits)
  with mq_behead [OF assms(1) n] assms(1) n show ?thesis
    by (simp add: mq_wf_def mq_contents_def [of "mq_frames_update _ _"] mq_contents_def [of "mq_count_update _ _"] del: ring_list_mod)
qed

interpretation mq: bounded_fifo QMODEM_VOIP_MEDIA_QUEUE_FRAMES mq_contents mq_wf mq_put mq_get
proof
  show "length (mq_contents q) \<le> QMODEM_VOIP_MEDIA_QUEUE_FRAMES" if "mq_wf q" for q
    using that by (simp add: mq_wf_def)
  show "mq_wf (mq_put e q)" if "mq_wf q" for e q
    using store_ok(1) [OF that] by (simp add: mq_put_def)
  show "mq_contents (mq_put e q) = lastn QMODEM_VOIP_MEDIA_QUEUE_FRAMES (mq_contents q @ [e])" if "mq_wf q" for e q
    using store_ok(2) [OF that] by (simp add: mq_put_def)
  show "mq_get q = None \<longleftrightarrow> mq_contents q = []" if "mq_wf q" for q
    using that length_mq_contents [of q]
    by (auto simp: mq_get_def qmodem_voip_media_queue_pop_def mq_wf_def simp del: length_mq_contents)
qed (rule get_ok)


text \<open>The operations as the media threads call them: a read always returns a frame, silence when the
  queue is empty.\<close>

fun media_run :: "(i16 list \<times> u64) fifo_op list \<Rightarrow> qmodem_voip_media_queue \<Rightarrow> i16 list list" where
  "media_run [] q = []"
| "media_run (Put d # ops) q = media_run ops (snd (qmodem_voip_media_queue_push q (fst d) (snd d)))"
| "media_run (Get # ops) q =
     (case qmodem_voip_media_queue_pop q of (r, f, q') \<Rightarrow> fr_samples f # media_run ops q')"

definition silence :: "i16 list" where
  "silence = replicate QMODEM_VOIP_MEDIA_SAMPLES 0"

definition heard :: "(i16 list \<times> u64) option \<Rightarrow> i16 list" where
  "heard d = (case d of None \<Rightarrow> silence | Some x \<Rightarrow> fst x)"

lemma pop_underrun:
  assumes "mq_wf q" "mq_contents q = []"
  shows "\<exists>f q'. qmodem_voip_media_queue_pop q = (1, f, q') \<and> fr_samples f = silence \<and> mq_wf q' \<and> mq_contents q' = []"
proof -
  have "mq_count q = 0" using assms(2) length_mq_contents [of q] by simp
  with assms show ?thesis
    by (simp add: qmodem_voip_media_queue_pop_def mq_wf_def mq_contents_def zero_frame_def silence_def)
qed

lemma pop_frame:
  assumes "mq_wf q" "mq_contents q = d # ds"
  shows "\<exists>f q'. qmodem_voip_media_queue_pop q = (0, f, q') \<and> fr_samples f = fst d \<and> mq_wf q' \<and> mq_contents q' = ds"
proof -
  obtain q' where q': "mq_get q = Some (d, q')" "mq_wf q'" "mq_contents q' = ds"
    using mq.pop_cons [OF assms] by blast
  then obtain f where "qmodem_voip_media_queue_pop q = (0, f, q')" "frame_data f = d"
    by (auto simp: mq_get_def split: prod.splits if_splits)
  with q' show ?thesis by (auto simp: frame_data_def)
qed

lemma media_run_list:
  "mq_wf q \<Longrightarrow> list_all (\<lambda>op. case op of Put d \<Rightarrow> length (fst d) = QMODEM_VOIP_MEDIA_SAMPLES | Get \<Rightarrow> True) ops \<Longrightarrow>
   media_run ops q = map heard (list_run QMODEM_VOIP_MEDIA_QUEUE_FRAMES ops (mq_contents q))"
proof (induction ops arbitrary: q)
  case (Cons op ops)
  show ?case
  proof (cases op)
    case (Put d)
    with Cons.prems have "qmodem_voip_media_queue_push q (fst d) (snd d) = (0, mq_put d q)"
      by (simp add: qmodem_voip_media_queue_push_def mq_put_def mq_wf_def)
    with Put Cons show ?thesis by (simp add: mq.push_wf mq.push_contents)
  next
    case Get
    show ?thesis
    proof (cases "mq_contents q")
      case Nil
      from pop_underrun [OF Cons.prems(1) Nil] show ?thesis
        using Get Nil Cons.IH Cons.prems(2) by (auto simp: heard_def)
    next
      case c: (Cons d ds)
      from pop_frame [OF Cons.prems(1) c] show ?thesis
        using Get c Cons.IH Cons.prems(2) by (auto simp: heard_def)
    qed
  qed
qed simp

section \<open>No audio is left behind\<close>

text \<open>Every cell that holds no queued frame is erased.\<close>

definition mq_clean :: "qmodem_voip_media_queue \<Rightarrow> bool" where
  "mq_clean q \<longleftrightarrow> length (mq_frames q) = QMODEM_VOIP_MEDIA_QUEUE_FRAMES \<and> mq_first q < QMODEM_VOIP_MEDIA_QUEUE_FRAMES \<and>
     mq_count q \<le> QMODEM_VOIP_MEDIA_QUEUE_FRAMES \<and>
     (\<forall>k. mq_count q \<le> k \<longrightarrow> k < QMODEM_VOIP_MEDIA_QUEUE_FRAMES \<longrightarrow>
        mq_frames q ! ((mq_first q + k) mod QMODEM_VOIP_MEDIA_QUEUE_FRAMES) = zero_frame)"

inductive mq_step :: "qmodem_voip_media_queue \<Rightarrow> qmodem_voip_media_queue \<Rightarrow> bool" where
  mq_push: "mq_step q (snd (qmodem_voip_media_queue_push q s ts))"
| mq_pop: "mq_step q (snd (snd (qmodem_voip_media_queue_pop q)))"
| mq_clear: "mq_step q (qmodem_voip_media_queue_clear q)"
| mq_drift: "mq_step q (qmodem_voip_media_queue_drift q ppm)"

definition mq_start :: "qmodem_voip_media_queue \<Rightarrow> bool" where
  "mq_start q \<longleftrightarrow> (\<exists>lock. q = qmodem_voip_media_queue_init lock)"

lemma clean_behead:
  assumes "mq_clean q" "mq_count q = Suc n"
  shows "mq_clean (q\<lparr>mq_frames := (mq_frames q)[mq_first q := zero_frame],
    mq_first := (mq_first q + 1) mod QMODEM_VOIP_MEDIA_QUEUE_FRAMES, mq_count := n\<rparr>)"
proof -
  have wf: "length (mq_frames q) = 25" "mq_first q < 25" "n < 25" using assms by (auto simp: mq_clean_def)
  have "(mq_frames q)[mq_first q := zero_frame] ! ((Suc (mq_first q) mod 25 + k) mod 25) = zero_frame"
    if k: "n \<le> k" "k < 25" for k
  proof (cases "k = 24")
    case True
    then have "(Suc (mq_first q) mod 25 + k) mod 25 = mq_first q" using wf(2) by (simp add: mod_simps)
    then show ?thesis using wf by simp
  next
    case False
    then have "mq_frames q ! ((mq_first q + Suc k) mod 25) = zero_frame"
      using assms k False by (auto simp: mq_clean_def dest!: spec [of _ "Suc k"])
    then show ?thesis using wf by (simp add: nth_list_update mod_simps)
  qed
  then show ?thesis using wf by (simp add: mq_clean_def)
qed

lemma clean_store:
  assumes "mq_clean q"
  shows "mq_clean (media_queue_store s ts q)"
proof -
  define q1 where "q1 = (if mq_count q = 25 then media_queue_drop q else q)"
  have clean1: "mq_clean q1"
    using assms clean_behead [of q 24] by (auto simp: q1_def media_queue_drop_def mq_clean_def)
  have room: "mq_count q1 < 25"
    using assms by (auto simp: q1_def media_queue_drop_def mq_clean_def)
  have "(mq_first q1 + mq_count q1) mod 25 \<noteq> (mq_first q1 + k) mod 25" if "Suc (mq_count q1) \<le> k" "k < 25" for k
    using ring_index_inj [of "mq_count q1" 25 k "mq_first q1"] room that by auto
  then show ?thesis
    unfolding media_queue_store_def Let_def q1_def [symmetric]
    using clean1 room by (simp add: mq_clean_def nth_list_update)
qed

lemma clean_pop: "mq_clean q \<Longrightarrow> mq_clean (snd (snd (qmodem_voip_media_queue_pop q)))"
proof (cases "mq_count q")
  case 0
  assume "mq_clean q"
  with 0 show ?thesis by (simp add: qmodem_voip_media_queue_pop_def mq_clean_def)
next
  case (Suc n)
  assume "mq_clean q"
  with clean_behead [OF this Suc] Suc show ?thesis by (simp add: qmodem_voip_media_queue_pop_def)
qed

lemma clean_empty: "mq_clean (q\<lparr>mq_frames := replicate QMODEM_VOIP_MEDIA_QUEUE_FRAMES zero_frame, mq_first := 0, mq_count := 0\<rparr>)"
  by (simp add: mq_clean_def)

lemma clean_drift: "mq_clean q \<Longrightarrow> mq_clean (qmodem_voip_media_queue_drift q ppm)"
  by (simp add: mq_clean_def qmodem_voip_media_queue_drift_def Let_def)

lemma mq_step_clean: "mq_clean q \<Longrightarrow> mq_step q q' \<Longrightarrow> mq_clean q'"
proof (erule mq_step.cases)
qed (auto simp: qmodem_voip_media_queue_push_def clean_store clean_pop qmodem_voip_media_queue_clear_def clean_empty clean_drift)

interpretation mqs: inductive_invariant mq_start mq_step mq_clean
proof
  show "mq_clean q" if "mq_start q" for q
    using that by (auto simp: mq_start_def qmodem_voip_media_queue_init_def zero_queue_def mq_clean_def)
qed (rule mq_step_clean)


section \<open>Properties\<close>

text \<open>C24: a media queue refines a list of frames: in any order of writes and reads, each read
  returns the oldest of the 25 most recent unread frames, or silence when there is none. Delay is
  bounded, and no frame is repeated or reordered.\<close>

theorem media_queue_refines_list:
  assumes "list_all (\<lambda>op. case op of Put d \<Rightarrow> length (fst d) = QMODEM_VOIP_MEDIA_SAMPLES | Get \<Rightarrow> True) ops"
  shows "media_run ops (qmodem_voip_media_queue_init True) =
         map heard (list_run QMODEM_VOIP_MEDIA_QUEUE_FRAMES ops [])"
proof -
  have "mq_wf (qmodem_voip_media_queue_init True)" "mq_contents (qmodem_voip_media_queue_init True) = []"
    by (simp_all add: mq_wf_def qmodem_voip_media_queue_init_def zero_queue_def mq_contents_def)
  then show ?thesis using media_run_list [of "qmodem_voip_media_queue_init True" ops] assms by simp
qed

theorem media_queue_refines_list_witness:
  "media_run [Put (replicate 160 1, 20), Put (replicate 160 2, 40), Get, Get, Get] (qmodem_voip_media_queue_init True) =
     [replicate 160 1, replicate 160 2, silence]"
  using media_queue_refines_list [of "[Put (replicate 160 1, 20), Put (replicate 160 2, 40), Get, Get, Get]"]
  by (simp add: lastn_all heard_def)

text \<open>No audio stays behind: whatever was written, read, dropped or cleared, every cell of the
  queue that holds no unread frame has been erased.\<close>

lemma media_queue_erases:
  assumes "reach mq_start mq_step q" and "mq_count q \<le> k" and "k < QMODEM_VOIP_MEDIA_QUEUE_FRAMES"
  shows "mq_frames q ! ((mq_first q + k) mod QMODEM_VOIP_MEDIA_QUEUE_FRAMES) = zero_frame"
  using mqs.reach_inv [OF assms(1)] assms(2,3) by (simp add: mq_clean_def)

text \<open>The engine serves one session. Once a session is attached, another one is refused
  without any change until the engine is detached; detaching empties both queues, forgets the RTP
  peer and lets the next session in.\<close>

lemma media_session_exclusive:
  assumes "qmodem_voip_media_attach engine a sid = (0, e1)" and "sid' \<noteq> sid"
    and "mq_lock_ready (me_modem_to_canonical engine)" "mq_lock_ready (me_canonical_to_modem engine)"
  shows "qmodem_voip_media_attach e1 b sid' = (-1, e1) \<and>
         mq_contents (me_modem_to_canonical (qmodem_voip_media_detach e1)) = [] \<and>
         mq_contents (me_canonical_to_modem (qmodem_voip_media_detach e1)) = [] \<and>
         me_rtp (qmodem_voip_media_detach e1) = zero_rtp \<and>
         (fst (qmodem_voip_media_attach (qmodem_voip_media_detach e1) b sid') = 0 \<longleftrightarrow>
            sid' \<noteq> 0 \<and> b \<noteq> QMODEM_VOIP_MEDIA_ATTACH_NONE)"
  using assms
  by (auto simp: qmodem_voip_media_attach_def qmodem_voip_media_detach_def qmodem_voip_media_queue_clear_def
      mq_contents_def qmodem_voip_serial_set_attached_def Let_def split: if_splits)

definition sample_engine :: qmodem_voip_media_engine where
  "sample_engine = (zero_engine qmodem_voip_profile_default)\<lparr>me_modem_to_canonical := qmodem_voip_media_queue_init True,
     me_canonical_to_modem := qmodem_voip_media_queue_init True, me_ready := True\<rparr>"

end
