(* ===== verification/Media_Serial.thy ===== *)
theory Media_Serial
  imports Media_Core
begin

text \<open>
  The two byte-stream backends of the media engine: the modem's serial PCM port
  (\<open>application/voipd/src/media_serial.c\<close>) and the PCM socket
  (\<open>application/voipd/src/media_pcm_socket.c\<close>).

  The loops around \<open>read\<close>, \<open>recv\<close> and \<open>write\<close> run over the list of results the
  system calls give, one per call; after the end of the list the calls would block. The buffers are
  byte arrays of their C size. Samples are stored with the low byte first, as on the supported
  targets.
\<close>

abbreviation SERIAL_BUFFER_BYTES :: nat where "SERIAL_BUFFER_BYTES \<equiv> 1600"
abbreviation SERIAL_FRAME_BYTES :: nat where "SERIAL_FRAME_BYTES \<equiv> 320"

fun le_samples :: "u8 list \<Rightarrow> i16 list" where
  "le_samples (a # b # bs) = of_nat (unat a + 256 * unat b) # le_samples bs"
| "le_samples bs = []"

definition le_bytes :: "i16 list \<Rightarrow> u8 list" where
  "le_bytes samples = concat (map (\<lambda>s. [ucast s, ucast (drop_bit 8 s)]) samples)"

text \<open>Copying bytes into an array at an offset.\<close>

definition copy_at :: "nat \<Rightarrow> u8 list \<Rightarrow> u8 list \<Rightarrow> u8 list" where
  "copy_at off bytes buf = take off buf @ bytes @ drop (off + length bytes) buf"

section \<open>Finding the serial port\<close>

definition valid_slot :: "string \<Rightarrow> bool" where
  "valid_slot slot \<longleftrightarrow> slot \<noteq> [] \<and> length slot < 64 \<and> list_all slot_char slot"

text \<open>\<open>sysfs device name\<close> is the first line of an attribute, without its line end.\<close>

definition modem_identity :: "(string \<Rightarrow> string \<Rightarrow> string option) \<Rightarrow> string \<Rightarrow> bool" where
  "modem_identity sysfs slot \<longleftrightarrow> sysfs slot ''idVendor'' = Some ''2c7c'' \<and> sysfs slot ''idProduct'' = Some ''0801'' \<and>
     sysfs slot ''product'' = Some ''RM520N-GL''"

text \<open>A directory is the list of its names, if it can be opened.\<close>

definition tty_in_directory :: "string list option \<Rightarrow> nat \<Rightarrow> string option" where
  "tty_in_directory entries tty_size =
     (case entries of
        None \<Rightarrow> None
      | Some names \<Rightarrow>
          let ttys = filter (\<lambda>n. has_prefix n ''ttyUSB'') names
          in if list_ex (\<lambda>n. length n \<ge> tty_size) ttys then None
             else case ttys of [t] \<Rightarrow> Some t | _ \<Rightarrow> None)"

definition tty_for_interface :: "(string \<Rightarrow> string list option) \<Rightarrow> string \<Rightarrow> nat \<Rightarrow> string option" where
  "tty_for_interface dirs interface tty_size =
     (case tty_in_directory (dirs (interface @ ''/tty'')) tty_size of
        Some t \<Rightarrow> Some t
      | None \<Rightarrow>
          (case dirs interface of
             None \<Rightarrow> None
           | Some names \<Rightarrow>
               let found = List.map_filter (\<lambda>n. tty_in_directory (dirs (interface @ ''/'' @ n @ ''/tty'')) tty_size)
                             (filter (\<lambda>n. has_prefix n ''ttyUSB'') names)
               in case found of [t] \<Rightarrow> Some t | _ \<Rightarrow> None))"

text \<open>\<open>names\<close> are the entries of the device directory.\<close>

definition qmodem_voip_serial_discover ::
  "(string \<Rightarrow> string \<Rightarrow> string option) \<Rightarrow> (string \<Rightarrow> string list option) \<Rightarrow> string list option \<Rightarrow> string \<Rightarrow> string \<Rightarrow> string
   \<Rightarrow> nat \<Rightarrow> string option" where
  "qmodem_voip_serial_discover sysfs dirs names sysfs_root device_root slot path_size =
     (if \<not> valid_slot slot \<or> \<not> modem_identity sysfs slot then None
      else case names of
        None \<Rightarrow> None
      | Some ns \<Rightarrow>
          let ttys = List.map_filter (\<lambda>n. if has_prefix n (slot @ '':'') \<and> sysfs n ''bInterfaceNumber'' = Some ''01''
                then tty_for_interface dirs (sysfs_root @ ''/'' @ n) 64 else None) ns
          in if list_ex (\<lambda>t. length device_root + length t + 2 > path_size) ttys then None
             else case ttys of [t] \<Rightarrow> Some (device_root @ ''/'' @ t) | _ \<Rightarrow> None)"

section \<open>Opening and closing the serial port\<close>

text \<open>\<open>nonblocking\<close> says whether the descriptor could be made non-blocking.\<close>

definition qmodem_voip_serial_adopt ::
  "bool \<Rightarrow> qmodem_voip_media_engine \<Rightarrow> int \<Rightarrow> string \<Rightarrow> int \<times> qmodem_voip_media_engine" where
  "qmodem_voip_serial_adopt nonblocking engine fd path =
     (if fd < 0 \<or> path = [] \<or> length path \<ge> 256 \<or> \<not> nonblocking \<or>
         unat (pr_frame_bytes (me_profile engine)) > SERIAL_BUFFER_BYTES \<or>
         unat (pr_transfer_bytes (me_profile engine)) > SERIAL_BUFFER_BYTES then (-1, engine)
      else (0, engine\<lparr>me_serial := zero_serial\<lparr>sr_fd := fd, sr_active := True, sr_path := path\<rparr>,
                me_device := (me_device engine)\<lparr>dv_capture_rate := pr_sample_rate (me_profile engine),
                  dv_playback_rate := pr_sample_rate (me_profile engine), dv_full_duplex := True\<rparr>,
                me_backend := QMODEM_VOIP_MEDIA_BACKEND_SERIAL, me_ready := True\<rparr>))"

text \<open>The environment of the start: the configured device, what discovery finds, and the results of
  the system calls.\<close>

record serial_env =
  se_configured :: "string option"
  se_discovered :: "string option"
  se_open :: int
  se_settings_read :: bool
  se_settings_written :: bool
  se_nonblocking :: bool
  se_thread_created :: bool

definition hex2 :: "u32 \<Rightarrow> string" where
  "hex2 n = (let d = (\<lambda>k. if k < 10 then char_of (48 + k) else char_of (87 + k));
                 digits = (\<lambda>m. rev (map d (map (\<lambda>i. m div 16 ^ i mod 16) [0..<8])));
                 s = dropWhile (\<lambda>c. c = CHR ''0'') (digits (unat n))
             in replicate (2 - length s) (CHR ''0'') @ s)"

definition start_path :: "serial_env \<Rightarrow> string option" where
  "start_path env =
     (case se_configured env of
        Some p \<Rightarrow> if p \<noteq> [] then (if (has_prefix p ''/dev/ttyUSB'' \<or> has_prefix p ''/dev/ttyACM'') \<and> length p < 256
                                    then Some p else None)
                  else se_discovered env
      | None \<Rightarrow> se_discovered env)"

definition qmodem_voip_serial_start ::
  "serial_env \<Rightarrow> qmodem_voip_media_engine \<Rightarrow> string \<Rightarrow> int \<times> qmodem_voip_media_engine \<times> int list" where
  "qmodem_voip_serial_start env engine slot =
     (let e0 = (if pr_frame_bytes (me_profile engine) = 0 then engine\<lparr>me_profile := qmodem_voip_profile_default\<rparr> else engine) in
      case start_path env of
        None \<Rightarrow> (-1, e0, [])
      | Some path \<Rightarrow>
          if se_open env < 0 then (-1, e0, [])
          else if \<not> se_settings_read env \<or> \<not> se_settings_written env then (-1, e0, [se_open env])
          else case qmodem_voip_serial_adopt (se_nonblocking env) e0 (se_open env) path of
            (r, e1) \<Rightarrow>
              if r \<noteq> 0 then (-1, e1, [se_open env])
              else let e2 = e1\<lparr>me_serial := (me_serial e1)\<lparr>sr_running := True\<rparr>\<rparr> in
              if \<not> se_thread_created env then (case qmodem_voip_serial_close e2 of (e3, closed) \<Rightarrow> (-1, e3, closed))
              else (0, e2\<lparr>me_serial := (me_serial e2)\<lparr>sr_thread_started := True\<rparr>,
                     me_device := (me_device e2)\<lparr>dv_slot := c_copy 64 slot,
                       dv_pcm_name := c_copy 32 (''serial:if'' @ hex2 (pr_interface_number (me_profile e2)))\<rparr>\<rparr>, []))"

definition qmodem_voip_serial_reset_stream :: "qmodem_voip_media_engine \<Rightarrow> qmodem_voip_media_engine" where
  "qmodem_voip_serial_reset_stream engine =
     engine\<lparr>me_serial := (me_serial engine)\<lparr>sr_capture := replicate SERIAL_BUFFER_BYTES 0,
       sr_playback := replicate SERIAL_BUFFER_BYTES 0, sr_capture_used := 0, sr_playback_used := 0,
       sr_playback_offset := 0, sr_next_playback_ms := 0\<rparr>\<rparr>"

definition qmodem_voip_serial_prepare_call :: "qmodem_voip_media_engine \<Rightarrow> qmodem_voip_media_engine" where
  "qmodem_voip_serial_prepare_call engine =
     (if me_backend engine \<noteq> QMODEM_VOIP_MEDIA_BACKEND_SERIAL then engine
      else qmodem_voip_serial_set_attached False (qmodem_voip_serial_reset_stream engine))"

definition qmodem_voip_serial_reopen ::
  "serial_env \<Rightarrow> qmodem_voip_media_engine \<Rightarrow> int \<times> qmodem_voip_media_engine \<times> int list" where
  "qmodem_voip_serial_reopen env engine =
     (if me_backend engine \<noteq> QMODEM_VOIP_MEDIA_BACKEND_SERIAL \<or> \<not> sr_reopen_pending (me_serial engine) then (0, engine, [])
      else let slot = dv_slot (me_device engine); count = sr_reopen_count (me_serial engine) in
      case qmodem_voip_serial_close engine of
        (e1, closed) \<Rightarrow>
          (case qmodem_voip_serial_start env e1 slot of
             (r, e2, closed') \<Rightarrow>
               if r \<noteq> 0 then (-1, e2, closed @ closed')
               else (0, e2\<lparr>me_serial := (me_serial e2)\<lparr>sr_attached := True, sr_reopen_pending := False,
                        sr_reopen_count := count + 1\<rparr>\<rparr>, closed @ closed')))"

definition qmodem_voip_serial_reopen_now ::
  "serial_env \<Rightarrow> qmodem_voip_media_engine \<Rightarrow> int \<times> qmodem_voip_media_engine \<times> int list" where
  "qmodem_voip_serial_reopen_now env engine =
     (if me_backend engine \<noteq> QMODEM_VOIP_MEDIA_BACKEND_SERIAL then (-1, engine, [])
      else qmodem_voip_serial_reopen env (engine\<lparr>me_serial := (me_serial engine)\<lparr>sr_reopen_pending := True\<rparr>\<rparr>))"

definition serial_failure :: "qmodem_voip_media_engine \<Rightarrow> qmodem_voip_media_engine \<times> int list" where
  "serial_failure engine =
     (let e1 = engine\<lparr>me_serial := (me_serial engine)\<lparr>sr_running := False\<rparr>\<rparr>;
          (e2, closed) = (if \<not> sr_thread_started (me_serial e1) then qmodem_voip_serial_close e1 else (e1, []))
      in (e2\<lparr>me_ready := False\<rparr>, closed))"

section \<open>Capture\<close>

text \<open>One frame is cut from the front of the capture buffer.\<close>

definition cut_frame :: "qmodem_voip_media_engine \<Rightarrow> qmodem_voip_media_engine" where
  "cut_frame e =
     (let s = me_serial e; fb = unat (pr_frame_bytes (me_profile e)); used = sr_capture_used s - fb
      in e\<lparr>me_serial := s\<lparr>sr_capture_used := used,
             sr_capture := take used (drop fb (sr_capture s)) @ replicate (SERIAL_BUFFER_BYTES - used) 0,
             sr_captured_frames := sr_captured_frames s + 1\<rparr>\<rparr>)"

text \<open>The loop that queues complete frames. \<open>None\<close> when the fuel does not suffice, which never
  happens for a frame size other than zero and as much fuel as there are bytes. The flag tells
  whether every frame was queued.\<close>

fun cut_frames :: "nat \<Rightarrow> u64 \<Rightarrow> qmodem_voip_media_engine \<Rightarrow> (bool \<times> u64 \<times> qmodem_voip_media_engine) option" where
  "cut_frames fuel ts e =
     (if sr_capture_used (me_serial e) < unat (pr_frame_bytes (me_profile e)) then Some (True, ts, e)
      else case fuel of 0 \<Rightarrow> None | Suc fuel' \<Rightarrow>
        let (r, q) = (if sr_attached (me_serial e)
               then qmodem_voip_media_queue_push (me_modem_to_canonical e)
                      (le_samples (take SERIAL_FRAME_BYTES (sr_capture (me_serial e)))) ts
               else (0, me_modem_to_canonical e))
        in if r \<noteq> 0 then Some (False, ts, e)
           else cut_frames fuel' (ts + ucast (pr_frame_ms (me_profile e)))
                  (cut_frame (e\<lparr>me_modem_to_canonical := q\<rparr>)))"

declare cut_frames.simps [simp del]

datatype read_result = Read "u8 list" | Read_again | Read_interrupted | Read_failed

text \<open>Bytes arrive at the end of the used part of the buffer.\<close>

definition take_in :: "u8 list \<Rightarrow> qmodem_voip_media_engine \<Rightarrow> qmodem_voip_media_engine" where
  "take_in bytes e =
     (let s = me_serial e
      in e\<lparr>me_serial := s\<lparr>sr_capture := copy_at (sr_capture_used s) bytes (sr_capture s),
             sr_read_bytes := sr_read_bytes s + of_nat (length bytes),
             sr_capture_used := (if sr_attached s then sr_capture_used s + length bytes else 0)\<rparr>\<rparr>)"

fun capture_loop ::
  "read_result list \<Rightarrow> u64 \<Rightarrow> qmodem_voip_media_engine \<Rightarrow> (int \<times> qmodem_voip_media_engine \<times> int list) option" where
  "capture_loop [] ts e =
     (if sr_thread_started (me_serial e) \<and> \<not> sr_running (me_serial e) then Some (0, e, [])
      else Some (0, e\<lparr>me_serial := (me_serial e)\<lparr>sr_read_eagain := sr_read_eagain (me_serial e) + 1\<rparr>\<rparr>, []))"
| "capture_loop (r # rs) ts e =
     (if sr_thread_started (me_serial e) \<and> \<not> sr_running (me_serial e) then Some (0, e, [])
      else case r of
        Read bs \<Rightarrow>
          let bytes = take (SERIAL_BUFFER_BYTES - sr_capture_used (me_serial e)) bs in
          if bytes = [] then (case serial_failure e of (e', closed) \<Rightarrow> Some (-1, e', closed))
          else let e1 = take_in bytes e in
          if \<not> sr_attached (me_serial e) then capture_loop rs ts e1
          else (case cut_frames (sr_capture_used (me_serial e1)) ts e1 of
                  None \<Rightarrow> None
                | Some (ok, ts', e2) \<Rightarrow>
                    if ok then capture_loop rs ts' e2
                    else (case serial_failure e2 of (e', closed) \<Rightarrow> Some (-1, e', closed)))
      | Read_again \<Rightarrow>
          Some (0, e\<lparr>me_serial := (me_serial e)\<lparr>sr_read_eagain := sr_read_eagain (me_serial e) + 1\<rparr>\<rparr>, [])
      | Read_interrupted \<Rightarrow> capture_loop rs ts e
      | Read_failed \<Rightarrow>
          (case serial_failure (e\<lparr>me_serial := (me_serial e)\<lparr>sr_read_errors := sr_read_errors (me_serial e) + 1\<rparr>\<rparr>) of
             (e', closed) \<Rightarrow> Some (-1, e', closed)))"

declare capture_loop.simps [simp del]

definition qmodem_voip_serial_capture ::
  "read_result list \<Rightarrow> qmodem_voip_media_engine \<Rightarrow> u64 \<Rightarrow> (int \<times> qmodem_voip_media_engine \<times> int list) option" where
  "qmodem_voip_serial_capture reads engine timestamp_ms =
     (if \<not> me_ready engine \<or> \<not> sr_active (me_serial engine) then Some (-1, engine, [])
      else capture_loop reads timestamp_ms engine)"

section \<open>Playback\<close>

text \<open>Filling the playback buffer: \<open>Overrun\<close> stands for a copy past the end of the buffer, which is
  undefined in C.\<close>

datatype fill_result = Filled qmodem_voip_media_engine | Underrun qmodem_voip_media_engine
  | Pop_failed qmodem_voip_media_engine | Overrun

definition play_in :: "qmodem_voip_media_frame \<Rightarrow> qmodem_voip_media_engine \<Rightarrow> qmodem_voip_media_engine" where
  "play_in frame e =
     (let s = me_serial e
      in e\<lparr>me_serial := s\<lparr>sr_playback := copy_at (sr_playback_used s) (le_bytes (fr_samples frame)) (sr_playback s),
             sr_playback_used := sr_playback_used s + SERIAL_FRAME_BYTES\<rparr>\<rparr>)"

function serial_fill :: "nat \<Rightarrow> qmodem_voip_media_engine \<Rightarrow> fill_result" where
  "serial_fill transfer e =
     (if \<not> sr_playback_used (me_serial e) < transfer then Filled e
      else case qmodem_voip_media_queue_pop (me_canonical_to_modem e) of
        (p, frame, q) \<Rightarrow>
          let e1 = e\<lparr>me_canonical_to_modem := q\<rparr> in
          if p < 0 then Pop_failed e1
          else if p > 0 then Underrun e1
          else if sr_playback_used (me_serial e1) + SERIAL_FRAME_BYTES > SERIAL_BUFFER_BYTES then Overrun
          else serial_fill transfer (play_in frame e1))"
  by pat_completeness auto
termination
  by (relation "measure (\<lambda>(transfer, e). transfer - sr_playback_used (me_serial e))") (auto simp: play_in_def Let_def)

declare serial_fill.simps [simp del]

datatype write_result = Written nat | Write_again | Write_interrupted | Write_failed

text \<open>The transfer is complete: what is left of the buffer moves to its front.\<close>

definition transfer_done :: "nat \<Rightarrow> u64 \<Rightarrow> qmodem_voip_media_engine \<Rightarrow> qmodem_voip_media_engine" where
  "transfer_done transfer timestamp_ms e =
     (let s = me_serial e; remaining = sr_playback_used s - transfer
      in e\<lparr>me_serial := s\<lparr>sr_playback := take remaining (drop transfer (sr_playback s)) @
               replicate (SERIAL_BUFFER_BYTES - remaining) 0,
             sr_playback_used := remaining, sr_playback_offset := 0,
             sr_next_playback_ms := timestamp_ms + ucast (pr_transfer_interval_ms (me_profile e))\<rparr>\<rparr>)"

text \<open>The first part of the loop body: nothing to do until the next transfer is due, then the buffer
  is filled.\<close>

definition playback_ready :: "nat \<Rightarrow> u64 \<Rightarrow> qmodem_voip_media_engine \<Rightarrow> fill_result" where
  "playback_ready transfer timestamp_ms e =
     (if sr_playback_offset (me_serial e) \<noteq> 0 then Filled e
      else if timestamp_ms < sr_next_playback_ms (me_serial e) then Underrun e
      else serial_fill transfer e)"

definition note_again :: "u64 \<Rightarrow> qmodem_voip_media_engine \<Rightarrow> qmodem_voip_media_engine" where
  "note_again timestamp_ms e =
     (let s = me_serial e
      in e\<lparr>me_serial := s\<lparr>sr_write_eagain := sr_write_eagain s + 1,
             sr_next_playback_ms := (if sr_playback_offset s = 0 then timestamp_ms + 20 else sr_next_playback_ms s)\<rparr>\<rparr>)"

definition note_written :: "nat \<Rightarrow> qmodem_voip_media_engine \<Rightarrow> qmodem_voip_media_engine" where
  "note_written n e =
     (let s = me_serial e
      in e\<lparr>me_serial := s\<lparr>sr_write_bytes := sr_write_bytes s + of_nat n, sr_playback_offset := sr_playback_offset s + n\<rparr>\<rparr>)"

definition write_error :: "qmodem_voip_media_engine \<Rightarrow> qmodem_voip_media_engine \<times> int list" where
  "write_error e = serial_failure (e\<lparr>me_serial := (me_serial e)\<lparr>sr_write_errors := sr_write_errors (me_serial e) + 1\<rparr>\<rparr>)"

text \<open>The result, the engine, the bytes written to the port and the descriptors closed. \<open>None\<close> is
  the undefined case.\<close>

fun playback_loop ::
  "write_result list \<Rightarrow> nat \<Rightarrow> u64 \<Rightarrow> qmodem_voip_media_engine \<Rightarrow> (int \<times> qmodem_voip_media_engine \<times> u8 list \<times> int list) option" where
  "playback_loop [] transfer ts e =
     (case playback_ready transfer ts e of
        Overrun \<Rightarrow> None
      | Underrun e1 \<Rightarrow> Some (0, e1, [], [])
      | Pop_failed e1 \<Rightarrow> (case serial_failure e1 of (e2, closed) \<Rightarrow> Some (-1, e2, [], closed))
      | Filled e1 \<Rightarrow> Some (0, note_again ts e1, [], []))"
| "playback_loop (w # ws) transfer ts e =
     (case playback_ready transfer ts e of
        Overrun \<Rightarrow> None
      | Underrun e1 \<Rightarrow> Some (0, e1, [], [])
      | Pop_failed e1 \<Rightarrow> (case serial_failure e1 of (e2, closed) \<Rightarrow> Some (-1, e2, [], closed))
      | Filled e1 \<Rightarrow>
          (case w of
             Written k \<Rightarrow>
               let off = sr_playback_offset (me_serial e1); n = min k (transfer - off);
                   out = take n (drop off (sr_playback (me_serial e1))); e2 = note_written n e1 in
               if n = 0 then (case write_error e1 of (e3, closed) \<Rightarrow> Some (-1, e3, [], closed))
               else if off + n = transfer then Some (0, transfer_done transfer ts e2, out, [])
               else (case playback_loop ws transfer ts e2 of
                       None \<Rightarrow> None | Some (r, e3, out', closed) \<Rightarrow> Some (r, e3, out @ out', closed))
           | Write_again \<Rightarrow> Some (0, note_again ts e1, [], [])
           | Write_interrupted \<Rightarrow> playback_loop ws transfer ts e1
           | Write_failed \<Rightarrow> (case write_error e1 of (e2, closed) \<Rightarrow> Some (-1, e2, [], closed))))"

declare playback_loop.simps [simp del]

definition transfer_size :: "qmodem_voip_media_engine \<Rightarrow> nat" where
  "transfer_size e = (if pr_transfer_bytes (me_profile e) \<noteq> 0 then unat (pr_transfer_bytes (me_profile e)) else 1024)"

definition qmodem_voip_serial_playback ::
  "write_result list \<Rightarrow> qmodem_voip_media_engine \<Rightarrow> u64 \<Rightarrow> (int \<times> qmodem_voip_media_engine \<times> u8 list \<times> int list) option" where
  "qmodem_voip_serial_playback writes engine timestamp_ms =
     (if \<not> me_ready engine \<or> \<not> sr_active (me_serial engine) \<or> transfer_size engine > SERIAL_BUFFER_BYTES
      then Some (-1, engine, [], [])
      else playback_loop writes (transfer_size engine) timestamp_ms engine)"

section \<open>The PCM socket\<close>

text \<open>\<open>connected\<close> is the descriptor of the connected socket, or a negative number.\<close>

definition pcm_socket_connect :: "int \<Rightarrow> qmodem_voip_media_engine \<Rightarrow> int \<times> qmodem_voip_media_engine" where
  "pcm_socket_connect connected engine =
     (if pr_socket_path (me_profile engine) = [] \<or> length (pr_socket_path (me_profile engine)) \<ge> 108 then (-1, engine)
      else if connected < 0 then (-1, engine)
      else (0, engine\<lparr>me_pcm_socket := (me_pcm_socket engine)\<lparr>ps_fd := connected, ps_next_playback_ms := 0,
                 ps_connects := ps_connects (me_pcm_socket engine) + 1\<rparr>\<rparr>))"

definition pcm_socket_drop :: "u64 \<Rightarrow> qmodem_voip_media_engine \<Rightarrow> qmodem_voip_media_engine \<times> int list" where
  "pcm_socket_drop timestamp_ms engine =
     (let s = me_pcm_socket engine
      in (engine\<lparr>me_pcm_socket := s\<lparr>ps_fd := -1, ps_errors := ps_errors s + 1, ps_retry_at_ms := timestamp_ms + 1000\<rparr>\<rparr>,
          if ps_fd s \<ge> 0 then [ps_fd s] else []))"

definition qmodem_voip_pcm_socket_start :: "int \<Rightarrow> qmodem_voip_media_engine \<Rightarrow> int \<times> qmodem_voip_media_engine" where
  "qmodem_voip_pcm_socket_start connected engine =
     (if pr_socket_path (me_profile engine) = [] then (-1, engine)
      else let e1 = snd (pcm_socket_connect connected (engine\<lparr>me_pcm_socket := zero_pcm_socket\<lparr>ps_fd := -1\<rparr>\<rparr>))
           in (0, e1\<lparr>me_device := (me_device e1)\<lparr>dv_capture_rate := 8000, dv_playback_rate := 8000, dv_full_duplex := True\<rparr>,
                 me_backend := QMODEM_VOIP_MEDIA_BACKEND_PCM_SOCKET, me_ready := True\<rparr>))"

text \<open>A receive gives a datagram, of which the first frame's worth is kept, or an error. An empty
  datagram ends the connection.\<close>

fun pcm_receive_loop ::
  "read_result list \<Rightarrow> u64 \<Rightarrow> nat \<Rightarrow> qmodem_voip_media_engine \<Rightarrow> int \<times> qmodem_voip_media_engine \<times> int list" where
  "pcm_receive_loop [] ts frames e = (int frames, e, [])"
| "pcm_receive_loop (r # rs) ts frames e =
     (case r of
        Read bs \<Rightarrow>
          let bytes = take SERIAL_FRAME_BYTES bs in
          if length bytes = SERIAL_FRAME_BYTES then
            pcm_receive_loop rs ts (frames + 1)
              (e\<lparr>me_modem_to_canonical := snd (qmodem_voip_media_queue_push (me_modem_to_canonical e) (le_samples bytes) ts),
                 me_pcm_socket := (me_pcm_socket e)\<lparr>ps_capture_frames := ps_capture_frames (me_pcm_socket e) + 1\<rparr>\<rparr>)
          else if bytes \<noteq> [] then pcm_receive_loop rs ts frames e
          else (case pcm_socket_drop ts e of (e1, closed) \<Rightarrow> (-1, e1, closed))
      | Read_interrupted \<Rightarrow> pcm_receive_loop rs ts frames e
      | Read_again \<Rightarrow> (int frames, e, [])
      | Read_failed \<Rightarrow> (case pcm_socket_drop ts e of (e1, closed) \<Rightarrow> (-1, e1, closed)))"

definition qmodem_voip_pcm_socket_capture ::
  "int \<Rightarrow> read_result list \<Rightarrow> qmodem_voip_media_engine \<Rightarrow> u64 \<Rightarrow> int \<times> qmodem_voip_media_engine \<times> int list" where
  "qmodem_voip_pcm_socket_capture connected reads engine timestamp_ms =
     (if \<not> me_ready engine then (-1, engine, [])
      else if ps_fd (me_pcm_socket engine) < 0 then
        (if timestamp_ms < ps_retry_at_ms (me_pcm_socket engine) then (-1, engine, [])
         else case pcm_socket_connect connected
                     (engine\<lparr>me_pcm_socket := (me_pcm_socket engine)\<lparr>ps_retry_at_ms := timestamp_ms + 1000\<rparr>\<rparr>) of
                (r, e1) \<Rightarrow> if r \<noteq> 0 then (-1, e1, []) else pcm_receive_loop reads timestamp_ms 0 e1)
      else pcm_receive_loop reads timestamp_ms 0 engine)"

text \<open>\<open>send\<close> is the result of sending the bytes; the last but one component are the bytes sent.\<close>

definition qmodem_voip_pcm_socket_playback ::
  "(u8 list \<Rightarrow> write_result) \<Rightarrow> qmodem_voip_media_engine \<Rightarrow> u64 \<Rightarrow> int \<times> qmodem_voip_media_engine \<times> u8 list option \<times> int list" where
  "qmodem_voip_pcm_socket_playback send engine timestamp_ms =
     (if \<not> me_ready engine \<or> ps_fd (me_pcm_socket engine) < 0 then (-1, engine, None, [])
      else let s = me_pcm_socket engine;
               next = (if ps_next_playback_ms s = 0 \<or> timestamp_ms > ps_next_playback_ms s + 200
                       then timestamp_ms else ps_next_playback_ms s);
               e1 = engine\<lparr>me_pcm_socket := s\<lparr>ps_next_playback_ms := next\<rparr>\<rparr> in
      if timestamp_ms < next then (0, e1, None, [])
      else let e2 = e1\<lparr>me_pcm_socket := s\<lparr>ps_next_playback_ms := next + 20\<rparr>\<rparr> in
      case qmodem_voip_media_queue_pop (me_canonical_to_modem e2) of
        (p, frame, q) \<Rightarrow>
          let e3 = e2\<lparr>me_canonical_to_modem := q\<rparr>; bytes = le_bytes (fr_samples frame) in
          if p < 0 then (-1, e3, None, [])
          else case send bytes of
            Written n \<Rightarrow>
              if n = SERIAL_FRAME_BYTES
              then (0, e3\<lparr>me_pcm_socket := (me_pcm_socket e3)\<lparr>ps_playback_frames := ps_playback_frames (me_pcm_socket e3) + 1\<rparr>\<rparr>,
                    Some bytes, [])
              else (case pcm_socket_drop timestamp_ms e3 of (e4, closed) \<Rightarrow> (-1, e4, Some bytes, closed))
          | Write_failed \<Rightarrow> (case pcm_socket_drop timestamp_ms e3 of (e4, closed) \<Rightarrow> (-1, e4, Some bytes, closed))
          | _ \<Rightarrow> (-1, e3, Some bytes, []))"

section \<open>Samples and bytes\<close>

lemma length_le_bytes [simp]: "length (le_bytes s) = 2 * length s"
  by (induction s) (simp_all add: le_bytes_def)

lemma length_le_samples: "length (le_samples bs) = length bs div 2"
  by (induction bs rule: le_samples.induct) simp_all

lemma sample_bytes:
  "ucast (of_nat (unat a + 256 * unat b) :: i16) = (a :: u8)"
  "ucast (drop_bit 8 (of_nat (unat a + 256 * unat b) :: i16)) = (b :: u8)"
proof -
  have "unat a < 256" "unat b < 256" using unsigned_less [where 'a = nat, of a] unsigned_less [where 'a = nat, of b] by simp_all
  then have u: "unat (of_nat (unat a + 256 * unat b) :: i16) = unat a + 256 * unat b"
    by (subst unat_of_nat) (simp del: of_nat_add)
  have "unat (ucast (of_nat (unat a + 256 * unat b) :: i16) :: u8) = unat a"
    unfolding low_byte u using \<open>unat a < 256\<close> by simp
  then show "ucast (of_nat (unat a + 256 * unat b) :: i16) = a" by (simp only: word_unat_eq_iff)
  have "unat (ucast (drop_bit 8 (of_nat (unat a + 256 * unat b) :: i16)) :: u8) = unat b"
    unfolding byte_of u using \<open>unat a < 256\<close> \<open>unat b < 256\<close> by simp
  then show "ucast (drop_bit 8 (of_nat (unat a + 256 * unat b) :: i16)) = b" by (simp only: word_unat_eq_iff)
qed

lemma le_bytes_samples: "even (length bs) \<Longrightarrow> le_bytes (le_samples bs) = bs"
  by (induction bs rule: le_samples.induct) (simp_all add: le_bytes_def sample_bytes del: of_nat_add of_nat_mult)

section \<open>The capture stream\<close>

text \<open>The bytes of a frame that is not complete yet.\<close>

definition capture_rest :: "qmodem_voip_media_engine \<Rightarrow> u8 list" where
  "capture_rest e = take (sr_capture_used (me_serial e)) (sr_capture (me_serial e))"

definition capture_ok :: "qmodem_voip_media_engine \<Rightarrow> bool" where
  "capture_ok e \<longleftrightarrow> length (sr_capture (me_serial e)) = SERIAL_BUFFER_BYTES \<and>
     sr_capture_used (me_serial e) \<le> SERIAL_BUFFER_BYTES \<and>
     unat (pr_frame_bytes (me_profile e)) = SERIAL_FRAME_BYTES \<and> mq_wf (me_modem_to_canonical e) \<and>
     sr_attached (me_serial e) \<and> (sr_thread_started (me_serial e) \<longrightarrow> sr_running (me_serial e))"

text \<open>Frames \<open>fs\<close> were queued between two states, and the bytes \<open>bs\<close> account for them.\<close>

definition captured :: "qmodem_voip_media_engine \<Rightarrow> u8 list \<Rightarrow> (i16 list \<times> u64) list \<Rightarrow> qmodem_voip_media_engine \<Rightarrow> bool" where
  "captured e bs fs e' \<longleftrightarrow> capture_ok e' \<and> capture_rest e @ bs = concat (map (le_bytes \<circ> fst) fs) @ capture_rest e' \<and>
     list_all (\<lambda>f. length (fst f) = QMODEM_VOIP_MEDIA_SAMPLES) fs \<and>
     mq_contents (me_modem_to_canonical e') =
       lastn QMODEM_VOIP_MEDIA_QUEUE_FRAMES (mq_contents (me_modem_to_canonical e) @ fs)"

lemma lastn_mq_contents: "mq_wf q \<Longrightarrow> lastn QMODEM_VOIP_MEDIA_QUEUE_FRAMES (mq_contents q) = mq_contents q"
  by (rule lastn_all) (rule mq.wf_bound)

lemma captured_refl: "capture_ok e \<Longrightarrow> captured e [] [] e"
  by (simp add: captured_def lastn_mq_contents capture_ok_def)

lemma captured_trans:
  "captured e a fs e1 \<Longrightarrow> captured e1 b gs e2 \<Longrightarrow> captured e (a @ b) (fs @ gs) e2"
  unfolding captured_def
proof (elim conjE, intro conjI)
  assume "capture_rest e @ a = concat (map (le_bytes \<circ> fst) fs) @ capture_rest e1"
    "capture_rest e1 @ b = concat (map (le_bytes \<circ> fst) gs) @ capture_rest e2"
  then show "capture_rest e @ a @ b = concat (map (le_bytes \<circ> fst) (fs @ gs)) @ capture_rest e2"
    by (metis append.assoc concat_append map_append)
next
  assume "mq_contents (me_modem_to_canonical e1) = lastn 25 (mq_contents (me_modem_to_canonical e) @ fs)"
    "mq_contents (me_modem_to_canonical e2) = lastn 25 (mq_contents (me_modem_to_canonical e1) @ gs)"
  then show "mq_contents (me_modem_to_canonical e2) = lastn 25 (mq_contents (me_modem_to_canonical e) @ fs @ gs)"
    by (simp add: lastn_append_lastn)
qed (simp_all)

lemma cut_one:
  assumes ok: "capture_ok e" and full: "sr_capture_used (me_serial e) \<ge> SERIAL_FRAME_BYTES"
  defines "s \<equiv> le_samples (take SERIAL_FRAME_BYTES (sr_capture (me_serial e)))"
  shows "qmodem_voip_media_queue_push (me_modem_to_canonical e) s ts = (0, mq_put (s, ts) (me_modem_to_canonical e))"
    "captured e [] [(s, ts)] (cut_frame (e\<lparr>me_modem_to_canonical := mq_put (s, ts) (me_modem_to_canonical e)\<rparr>))"
proof -
  have c: "length (sr_capture (me_serial e)) = 1600" "sr_capture_used (me_serial e) \<le> 1600"
    "unat (pr_frame_bytes (me_profile e)) = 320" "mq_wf (me_modem_to_canonical e)" "sr_attached (me_serial e)"
    "sr_thread_started (me_serial e) \<longrightarrow> sr_running (me_serial e)"
    using ok by (auto simp: capture_ok_def)
  have len: "length s = 160" using c by (simp add: s_def length_le_samples)
  then show "qmodem_voip_media_queue_push (me_modem_to_canonical e) s ts = (0, mq_put (s, ts) (me_modem_to_canonical e))"
    using c(4) by (simp add: qmodem_voip_media_queue_push_def mq_put_def mq_wf_def)
  have "le_bytes s = take 320 (sr_capture (me_serial e))" using c by (simp add: s_def le_bytes_samples)
  moreover have "take (sr_capture_used (me_serial e)) (sr_capture (me_serial e)) =
      take 320 (sr_capture (me_serial e)) @ take (sr_capture_used (me_serial e) - 320) (drop 320 (sr_capture (me_serial e)))"
    using full by (metis le_add_diff_inverse take_add)
  ultimately show "captured e [] [(s, ts)] (cut_frame (e\<lparr>me_modem_to_canonical := mq_put (s, ts) (me_modem_to_canonical e)\<rparr>))"
    using c len full mq.push_wf [OF c(4)] mq.push_contents [OF c(4)]
    by (simp add: captured_def capture_ok_def capture_rest_def cut_frame_def Let_def)
qed

lemma cut_frames_ok:
  "capture_ok e \<Longrightarrow> sr_capture_used (me_serial e) \<le> fuel \<Longrightarrow>
   \<exists>ts' e' fs. cut_frames fuel ts e = Some (True, ts', e') \<and> captured e [] fs e' \<and>
     sr_capture_used (me_serial e') < SERIAL_FRAME_BYTES"
proof (induction fuel arbitrary: e ts)
  case 0
  then have "sr_capture_used (me_serial e) < unat (pr_frame_bytes (me_profile e))" by (simp add: capture_ok_def)
  then have "cut_frames 0 ts e = Some (True, ts, e)" by (subst cut_frames.simps) simp
  moreover have "captured e [] [] e" using 0 by (simp add: captured_refl)
  ultimately show ?case using 0 by (auto simp: capture_ok_def)
next
  case (Suc fuel)
  show ?case
  proof (cases "sr_capture_used (me_serial e) < SERIAL_FRAME_BYTES")
    case True
    then have "cut_frames (Suc fuel) ts e = Some (True, ts, e)"
      using Suc.prems(1) by (subst cut_frames.simps) (simp add: capture_ok_def)
    moreover have "captured e [] [] e" using Suc.prems(1) by (rule captured_refl)
    ultimately show ?thesis using True by auto
  next
    case False
    define s where "s = le_samples (take SERIAL_FRAME_BYTES (sr_capture (me_serial e)))"
    define e1 where "e1 = cut_frame (e\<lparr>me_modem_to_canonical := mq_put (s, ts) (me_modem_to_canonical e)\<rparr>)"
    have full: "sr_capture_used (me_serial e) \<ge> SERIAL_FRAME_BYTES" using False by simp
    note one = cut_one [OF Suc.prems(1) full, of ts, folded s_def, folded e1_def]
    have "cut_frames (Suc fuel) ts e = cut_frames fuel (ts + ucast (pr_frame_ms (me_profile e))) e1"
      using Suc.prems(1) False one(1) by (subst cut_frames.simps) (simp add: capture_ok_def s_def [symmetric] e1_def)
    moreover have "capture_ok e1" using one(2) by (simp add: captured_def)
    moreover have "sr_capture_used (me_serial e1) \<le> fuel"
      using Suc.prems full by (simp add: e1_def cut_frame_def Let_def capture_ok_def)
    ultimately obtain ts' e' fs where "cut_frames (Suc fuel) ts e = Some (True, ts', e')" "captured e1 [] fs e'"
      "sr_capture_used (me_serial e') < SERIAL_FRAME_BYTES"
      using Suc.IH [of e1 "ts + ucast (pr_frame_ms (me_profile e))"] by auto
    then show ?thesis using captured_trans [OF one(2), of "[]" fs e'] by auto
  qed
qed

lemma take_in_ok:
  assumes "capture_ok e" "sr_capture_used (me_serial e) + length bs \<le> SERIAL_BUFFER_BYTES"
  shows "captured e bs [] (take_in bs e)" "sr_capture_used (me_serial (take_in bs e)) = sr_capture_used (me_serial e) + length bs"
proof -
  have used: "min (length (sr_capture (me_serial e))) (sr_capture_used (me_serial e)) = sr_capture_used (me_serial e)"
    using assms by (simp add: capture_ok_def)
  have "take (sr_capture_used (me_serial e)) (sr_capture (me_serial e)) @ bs =
      take (sr_capture_used (me_serial e) + length bs) (copy_at (sr_capture_used (me_serial e)) bs (sr_capture (me_serial e)))"
    by (simp add: copy_at_def used)
  then show "captured e bs [] (take_in bs e)"
    using assms used by (auto simp: captured_def capture_ok_def capture_rest_def take_in_def Let_def lastn_mq_contents copy_at_def)
  show "sr_capture_used (me_serial (take_in bs e)) = sr_capture_used (me_serial e) + length bs"
    using assms(1) by (simp add: take_in_def Let_def capture_ok_def)
qed

lemma capture_loop_ok:
  "capture_ok e \<Longrightarrow> sr_capture_used (me_serial e) < SERIAL_FRAME_BYTES \<Longrightarrow>
   list_all (\<lambda>bs. bs \<noteq> [] \<and> length bs \<le> 1280) bss \<Longrightarrow>
   \<exists>e' fs. capture_loop (map Read bss) ts e = Some (0, e', []) \<and> captured e (concat bss) fs e' \<and>
     sr_capture_used (me_serial e') < SERIAL_FRAME_BYTES"
proof (induction bss arbitrary: e ts)
  case Nil
  define e' where "e' = e\<lparr>me_serial := (me_serial e)\<lparr>sr_read_eagain := sr_read_eagain (me_serial e) + 1\<rparr>\<rparr>"
  have go: "\<not> (sr_thread_started (me_serial e) \<and> \<not> sr_running (me_serial e))"
    using Nil(1) by (simp add: capture_ok_def)
  then have "capture_loop (map Read []) ts e = Some (0, e', [])"
    by (auto simp: capture_loop.simps e'_def)
  moreover have "captured e [] [] e'"
    using Nil by (simp add: captured_def capture_ok_def capture_rest_def e'_def lastn_mq_contents)
  moreover have "sr_capture_used (me_serial e') < SERIAL_FRAME_BYTES" using Nil by (simp add: e'_def)
  ultimately show ?case by auto
next
  case (Cons bs bss)
  have fits: "sr_capture_used (me_serial e) + length bs \<le> SERIAL_BUFFER_BYTES" "bs \<noteq> []" using Cons.prems by auto
  have go: "(sr_thread_started (me_serial e) \<and> \<not> sr_running (me_serial e)) = False"
    using Cons.prems(1) by (simp add: capture_ok_def)
  note ti = take_in_ok [OF Cons.prems(1) fits(1)]
  have ok1: "capture_ok (take_in bs e)" using ti(1) by (simp add: captured_def)
  obtain ts' e2 fs where cut: "cut_frames (sr_capture_used (me_serial (take_in bs e))) ts (take_in bs e) = Some (True, ts', e2)"
    "captured (take_in bs e) [] fs e2" "sr_capture_used (me_serial e2) < SERIAL_FRAME_BYTES"
    using cut_frames_ok [OF ok1 le_refl] by blast
  have "capture_ok e2" using cut(2) by (simp add: captured_def)
  then obtain e' gs where rest: "capture_loop (map Read bss) ts' e2 = Some (0, e', [])" "captured e2 (concat bss) gs e'"
    "sr_capture_used (me_serial e') < SERIAL_FRAME_BYTES"
    using Cons.IH [of e2 ts'] cut(3) Cons.prems(3) by auto
  have "take (SERIAL_BUFFER_BYTES - sr_capture_used (me_serial e)) bs = bs" using fits(1) by simp
  then have "capture_loop (map Read (bs # bss)) ts e = Some (0, e', [])"
    using fits(2) cut(1) rest(1) Cons.prems(1)
    unfolding list.map(2) capture_loop.simps(2) go by (simp add: capture_ok_def)
  moreover have "captured e (concat (bs # bss)) (fs @ gs) e'"
    using captured_trans [OF captured_trans [OF ti(1) cut(2)] rest(2)] by simp
  ultimately show ?case using rest(3) by auto
qed


section \<open>The playback stream\<close>

text \<open>The bytes taken from the queue that are not written yet.\<close>

definition playback_rest :: "qmodem_voip_media_engine \<Rightarrow> u8 list" where
  "playback_rest e = drop (sr_playback_offset (me_serial e)) (take (sr_playback_used (me_serial e)) (sr_playback (me_serial e)))"

text \<open>\<open>transfer\<close> leaves room for one more frame in the buffer.\<close>

definition playback_ok :: "nat \<Rightarrow> qmodem_voip_media_engine \<Rightarrow> bool" where
  "playback_ok transfer e \<longleftrightarrow> 0 < transfer \<and> transfer + SERIAL_FRAME_BYTES \<le> SERIAL_BUFFER_BYTES + 1 \<and>
     length (sr_playback (me_serial e)) = SERIAL_BUFFER_BYTES \<and>
     sr_playback_used (me_serial e) < transfer + SERIAL_FRAME_BYTES \<and> sr_playback_offset (me_serial e) < transfer \<and>
     (sr_playback_offset (me_serial e) = 0 \<or> transfer \<le> sr_playback_used (me_serial e)) \<and>
     mq_wf (me_canonical_to_modem e) \<and>
     list_all (\<lambda>d. length (fst d) = QMODEM_VOIP_MEDIA_SAMPLES) (mq_contents (me_canonical_to_modem e))"

text \<open>Between two states the bytes \<open>out\<close> were written and the frames \<open>fs\<close> taken from the queue.\<close>

definition played :: "nat \<Rightarrow> qmodem_voip_media_engine \<Rightarrow> u8 list \<Rightarrow> (i16 list \<times> u64) list \<Rightarrow> qmodem_voip_media_engine \<Rightarrow> bool" where
  "played transfer e out fs e' \<longleftrightarrow> playback_ok transfer e' \<and>
     mq_contents (me_canonical_to_modem e) = fs @ mq_contents (me_canonical_to_modem e') \<and>
     playback_rest e @ concat (map (le_bytes \<circ> fst) fs) = out @ playback_rest e'"

lemma played_refl: "playback_ok transfer e \<Longrightarrow> played transfer e [] [] e"
  by (simp add: played_def)

lemma played_trans:
  assumes "played transfer e out fs e1" "played transfer e1 out' gs e2"
  shows "played transfer e (out @ out') (fs @ gs) e2"
proof -
  have "playback_rest e @ concat (map (le_bytes \<circ> fst) (fs @ gs)) = out @ playback_rest e1 @ concat (map (le_bytes \<circ> fst) gs)"
    using assms(1) by (simp add: played_def)
  also have "\<dots> = (out @ out') @ playback_rest e2" using assms(2) by (simp add: played_def)
  finally show ?thesis using assms by (simp add: played_def)
qed

lemma play_one:
  assumes ok: "playback_ok transfer e" and low: "sr_playback_used (me_serial e) < transfer"
    and c: "mq_contents (me_canonical_to_modem e) = d # ds"
  shows "\<exists>f q. qmodem_voip_media_queue_pop (me_canonical_to_modem e) = (0, f, q) \<and>
     played transfer e [] [d] (play_in f (e\<lparr>me_canonical_to_modem := q\<rparr>))"
proof -
  have p: "length (sr_playback (me_serial e)) = 1600" "transfer + 320 \<le> 1601" "sr_playback_offset (me_serial e) = 0"
    "mq_wf (me_canonical_to_modem e)" "length (fst d) = 160"
    "list_all (\<lambda>d. length (fst d) = 160) ds" "0 < transfer"
    using ok low c by (auto simp: playback_ok_def)
  obtain f q where pop: "qmodem_voip_media_queue_pop (me_canonical_to_modem e) = (0, f, q)" "fr_samples f = fst d"
    "mq_wf q" "mq_contents q = ds" using pop_frame [OF p(4) c] by blast
  define e1 where "e1 = play_in f (e\<lparr>me_canonical_to_modem := q\<rparr>)"
  have "min (sr_playback_used (me_serial e)) 1600 = sr_playback_used (me_serial e)" using low p(2) by simp
  then have "playback_rest e1 = playback_rest e @ le_bytes (fst d)"
    using p(1,3,5) pop(2) by (simp add: e1_def playback_rest_def play_in_def Let_def copy_at_def min.commute)
  moreover have "playback_ok transfer e1"
    using p pop low by (simp add: e1_def playback_ok_def play_in_def Let_def copy_at_def)
  ultimately have "played transfer e [] [d] e1"
    using c pop(4) by (simp add: played_def e1_def play_in_def Let_def)
  then show ?thesis using pop(1) e1_def by auto
qed

lemma serial_fill_ok:
  "playback_ok transfer e \<Longrightarrow> sr_playback_offset (me_serial e) = 0 \<Longrightarrow>
   \<exists>e' fs. played transfer e [] fs e' \<and> sr_playback_offset (me_serial e') = 0 \<and>
     (serial_fill transfer e = Underrun e' \<or>
      serial_fill transfer e = Filled e' \<and> transfer \<le> sr_playback_used (me_serial e'))"
proof (induction transfer e rule: serial_fill.induct)
  case (1 transfer e)
  show ?case
  proof (cases "sr_playback_used (me_serial e) < transfer")
    case False
    then have "serial_fill transfer e = Filled e" by (subst serial_fill.simps) simp
    then show ?thesis using False 1(2,3) played_refl [OF 1(2)] by auto
  next
    case low: True
    have wf: "mq_wf (me_canonical_to_modem e)" using 1(2) by (simp add: playback_ok_def)
    show ?thesis
    proof (cases "mq_contents (me_canonical_to_modem e)")
      case Nil
      obtain f q where pop: "qmodem_voip_media_queue_pop (me_canonical_to_modem e) = (1, f, q)" "mq_wf q" "mq_contents q = []"
        using pop_underrun [OF wf Nil] by blast
      then have "serial_fill transfer e = Underrun (e\<lparr>me_canonical_to_modem := q\<rparr>)"
        using low by (subst serial_fill.simps) simp
      moreover have "played transfer e [] [] (e\<lparr>me_canonical_to_modem := q\<rparr>)"
        using 1(2) Nil pop by (simp add: played_def playback_ok_def playback_rest_def)
      ultimately show ?thesis using 1(3) by auto
    next
      case (Cons d ds)
      obtain f q where pop: "qmodem_voip_media_queue_pop (me_canonical_to_modem e) = (0, f, q)"
        "played transfer e [] [d] (play_in f (e\<lparr>me_canonical_to_modem := q\<rparr>))"
        using play_one [OF 1(2) low Cons] by blast
      define e1 where "e1 = play_in f (e\<lparr>me_canonical_to_modem := q\<rparr>)"
      have room: "\<not> sr_playback_used (me_serial e) + SERIAL_FRAME_BYTES > SERIAL_BUFFER_BYTES"
        using 1(2) low by (simp add: playback_ok_def)
      have step: "serial_fill transfer e = serial_fill transfer e1"
        using low pop(1) room by (subst serial_fill.simps) (simp add: e1_def)
      have "playback_ok transfer e1" "sr_playback_offset (me_serial e1) = 0"
        using pop(2) 1(3) by (auto simp: e1_def played_def play_in_def Let_def)
      then obtain e' fs where "played transfer e1 [] fs e'" "sr_playback_offset (me_serial e') = 0"
        "serial_fill transfer e1 = Underrun e' \<or> serial_fill transfer e1 = Filled e' \<and> transfer \<le> sr_playback_used (me_serial e')"
        using 1(1) [OF _ pop(1) [symmetric] refl refl] low room unfolding e1_def by auto
      then show ?thesis
        using played_trans [OF pop(2) [folded e1_def], of "[]" fs e'] unfolding step by auto
    qed
  qed
qed


lemma playback_ready_ok:
  assumes "playback_ok transfer e"
  shows "\<exists>e' fs. played transfer e [] fs e' \<and>
     (playback_ready transfer ts e = Underrun e' \<or>
      playback_ready transfer ts e = Filled e' \<and> transfer \<le> sr_playback_used (me_serial e'))"
proof (cases "sr_playback_offset (me_serial e) = 0 \<and> \<not> ts < sr_next_playback_ms (me_serial e)")
  case True
  then show ?thesis using serial_fill_ok [OF assms] by (auto simp: playback_ready_def)
next
  case False
  then show ?thesis
    using played_refl [OF assms] assms
    by (intro exI [of _ e] exI [of _ "[]"]) (auto simp: playback_ready_def playback_ok_def)
qed

lemma note_again_ok: "playback_ok transfer e \<Longrightarrow> played transfer e [] [] (note_again ts e)"
  by (simp add: played_def playback_ok_def note_again_def Let_def playback_rest_def)

lemma written_ok:
  assumes ok: "playback_ok transfer e" and full: "transfer \<le> sr_playback_used (me_serial e)"
    and n: "sr_playback_offset (me_serial e) + n \<le> transfer"
  defines "out \<equiv> take n (drop (sr_playback_offset (me_serial e)) (sr_playback (me_serial e)))"
  shows "sr_playback_offset (me_serial e) + n < transfer \<Longrightarrow> played transfer e out [] (note_written n e)"
    "sr_playback_offset (me_serial e) + n = transfer \<Longrightarrow> played transfer e out [] (transfer_done transfer ts (note_written n e))"
proof -
  define off used where "off = sr_playback_offset (me_serial e)" and "used = sr_playback_used (me_serial e)"
  have p: "length (sr_playback (me_serial e)) = 1600" "used \<le> 1600" "used < transfer + 320" "transfer \<le> used" "off + n \<le> transfer"
    "0 < transfer" "transfer + 320 \<le> 1601" "mq_wf (me_canonical_to_modem e)"
    "list_all (\<lambda>d. length (fst d) = QMODEM_VOIP_MEDIA_SAMPLES) (mq_contents (me_canonical_to_modem e))"
    using ok full n by (auto simp: playback_ok_def off_def used_def)
  have split: "playback_rest e = out @ drop (off + n) (take used (sr_playback (me_serial e)))"
  proof -
    have "out = take n (drop off (take used (sr_playback (me_serial e))))"
      unfolding out_def off_def [symmetric] using p(4,5) by (simp add: drop_take min_def)
    then show ?thesis
      unfolding playback_rest_def off_def [symmetric] used_def [symmetric]
      by (metis add.commute append_take_drop_id drop_drop)
  qed
  show "played transfer e out [] (note_written n e)" if "sr_playback_offset (me_serial e) + n < transfer"
    using that split p unfolding played_def
    by (simp add: playback_ok_def note_written_def Let_def playback_rest_def off_def [symmetric] used_def [symmetric])
  show "played transfer e out [] (transfer_done transfer ts (note_written n e))" if "sr_playback_offset (me_serial e) + n = transfer"
  proof -
    define e' where "e' = transfer_done transfer ts (note_written n e)"
    have "playback_rest e' = drop (off + n) (take used (sr_playback (me_serial e)))"
      using that p unfolding off_def [symmetric]
      by (simp add: e'_def playback_rest_def transfer_done_def note_written_def Let_def used_def [symmetric] drop_take)
    moreover have "playback_ok transfer e'"
      using p by (simp add: e'_def playback_ok_def transfer_done_def note_written_def Let_def used_def [symmetric])
    moreover have "me_canonical_to_modem e' = me_canonical_to_modem e"
      by (simp add: e'_def transfer_done_def note_written_def Let_def)
    ultimately show ?thesis using split by (simp add: played_def e'_def)
  qed
qed

text \<open>The loop ends, never copies past the buffer, and when it succeeds it has written exactly the
  bytes that come next.\<close>

lemma playback_loop_ok:
  "playback_ok transfer e \<Longrightarrow>
   \<exists>r e' out closed. playback_loop ws transfer ts e = Some (r, e', out, closed) \<and>
     (r = 0 \<longrightarrow> (\<exists>fs. played transfer e out fs e'))"
proof (induction ws arbitrary: e)
  case Nil
  obtain e1 fs where e1: "played transfer e [] fs e1"
    "playback_ready transfer ts e = Underrun e1 \<or> playback_ready transfer ts e = Filled e1 \<and> transfer \<le> sr_playback_used (me_serial e1)"
    using playback_ready_ok [OF Nil] by blast
  then have "playback_ok transfer e1" by (simp add: played_def)
  from played_trans [OF e1(1) note_again_ok [OF this, of ts]] e1 show ?case
    by (auto simp: playback_loop.simps)
next
  case (Cons w ws)
  obtain e1 fs where e1: "played transfer e [] fs e1"
    "playback_ready transfer ts e = Underrun e1 \<or> playback_ready transfer ts e = Filled e1 \<and> transfer \<le> sr_playback_used (me_serial e1)"
    using playback_ready_ok [OF Cons.prems] by blast
  have ok1: "playback_ok transfer e1" using e1(1) by (simp add: played_def)
  show ?case
  proof (cases "playback_ready transfer ts e = Underrun e1")
    case True
    then show ?thesis using e1(1) by (auto simp: playback_loop.simps)
  next
    case False
    with e1(2) have filled: "playback_ready transfer ts e = Filled e1" "transfer \<le> sr_playback_used (me_serial e1)" by auto
    show ?thesis
    proof (cases w)
      case (Written k)
      define n where "n = min k (transfer - sr_playback_offset (me_serial e1))"
      have n: "sr_playback_offset (me_serial e1) + n \<le> transfer" using ok1 by (auto simp: n_def playback_ok_def min_def)
      note w = written_ok [OF ok1 filled(2) n]
      show ?thesis
      proof (cases "n = 0")
        case True
        then show ?thesis
          using Written filled(1) by (auto simp: playback_loop.simps Let_def n_def [symmetric] split: prod.splits)
      next
        case pos: False
        show ?thesis
        proof (cases "sr_playback_offset (me_serial e1) + n = transfer")
          case True
          then show ?thesis
            using Written filled(1) pos played_trans [OF e1(1) w(2) [OF True, of ts]]
            by (auto simp: playback_loop.simps Let_def n_def [symmetric])
        next
          case False
          then have part: "played transfer e1 (take n (drop (sr_playback_offset (me_serial e1)) (sr_playback (me_serial e1)))) [] (note_written n e1)"
            using w(1) n by simp
          then obtain r e' out closed where rest: "playback_loop ws transfer ts (note_written n e1) = Some (r, e', out, closed)"
            "r = 0 \<longrightarrow> (\<exists>gs. played transfer (note_written n e1) out gs e')"
            using Cons.IH [of "note_written n e1"] by (auto simp: played_def)
          then show ?thesis
            using Written filled(1) pos False played_trans [OF played_trans [OF e1(1) part]]
            by (fastforce simp: playback_loop.simps Let_def n_def [symmetric])
        qed
      qed
    next
      case Write_again
      then show ?thesis
        using filled(1) played_trans [OF e1(1) note_again_ok [OF ok1, of ts]] by (auto simp: playback_loop.simps)
    next
      case Write_interrupted
      then show ?thesis
        using filled(1) Cons.IH [OF ok1] played_trans [OF e1(1)] by (fastforce simp: playback_loop.simps)
    next
      case Write_failed
      then show ?thesis using filled(1) by (auto simp: playback_loop.simps split: prod.splits)
    qed
  qed
qed


text \<open>A transfer size that leaves no room for a further frame overruns the buffer.\<close>

lemma serial_fill_step:
  assumes "mq_wf (me_canonical_to_modem e)" "mq_contents (me_canonical_to_modem e) = d # ds"
    "sr_playback_used (me_serial e) < transfer"
  shows "if sr_playback_used (me_serial e) + SERIAL_FRAME_BYTES > SERIAL_BUFFER_BYTES then serial_fill transfer e = Overrun
    else \<exists>e1. serial_fill transfer e = serial_fill transfer e1 \<and> mq_wf (me_canonical_to_modem e1) \<and>
      mq_contents (me_canonical_to_modem e1) = ds \<and>
      sr_playback_used (me_serial e1) = sr_playback_used (me_serial e) + SERIAL_FRAME_BYTES"
proof -
  obtain f q where pop: "qmodem_voip_media_queue_pop (me_canonical_to_modem e) = (0, f, q)" "mq_wf q" "mq_contents q = ds"
    using pop_frame [OF assms(1,2)] by blast
  have eq: "serial_fill transfer e =
      (if sr_playback_used (me_serial e) + SERIAL_FRAME_BYTES > SERIAL_BUFFER_BYTES then Overrun
       else serial_fill transfer (play_in f (e\<lparr>me_canonical_to_modem := q\<rparr>)))"
    using assms(3) pop(1) by (subst serial_fill.simps) simp
  show ?thesis
    unfolding eq using pop
    by (auto intro!: exI [of _ "play_in f (e\<lparr>me_canonical_to_modem := q\<rparr>)"] simp: play_in_def Let_def)
qed

lemma serial_fill_overrun:
  "mq_wf (me_canonical_to_modem e) \<Longrightarrow> length ds = n \<Longrightarrow> mq_contents (me_canonical_to_modem e) = ds @ d # rest \<Longrightarrow>
   sr_playback_used (me_serial e) + 320 * n < transfer \<Longrightarrow> sr_playback_used (me_serial e) + 320 * n \<le> SERIAL_BUFFER_BYTES \<Longrightarrow>
   SERIAL_BUFFER_BYTES < sr_playback_used (me_serial e) + 320 * n + SERIAL_FRAME_BYTES \<Longrightarrow> serial_fill transfer e = Overrun"
proof (induction n arbitrary: e ds)
  case 0
  then show ?case using serial_fill_step [of e d rest transfer] by simp
next
  case (Suc n)
  then obtain x xs where ds: "ds = x # xs" by (cases ds) auto
  have "\<exists>e1. serial_fill transfer e = serial_fill transfer e1 \<and> mq_wf (me_canonical_to_modem e1) \<and>
      mq_contents (me_canonical_to_modem e1) = xs @ d # rest \<and>
      sr_playback_used (me_serial e1) = sr_playback_used (me_serial e) + SERIAL_FRAME_BYTES"
    using serial_fill_step [of e x "xs @ d # rest" transfer] Suc.prems ds by simp
  then show ?case using Suc.IH [of _ xs] Suc.prems ds by auto
qed

section \<open>The PCM socket\<close>

lemma pcm_receive_ok:
  "mq_wf (me_modem_to_canonical e) \<Longrightarrow> list_all (\<lambda>b. b \<noteq> []) bss \<Longrightarrow>
   \<exists>e'. pcm_receive_loop (map Read bss) ts k e =
      (int (k + length (filter (\<lambda>b. length b \<ge> SERIAL_FRAME_BYTES) bss)), e', []) \<and>
     mq_contents (me_modem_to_canonical e') = lastn QMODEM_VOIP_MEDIA_QUEUE_FRAMES (mq_contents (me_modem_to_canonical e) @
       map (\<lambda>b. (le_samples (take SERIAL_FRAME_BYTES b), ts)) (filter (\<lambda>b. length b \<ge> SERIAL_FRAME_BYTES) bss)) \<and>
     mq_wf (me_modem_to_canonical e')"
proof (induction bss arbitrary: e k)
  case Nil
  then show ?case by (simp add: lastn_mq_contents)
next
  case (Cons b bss)
  show ?case
  proof (cases "length b \<ge> SERIAL_FRAME_BYTES")
    case True
    define q where "q = mq_put (le_samples (take SERIAL_FRAME_BYTES b), ts) (me_modem_to_canonical e)"
    have "qmodem_voip_media_queue_push (me_modem_to_canonical e) (le_samples (take SERIAL_FRAME_BYTES b)) ts = (0, q)"
      using Cons.prems(1) True
      by (simp add: qmodem_voip_media_queue_push_def mq_put_def mq_wf_def length_le_samples q_def)
    moreover have "mq_wf q" "mq_contents q = lastn 25 (mq_contents (me_modem_to_canonical e) @
        [(le_samples (take SERIAL_FRAME_BYTES b), ts)])"
      using mq.push_wf [OF Cons.prems(1)] mq.push_contents [OF Cons.prems(1)] by (simp_all add: q_def)
    ultimately show ?thesis
      using True Cons.prems(2) Cons.IH [of "e\<lparr>me_modem_to_canonical := q,
        me_pcm_socket := (me_pcm_socket e)\<lparr>ps_capture_frames := ps_capture_frames (me_pcm_socket e) + 1\<rparr>\<rparr>" "k + 1"]
      by (auto simp: lastn_append_lastn min_def)
  next
    case False
    then show ?thesis using Cons by auto
  qed
qed

section \<open>Properties\<close>


definition sample_serial :: qmodem_voip_media_engine where
  "sample_serial = sample_engine\<lparr>me_backend := QMODEM_VOIP_MEDIA_BACKEND_SERIAL,
     me_serial := zero_serial\<lparr>sr_fd := 4, sr_active := True, sr_attached := True\<rparr>\<rparr>"

lemma sample_queue: "mq_wf (qmodem_voip_media_queue_init True)" "mq_contents (qmodem_voip_media_queue_init True) = []"
  by (simp_all add: mq_wf_def qmodem_voip_media_queue_init_def zero_queue_def mq_contents_def)

lemma sample_serial_ok:
  "me_ready sample_serial" "sr_active (me_serial sample_serial)" "capture_ok sample_serial" "capture_rest sample_serial = []"
  "sr_capture_used (me_serial sample_serial) = 0" "transfer_size sample_serial = 1024" "playback_ok 1024 sample_serial"
  "mq_contents (me_modem_to_canonical sample_serial) = []" "mq_contents (me_canonical_to_modem sample_serial) = []"
  "playback_rest sample_serial = []"
  using sample_queue
  by (simp_all add: sample_serial_def sample_engine_def capture_ok_def capture_rest_def zero_serial_def zero_engine_def
      qmodem_voip_profile_default_def set_frame_size_def transfer_size_def playback_ok_def playback_rest_def)


text \<open>C26: playback neither overruns its buffer nor damages the stream. With a transfer size that
  leaves room for one frame (at most 1281 of the 1600 bytes; the default is 1024) the operation is
  defined for every sequence of write results, and when it succeeds, the bytes it wrote, followed by
  those still buffered, are exactly the bytes that were buffered followed by those of the frames it
  took from the queue.\<close>

theorem serial_playback_stream:
  assumes "playback_ok (transfer_size e) e"
  shows "\<exists>r e' out closed. qmodem_voip_serial_playback ws e ts = Some (r, e', out, closed) \<and>
     (r = 0 \<longrightarrow> playback_ok (transfer_size e) e' \<and>
        (\<exists>fs. mq_contents (me_canonical_to_modem e) = fs @ mq_contents (me_canonical_to_modem e') \<and>
              playback_rest e @ concat (map (le_bytes \<circ> fst) fs) = out @ playback_rest e'))"
  using playback_loop_ok [OF assms, of ws ts] by (auto simp: qmodem_voip_serial_playback_def played_def)

theorem serial_playback_stream_witness:
  "\<exists>r e' out closed. qmodem_voip_serial_playback [Written 100, Write_again] sample_serial 20 = Some (r, e', out, closed)"
  using serial_playback_stream [of sample_serial "[Written 100, Write_again]" 20] by (auto simp: sample_serial_ok)

text \<open>C27: larger transfer sizes are accepted but not safe. Opening the port admits any transfer size up
  to the size of the buffer; with 1500 bytes, the 100 bytes that stay buffered after a transfer and
  the five frames the next one asks for do not fit: the fill loop copies past the end of the
  buffer.\<close>

theorem serial_playback_overrun:
  assumes "pr_transfer_bytes (me_profile e) = 1500" "me_ready e" "sr_active (me_serial e)"
    and "mq_wf (me_canonical_to_modem e)" "length (mq_contents (me_canonical_to_modem e)) \<ge> 5"
    and "sr_playback_used (me_serial e) = 100" "sr_playback_offset (me_serial e) = 0" "sr_next_playback_ms (me_serial e) \<le> ts"
  shows "qmodem_voip_serial_playback ws e ts = None \<and>
         (pr_frame_bytes (me_profile e) = 320 \<longrightarrow> fst (qmodem_voip_serial_adopt True e 4 ''/dev/ttyUSB1'') = 0)"
proof -
  obtain ds d rest where c: "mq_contents (me_canonical_to_modem e) = ds @ d # rest" "length ds = 4"
    using assms(5) id_take_nth_drop [of 4 "mq_contents (me_canonical_to_modem e)"] by fastforce
  have "serial_fill 1500 e = Overrun"
    using serial_fill_overrun [OF assms(4) c(2,1), of 1500] assms(6) by simp
  moreover have "playback_ready 1500 ts e = serial_fill 1500 e"
    using assms(7) leD [OF assms(8)] by (simp add: playback_ready_def)
  moreover have "transfer_size e = 1500" using assms(1) by (simp add: transfer_size_def)
  ultimately show ?thesis
    using assms(1-3)
    by (cases ws) (simp_all add: qmodem_voip_serial_playback_def playback_loop.simps qmodem_voip_serial_adopt_def)
qed

theorem serial_playback_overrun_witness:
  "let q = fold (\<lambda>i. mq_put (replicate 160 i, 0)) [1, 2, 3, 4, 5] (qmodem_voip_media_queue_init True);
       e = sample_serial\<lparr>me_profile := qmodem_voip_profile_default\<lparr>pr_transfer_bytes := 1500\<rparr>,
             me_serial := (me_serial sample_serial)\<lparr>sr_playback_used := 100\<rparr>, me_canonical_to_modem := q\<rparr>
   in qmodem_voip_serial_playback [] e 20 = None"
proof -
  let ?q = "fold (\<lambda>i. mq_put (replicate 160 i, 0)) [1, 2, 3, 4, 5] (qmodem_voip_media_queue_init True)"
  have "mq_wf ?q" "mq_contents ?q = map (\<lambda>i. (replicate 160 i, 0)) [1, 2, 3, 4, 5]"
    using mq.fold_push_wf [OF sample_queue(1), of "map (\<lambda>i. (replicate 160 i, 0)) [1, 2, 3, 4, 5]"]
      mq.fold_push_contents [OF sample_queue(1), of "map (\<lambda>i. (replicate 160 i, 0)) [1, 2, 3, 4, 5]"]
    by (simp_all add: sample_queue lastn_all)
  moreover from this(2) have "mq_count ?q = 5" using length_mq_contents [of ?q] by simp
  ultimately show ?thesis
    unfolding Let_def
    by (intro serial_playback_overrun [THEN conjunct1]) (simp_all add: sample_serial_ok sample_serial_def sample_engine_def zero_serial_def)
qed

text \<open>The PCM socket backend queues exactly the complete frames it receives, in order, and
  reports their number; a short datagram is skipped and the frame after it is not shifted.\<close>

lemma pcm_socket_capture_frames:
  assumes "me_ready e" "ps_fd (me_pcm_socket e) \<ge> 0" "mq_wf (me_modem_to_canonical e)" "list_all (\<lambda>b. b \<noteq> []) bss"
  shows "\<exists>e'. qmodem_voip_pcm_socket_capture connected (map Read bss) e ts =
      (int (length (filter (\<lambda>b. length b \<ge> SERIAL_FRAME_BYTES) bss)), e', []) \<and>
     mq_contents (me_modem_to_canonical e') = lastn QMODEM_VOIP_MEDIA_QUEUE_FRAMES (mq_contents (me_modem_to_canonical e) @
       map (\<lambda>b. (le_samples (take SERIAL_FRAME_BYTES b), ts)) (filter (\<lambda>b. length b \<ge> SERIAL_FRAME_BYTES) bss))"
  using pcm_receive_ok [OF assms(3,4), of ts 0] assms(1,2) by (auto simp: qmodem_voip_pcm_socket_capture_def)

end
