(* ===== verification/Media_Alsa.thy ===== *)
theory Media_Alsa
  imports Media_Serial
begin

text \<open>
  Starting the media engine and moving audio through its backend,
  \<open>application/voipd/src/media_alsa.c\<close>: finding the modem's USB sound card, the method recorded in
  the safety journal, starting the backend it names, and capture and playback, which go to the serial
  port, to the PCM socket or to the sound card.

  The directory tree and the files are parameters, the sound library is a parameter through the
  results of its calls. The self-test generates and measures a tone in floating point; only its
  verdict enters here.
\<close>

abbreviation QMODEM_VOIP_MEDIA_RATE :: nat where "QMODEM_VOIP_MEDIA_RATE \<equiv> 8000"
abbreviation QMODEM_VOIP_PCM_MAX_SAMPLES :: nat where "QMODEM_VOIP_PCM_MAX_SAMPLES \<equiv> 1920"

section \<open>Finding the sound card\<close>

text \<open>\<open>attribute slot name\<close> is the first line of a file of the device, without its line end.\<close>

definition sound_identity :: "(string \<Rightarrow> string \<Rightarrow> string option) \<Rightarrow> string \<Rightarrow> bool" where
  "sound_identity attribute slot \<longleftrightarrow> attribute slot ''idVendor'' = Some ''2c7c'' \<and>
     attribute slot ''idProduct'' = Some ''0801'' \<and> attribute slot ''product'' = Some ''RM520N-GL''"

definition scan_card :: "string \<Rightarrow> u32 option" where
  "scan_card name = (if has_prefix name ''card'' then map_option fst (scan_unsigned (drop 4 name)) else None)"

text \<open>\<open>dirs path\<close> are the entries of a directory, if it can be opened, in the order they are read.\<close>

definition card_for_slot :: "(string \<Rightarrow> string list option) \<Rightarrow> string \<Rightarrow> string \<Rightarrow> u32 option" where
  "card_for_slot dirs root slot =
     (case dirs (root @ ''/'' @ slot) of
        None \<Rightarrow> None
      | Some entries \<Rightarrow>
          let cards = List.map_filter (\<lambda>entry.
                if entry \<noteq> [] \<and> hd entry = CHR ''.'' then None
                else case dirs (root @ ''/'' @ slot @ ''/'' @ entry @ ''/sound'') of
                       None \<Rightarrow> None
                     | Some names \<Rightarrow> (case List.map_filter scan_card names of c # cs \<Rightarrow> Some c | [] \<Rightarrow> None)) entries
          in case cards of c # cs \<Rightarrow> Some c | [] \<Rightarrow> None)"

fun contains :: "string \<Rightarrow> string \<Rightarrow> bool" where
  "contains [] p = (p = [])"
| "contains (c # cs) p = (has_prefix (c # cs) p \<or> contains cs p)"

definition scan_device :: "string \<Rightarrow> (u32 \<times> u32) option" where
  "scan_device line =
     (case scan_unsigned line of
        Some (cardno, rest) \<Rightarrow>
          if rest \<noteq> [] \<and> hd rest = CHR ''-'' then map_option (\<lambda>(device, _). (cardno, device)) (scan_unsigned (tl rest))
          else None
      | None \<Rightarrow> None)"

text \<open>\<open>lines\<close> are the lines of the list of PCM devices, if it can be read.\<close>

definition has_duplex :: "string list option \<Rightarrow> u32 \<Rightarrow> u32 option" where
  "has_duplex lines cardno =
     (case lines of
        None \<Rightarrow> None
      | Some ls \<Rightarrow>
          (case filter (\<lambda>l. (case scan_device l of Some (c, d) \<Rightarrow> c = cardno | None \<Rightarrow> False) \<and>
                   contains l ''playback'' \<and> contains l ''capture'') ls of
             l # _ \<Rightarrow> map_option snd (scan_device l)
           | [] \<Rightarrow> None))"

definition qmodem_voip_media_discover ::
  "(string \<Rightarrow> string \<Rightarrow> string option) \<Rightarrow> (string \<Rightarrow> string list option) \<Rightarrow> string list option \<Rightarrow> string \<Rightarrow> string
   \<Rightarrow> qmodem_voip_media_device option" where
  "qmodem_voip_media_discover attribute dirs pcm_lines sysfs_root recorded_slot =
     (if length recorded_slot \<ge> 64 then None
      else case dirs sysfs_root of
        None \<Rightarrow> None
      | Some entries \<Rightarrow>
          let matches = filter (\<lambda>n. \<not> (n \<noteq> [] \<and> hd n = CHR ''.'') \<and> sound_identity attribute n) entries in
          if length matches \<noteq> 1 \<or> recorded_slot \<notin> set matches \<or> recorded_slot = [] then None
          else case card_for_slot dirs sysfs_root recorded_slot of
            None \<Rightarrow> None
          | Some cardno \<Rightarrow>
              (case has_duplex pcm_lines cardno of
                 None \<Rightarrow> None
               | Some pcm \<Rightarrow>
                   Some (zero_device\<lparr>dv_slot := recorded_slot,
                     dv_pcm_name := c_copy 32 (''hw:'' @ dec_nat (unat cardno) @ '','' @ dec_nat (unat pcm)),
                     dv_card := cardno, dv_device := pcm, dv_full_duplex := True\<rparr>)))"

section \<open>Starting the engine\<close>

text \<open>The value of the last usable line with a given key; lines that are too long for the buffer are
  ignored.\<close>

definition journal_value :: "string \<Rightarrow> nat \<Rightarrow> string list \<Rightarrow> string" where
  "journal_value key sz lines =
     fold (\<lambda>l old. if has_prefix l key then
                     let v = takeWhile (\<lambda>c. c \<noteq> CHR 0x0D \<and> c \<noteq> CHR 0x0A) (drop (length key) l)
                     in if v \<noteq> [] \<and> length v < sz then v else old
                   else old) lines []"

text \<open>\<open>journal\<close> are the pieces \<open>fgets\<close> returns, if the file can be opened.\<close>

definition recorded_media :: "string list option \<Rightarrow> (string \<times> string) option" where
  "recorded_media journal =
     (case journal of
        None \<Rightarrow> None
      | Some lines \<Rightarrow>
          let slot = journal_value ''slot='' 64 lines; mode = journal_value ''media_method='' 32 lines
          in if slot = [] \<or> mode = [] then None else Some (slot, mode))"

text \<open>The world of a start: the journal, the locks of the queues, the serial port, the PCM socket, what
  discovery finds, the rates the probe gives, the verdict of the self-test if it is asked for, and the
  rates of the two devices when they could be opened.\<close>

record engine_env =
  ee_journal :: "string list option"
  ee_lock :: bool
  ee_serial :: serial_env
  ee_socket :: int
  ee_discover :: "string \<Rightarrow> qmodem_voip_media_device option"
  ee_probe :: "(u32 \<times> u32) option"
  ee_self_test :: "bool option"
  ee_open :: "(u32 \<times> u32) option"

definition engine_start_uac :: "engine_env \<Rightarrow> string \<Rightarrow> qmodem_voip_media_engine \<Rightarrow> int \<times> qmodem_voip_media_engine" where
  "engine_start_uac env slot e =
     (let failed = (-1, fst (qmodem_voip_media_release e)) in
      case ee_discover env slot of
        None \<Rightarrow> failed
      | Some d \<Rightarrow>
          (case ee_probe env of
             None \<Rightarrow> failed
           | Some _ \<Rightarrow>
               if ee_self_test env = Some False then failed
               else case ee_open env of
                 None \<Rightarrow> failed
               | Some (capture_rate, playback_rate) \<Rightarrow>
                   (0, e\<lparr>me_device := d\<lparr>dv_capture_rate := capture_rate, dv_playback_rate := playback_rate\<rparr>,
                         me_pcm_handles := True, me_backend := QMODEM_VOIP_MEDIA_BACKEND_UAC, me_ready := True,
                         me_browser_media_ready := False\<rparr>)))"

definition qmodem_voip_media_engine_start :: "engine_env \<Rightarrow> qmodem_voip_media_engine \<Rightarrow> int \<times> qmodem_voip_media_engine" where
  "qmodem_voip_media_engine_start env engine =
     (case recorded_media (ee_journal env) of
        None \<Rightarrow> (-1, engine)
      | Some (slot, mode) \<Rightarrow>
          let e0 = fst (qmodem_voip_media_release engine);
              e = e0\<lparr>me_modem_to_canonical := qmodem_voip_media_queue_init (ee_lock env),
                     me_canonical_to_modem := qmodem_voip_media_queue_init (ee_lock env)\<rparr> in
          if mode = ''serial_pcm'' then
            (case qmodem_voip_serial_start (ee_serial env) e slot of
               (r, e1, _) \<Rightarrow> if r \<noteq> 0 then (-1, fst (qmodem_voip_media_release e1)) else (0, e1))
          else if mode = ''pcm_socket'' then
            (case qmodem_voip_pcm_socket_start (ee_socket env) e of
               (r, e1) \<Rightarrow> if r \<noteq> 0 then (-1, fst (qmodem_voip_media_release e1)) else (0, e1))
          else if mode \<noteq> ''uac'' then (-1, fst (qmodem_voip_media_release e))
          else engine_start_uac env slot e)"

section \<open>Capture and playback\<close>

text \<open>What the backends return: the results of the reads of the serial port, the connection and the
  reads of the PCM socket, and the samples of the sound card, if it gives any. \<open>None\<close> stands for a
  write outside a buffer.\<close>

record backend_env =
  be_serial_reads :: "read_result list"
  be_serial_writes :: "write_result list"
  be_connected :: int
  be_socket_reads :: "read_result list"
  be_send :: "u8 list \<Rightarrow> write_result"
  be_readi :: "nat \<Rightarrow> i16 list option"
  be_writei :: "i16 list \<Rightarrow> int"
  be_soxr :: "nat \<Rightarrow> nat \<Rightarrow> i16 list \<Rightarrow> nat \<Rightarrow> i16 list option"

definition uac_capture :: "backend_env \<Rightarrow> qmodem_voip_media_engine \<Rightarrow> u64 \<Rightarrow> int \<times> qmodem_voip_media_engine" where
  "uac_capture env e timestamp_ms =
     (let rate = unat (dv_capture_rate (me_device e)); expected = rate div 50 in
      if \<not> me_ready e \<or> rate = 0 \<or> expected = 0 \<or> expected > QMODEM_VOIP_PCM_MAX_SAMPLES \<or> \<not> me_pcm_handles e then (-1, e)
      else case be_readi env expected of
        None \<Rightarrow> (-1, e)
      | Some samples \<Rightarrow>
          if length samples \<noteq> expected then (-1, e)
          else case qmodem_voip_media_resample (be_soxr env) samples rate QMODEM_VOIP_MEDIA_SAMPLES QMODEM_VOIP_MEDIA_RATE of
            None \<Rightarrow> (-1, e)
          | Some canonical \<Rightarrow>
              if length canonical \<noteq> QMODEM_VOIP_MEDIA_SAMPLES then (-1, e)
              else (case qmodem_voip_media_queue_push (me_modem_to_canonical e) canonical timestamp_ms of
                      (r, q) \<Rightarrow> (r, e\<lparr>me_modem_to_canonical := q\<rparr>)))"

definition qmodem_voip_media_capture ::
  "backend_env \<Rightarrow> qmodem_voip_media_engine \<Rightarrow> u64 \<Rightarrow> (int \<times> qmodem_voip_media_engine) option" where
  "qmodem_voip_media_capture env e timestamp_ms =
     (if me_backend e = QMODEM_VOIP_MEDIA_BACKEND_SERIAL
      then map_option (\<lambda>(r, e1, closed). (r, e1)) (qmodem_voip_serial_capture (be_serial_reads env) e timestamp_ms)
      else if me_backend e = QMODEM_VOIP_MEDIA_BACKEND_PCM_SOCKET
      then (case qmodem_voip_pcm_socket_capture (be_connected env) (be_socket_reads env) e timestamp_ms of
              (r, e1, closed) \<Rightarrow> Some (r, e1))
      else Some (uac_capture env e timestamp_ms))"

text \<open>An empty queue plays silence, since only a negative result stops playback.\<close>

definition uac_playback :: "backend_env \<Rightarrow> qmodem_voip_media_engine \<Rightarrow> int \<times> qmodem_voip_media_engine \<times> i16 list option" where
  "uac_playback env e =
     (let rate = unat (dv_playback_rate (me_device e)); expected = rate div 50 in
      if \<not> me_ready e \<or> rate = 0 \<or> expected = 0 \<or> expected > QMODEM_VOIP_PCM_MAX_SAMPLES then (-1, e, None)
      else case qmodem_voip_media_queue_pop (me_canonical_to_modem e) of
        (p, frame, q) \<Rightarrow>
          let e1 = e\<lparr>me_canonical_to_modem := q\<rparr> in
          if p < 0 then (-1, e1, None)
          else case qmodem_voip_media_resample (be_soxr env) (fr_samples frame) QMODEM_VOIP_MEDIA_RATE
                      QMODEM_VOIP_PCM_MAX_SAMPLES rate of
            None \<Rightarrow> (-1, e1, None)
          | Some output \<Rightarrow>
              if length output \<noteq> expected \<or> \<not> me_pcm_handles e1 then (-1, e1, None)
              else (if be_writei env output = int (length output) then 0 else -1, e1, Some output))"

definition qmodem_voip_media_playback ::
  "backend_env \<Rightarrow> qmodem_voip_media_engine \<Rightarrow> u64 \<Rightarrow> (int \<times> qmodem_voip_media_engine) option" where
  "qmodem_voip_media_playback env e timestamp_ms =
     (if me_backend e = QMODEM_VOIP_MEDIA_BACKEND_SERIAL
      then map_option (\<lambda>(r, e1, out, closed). (r, e1)) (qmodem_voip_serial_playback (be_serial_writes env) e timestamp_ms)
      else if me_backend e = QMODEM_VOIP_MEDIA_BACKEND_PCM_SOCKET
      then (case qmodem_voip_pcm_socket_playback (be_send env) e timestamp_ms of (r, e1, out, closed) \<Rightarrow> Some (r, e1))
      else (case uac_playback env e of (r, e1, out) \<Rightarrow> Some (r, e1)))"

section \<open>What a start leaves behind\<close>

lemma release_idle:
  "me_ready (fst (qmodem_voip_media_release e)) = False" "me_session_id (fst (qmodem_voip_media_release e)) = 0"
  by (simp_all add: qmodem_voip_media_release_def zero_engine_def split: prod.splits if_splits)

lemma serial_close_session: "me_session_id (fst (qmodem_voip_serial_close e)) = me_session_id e"
  by (simp add: qmodem_voip_serial_close_def)

lemma serial_start_ready:
  assumes "qmodem_voip_serial_start env e slot = (0, e', closed)"
  shows "me_ready e' \<and> me_backend e' = QMODEM_VOIP_MEDIA_BACKEND_SERIAL \<and> me_session_id e' = me_session_id e \<and>
    me_modem_to_canonical e' = me_modem_to_canonical e \<and> me_canonical_to_modem e' = me_canonical_to_modem e"
  using assms
  by (auto simp: qmodem_voip_serial_start_def qmodem_voip_serial_adopt_def Let_def split: option.splits if_splits prod.splits)

lemma pcm_socket_start_ready:
  assumes "qmodem_voip_pcm_socket_start fd e = (0, e')"
  shows "me_ready e' \<and> me_backend e' = QMODEM_VOIP_MEDIA_BACKEND_PCM_SOCKET \<and> me_session_id e' = me_session_id e \<and>
    me_modem_to_canonical e' = me_modem_to_canonical e \<and> me_canonical_to_modem e' = me_canonical_to_modem e"
  using assms
  by (auto simp: qmodem_voip_pcm_socket_start_def pcm_socket_connect_def Let_def split: if_splits)

lemma uac_start_cases:
  assumes "engine_start_uac env slot e = (r, e')"
  shows "(r = 0 \<and> me_ready e' \<and> me_backend e' = QMODEM_VOIP_MEDIA_BACKEND_UAC \<and> me_session_id e' = me_session_id e \<and>
      me_modem_to_canonical e' = me_modem_to_canonical e \<and> me_canonical_to_modem e' = me_canonical_to_modem e) \<or>
    (r = -1 \<and> \<not> me_ready e')"
  using assms release_idle [of e]
  by (auto simp: engine_start_uac_def Let_def split: option.splits if_splits prod.splits)

text \<open>The backend a recorded method stands for.\<close>

definition backend_of :: "string \<Rightarrow> qmodem_voip_media_backend" where
  "backend_of mode = (if mode = ''serial_pcm'' then QMODEM_VOIP_MEDIA_BACKEND_SERIAL
     else if mode = ''pcm_socket'' then QMODEM_VOIP_MEDIA_BACKEND_PCM_SOCKET
     else if mode = ''uac'' then QMODEM_VOIP_MEDIA_BACKEND_UAC else QMODEM_VOIP_MEDIA_BACKEND_NONE)"

lemma engine_start_cases:
  assumes "recorded_media (ee_journal env) = Some (slot, mode)" "qmodem_voip_media_engine_start env e = (r, e')"
  shows "(r = 0 \<and> me_ready e' \<and> me_backend e' = backend_of mode \<and> me_backend e' \<noteq> QMODEM_VOIP_MEDIA_BACKEND_NONE \<and>
      me_session_id e' = 0 \<and> me_modem_to_canonical e' = qmodem_voip_media_queue_init (ee_lock env) \<and>
      me_canonical_to_modem e' = qmodem_voip_media_queue_init (ee_lock env)) \<or> (r = -1 \<and> \<not> me_ready e')"
proof -
  define e0 where "e0 = (fst (qmodem_voip_media_release e))\<lparr>me_modem_to_canonical := qmodem_voip_media_queue_init (ee_lock env),
    me_canonical_to_modem := qmodem_voip_media_queue_init (ee_lock env)\<rparr>"
  have s: "me_session_id e0 = 0" "me_modem_to_canonical e0 = qmodem_voip_media_queue_init (ee_lock env)"
      "me_canonical_to_modem e0 = qmodem_voip_media_queue_init (ee_lock env)"
    using release_idle(2) by (simp_all add: e0_def)
  note start = assms(2) [unfolded qmodem_voip_media_engine_start_def assms(1) Let_def, simplified, folded e0_def]
  consider "mode = ''serial_pcm''" | "mode = ''pcm_socket''" | "mode = ''uac''"
    | "mode \<noteq> ''serial_pcm''" "mode \<noteq> ''pcm_socket''" "mode \<noteq> ''uac''" by blast
  then show ?thesis
  proof cases
    case 1
    obtain q e1 c where q: "qmodem_voip_serial_start (ee_serial env) e0 slot = (q, e1, c)" by (metis prod_cases3)
    show ?thesis
    proof (cases "q = 0")
      case True
      from serial_start_ready [OF q [unfolded True]] show ?thesis using start 1 q True s by (auto simp: backend_of_def)
    next
      case False
      then show ?thesis using start 1 q release_idle by auto
    qed
  next
    case 2
    obtain q e1 where q: "qmodem_voip_pcm_socket_start (ee_socket env) e0 = (q, e1)" by (metis surj_pair)
    show ?thesis
    proof (cases "q = 0")
      case True
      from pcm_socket_start_ready [OF q [unfolded True]] show ?thesis using start 2 q True s by (auto simp: backend_of_def)
    next
      case False
      then show ?thesis using start 2 q release_idle by auto
    qed
  next
    case 3
    from uac_start_cases [of env slot e0 r e'] show ?thesis using start 3 s by (auto simp: backend_of_def)
  next
    case 4
    then show ?thesis using start release_idle by auto
  qed
qed

lemma discover_slot:
  assumes "qmodem_voip_media_discover attribute dirs pcm_lines root slot = Some d"
  shows "dv_slot d = slot \<and> dv_full_duplex d \<and> sound_identity attribute slot"
  using assms by (auto simp: qmodem_voip_media_discover_def Let_def split: option.splits if_splits)

text \<open>The sound card and the engine exchange whole frames: a capture that succeeds adds exactly one.\<close>

lemma uac_capture_frame:
  assumes "uac_capture env e ts = (0, e')" "mq_wf (me_modem_to_canonical e)"
  shows "\<exists>samples. length samples = QMODEM_VOIP_MEDIA_SAMPLES \<and>
    mq_contents (me_modem_to_canonical e') =
      lastn QMODEM_VOIP_MEDIA_QUEUE_FRAMES (mq_contents (me_modem_to_canonical e) @ [(samples, ts)])"
  using assms store_ok(2) [OF assms(2)]
  by (auto simp: uac_capture_def qmodem_voip_media_queue_push_def Let_def split: option.splits if_splits)

end
