(* ===== verification/Browser_Media.thy ===== *)
theory Browser_Media
  imports Media_Serial
begin

text \<open>
  Media for the browser, \<open>application/voipd/src/browser_media.c\<close>: the single-use tokens that
  admit a WebSocket, the frames it carries, and the callback of the WebSocket library with the
  functions that attach a browser to the media engine and release it.

  The WebSocket library is a parameter: an event of it carries what the library reports (header
  texts, fragment flags, the result of a write). A connection handle is a number. Random bytes, the
  time and the resampler are arguments.
\<close>

unbundle bit_operations_syntax

abbreviation TOKEN_BYTES :: nat where "TOKEN_BYTES \<equiv> 16"
abbreviation TOKEN_TEXT :: nat where "TOKEN_TEXT \<equiv> 22"
abbreviation TOKEN_SLOTS :: nat where "TOKEN_SLOTS \<equiv> 32"
abbreviation TOKEN_TTL :: u64 where "TOKEN_TTL \<equiv> 30"
abbreviation BROWSER_RATE :: nat where "BROWSER_RATE \<equiv> 48000"
abbreviation BROWSER_FRAME_SAMPLES :: nat where "BROWSER_FRAME_SAMPLES \<equiv> 480"
abbreviation BROWSER_SAMPLES :: nat where "BROWSER_SAMPLES \<equiv> 960"
abbreviation BROWSER_FRAME_SIZE :: nat where "BROWSER_FRAME_SIZE \<equiv> 984"
abbreviation BROWSER_MAGIC :: u32 where "BROWSER_MAGIC \<equiv> 0x514d5650"

section \<open>The text of a token\<close>

definition base64url :: string where
  "base64url = ''ABCDEFGHIJKLMNOPQRSTUVWXYZabcdefghijklmnopqrstuvwxyz0123456789-_''"

definition base64url_value :: "char \<Rightarrow> nat option" where
  "base64url_value c = map_option (\<lambda>rest. length base64url - length rest) (strchr base64url c)"

text \<open>The inner loop of \<open>encode_token\<close>: the characters for the complete groups of six bits, and the
  bits left.\<close>

fun emit_sextets :: "u32 \<Rightarrow> nat \<Rightarrow> string \<times> nat" where
  "emit_sextets accumulator bits =
     (if bits \<ge> 6
      then apfst ((#) (base64url ! unat (drop_bit (bits - 6) accumulator AND 63))) (emit_sextets accumulator (bits - 6))
      else ([], bits))"

declare emit_sextets.simps [simp del]

fun encode_loop :: "u32 \<Rightarrow> nat \<Rightarrow> u8 list \<Rightarrow> string" where
  "encode_loop accumulator bits [] =
     (if bits \<noteq> 0 then [base64url ! unat (push_bit (6 - bits) accumulator AND 63)] else [])"
| "encode_loop accumulator bits (b # bs) =
     (let acc = push_bit 8 accumulator OR ucast b; (out, left) = emit_sextets acc (bits + 8)
      in out @ encode_loop acc left bs)"

definition encode_token :: "u8 list \<Rightarrow> string" where
  "encode_token input = encode_loop 0 0 input"

text \<open>\<open>decode_token\<close>: at most one octet is complete after six more bits.\<close>

fun decode_loop :: "u32 \<Rightarrow> nat \<Rightarrow> u8 list \<Rightarrow> string \<Rightarrow> (u8 list \<times> nat) option" where
  "decode_loop accumulator bits out [] = Some (out, bits)"
| "decode_loop accumulator bits out (c # cs) =
     (case base64url_value c of
        None \<Rightarrow> None
      | Some v \<Rightarrow>
          let acc = push_bit 6 accumulator OR of_nat v in
          if bits + 6 \<ge> 8 then
            (if length out \<ge> TOKEN_BYTES then None
             else decode_loop acc (bits + 6 - 8) (out @ [ucast (drop_bit (bits + 6 - 8) acc)]) cs)
          else decode_loop acc (bits + 6) out cs)"

definition decode_token :: "string option \<Rightarrow> u8 list option" where
  "decode_token input =
     (case input of
        None \<Rightarrow> None
      | Some s \<Rightarrow>
          if length s \<noteq> TOKEN_TEXT then None
          else case decode_loop 0 0 [] s of
                 None \<Rightarrow> None
               | Some (out, bits) \<Rightarrow> if length out = TOKEN_BYTES \<and> bits = 4 then Some out else None)"

section \<open>The table of tokens\<close>

record qmodem_voip_browser_token =
  bt_secret :: "u8 list"
  bt_call_revision :: u64
  bt_expires_at :: u64
  bt_session_id :: string
  bt_origin :: string
  bt_peer_address :: string
  bt_active :: bool

definition zero_token :: qmodem_voip_browser_token where
  "zero_token = \<lparr>bt_secret = replicate TOKEN_BYTES 0, bt_call_revision = 0, bt_expires_at = 0, bt_session_id = [],
     bt_origin = [], bt_peer_address = [], bt_active = False\<rparr>"

text \<open>\<open>copy_string\<close> of this file: what the buffer holds, unless the source is absent, empty or too
  long.\<close>

definition checked_copy :: "nat \<Rightarrow> string option \<Rightarrow> string option" where
  "checked_copy sz source = (case source of None \<Rightarrow> None
     | Some s \<Rightarrow> if s = [] \<or> length s \<ge> sz then None else Some s)"

text \<open>\<open>constant_time_equal\<close> looks at every byte.\<close>

definition constant_time_equal :: "u8 list \<Rightarrow> u8 list \<Rightarrow> bool" where
  "constant_time_equal left right \<longleftrightarrow> fold (\<lambda>(l, r) different. different OR (l XOR r)) (zip left right) 0 = 0"

definition expire_tokens :: "u64 \<Rightarrow> qmodem_voip_browser_token list \<Rightarrow> qmodem_voip_browser_token list" where
  "expire_tokens now tokens =
     map (\<lambda>t. if bt_active t \<and> now \<ge> bt_expires_at t then zero_token else t) tokens"

definition qmodem_voip_browser_tokens_init :: "qmodem_voip_browser_token list" where
  "qmodem_voip_browser_tokens_init = replicate TOKEN_SLOTS zero_token"

definition qmodem_voip_browser_tokens_clear :: "qmodem_voip_browser_token list" where
  "qmodem_voip_browser_tokens_clear = replicate TOKEN_SLOTS zero_token"

text \<open>The first slot not in use; if there is none, the first of those that expire soonest.\<close>

definition oldest_slot :: "qmodem_voip_browser_token list \<Rightarrow> nat" where
  "oldest_slot tokens =
     fold (\<lambda>i best. if bt_expires_at (tokens ! i) < bt_expires_at (tokens ! best) then i else best)
       [1..<TOKEN_SLOTS] 0"

definition token_slot :: "qmodem_voip_browser_token list \<Rightarrow> nat" where
  "token_slot tokens = (case first_index (\<lambda>t. \<not> bt_active t) tokens of Some i \<Rightarrow> i | None \<Rightarrow> oldest_slot tokens)"

text \<open>\<open>random\<close> is what \<open>random_bytes\<close> delivers.\<close>

definition qmodem_voip_browser_token_issue ::
  "u8 list option \<Rightarrow> qmodem_voip_browser_token list \<Rightarrow> string option \<Rightarrow> u64 \<Rightarrow> string option \<Rightarrow> string option \<Rightarrow> u64
   \<Rightarrow> int \<times> string option \<times> qmodem_voip_browser_token list" where
  "qmodem_voip_browser_token_issue random tokens session_id call_revision origin peer_address now =
     (if call_revision = 0 then (-1, None, tokens)
      else case (checked_copy 65 session_id, checked_copy 193 origin) of
        (Some session, Some org) \<Rightarrow>
          if \<not> has_prefix org ''https://'' then (-1, None, tokens)
          else let toks = expire_tokens now tokens; i = token_slot toks in
          (case random of
             None \<Rightarrow> (-1, None, toks[i := zero_token])
           | Some secret \<Rightarrow>
               let t = zero_token\<lparr>bt_secret := secret, bt_session_id := session, bt_origin := org,
                                  bt_call_revision := call_revision\<rparr> in
               if peer_address \<noteq> None \<and> checked_copy 64 peer_address = None
               then (-1, None, toks[i := zero_token])
               else (0, Some (encode_token secret),
                     toks[i := t\<lparr>bt_peer_address := (case peer_address of None \<Rightarrow> [] | Some p \<Rightarrow> p),
                                 bt_expires_at := now + TOKEN_TTL, bt_active := True\<rparr>]))
      | _ \<Rightarrow> (-1, None, tokens))"

text \<open>Whether the holder of a matching secret is the one the token was issued for.\<close>

definition token_accepts ::
  "qmodem_voip_browser_token \<Rightarrow> string \<Rightarrow> u64 \<Rightarrow> string \<Rightarrow> string option \<Rightarrow> bool" where
  "token_accepts slot session_id call_revision origin peer_address \<longleftrightarrow>
     bt_call_revision slot \<le> call_revision \<and> bt_session_id slot = session_id \<and> bt_origin slot = origin \<and>
     (case peer_address of
        None \<Rightarrow> False
      | Some p \<Rightarrow> p \<noteq> [] \<and>
          ((bt_peer_address slot = [] \<and> checked_copy 64 (Some p) \<noteq> None) \<or>
           (bt_peer_address slot \<noteq> [] \<and> bt_peer_address slot = p)))"

definition qmodem_voip_browser_token_consume ::
  "qmodem_voip_browser_token list \<Rightarrow> string option \<Rightarrow> string \<Rightarrow> u64 \<Rightarrow> string \<Rightarrow> string option \<Rightarrow> u64
   \<Rightarrow> int \<times> qmodem_voip_browser_token list" where
  "qmodem_voip_browser_token_consume tokens token session_id call_revision origin peer_address now =
     (case decode_token token of
        None \<Rightarrow> (-1, tokens)
      | Some secret \<Rightarrow>
          let toks = expire_tokens now tokens in
          case first_index (\<lambda>t. bt_active t \<and> constant_time_equal (bt_secret t) secret) toks of
            None \<Rightarrow> (-1, toks)
          | Some i \<Rightarrow>
              (if token_accepts (toks ! i) session_id call_revision origin peer_address then 0 else -1,
               toks[i := zero_token]))"

section \<open>Frames\<close>

record qmodem_voip_browser_frame =
  bf_sequence :: u32
  bf_timestamp_ms :: u32
  bf_samples :: "i16 list"

definition read_le32 :: "u8 list \<Rightarrow> nat \<Rightarrow> u32" where
  "read_le32 v i = ucast (v ! i) OR push_bit 8 (ucast (v ! (i + 1))) OR push_bit 16 (ucast (v ! (i + 2))) OR
     push_bit 24 (ucast (v ! (i + 3)))"

definition write_le32 :: "u32 \<Rightarrow> u8 list" where
  "write_le32 n = [ucast n, ucast (drop_bit 8 n), ucast (drop_bit 16 n), ucast (drop_bit 24 n)]"

definition qmodem_voip_browser_frame_parse :: "u8 list \<Rightarrow> qmodem_voip_browser_frame option" where
  "qmodem_voip_browser_frame_parse d =
     (if length d \<noteq> BROWSER_FRAME_SIZE \<or> read_le32 d 0 \<noteq> BROWSER_MAGIC \<or> d ! 4 \<noteq> 1 \<or> d ! 5 \<noteq> 1 \<or> d ! 6 \<noteq> 1 \<or> d ! 7 \<noteq> 0 \<or>
         read_le32 d 8 \<noteq> of_nat BROWSER_RATE \<or> read_le32 d 20 \<noteq> of_nat BROWSER_FRAME_SAMPLES then None
      else Some \<lparr>bf_sequence = read_le32 d 12, bf_timestamp_ms = read_le32 d 16, bf_samples = le_samples (drop 24 d)\<rparr>)"

text \<open>The frame the callback writes.\<close>

definition browser_frame_bytes :: "u32 \<Rightarrow> u32 \<Rightarrow> i16 list \<Rightarrow> u8 list" where
  "browser_frame_bytes sequence timestamp_ms samples =
     write_le32 BROWSER_MAGIC @ [1, 1, 1, 0] @ write_le32 (of_nat BROWSER_RATE) @ write_le32 sequence @
     write_le32 timestamp_ms @ write_le32 (of_nat BROWSER_FRAME_SAMPLES) @ le_bytes samples"

section \<open>The browser session\<close>

record qmodem_voip_browser_media =
  bm_tokens :: "qmodem_voip_browser_token list"
  bm_engine_set :: bool
  bm_engine :: qmodem_voip_media_engine
  bm_context :: bool
  bm_client :: "nat option"
  bm_pending_client :: "nat option"
  bm_address :: string
  bm_certificate_data :: "u8 list"
  bm_key_data :: "u8 list"
  bm_certificate_length :: nat
  bm_key_length :: nat
  bm_origin :: string
  bm_call_revision :: u64
  bm_expected_sequence :: u32
  bm_last_timestamp_ms :: u32
  bm_sequence_seen :: bool
  bm_uplink :: "i16 list"
  bm_uplink_count :: nat
  bm_uplink_frames :: u64
  bm_uplink_non_silent_frames :: u64
  bm_uplink_peak :: nat
  bm_downlink_frames :: u64
  bm_downlink_empty :: u64
  bm_downlink_write_errors :: u64
  bm_dropped :: u64
  bm_attached :: bool
  bm_ready :: bool

text \<open>\<open>inet_pton\<close> gives the address in host order.\<close>

definition qmodem_voip_browser_configure ::
  "(string \<Rightarrow> u32 option) \<Rightarrow> qmodem_voip_browser_media \<Rightarrow> qmodem_voip_media_engine \<Rightarrow> string option
   \<Rightarrow> int \<times> qmodem_voip_browser_media" where
  "qmodem_voip_browser_configure inet_pton b engine address =
     (case address of
        None \<Rightarrow> (-1, b)
      | Some a \<Rightarrow>
          (case (inet_pton a, checked_copy 16 (Some a)) of
             (Some ip, Some s) \<Rightarrow>
               if ip = 0 \<or> drop_bit 24 ip = 127 then (-1, b)
               else (0, b\<lparr>bm_address := s, bm_engine_set := True, bm_engine := engine,
                          bm_tokens := qmodem_voip_browser_tokens_init\<rparr>)
           | _ \<Rightarrow> (-1, b)))"

text \<open>\<open>context_created\<close> is the result of creating the WebSocket context.\<close>

definition qmodem_voip_browser_media_start :: "bool \<Rightarrow> qmodem_voip_browser_media \<Rightarrow> int \<times> qmodem_voip_browser_media" where
  "qmodem_voip_browser_media_start context_created b =
     (if \<not> bm_engine_set b \<or> \<not> me_ready (bm_engine b) \<or> bm_ready b then (-1, b)
      else let b1 = b\<lparr>bm_context := context_created\<rparr> in
      if \<not> context_created then (-1, b1)
      else (0, b1\<lparr>bm_call_revision := 0, bm_ready := True\<rparr>))"

definition reset_engine :: "qmodem_voip_media_engine \<Rightarrow> qmodem_voip_media_engine" where
  "reset_engine e =
     (let e1 = (if me_attachment e = QMODEM_VOIP_MEDIA_ATTACH_BROWSER then qmodem_voip_media_detach e else e)
      in e1\<lparr>me_modem_to_canonical := qmodem_voip_media_queue_clear (me_modem_to_canonical e1),
            me_canonical_to_modem := qmodem_voip_media_queue_clear (me_canonical_to_modem e1),
            me_browser_media_ready := False\<rparr>)"

text \<open>Connections that are open are closed; what their callback does to the session is undone here
  anyway.\<close>

definition qmodem_voip_browser_media_reset_call :: "qmodem_voip_browser_media \<Rightarrow> qmodem_voip_browser_media" where
  "qmodem_voip_browser_media_reset_call b =
     b\<lparr>bm_client := None, bm_pending_client := None, bm_attached := False, bm_call_revision := 0,
       bm_expected_sequence := 0, bm_last_timestamp_ms := 0, bm_sequence_seen := False, bm_uplink_count := 0,
       bm_uplink := replicate QMODEM_VOIP_MEDIA_SAMPLES 0, bm_tokens := qmodem_voip_browser_tokens_clear,
       bm_engine := (if bm_engine_set b then reset_engine (bm_engine b) else bm_engine b)\<rparr>"

definition qmodem_voip_browser_media_stop :: "qmodem_voip_browser_media \<Rightarrow> qmodem_voip_browser_media" where
  "qmodem_voip_browser_media_stop b =
     (qmodem_voip_browser_media_reset_call b)\<lparr>bm_context := False, bm_ready := False\<rparr>"

definition qmodem_voip_browser_media_release :: "qmodem_voip_browser_media \<Rightarrow> qmodem_voip_browser_media" where
  "qmodem_voip_browser_media_release b =
     (qmodem_voip_browser_media_stop b)\<lparr>bm_certificate_data := replicate 8192 0, bm_key_data := replicate 8192 0,
        bm_certificate_length := 0, bm_key_length := 0\<rparr>"

definition qmodem_voip_browser_media_attach ::
  "qmodem_voip_browser_media \<Rightarrow> u64 \<Rightarrow> int \<times> qmodem_voip_browser_media" where
  "qmodem_voip_browser_media_attach b call_revision =
     (if \<not> bm_ready b \<or> \<not> bm_engine_set b \<or> \<not> me_ready (bm_engine b) \<or> bm_attached b \<or> bm_call_revision b \<noteq> call_revision
      then (-1, b)
      else case qmodem_voip_media_attach (bm_engine b) QMODEM_VOIP_MEDIA_ATTACH_BROWSER call_revision of
        (r, e) \<Rightarrow> if r \<noteq> 0 then (-1, b)
          else (0, b\<lparr>bm_attached := True, bm_engine := e\<lparr>me_browser_media_ready := True\<rparr>\<rparr>))"

text \<open>The magnitude of a sample; the smallest one is its own negative in 16 bits.\<close>

definition sample_magnitude :: "i16 \<Rightarrow> nat" where
  "sample_magnitude s = nat \<bar>sint s\<bar>"

definition frame_peak :: "i16 list \<Rightarrow> nat" where
  "frame_peak samples = fold (\<lambda>s peak. if sample_magnitude s > peak then sample_magnitude s else peak) samples 0"

definition frame_refused :: "qmodem_voip_browser_media \<Rightarrow> qmodem_voip_browser_frame \<Rightarrow> bool" where
  "frame_refused b f \<longleftrightarrow> (bm_sequence_seen b \<and> bf_sequence f \<noteq> bm_expected_sequence b) \<or>
     (bm_last_timestamp_ms b \<noteq> 0 \<and> bf_timestamp_ms f < bm_last_timestamp_ms b)"

text \<open>An accepted frame is counted and half of an engine frame is filled with it; \<open>None\<close> stands for a
  write outside the buffer.\<close>

definition store_uplink ::
  "qmodem_voip_browser_frame \<Rightarrow> i16 list \<Rightarrow> qmodem_voip_browser_media \<Rightarrow> (int \<times> qmodem_voip_browser_media) option" where
  "store_uplink f converted b =
     (let peak = frame_peak (bf_samples f);
          b1 = b\<lparr>bm_uplink_frames := bm_uplink_frames b + 1,
                 bm_uplink_non_silent_frames := bm_uplink_non_silent_frames b + (if peak > 32 then 1 else 0),
                 bm_uplink_peak := peak, bm_expected_sequence := bf_sequence f + 1,
                 bm_last_timestamp_ms := bf_timestamp_ms f, bm_sequence_seen := True\<rparr>;
          n = bm_uplink_count b in
      if n + length converted > QMODEM_VOIP_MEDIA_SAMPLES then None
      else let up = take n (bm_uplink b) @ converted @ drop (n + length converted) (bm_uplink b) in
      if n + 80 = QMODEM_VOIP_MEDIA_SAMPLES then
        (case qmodem_voip_media_queue_push (me_canonical_to_modem (bm_engine b)) up (ucast (bf_timestamp_ms f)) of
           (r, q) \<Rightarrow>
             if r \<noteq> 0 then Some (-1, b1\<lparr>bm_uplink := up, bm_uplink_count := 0, bm_dropped := bm_dropped b + 1\<rparr>)
             else Some (0, b1\<lparr>bm_uplink := replicate QMODEM_VOIP_MEDIA_SAMPLES 0, bm_uplink_count := 0,
                              bm_engine := (bm_engine b)\<lparr>me_canonical_to_modem := q\<rparr>\<rparr>))
      else Some (0, b1\<lparr>bm_uplink := up, bm_uplink_count := n + 80\<rparr>))"

definition qmodem_voip_browser_media_receive ::
  "(nat \<Rightarrow> nat \<Rightarrow> i16 list \<Rightarrow> nat \<Rightarrow> i16 list option) \<Rightarrow> qmodem_voip_browser_media \<Rightarrow> u8 list
   \<Rightarrow> (int \<times> qmodem_voip_browser_media) option" where
  "qmodem_voip_browser_media_receive soxr b d =
     (if \<not> bm_ready b \<or> \<not> bm_attached b then Some (-1, b)
      else case qmodem_voip_browser_frame_parse d of
        None \<Rightarrow> Some (-1, b)
      | Some f \<Rightarrow>
          if frame_refused b f then Some (-1, b)
          else case qmodem_voip_media_resample soxr (bf_samples f) BROWSER_RATE 80 8000 of
            None \<Rightarrow> Some (-1, b)
          | Some converted \<Rightarrow> if length converted \<noteq> 80 then Some (-1, b) else store_uplink f converted b)"

section \<open>The WebSocket callback\<close>

record qmodem_voip_browser_connection =
  cn_uplink :: "u8 list"
  cn_downlink_pcm :: "i16 list"
  cn_downlink_offset :: nat
  cn_downlink_samples :: nat
  cn_downlink_sequence :: u32
  cn_downlink_timestamp_ms :: u32

definition zero_connection :: qmodem_voip_browser_connection where
  "zero_connection = \<lparr>cn_uplink = [], cn_downlink_pcm = replicate BROWSER_SAMPLES 0, cn_downlink_offset = 0,
     cn_downlink_samples = 0, cn_downlink_sequence = 0, cn_downlink_timestamp_ms = 0\<rparr>"

text \<open>The value of a key in a query string.\<close>

function query_value :: "string \<Rightarrow> nat \<Rightarrow> string \<Rightarrow> string option" where
  "query_value key sz query =
     (if query = [] then None
      else let piece = takeWhile (\<lambda>c. c \<noteq> CHR ''&'') query; rest = drop (length piece) query in
      if length piece > length key + 1 \<and> has_prefix piece (key @ ''='') \<and> length piece - length key - 1 < sz
      then Some (drop (length key + 1) piece)
      else if rest = [] then None
      else query_value key sz (tl rest))"
  by pat_completeness auto
termination
  by (relation "measure (\<lambda>(k, s, q). length q)") auto

declare query_value.simps [simp del]

definition header_blank :: "char \<Rightarrow> bool" where
  "header_blank c \<longleftrightarrow> c = CHR '' '' \<or> c = CHR 0x09"

definition trim_blanks :: "string \<Rightarrow> string" where
  "trim_blanks s = rev (dropWhile header_blank (rev (dropWhile header_blank s)))"

text \<open>The token among the requested protocols. After the last piece only blanks are left.\<close>

function protocol_token :: "string \<Rightarrow> string option" where
  "protocol_token protocols =
     (if protocols = [] then None
      else let piece = takeWhile (\<lambda>c. c \<noteq> CHR '','') protocols; rest = drop (length piece) protocols;
               p = trim_blanks piece in
      if length p = 18 + TOKEN_TEXT \<and> has_prefix p ''qmodem-voip-token.'' then Some (drop 18 p)
      else if rest = [] then None
      else protocol_token (tl rest))"
  by pat_completeness auto
termination
  by (relation "measure length") auto

declare protocol_token.simps [simp del]

text \<open>The headers as the library copies them into the buffers of the callback, and its peer name.\<close>

record lws_headers =
  lh_origin :: "string option"
  lh_uri :: "string option"
  lh_query :: "string option"
  lh_protocols :: "string option"
  lh_peer :: "string option"

datatype lws_event =
  LWS_CALLBACK_FILTER_PROTOCOL_CONNECTION lws_headers u64
| LWS_CALLBACK_ESTABLISHED
| LWS_CALLBACK_RECEIVE bool bool nat bool "u8 list"
| LWS_CALLBACK_SERVER_WRITEABLE int
| LWS_CALLBACK_CLOSED
| LWS_CALLBACK_OTHER

definition filter_connection :: "lws_headers \<Rightarrow> u64 \<Rightarrow> nat \<Rightarrow> qmodem_voip_browser_media \<Rightarrow> int \<times> qmodem_voip_browser_media" where
  "filter_connection h now wsi b =
     (if bm_client b \<noteq> None \<or> bm_pending_client b \<noteq> None then (-1, b)
      else case (lh_origin h, lh_uri h, lh_query h, lh_protocols h) of
        (Some origin, Some uri, Some query, Some protocols) \<Rightarrow>
          if uri \<noteq> ''/media'' then (-1, b)
          else (case (query_value ''session_id'' 65 query, protocol_token protocols) of
            (Some requested_session, Some token) \<Rightarrow>
              let peer = (case lh_peer h of Some p \<Rightarrow> p | None \<Rightarrow> ''uhttpd-unix'');
                  (accepted, toks) = qmodem_voip_browser_token_consume (bm_tokens b) (Some token) requested_session
                    (bm_call_revision b) origin (Some peer) now;
                  b1 = b\<lparr>bm_tokens := toks\<rparr> in
              if accepted \<noteq> 0 then (-1, b1)
              else (0, b1\<lparr>bm_origin := (case checked_copy 193 (Some origin) of Some s \<Rightarrow> s | None \<Rightarrow> bm_origin b1),
                          bm_pending_client := Some wsi\<rparr>)
          | _ \<Rightarrow> (-1, b))
      | _ \<Rightarrow> (-1, b))"

definition establish_connection :: "nat \<Rightarrow> qmodem_voip_browser_media \<Rightarrow> int \<times> qmodem_voip_browser_media" where
  "establish_connection wsi b =
     (if bm_client b \<noteq> None \<or> bm_pending_client b \<noteq> Some wsi then (-1, b)
      else case qmodem_voip_browser_media_attach b (bm_call_revision b) of
        (r, b1) \<Rightarrow> if r \<noteq> 0 then (-1, b1) else (0, b1\<lparr>bm_pending_client := None, bm_client := Some wsi\<rparr>))"

definition receive_fragment ::
  "(nat \<Rightarrow> nat \<Rightarrow> i16 list \<Rightarrow> nat \<Rightarrow> i16 list option) \<Rightarrow> bool \<Rightarrow> bool \<Rightarrow> nat \<Rightarrow> bool \<Rightarrow> u8 list
   \<Rightarrow> qmodem_voip_browser_connection \<Rightarrow> qmodem_voip_browser_media
   \<Rightarrow> (int \<times> qmodem_voip_browser_connection \<times> qmodem_voip_browser_media) option" where
  "receive_fragment soxr binary fin remaining first input c b =
     (if (first \<and> cn_uplink c \<noteq> []) \<or> (cn_uplink c = [] \<and> \<not> binary) \<or> length input > BROWSER_FRAME_SIZE - length (cn_uplink c)
      then Some (-1, c, b)
      else let c1 = c\<lparr>cn_uplink := cn_uplink c @ input\<rparr> in
      if \<not> fin \<or> remaining \<noteq> 0 then Some (0, c1, b)
      else case qmodem_voip_browser_media_receive soxr b (cn_uplink c1) of
        None \<Rightarrow> None
      | Some (parsed, b1) \<Rightarrow> if parsed \<noteq> 0 then Some (-1, c1, b1) else Some (0, c1\<lparr>cn_uplink := []\<rparr>, b1))"

text \<open>The next engine frame at the browser's rate, when the last one has been sent; \<open>None\<close> when there
  is nothing to send.\<close>

definition next_downlink ::
  "(nat \<Rightarrow> nat \<Rightarrow> i16 list \<Rightarrow> nat \<Rightarrow> i16 list option) \<Rightarrow> qmodem_voip_browser_connection \<Rightarrow> qmodem_voip_browser_media
   \<Rightarrow> qmodem_voip_browser_connection option \<times> qmodem_voip_browser_media" where
  "next_downlink soxr c b =
     (if cn_downlink_samples c \<noteq> 0 then (Some c, b)
      else case qmodem_voip_media_queue_pop (me_modem_to_canonical (bm_engine b)) of
        (r, frame, q) \<Rightarrow>
          let b1 = b\<lparr>bm_engine := (bm_engine b)\<lparr>me_modem_to_canonical := q\<rparr>\<rparr> in
          if r \<noteq> 0 then (None, b1\<lparr>bm_downlink_empty := bm_downlink_empty b1 + 1\<rparr>)
          else case qmodem_voip_media_resample soxr (fr_samples frame) 8000 BROWSER_SAMPLES BROWSER_RATE of
            None \<Rightarrow> (None, b1)
          | Some pcm \<Rightarrow>
              if length pcm \<noteq> BROWSER_SAMPLES then (None, b1)
              else (Some (c\<lparr>cn_downlink_pcm := pcm, cn_downlink_samples := BROWSER_SAMPLES, cn_downlink_offset := 0,
                            cn_downlink_sequence := ucast (fr_sequence frame * 2),
                            cn_downlink_timestamp_ms := ucast (fr_timestamp_ms frame)\<rparr>), b1))"

text \<open>The last component is the frame handed to the library. When the conversion fails, the converted
  samples already in the buffer are not sent.\<close>

definition write_downlink ::
  "(nat \<Rightarrow> nat \<Rightarrow> i16 list \<Rightarrow> nat \<Rightarrow> i16 list option) \<Rightarrow> int \<Rightarrow> qmodem_voip_browser_connection \<Rightarrow> qmodem_voip_browser_media
   \<Rightarrow> int \<times> qmodem_voip_browser_connection \<times> qmodem_voip_browser_media \<times> u8 list option" where
  "write_downlink soxr written c b =
     (case next_downlink soxr c b of
        (None, b1) \<Rightarrow> (0, c, b1, None)
      | (Some c1, b1) \<Rightarrow>
          let frame = browser_frame_bytes (cn_downlink_sequence c1) (cn_downlink_timestamp_ms c1)
                        (take BROWSER_FRAME_SAMPLES (drop (cn_downlink_offset c1) (cn_downlink_pcm c1))) in
          if written \<noteq> int BROWSER_FRAME_SIZE
          then (-1, c1, b1\<lparr>bm_downlink_write_errors := bm_downlink_write_errors b1 + 1\<rparr>, Some frame)
          else let left = cn_downlink_samples c1 - BROWSER_FRAME_SAMPLES;
                   c2 = c1\<lparr>cn_downlink_offset := (if left = 0 then 0 else cn_downlink_offset c1 + BROWSER_FRAME_SAMPLES),
                           cn_downlink_samples := left, cn_downlink_sequence := cn_downlink_sequence c1 + 1,
                           cn_downlink_timestamp_ms := cn_downlink_timestamp_ms c1 + 10,
                           cn_downlink_pcm := (if left = 0 then replicate BROWSER_SAMPLES 0 else cn_downlink_pcm c1)\<rparr>
               in (0, c2, b1\<lparr>bm_downlink_frames := bm_downlink_frames b1 + 1\<rparr>, Some frame))"

definition close_connection :: "nat \<Rightarrow> qmodem_voip_browser_media \<Rightarrow> qmodem_voip_browser_media" where
  "close_connection wsi b =
     (let b1 = (if bm_pending_client b = Some wsi then b\<lparr>bm_pending_client := None\<rparr> else b) in
      if bm_client b1 = Some wsi
      then b1\<lparr>bm_client := None, bm_attached := False,
              bm_engine := (bm_engine b1)\<lparr>me_browser_media_ready := False\<rparr>\<rparr>
      else b1)"

definition browser_callback ::
  "(nat \<Rightarrow> nat \<Rightarrow> i16 list \<Rightarrow> nat \<Rightarrow> i16 list option) \<Rightarrow> nat \<Rightarrow> lws_event \<Rightarrow> qmodem_voip_browser_connection
   \<Rightarrow> qmodem_voip_browser_media
   \<Rightarrow> (int \<times> qmodem_voip_browser_connection \<times> qmodem_voip_browser_media \<times> u8 list option) option" where
  "browser_callback soxr wsi event c b =
     (case event of
        LWS_CALLBACK_FILTER_PROTOCOL_CONNECTION h now \<Rightarrow>
          (case filter_connection h now wsi b of (r, b1) \<Rightarrow> Some (r, c, b1, None))
      | LWS_CALLBACK_ESTABLISHED \<Rightarrow> (case establish_connection wsi b of (r, b1) \<Rightarrow> Some (r, c, b1, None))
      | LWS_CALLBACK_RECEIVE binary fin remaining first input \<Rightarrow>
          map_option (\<lambda>(r, c1, b1). (r, c1, b1, None)) (receive_fragment soxr binary fin remaining first input c b)
      | LWS_CALLBACK_SERVER_WRITEABLE written \<Rightarrow> Some (write_downlink soxr written c b)
      | LWS_CALLBACK_CLOSED \<Rightarrow> Some (0, zero_connection, close_connection wsi b, None)
      | LWS_CALLBACK_OTHER \<Rightarrow> Some (0, c, b, None))"

text \<open>The address the browser is told to connect to, in a buffer of \<open>sz\<close> bytes.\<close>

definition qmodem_voip_browser_media_url :: "qmodem_voip_browser_media \<Rightarrow> nat \<Rightarrow> string option" where
  "qmodem_voip_browser_media_url b sz =
     (let url = ''wss://'' @ bm_address b @ ''/qmodem-voip/media'' in
      if \<not> bm_ready b \<or> sz = 0 \<or> length url \<ge> sz then None else Some url)"

section \<open>Token texts\<close>

lemma and63 [simp]: "(x :: u32) AND 63 = take_bit 6 x"
proof -
  have "(63 :: u32) = mask 6" by (simp add: mask_eq_exp_minus_1)
  then show ?thesis by (simp only: take_bit_eq_mask)
qed

lemma base64url_table: "list_all (\<lambda>n. base64url_value (base64url ! n) = Some n) [0..<64]"
  by code_simp

lemma take_bit6_less: "unat (take_bit 6 (x :: u32)) < 64"
  using take_bit_nat_less_exp [of 6 "unat x"] by (simp add: unsigned_take_bit_eq)

lemma sextet_value [simp]: "base64url_value (base64url ! unat (take_bit 6 (x :: u32))) = Some (unat (take_bit 6 x))"
  using base64url_table take_bit6_less [of x] unfolding list_all_iff set_upt by simp

lemma Suc_Suc_diff: "2 \<le> n \<Longrightarrow> Suc (Suc (n - 2)) = n"
  by simp

text \<open>Three octets are four characters, whatever the accumulators held before.\<close>

lemma encode_group:
  "\<exists>acc' (s0 :: u32) (s1 :: u32) (s2 :: u32) (s3 :: u32). encode_loop acc 0 (a # b # c # rest) =
     map (\<lambda>s. base64url ! unat (take_bit 6 s)) [s0, s1, s2, s3] @ encode_loop acc' 0 rest \<and>
     take_bit 6 s0 = ucast (drop_bit 2 a) \<and> take_bit 6 s1 = push_bit 4 (ucast (take_bit 2 a)) OR ucast (drop_bit 4 b) \<and>
     take_bit 6 s2 = push_bit 2 (ucast (take_bit 4 b)) OR ucast (drop_bit 6 c) \<and> take_bit 6 s3 = ucast (take_bit 6 c)"
proof -
  define acc1 where "acc1 = push_bit 8 acc OR ucast a"
  define acc2 where "acc2 = push_bit 8 acc1 OR ucast b"
  define acc3 where "acc3 = push_bit 8 acc2 OR ucast c"
  have "encode_loop acc 0 (a # b # c # rest) =
     map (\<lambda>s. base64url ! unat (take_bit 6 s)) [drop_bit 2 acc1, drop_bit 4 acc2, drop_bit 6 acc3, acc3] @ encode_loop acc3 0 rest"
    by (simp add: acc1_def acc2_def acc3_def emit_sextets.simps [of _ 8] emit_sextets.simps [of _ 2] emit_sextets.simps [of _ 10]
        emit_sextets.simps [of _ 4] emit_sextets.simps [of _ 12] emit_sextets.simps [of _ 6] emit_sextets.simps [of _ 0] Let_def)
  moreover have "take_bit 6 (drop_bit 2 acc1) = ucast (drop_bit 2 a)"
    unfolding acc1_def by (rule bit_word_eqI) (auto simp: bit_simps Suc_Suc_diff dest: bit_imp_le_length)
  moreover have "take_bit 6 (drop_bit 4 acc2) = push_bit 4 (ucast (take_bit 2 a)) OR ucast (drop_bit 4 b)"
    unfolding acc2_def acc1_def by (rule bit_word_eqI) (auto simp: bit_simps Suc_Suc_diff dest: bit_imp_le_length)
  moreover have "take_bit 6 (drop_bit 6 acc3) = push_bit 2 (ucast (take_bit 4 b)) OR ucast (drop_bit 6 c)"
    unfolding acc3_def acc2_def by (rule bit_word_eqI) (auto simp: bit_simps Suc_Suc_diff dest: bit_imp_le_length)
  moreover have "take_bit 6 acc3 = ucast (take_bit 6 c)"
    unfolding acc3_def by (rule bit_word_eqI) (auto simp: bit_simps Suc_Suc_diff dest: bit_imp_le_length)
  ultimately show ?thesis by blast
qed


text \<open>Four characters of such a group are the three octets again.\<close>

lemma decode_group:
  assumes s: "take_bit 6 (s0 :: u32) = ucast (drop_bit 2 (a :: u8))"
      "take_bit 6 (s1 :: u32) = push_bit 4 (ucast (take_bit 2 a)) OR ucast (drop_bit 4 (b :: u8))"
      "take_bit 6 (s2 :: u32) = push_bit 2 (ucast (take_bit 4 b)) OR ucast (drop_bit 6 (c :: u8))" "take_bit 6 s3 = (ucast (take_bit 6 c) :: u32)"
    and "length out + 3 \<le> 16"
  shows "\<exists>acc'. decode_loop acc 0 out (map (\<lambda>s. base64url ! unat (take_bit 6 s)) [s0, s1, s2, s3] @ cs) =
    decode_loop acc' 0 (out @ [a, b, c]) cs"
proof -
  define t0 t1 t2 t3 where t: "t0 = take_bit 6 s0" "t1 = take_bit 6 s1" "t2 = take_bit 6 s2" "t3 = take_bit 6 s3"
  define d1 where "d1 = push_bit 6 acc OR t0"
  define d2 where "d2 = push_bit 6 d1 OR t1"
  define d3 where "d3 = push_bit 6 d2 OR t2"
  define d4 where "d4 = push_bit 6 d3 OR t3"
  note s' = s [folded t]
  have oa: "ucast (drop_bit 4 d2) = a"
    unfolding d2_def d1_def s' by (rule bit_word_eqI) (auto simp: bit_simps Suc_Suc_diff dest: bit_imp_le_length)
  have ob: "ucast (drop_bit 2 d3) = b"
    unfolding d3_def d2_def s' by (rule bit_word_eqI) (auto simp: bit_simps Suc_Suc_diff dest: bit_imp_le_length)
  have oc: "ucast d4 = c"
    unfolding d4_def d3_def s' by (rule bit_word_eqI) (auto simp: bit_simps Suc_Suc_diff dest: bit_imp_le_length)
  have "decode_loop acc 0 out (map (\<lambda>s. base64url ! unat (take_bit 6 s)) [s0, s1, s2, s3] @ cs) =
     decode_loop d4 0 (out @ [ucast (drop_bit 4 d2), ucast (drop_bit 2 d3), ucast d4]) cs"
    using assms(5) unfolding d4_def d3_def d2_def d1_def t by (simp add: Let_def)
  then show ?thesis unfolding oa ob oc by blast
qed

lemma encode_last:
  "\<exists>(s0 :: u32) (s1 :: u32). encode_loop acc 0 [a] = map (\<lambda>s. base64url ! unat (take_bit 6 s)) [s0, s1] \<and>
     take_bit 6 s0 = ucast (drop_bit 2 a) \<and> take_bit 6 s1 = push_bit 4 (ucast (take_bit 2 a))"
proof -
  define acc1 where "acc1 = push_bit 8 acc OR ucast a"
  have "encode_loop acc 0 [a] = map (\<lambda>s. base64url ! unat (take_bit 6 s)) [drop_bit 2 acc1, push_bit 4 acc1]"
    by (simp add: acc1_def emit_sextets.simps [of _ 8] emit_sextets.simps [of _ 2] Let_def)
  moreover have "take_bit 6 (drop_bit 2 acc1) = ucast (drop_bit 2 a)"
    unfolding acc1_def by (rule bit_word_eqI) (auto simp: bit_simps Suc_Suc_diff dest: bit_imp_le_length)
  moreover have "take_bit 6 (push_bit 4 acc1) = push_bit 4 (ucast (take_bit 2 a))"
    unfolding acc1_def by (rule bit_word_eqI) (auto simp: bit_simps Suc_Suc_diff dest: bit_imp_le_length)
  ultimately show ?thesis by blast
qed

lemma decode_last:
  assumes s: "take_bit 6 (s0 :: u32) = ucast (drop_bit 2 (a :: u8))" "take_bit 6 s1 = (push_bit 4 (ucast (take_bit 2 a)) :: u32)"
    and "length out < 16"
  shows "decode_loop acc 0 out (map (\<lambda>s. base64url ! unat (take_bit 6 s)) [s0, s1]) = Some (out @ [a], 4)"
proof -
  have "ucast (drop_bit 4 (push_bit 6 (push_bit 6 acc OR take_bit 6 s0) OR take_bit 6 s1)) = a"
    unfolding s by (rule bit_word_eqI) (auto simp: bit_simps Suc_Suc_diff dest: bit_imp_le_length)
  then show ?thesis using assms(3) by (simp add: Let_def)
qed

text \<open>Any number of complete groups, then one octet.\<close>

fun grouped :: "u8 list \<Rightarrow> bool" where
  "grouped [a] \<longleftrightarrow> True"
| "grouped (a # b # c # rest) \<longleftrightarrow> grouped rest"
| "grouped _ \<longleftrightarrow> False"

lemma token_loops:
  "grouped bs \<Longrightarrow> length out + length bs \<le> 16 \<Longrightarrow> decode_loop acc 0 out (encode_loop acc' 0 bs) = Some (out @ bs, 4)"
proof (induction bs arbitrary: out acc acc' rule: grouped.induct)
  case (1 a)
  then show ?case using encode_last [of acc' a] decode_last [of _ a _ out acc] by (force simp del: encode_loop.simps decode_loop.simps)
next
  case (2 a b c rest)
  obtain acc2 and s0 s1 s2 s3 :: u32 where e: "encode_loop acc' 0 (a # b # c # rest) =
     map (\<lambda>s. base64url ! unat (take_bit 6 s)) [s0, s1, s2, s3] @ encode_loop acc2 0 rest"
     and s: "take_bit 6 s0 = ucast (drop_bit 2 a)" "take_bit 6 s1 = push_bit 4 (ucast (take_bit 2 a)) OR ucast (drop_bit 4 b)"
     "take_bit 6 s2 = push_bit 2 (ucast (take_bit 4 b)) OR ucast (drop_bit 6 c)" "take_bit 6 s3 = ucast (take_bit 6 c)"
    using encode_group [of acc' a b c rest] by blast
  from 2(3) have "length out + 3 \<le> 16" by simp
  from decode_group [OF s this, of acc "encode_loop acc2 0 rest"] obtain acc3 where
    "decode_loop acc 0 out (encode_loop acc' 0 (a # b # c # rest)) = decode_loop acc3 0 (out @ [a, b, c]) (encode_loop acc2 0 rest)"
    unfolding e by blast
  with 2(1) [of "out @ [a, b, c]" acc3 acc2] 2(2,3) show ?case by simp
qed auto

lemma grouped_16: "length bs = 16 \<Longrightarrow> grouped bs"
proof -
  have "length bs mod 3 = 1 \<Longrightarrow> grouped bs" by (induction bs rule: grouped.induct) auto
  then show "length bs = 16 \<Longrightarrow> grouped bs" by simp
qed

lemma length_encode_loop: "grouped bs \<Longrightarrow> 3 * length (encode_loop acc 0 bs) = 4 * length bs + 2"
proof (induction bs arbitrary: acc rule: grouped.induct)
  case (1 a)
  then show ?case using encode_last [of acc a] by (auto simp del: encode_loop.simps)
next
  case (2 a b c rest)
  then show ?case using encode_group [of acc a b c rest] by (fastforce simp del: encode_loop.simps)
qed auto

lemma token_text_round_trip: "length secret = TOKEN_BYTES \<Longrightarrow> decode_token (Some (encode_token secret)) = Some secret"
  using token_loops [of secret "[]" 0 0] length_encode_loop [of secret 0] grouped_16 [of secret]
  by (simp add: decode_token_def encode_token_def)

section \<open>Tokens are used once\<close>

lemma xor_zero: "(l :: u8) XOR r = 0 \<longleftrightarrow> l = r"
  by (auto simp: bit_eq_iff bit_xor_iff)

lemma fold_differences:
  "fold (\<lambda>(l, r) different. different OR (l XOR r)) ps acc = (0 :: u8) \<longleftrightarrow> acc = 0 \<and> (\<forall>(l, r) \<in> set ps. l = r)"
proof (induction ps arbitrary: acc)
  case (Cons p ps)
  then show ?case by (cases p) (auto simp: or_eq_0_iff xor_zero)
qed simp

lemma constant_time_equal_iff: "length left = length right \<Longrightarrow> constant_time_equal left right \<longleftrightarrow> left = right"
  by (auto simp: constant_time_equal_def fold_differences list_eq_iff_nth_eq set_zip)

definition tokens_ok :: "qmodem_voip_browser_token list \<Rightarrow> bool" where
  "tokens_ok tokens \<longleftrightarrow> length tokens = TOKEN_SLOTS \<and> (\<forall>t \<in> set tokens. length (bt_secret t) = TOKEN_BYTES)"

definition unheld :: "u8 list \<Rightarrow> qmodem_voip_browser_token list \<Rightarrow> bool" where
  "unheld secret tokens \<longleftrightarrow> (\<forall>t \<in> set tokens. bt_active t \<longrightarrow> bt_secret t \<noteq> secret)"

lemma oldest_slot_less: "oldest_slot tokens < TOKEN_SLOTS"
proof -
  have "fold (\<lambda>i best. if bt_expires_at (tokens ! i) < bt_expires_at (tokens ! best) then i else best) is b < n"
    if "b < n" "\<forall>i \<in> set is. i < n" for "is" b n
    using that by (induction "is" arbitrary: b) auto
  then show ?thesis by (simp add: oldest_slot_def)
qed

lemma token_slot_less: "length tokens = TOKEN_SLOTS \<Longrightarrow> token_slot tokens < TOKEN_SLOTS"
  using oldest_slot_less by (auto simp: token_slot_def split: option.splits dest!: first_index_Some)

lemma expire_tokens_facts:
  "tokens_ok tokens \<Longrightarrow> tokens_ok (expire_tokens now tokens)"
  "unheld secret tokens \<Longrightarrow> unheld secret (expire_tokens now tokens)"
  by (auto simp: tokens_ok_def unheld_def expire_tokens_def zero_token_def)

lemma expire_tokens_nth:
  "i < length tokens \<Longrightarrow> expire_tokens now tokens ! i =
     (if bt_active (tokens ! i) \<and> now \<ge> bt_expires_at (tokens ! i) then zero_token else tokens ! i)"
  by (simp add: expire_tokens_def)

lemma length_expire_tokens [simp]: "length (expire_tokens now tokens) = length tokens"
  by (simp add: expire_tokens_def)

lemma consume_unheld:
  assumes "tokens_ok tokens" "unheld secret tokens" "length secret = TOKEN_BYTES"
  shows "qmodem_voip_browser_token_consume tokens (Some (encode_token secret)) session rv origin peer now =
    (-1, expire_tokens now tokens)"
proof -
  have "\<not> (bt_active t \<and> constant_time_equal (bt_secret t) secret)" if "t \<in> set (expire_tokens now tokens)" for t
    using that expire_tokens_facts(1) [OF assms(1), of now] expire_tokens_facts(2) [OF assms(2), of now] assms(3)
    by (auto simp: tokens_ok_def unheld_def constant_time_equal_iff)
  then have "first_index (\<lambda>t. bt_active t \<and> constant_time_equal (bt_secret t) secret) (expire_tokens now tokens) = None"
    by (simp add: first_index_None)
  then show ?thesis
    by (simp add: qmodem_voip_browser_token_consume_def token_text_round_trip [OF assms(3)])
qed

text \<open>The table after a token was issued: its slot alone has the secret.\<close>

definition holds_at :: "nat \<Rightarrow> qmodem_voip_browser_token \<Rightarrow> qmodem_voip_browser_token list \<Rightarrow> bool" where
  "holds_at i t tokens \<longleftrightarrow> i < TOKEN_SLOTS \<and> tokens_ok tokens \<and> tokens ! i = t \<and> bt_active t \<and>
     (\<forall>j < TOKEN_SLOTS. bt_active (tokens ! j) \<longrightarrow> bt_secret (tokens ! j) = bt_secret t \<longrightarrow> j = i)"

lemma issue_holds:
  assumes "tokens_ok tokens" "unheld secret tokens" "length secret = TOKEN_BYTES"
    and "qmodem_voip_browser_token_issue (Some secret) tokens (Some session) rv (Some origin) None now = (0, tok, toks)"
  shows "tok = Some (encode_token secret) \<and> (\<exists>i. holds_at i \<lparr>bt_secret = secret, bt_call_revision = rv, bt_expires_at = now + TOKEN_TTL,
    bt_session_id = session, bt_origin = origin, bt_peer_address = [], bt_active = True\<rparr> toks)"
proof -
  let ?t = "\<lparr>bt_secret = secret, bt_call_revision = rv, bt_expires_at = now + TOKEN_TTL,
    bt_session_id = session, bt_origin = origin, bt_peer_address = [], bt_active = True\<rparr>"
  define ts where "ts = expire_tokens now tokens"
  define i where "i = token_slot ts"
  have ok: "tokens_ok ts" "unheld secret ts" unfolding ts_def using expire_tokens_facts assms by blast+
  then have i: "i < TOKEN_SLOTS" using token_slot_less [of ts] unfolding i_def tokens_ok_def by simp
  have toks: "tok = Some (encode_token secret)" "toks = ts[i := ?t]"
    using assms(4) unfolding qmodem_voip_browser_token_issue_def ts_def [symmetric] i_def [symmetric]
    by (auto simp: Let_def checked_copy_def zero_token_def i_def [symmetric] split: if_splits)
  have len: "length ts = 32" using ok by (simp add: tokens_ok_def)
  have "holds_at i ?t toks"
    unfolding holds_at_def toks(2)
    using i len ok assms(3) by (auto simp: tokens_ok_def unheld_def nth_list_update dest!: set_update_subset_insert [THEN subsetD])
  with toks(1) show ?thesis by blast
qed

lemma consume_held:
  assumes "holds_at i t tokens"
  shows "qmodem_voip_browser_token_consume tokens (Some (encode_token (bt_secret t))) session rv origin peer now =
    (if now \<ge> bt_expires_at t then (-1, expire_tokens now tokens)
     else (if token_accepts t session rv origin peer then 0 else -1, (expire_tokens now tokens)[i := zero_token]))"
    and "unheld (bt_secret t) (snd (qmodem_voip_browser_token_consume tokens (Some (encode_token (bt_secret t))) session rv origin peer now))"
    and "tokens_ok (snd (qmodem_voip_browser_token_consume tokens (Some (encode_token (bt_secret t))) session rv origin peer now))"
proof -
  let ?ts = "expire_tokens now tokens" and ?P = "\<lambda>x. bt_active x \<and> constant_time_equal (bt_secret x) (bt_secret t)"
  have h: "i < 32" "tokens_ok tokens" "tokens ! i = t" "bt_active t"
    and uniq: "\<And>j. j < 32 \<Longrightarrow> bt_active (tokens ! j) \<Longrightarrow> bt_secret (tokens ! j) = bt_secret t \<Longrightarrow> j = i"
    using assms unfolding holds_at_def by blast+
  have len: "length tokens = 32" using h(2) by (simp add: tokens_ok_def)
  have lent: "length (bt_secret t) = 16" using h(1-3) len by (metis nth_mem tokens_ok_def)
  have ok: "tokens_ok ?ts" using expire_tokens_facts(1) h(2) by blast
  have lens: "length (bt_secret (?ts ! j)) = 16" if "j < 32" for j
    using ok that by (simp add: tokens_ok_def)
  have P: "bt_active (?ts ! j) \<and> bt_secret (?ts ! j) = bt_secret t \<longleftrightarrow> j = i \<and> \<not> now \<ge> bt_expires_at t" if "j < 32" for j
  proof (cases "j = i")
    case True
    then show ?thesis using h(1,3,4) len by (simp add: expire_tokens_nth zero_token_def)
  next
    case False
    then have "\<not> (bt_active (tokens ! j) \<and> bt_secret (tokens ! j) = bt_secret t)" using uniq that by blast
    then show ?thesis using False that len by (simp add: expire_tokens_nth zero_token_def)
  qed
  have P': "?P (?ts ! j) \<longleftrightarrow> j = i \<and> \<not> now \<ge> bt_expires_at t" if "j < 32" for j
    using P [OF that] lens [OF that] lent by (simp add: constant_time_equal_iff)
  have dec: "decode_token (Some (encode_token (bt_secret t))) = Some (bt_secret t)"
    by (rule token_text_round_trip) (rule lent)
  show eq: "qmodem_voip_browser_token_consume tokens (Some (encode_token (bt_secret t))) session rv origin peer now =
    (if now \<ge> bt_expires_at t then (-1, ?ts)
     else (if token_accepts t session rv origin peer then 0 else -1, ?ts[i := zero_token]))"
  proof (cases "now \<ge> bt_expires_at t")
    case True
    have "first_index ?P ?ts = None"
      unfolding first_index_None using P' True len by (metis in_set_conv_nth length_expire_tokens)
    with True show ?thesis by (simp add: qmodem_voip_browser_token_consume_def dec)
  next
    case False
    then have "first_index ?P ?ts = Some i"
      by (intro first_index_unique) (use P' h(1) len in simp_all)
    moreover have "?ts ! i = t" using h(1,3,4) len False by (simp add: expire_tokens_nth)
    ultimately show ?thesis using False by (simp add: qmodem_voip_browser_token_consume_def dec)
  qed
  have none: "now \<ge> bt_expires_at t \<Longrightarrow> unheld (bt_secret t) ?ts"
    unfolding unheld_def using P len by (metis in_set_conv_nth length_expire_tokens)
  have "\<not> (bt_active (?ts[i := zero_token] ! j) \<and> bt_secret (?ts[i := zero_token] ! j) = bt_secret t)" if "j < 32" for j
    using P [OF that] that len by (cases "j = i") (simp_all add: zero_token_def)
  then have cleared: "unheld (bt_secret t) (?ts[i := zero_token])"
    unfolding unheld_def using len by (metis in_set_conv_nth length_expire_tokens length_list_update)
  show "unheld (bt_secret t) (snd (qmodem_voip_browser_token_consume tokens (Some (encode_token (bt_secret t))) session rv origin peer now))"
    unfolding eq using none cleared by simp
  have "tokens_ok (?ts[i := zero_token])"
    using ok by (auto simp: tokens_ok_def zero_token_def dest!: set_update_subset_insert [THEN subsetD])
  then show "tokens_ok (snd (qmodem_voip_browser_token_consume tokens (Some (encode_token (bt_secret t))) session rv origin peer now))"
    unfolding eq using ok by simp
qed

section \<open>Frames\<close>

lemma read_write_le32: "read_le32 (pre @ write_le32 n @ rest) (length pre) = n"
proof -
  have "(ucast (ucast n :: u8) :: u32) OR push_bit 8 (ucast (ucast (drop_bit 8 n) :: u8)) OR
      push_bit 16 (ucast (ucast (drop_bit 16 n) :: u8)) OR push_bit 24 (ucast (ucast (drop_bit 24 n) :: u8)) = n"
    (is "?l = n")
  proof (rule bit_word_eqI)
    fix m assume "m < LENGTH(32)"
    then consider "m < 8" | "8 \<le> m" "m < 16" | "16 \<le> m" "m < 24" | "24 \<le> m" "m < 32" by fastforce
    then show "bit ?l m = bit n m" by cases (auto simp: bit_simps)
  qed
  then show ?thesis by (simp add: read_le32_def write_le32_def nth_append)
qed

lemma sample_of_bytes: "of_nat (unat (ucast s :: u8) + 256 * unat (ucast (drop_bit 8 s) :: u8)) = (s :: i16)"
proof -
  have "unat (ucast s :: u8) = unat s mod 256" "unat (ucast (drop_bit 8 s) :: u8) = unat s div 256"
    using unsigned_less [where 'a = nat, of s]
    by (simp_all add: unsigned_ucast_eq unsigned_drop_bit_eq drop_bit_eq_div take_bit_eq_mod unat_div)
  then show ?thesis by (simp del: of_nat_add of_nat_mult)
qed

lemma le_samples_bytes: "le_samples (le_bytes s) = s"
  by (induction s) (simp_all add: le_bytes_def sample_of_bytes del: of_nat_add of_nat_mult)

lemma length_write_le32 [simp]: "length (write_le32 n) = 4"
  by (simp add: write_le32_def)

lemma frame_round_trip:
  assumes "length samples = BROWSER_FRAME_SAMPLES"
  shows "qmodem_voip_browser_frame_parse (browser_frame_bytes sequence timestamp_ms samples) =
    Some \<lparr>bf_sequence = sequence, bf_timestamp_ms = timestamp_ms, bf_samples = samples\<rparr>"
proof -
  let ?d = "browser_frame_bytes sequence timestamp_ms samples"
  define h0 where "h0 = write_le32 BROWSER_MAGIC @ [1, 1, 1, 0]"
  define h1 where "h1 = h0 @ write_le32 (of_nat BROWSER_RATE)"
  define h2 where "h2 = h1 @ write_le32 sequence"
  define h3 where "h3 = h2 @ write_le32 timestamp_ms"
  define h4 where "h4 = h3 @ write_le32 (of_nat BROWSER_FRAME_SAMPLES)"
  note hs = h4_def h3_def h2_def h1_def h0_def
  have len: "length h0 = 8" "length h1 = 12" "length h2 = 16" "length h3 = 20" "length h4 = 24"
    unfolding hs by simp_all
  have d: "?d = h4 @ le_bytes samples" unfolding browser_frame_bytes_def hs by simp
  have r: "read_le32 ?d 0 = BROWSER_MAGIC" "read_le32 ?d 8 = of_nat BROWSER_RATE" "read_le32 ?d 12 = sequence"
    "read_le32 ?d 16 = timestamp_ms" "read_le32 ?d 20 = of_nat BROWSER_FRAME_SAMPLES"
    using read_write_le32 [of "[]" BROWSER_MAGIC] read_write_le32 [of h0] read_write_le32 [of h1] read_write_le32 [of h2] read_write_le32 [of h3]
    unfolding len unfolding d hs by simp_all
  have "?d ! 4 = 1" "?d ! 5 = 1" "?d ! 6 = 1" "?d ! 7 = 0" "length ?d = BROWSER_FRAME_SIZE" "drop 24 ?d = le_bytes samples"
    using assms len unfolding d by (simp_all add: hs write_le32_def nth_append)
  with r show ?thesis unfolding qmodem_voip_browser_frame_parse_def by (simp add: le_samples_bytes)
qed

section \<open>The uplink\<close>

text \<open>Between frames the uplink buffer is empty or half full.\<close>

definition uplink_ok :: "qmodem_voip_browser_media \<Rightarrow> bool" where
  "uplink_ok b \<longleftrightarrow> length (bm_uplink b) = QMODEM_VOIP_MEDIA_SAMPLES \<and> bm_uplink_count b \<in> {0, 80}"

lemma store_uplink_ok:
  assumes "uplink_ok b" "length converted = 80"
  shows "\<exists>r b'. store_uplink f converted b = Some (r, b') \<and> uplink_ok b'"
  using assms unfolding store_uplink_def uplink_ok_def Let_def by (auto split: prod.splits)

lemma receive_ok:
  assumes "uplink_ok b"
  shows "\<exists>r b'. qmodem_voip_browser_media_receive soxr b d = Some (r, b') \<and> uplink_ok b'"
proof (cases "\<not> bm_ready b \<or> \<not> bm_attached b")
  case False
  show ?thesis
  proof (cases "qmodem_voip_browser_frame_parse d")
    case (Some f)
    have "\<exists>r b'. store_uplink f converted b = Some (r, b') \<and> uplink_ok b'" if "length converted = 80" for converted
      by (rule store_uplink_ok [OF assms that])
    then show ?thesis
      using False Some assms unfolding qmodem_voip_browser_media_receive_def by (auto split: option.splits)
  qed (use False assms in \<open>auto simp: qmodem_voip_browser_media_receive_def\<close>)
qed (use assms in \<open>auto simp: qmodem_voip_browser_media_receive_def\<close>)

text \<open>The packets a browser sends for pairs of 10 ms frames, numbered from \<open>s\<close> on, and what a session
  does with packets in order.\<close>

type_synonym browser_pair = "(i16 list \<times> u32) \<times> (i16 list \<times> u32)"

fun browser_packets :: "u32 \<Rightarrow> browser_pair list \<Rightarrow> u8 list list" where
  "browser_packets s [] = []"
| "browser_packets s (((x, t), (y, u)) # ps) =
     browser_frame_bytes s t x # browser_frame_bytes (s + 1) u y # browser_packets (s + 2) ps"

fun pairs_ok :: "u32 \<Rightarrow> browser_pair list \<Rightarrow> bool" where
  "pairs_ok l [] = True"
| "pairs_ok l (((x, t), (y, u)) # ps) \<longleftrightarrow> length x = BROWSER_FRAME_SAMPLES \<and> length y = BROWSER_FRAME_SAMPLES \<and>
     l \<le> t \<and> t \<le> u \<and> pairs_ok u ps"

fun receive_all ::
  "(nat \<Rightarrow> nat \<Rightarrow> i16 list \<Rightarrow> nat \<Rightarrow> i16 list option) \<Rightarrow> qmodem_voip_browser_media \<Rightarrow> u8 list list \<Rightarrow> qmodem_voip_browser_media option" where
  "receive_all soxr b [] = Some b"
| "receive_all soxr b (d # ds) =
     (case qmodem_voip_browser_media_receive soxr b d of
        None \<Rightarrow> None
      | Some (r, b') \<Rightarrow> if r = 0 then receive_all soxr b' ds else None)"

text \<open>What the code relies on of the resampler: 10 ms at 48 kHz become 10 ms at 8 kHz.\<close>

definition decimates :: "(nat \<Rightarrow> nat \<Rightarrow> i16 list \<Rightarrow> nat \<Rightarrow> i16 list option) \<Rightarrow> (i16 list \<Rightarrow> i16 list) \<Rightarrow> bool" where
  "decimates soxr dec \<longleftrightarrow> (\<forall>xs. length xs = BROWSER_FRAME_SAMPLES \<longrightarrow>
     soxr BROWSER_RATE 8000 xs 80 = Some (dec xs) \<and> length (dec xs) = 80)"

definition ready_for :: "u32 \<Rightarrow> u32 \<Rightarrow> nat \<Rightarrow> qmodem_voip_browser_media \<Rightarrow> bool" where
  "ready_for s l n b \<longleftrightarrow> bm_ready b \<and> bm_attached b \<and> length (bm_uplink b) = QMODEM_VOIP_MEDIA_SAMPLES \<and>
     bm_uplink_count b = n \<and> (bm_sequence_seen b \<longrightarrow> bm_expected_sequence b = s) \<and> bm_last_timestamp_ms b = l \<and>
     mq_wf (me_canonical_to_modem (bm_engine b))"

lemma receive_step:
  assumes "decimates soxr dec" "ready_for s l n b" "length x = BROWSER_FRAME_SAMPLES" "l \<le> t"
  shows "qmodem_voip_browser_media_receive soxr b (browser_frame_bytes s t x) =
    store_uplink \<lparr>bf_sequence = s, bf_timestamp_ms = t, bf_samples = x\<rparr> (dec x) b"
proof -
  have d: "soxr BROWSER_RATE 8000 x 80 = Some (dec x)" "length (dec x) = 80"
    using assms(1,3) by (simp_all add: decimates_def)
  then have "qmodem_voip_media_resample soxr x BROWSER_RATE 80 8000 = Some (dec x)"
    using assms(3) by (simp add: qmodem_voip_media_resample_def)
  moreover have "\<not> frame_refused b \<lparr>bf_sequence = s, bf_timestamp_ms = t, bf_samples = x\<rparr>"
    using assms(2,4) by (auto simp: frame_refused_def ready_for_def)
  ultimately show ?thesis
    using assms(2,3) d(2) unfolding qmodem_voip_browser_media_receive_def
    by (simp add: frame_round_trip ready_for_def)
qed

lemma receive_pair:
  assumes dec: "decimates soxr dec" and b: "ready_for s l 0 b"
    and p: "length x = BROWSER_FRAME_SAMPLES" "length y = BROWSER_FRAME_SAMPLES" "l \<le> t" "t \<le> u"
  shows "\<exists>b'. receive_all soxr b [browser_frame_bytes s t x, browser_frame_bytes (s + 1) u y] = Some b' \<and>
    ready_for (s + 2) u 0 b' \<and>
    mq_contents (me_canonical_to_modem (bm_engine b')) =
      lastn QMODEM_VOIP_MEDIA_QUEUE_FRAMES (mq_contents (me_canonical_to_modem (bm_engine b)) @ [(dec x @ dec y, ucast u)])"
proof -
  have len: "length (dec x) = 80" "length (dec y) = 80" using dec p by (auto simp: decimates_def)
  define f1 where "f1 = \<lparr>bf_sequence = s, bf_timestamp_ms = t, bf_samples = x\<rparr>"
  define f2 where "f2 = \<lparr>bf_sequence = s + 1, bf_timestamp_ms = u, bf_samples = y\<rparr>"
  have "length (bm_uplink b) = 160" "bm_uplink_count b = 0" using b by (auto simp: ready_for_def)
  then obtain b1 where s1: "store_uplink f1 (dec x) b = Some (0, b1)" and r1: "ready_for (s + 1) t 80 b1"
      and u1: "take 80 (bm_uplink b1) = dec x" and e1: "bm_engine b1 = bm_engine b"
    using b len by (simp add: store_uplink_def f1_def ready_for_def Let_def)
  define q where "q = me_canonical_to_modem (bm_engine b1)"
  have wf: "mq_wf q" using r1 by (simp add: ready_for_def q_def)
  have up: "length (bm_uplink b1) = 160" "bm_uplink_count b1 = 80" using r1 by (auto simp: ready_for_def)
  have push: "qmodem_voip_media_queue_push q (dec x @ dec y) (ucast u) = (0, mq_put (dec x @ dec y, ucast u) q)"
    using wf len by (simp add: qmodem_voip_media_queue_push_def mq_put_def mq_wf_def)
  have whole: "take 80 (bm_uplink b1) @ dec y @ drop (80 + length (dec y)) (bm_uplink b1) = dec x @ dec y"
    using up len u1 by simp
  obtain b2 where s2: "store_uplink f2 (dec y) b1 = Some (0, b2)" and r2: "ready_for (s + 2) u 0 b2"
      and e2: "me_canonical_to_modem (bm_engine b2) = mq_put (dec x @ dec y, ucast u) q"
    using r1 len up push whole mq.push_wf [OF wf, of "(dec x @ dec y, ucast u)"]
    by (simp add: store_uplink_def f2_def ready_for_def Let_def q_def [symmetric])
  have "receive_all soxr b [browser_frame_bytes s t x, browser_frame_bytes (s + 1) u y] = Some b2"
    using receive_step [OF dec b p(1,3)] receive_step [OF dec r1 p(2,4)] s1 s2 by (simp add: f1_def f2_def)
  then show ?thesis using r2 e2 mq.push_contents [OF wf] e1 by (auto simp: q_def)
qed

lemma receive_all_append:
  "receive_all soxr b (xs @ ys) = (case receive_all soxr b xs of None \<Rightarrow> None | Some b' \<Rightarrow> receive_all soxr b' ys)"
  by (induction xs arbitrary: b) (auto split: option.splits)

lemma receive_pairs:
  assumes "decimates soxr dec"
  shows "ready_for s l 0 b \<Longrightarrow> pairs_ok l ps \<Longrightarrow>
    \<exists>b'. receive_all soxr b (browser_packets s ps) = Some b' \<and>
      mq_contents (me_canonical_to_modem (bm_engine b')) =
        lastn QMODEM_VOIP_MEDIA_QUEUE_FRAMES (mq_contents (me_canonical_to_modem (bm_engine b)) @
          map (\<lambda>((x, t), (y, u)). (dec x @ dec y, ucast u)) ps)"
proof (induction s ps arbitrary: l b rule: browser_packets.induct)
  case (1 s)
  then show ?case by (simp add: ready_for_def lastn_mq_contents)
next
  case (2 s x t y u ps)
  from receive_pair [OF assms 2(2), of x y t u] 2(3) obtain b1 where
    b1: "receive_all soxr b [browser_frame_bytes s t x, browser_frame_bytes (s + 1) u y] = Some b1" "ready_for (s + 2) u 0 b1"
      "mq_contents (me_canonical_to_modem (bm_engine b1)) =
        lastn QMODEM_VOIP_MEDIA_QUEUE_FRAMES (mq_contents (me_canonical_to_modem (bm_engine b)) @ [(dec x @ dec y, ucast u)])"
    by auto
  from 2(1) [OF b1(2)] 2(3) obtain b2 where
    b2: "receive_all soxr b1 (browser_packets (s + 2) ps) = Some b2"
      "mq_contents (me_canonical_to_modem (bm_engine b2)) = lastn QMODEM_VOIP_MEDIA_QUEUE_FRAMES
        (mq_contents (me_canonical_to_modem (bm_engine b1)) @ map (\<lambda>((x, t), (y, u)). (dec x @ dec y, ucast u)) ps)"
    by auto
  have "receive_all soxr b (browser_packets s (((x, t), (y, u)) # ps)) = Some b2"
    using receive_all_append [of soxr b "[browser_frame_bytes s t x, browser_frame_bytes (s + 1) u y]" "browser_packets (s + 2) ps"]
      b1(1) b2(1) by simp
  then show ?case using b1(3) b2(2) by (auto simp: lastn_append_lastn)
qed

section \<open>The session\<close>

definition browser_ok :: "qmodem_voip_browser_media \<Rightarrow> bool" where
  "browser_ok b \<longleftrightarrow> (bm_attached b \<longleftrightarrow> bm_client b \<noteq> None) \<and> (bm_client b = None \<or> bm_pending_client b = None) \<and>
     uplink_ok b"

text \<open>What changes a session: callbacks of the library, the functions the media manager calls, and the
  revision it sets.\<close>

inductive browser_step :: "qmodem_voip_browser_media \<Rightarrow> qmodem_voip_browser_media \<Rightarrow> bool" where
  step_callback: "browser_callback soxr wsi event c b = Some (r, c', b', out) \<Longrightarrow> browser_step b b'"
| step_start: "qmodem_voip_browser_media_start created b = (r, b') \<Longrightarrow> browser_step b b'"
| step_reset: "browser_step b (qmodem_voip_browser_media_reset_call b)"
| step_stop: "browser_step b (qmodem_voip_browser_media_stop b)"
| step_release: "browser_step b (qmodem_voip_browser_media_release b)"
| step_issue: "qmodem_voip_browser_token_issue random (bm_tokens b) session revision origin peer now = (r, token, toks)
    \<Longrightarrow> browser_step b (b\<lparr>bm_tokens := toks\<rparr>)"
| step_revision: "browser_step b (b\<lparr>bm_call_revision := revision\<rparr>)"
| step_engine: "browser_step b (b\<lparr>bm_engine := engine\<rparr>)"

definition fresh_browser :: "qmodem_voip_browser_media \<Rightarrow> bool" where
  "fresh_browser b \<longleftrightarrow> bm_client b = None \<and> bm_pending_client b = None \<and> \<not> bm_attached b \<and> bm_uplink_count b = 0 \<and>
     length (bm_uplink b) = QMODEM_VOIP_MEDIA_SAMPLES"

lemma reset_call_ok: "browser_ok (qmodem_voip_browser_media_reset_call b)"
  by (simp add: browser_ok_def uplink_ok_def qmodem_voip_browser_media_reset_call_def)

lemma store_uplink_session:
  assumes "store_uplink f converted b = Some (r, b')"
  shows "bm_client b' = bm_client b" "bm_pending_client b' = bm_pending_client b" "bm_attached b' = bm_attached b"
  using assms unfolding store_uplink_def Let_def by (auto split: if_splits prod.splits)

lemma receive_session:
  assumes "qmodem_voip_browser_media_receive soxr b d = Some (r, b')"
  shows "bm_client b' = bm_client b" "bm_pending_client b' = bm_pending_client b" "bm_attached b' = bm_attached b"
  using assms unfolding qmodem_voip_browser_media_receive_def
  by (auto split: if_splits option.splits dest: store_uplink_session)

lemma receive_browser_ok:
  assumes "browser_ok b" "qmodem_voip_browser_media_receive soxr b d = Some (r, b')"
  shows "browser_ok b'"
  using assms receive_session [OF assms(2)] receive_ok [of b soxr d] by (auto simp: browser_ok_def)

definition same_session :: "qmodem_voip_browser_media \<Rightarrow> qmodem_voip_browser_media \<Rightarrow> bool" where
  "same_session b b' \<longleftrightarrow> bm_client b' = bm_client b \<and> bm_pending_client b' = bm_pending_client b \<and>
     bm_attached b' = bm_attached b \<and> bm_uplink b' = bm_uplink b \<and> bm_uplink_count b' = bm_uplink_count b"

lemma filter_cases:
  assumes "filter_connection h now wsi b = (r, b')"
  shows "same_session b b' \<or> (bm_client b = None \<and> same_session (b\<lparr>bm_pending_client := Some wsi\<rparr>) b')"
  using assms unfolding filter_connection_def Let_def same_session_def
  by (auto split: if_splits option.splits prod.splits)

lemma filter_ok: "browser_ok b \<Longrightarrow> filter_connection h now wsi b = (r, b') \<Longrightarrow> browser_ok b'"
  using filter_cases [of h now wsi b r b'] by (auto simp: same_session_def browser_ok_def uplink_ok_def)

lemma attach_session:
  assumes "qmodem_voip_browser_media_attach b rv = (r, b')"
  shows "r = 0 \<and> bm_attached b' \<or> r \<noteq> 0 \<and> b' = b"
    and "bm_client b' = bm_client b" "bm_pending_client b' = bm_pending_client b" "uplink_ok b' = uplink_ok b"
  using assms by (auto simp: qmodem_voip_browser_media_attach_def uplink_ok_def split: if_splits prod.splits)

lemma establish_ok:
  assumes "browser_ok b" "establish_connection wsi b = (r, b')"
  shows "browser_ok b'"
proof -
  obtain r1 b1 where a: "qmodem_voip_browser_media_attach b (bm_call_revision b) = (r1, b1)" by fastforce
  note s = attach_session [OF a]
  have "b' = b \<or> b' = b1 \<and> r1 \<noteq> 0 \<or>
      r1 = 0 \<and> bm_client b = None \<and> b' = b1\<lparr>bm_pending_client := None, bm_client := Some wsi\<rparr>"
    using assms(2) a unfolding establish_connection_def by (auto split: if_splits)
  then show ?thesis using assms(1) s by (auto simp: browser_ok_def uplink_ok_def)
qed

lemma next_downlink_session: "next_downlink soxr c b = (c', b') \<Longrightarrow> same_session b b'"
  unfolding next_downlink_def Let_def same_session_def by (simp split: if_splits option.splits prod.splits) auto

lemma downlink_ok:
  assumes "browser_ok b" "write_downlink soxr written c b = (r, c', b', out)"
  shows "browser_ok b'"
proof -
  obtain c1 b1 where n: "next_downlink soxr c b = (c1, b1)" by fastforce
  have "same_session b1 b'"
    using assms(2) unfolding write_downlink_def n Let_def same_session_def by (auto split: if_splits option.splits)
  with next_downlink_session [OF n] assms(1) show ?thesis
    by (simp add: same_session_def browser_ok_def uplink_ok_def)
qed

lemma close_connection_ok: "browser_ok b \<Longrightarrow> browser_ok (close_connection wsi b)"
  by (auto simp: close_connection_def browser_ok_def uplink_ok_def Let_def)

lemma fragment_ok:
  assumes "browser_ok b"
  shows "\<exists>r c' b'. receive_fragment soxr binary fin remaining first input c b = Some (r, c', b') \<and> browser_ok b'"
proof -
  obtain r b' where "qmodem_voip_browser_media_receive soxr b (cn_uplink c @ input) = Some (r, b')"
    using receive_ok [of b soxr "cn_uplink c @ input"] assms by (auto simp: browser_ok_def)
  with receive_browser_ok [OF assms this] assms show ?thesis
    by (auto simp: receive_fragment_def Let_def)
qed

lemma callback_ok:
  assumes "browser_ok b"
  shows "\<exists>r c' b' out. browser_callback soxr wsi event c b = Some (r, c', b', out) \<and> browser_ok b'"
proof (cases event)
  case (LWS_CALLBACK_FILTER_PROTOCOL_CONNECTION h now)
  obtain r b' where f: "filter_connection h now wsi b = (r, b')" by fastforce
  with filter_ok [OF assms f] LWS_CALLBACK_FILTER_PROTOCOL_CONNECTION show ?thesis by (simp add: browser_callback_def)
next
  case LWS_CALLBACK_ESTABLISHED
  obtain r b' where f: "establish_connection wsi b = (r, b')" by fastforce
  with establish_ok [OF assms f] LWS_CALLBACK_ESTABLISHED show ?thesis by (simp add: browser_callback_def)
next
  case (LWS_CALLBACK_RECEIVE binary fin remaining first input)
  then show ?thesis
    using fragment_ok [OF assms, of soxr binary fin remaining first input c] by (auto simp: browser_callback_def)
next
  case (LWS_CALLBACK_SERVER_WRITEABLE written)
  obtain r c' b' out where f: "write_downlink soxr written c b = (r, c', b', out)" by (metis prod_cases4)
  with downlink_ok [OF assms f] LWS_CALLBACK_SERVER_WRITEABLE show ?thesis by (simp add: browser_callback_def)
next
  case LWS_CALLBACK_CLOSED
  then show ?thesis using close_connection_ok [OF assms, of wsi] by (simp add: browser_callback_def)
next
  case LWS_CALLBACK_OTHER
  then show ?thesis using assms by (simp add: browser_callback_def)
qed

lemma browser_step_ok: "browser_step b b' \<Longrightarrow> browser_ok b \<Longrightarrow> browser_ok b'"
proof (induction b b' rule: browser_step.induct)
  case (step_callback soxr wsi event c b r c' b' out)
  then show ?case using callback_ok [of b soxr wsi event c] by auto
next
  case (step_start created b r b')
  then show ?case by (auto simp: qmodem_voip_browser_media_start_def browser_ok_def uplink_ok_def Let_def split: if_splits)
qed (auto simp: browser_ok_def uplink_ok_def qmodem_voip_browser_media_release_def qmodem_voip_browser_media_stop_def
    qmodem_voip_browser_media_reset_call_def)

interpretation browser_session: inductive_invariant fresh_browser browser_step browser_ok
proof
  show "browser_ok b" if "fresh_browser b" for b
    using that by (auto simp: fresh_browser_def browser_ok_def uplink_ok_def)
qed (use browser_step_ok in blast)


section \<open>Properties\<close>




definition idle_browser :: qmodem_voip_browser_media where
  "idle_browser = \<lparr>bm_tokens = qmodem_voip_browser_tokens_init, bm_engine_set = True, bm_engine = sample_engine,
     bm_context = True, bm_client = None, bm_pending_client = None, bm_address = ''192.168.1.1'',
     bm_certificate_data = [], bm_key_data = [], bm_certificate_length = 0, bm_key_length = 0, bm_origin = [],
     bm_call_revision = 7, bm_expected_sequence = 0, bm_last_timestamp_ms = 0, bm_sequence_seen = False,
     bm_uplink = replicate QMODEM_VOIP_MEDIA_SAMPLES 0, bm_uplink_count = 0, bm_uplink_frames = 0,
     bm_uplink_non_silent_frames = 0, bm_uplink_peak = 0, bm_downlink_frames = 0, bm_downlink_empty = 0,
     bm_downlink_write_errors = 0, bm_dropped = 0, bm_attached = False, bm_ready = True\<rparr>"


text \<open>The frames a browser sends arrive in order and complete: each pair of consecutive 10 ms frames
  becomes one 20 ms frame for the modem, the resampled halves one after the other, however many
  frames are sent; the queue keeps the newest 25.\<close>

lemma browser_uplink_in_order:
  assumes "decimates soxr dec" "ready_for s l 0 b" "pairs_ok l ps"
  shows "\<exists>b'. receive_all soxr b (browser_packets s ps) = Some b' \<and>
      mq_contents (me_canonical_to_modem (bm_engine b')) =
        lastn QMODEM_VOIP_MEDIA_QUEUE_FRAMES (mq_contents (me_canonical_to_modem (bm_engine b)) @
          map (\<lambda>((x, t), (y, u)). (dec x @ dec y, ucast u)) ps)"
  by (rule receive_pairs [OF assms])

text \<open>C34: when the connection of a browser closes, the engine stays attached under the revision the
  browser had attached with. A new connection of the same call is therefore accepted exactly when the
  revision of the call has not changed since, although the tokens are meant to stay valid while the
  call advances.\<close>

theorem browser_reconnect:
  assumes "establish_connection w b = (0, b1)"
  shows "fst (establish_connection w' ((close_connection w (b1\<lparr>bm_call_revision := rv\<rparr>))\<lparr>bm_pending_client := Some w'\<rparr>)) = 0
    \<longleftrightarrow> rv = bm_call_revision b"
proof -
  obtain e where a: "qmodem_voip_media_attach (bm_engine b) QMODEM_VOIP_MEDIA_ATTACH_BROWSER (bm_call_revision b) = (0, e)"
      and b: "bm_ready b" "bm_engine_set b" "me_ready (bm_engine b)" "bm_client b = None"
      and b1: "b1 = b\<lparr>bm_attached := True, bm_engine := e\<lparr>me_browser_media_ready := True\<rparr>, bm_pending_client := None,
        bm_client := Some w\<rparr>"
    using assms unfolding establish_connection_def qmodem_voip_browser_media_attach_def
    by (auto split: if_splits prod.splits)
  have e: "me_session_id e = bm_call_revision b" "me_ready e" "bm_call_revision b \<noteq> 0"
    using a by (auto simp: qmodem_voip_media_attach_def split: if_splits)
  show ?thesis
    using b e by (auto simp: b1 close_connection_def establish_connection_def qmodem_voip_browser_media_attach_def
        qmodem_voip_media_attach_def)
qed

theorem browser_reconnect_witness:
  "fst (establish_connection 2 ((close_connection 1 ((snd (establish_connection 1
     (idle_browser\<lparr>bm_pending_client := Some 1\<rparr>)))\<lparr>bm_call_revision := 8\<rparr>))\<lparr>bm_pending_client := Some 2\<rparr>)) \<noteq> 0"
proof -
  let ?b = "idle_browser\<lparr>bm_pending_client := Some 1\<rparr>"
  have "fst (establish_connection 1 ?b) = 0"
    by (simp add: establish_connection_def qmodem_voip_browser_media_attach_def qmodem_voip_media_attach_def idle_browser_def
        sample_engine_def zero_engine_def)
  then have "establish_connection 1 ?b = (0, snd (establish_connection 1 ?b))" by (metis prod.collapse)
  from browser_reconnect [OF this, of 2 8] show ?thesis by (simp add: idle_browser_def)
qed

end
