(* ===== verification/Call_State.thy ===== *)
theory Call_State
  imports QModem_Prelude
begin

text \<open>
  The call state machine of the voice daemon, \<open>application/voipd/src/call_state.c\<close>.

  The C structure \<open>struct qmodem_voip_call\<close> is the record \<open>qmodem_voip_call\<close>; every
  function of the file is a definition of the same name that takes the call and returns the status
  code, the updated call and the effects in the order the code produces them. The command and
  event callbacks are parameters of the operations that call them: the daemon's own callbacks write
  to the call while an operation runs (the command callback may re-select the AT port, the event
  callback acknowledges the completed-call record), so a callback is a function on the call.
  The two clocks are read once per operation.
\<close>

section \<open>Data\<close>

datatype qmodem_voip_state =
  VOIP_DISABLED | VOIP_IDLE | VOIP_OUTGOING_SETUP | VOIP_INCOMING_RINGING | VOIP_EARLY_MEDIA
| VOIP_ACTIVE | VOIP_TERMINATING | VOIP_RECOVERING | VOIP_FAULT

datatype qmodem_voip_endpoint =
  ENDPOINT_NONE | ENDPOINT_BROWSER | ENDPOINT_LAN_SIP | ENDPOINT_CELLULAR
| ENDPOINT_EXTERNAL_SIP | ENDPOINT_RJ11

datatype qmodem_voip_correlation =
  CORR_IDLE | CORR_RESPONSE | CORR_TERMINAL | CORR_AMBIGUOUS

record qmodem_voip_completed =
  cc_started_at :: u64
  cc_ended_at :: u64
  cc_duration_seconds :: u64
  cc_origin :: qmodem_voip_endpoint
  cc_number :: string
  cc_caller_id_withheld :: bool
  cc_was_active :: bool
  cc_pending :: bool

record qmodem_voip_call =
  vc_state :: qmodem_voip_state
  vc_origin :: qmodem_voip_endpoint
  vc_endpoint :: qmodem_voip_endpoint
  vc_number :: string
  vc_caller_id_withheld :: bool
  vc_enabled :: bool
  vc_at_port :: string
  vc_restart_epoch :: u64
  vc_sequence :: u64
  vc_drop_count :: u64
  vc_revision :: u64
  vc_active_since_msec :: u64
  vc_started_at :: u64
  vc_was_active :: bool
  vc_reconcile_command_id :: u64
  vc_reconcile_pending :: bool
  vc_reconcile_saw_data :: bool
  vc_reconcile_voice_misses :: u32
  vc_idle_poll :: bool
  vc_answer_owner :: qmodem_voip_endpoint
  vc_completed :: qmodem_voip_completed

text \<open>\<open>time(NULL)\<close>, and what \<open>clock_gettime(CLOCK_MONOTONIC)\<close> gives in seconds and
  nanoseconds, \<open>None\<close> when it fails.\<close>

record clocks =
  clk_time :: u64
  clk_monotonic :: "(nat \<times> nat) option"

datatype effect = Command string | Event string qmodem_voip_call

record callbacks =
  cb_command :: "(string \<Rightarrow> qmodem_voip_call \<Rightarrow> qmodem_voip_call) option"
  cb_event :: "(string \<Rightarrow> qmodem_voip_call \<Rightarrow> qmodem_voip_call) option"

abbreviation NUMBER_SIZE :: nat where "NUMBER_SIZE \<equiv> 64"
abbreviation AT_PORT_SIZE :: nat where "AT_PORT_SIZE \<equiv> 64"

definition zero_completed :: qmodem_voip_completed where
  "zero_completed = \<lparr>cc_started_at = 0, cc_ended_at = 0, cc_duration_seconds = 0,
     cc_origin = ENDPOINT_NONE, cc_number = [], cc_caller_id_withheld = False,
     cc_was_active = False, cc_pending = False\<rparr>"

section \<open>Helpers\<close>

definition monotonic_milliseconds :: "clocks \<Rightarrow> u64" where
  "monotonic_milliseconds k =
     (case clk_monotonic k of None \<Rightarrow> 0
      | Some (sec, nsec) \<Rightarrow> of_nat sec * 1000 + of_nat nsec div 1000000)"

definition begin_call :: "clocks \<Rightarrow> qmodem_voip_call \<Rightarrow> qmodem_voip_call" where
  "begin_call k c = (if vc_started_at c = 0 then c\<lparr>vc_started_at := clk_time k\<rparr> else c)"

definition mark_call_active :: "clocks \<Rightarrow> qmodem_voip_call \<Rightarrow> qmodem_voip_call" where
  "mark_call_active k c =
     (let c1 = (if vc_active_since_msec c = 0
                then c\<lparr>vc_active_since_msec := monotonic_milliseconds k\<rparr> else c);
          c2 = begin_call k c1
      in c2\<lparr>vc_was_active := True, vc_state := VOIP_ACTIVE\<rparr>)"

definition qmodem_voip_call_duration_seconds :: "clocks \<Rightarrow> qmodem_voip_call \<Rightarrow> u64" where
  "qmodem_voip_call_duration_seconds k c =
     (if vc_active_since_msec c = 0 then 0
      else let now = monotonic_milliseconds k
           in if now \<ge> vc_active_since_msec c then (now - vc_active_since_msec c) div 1000 else 0)"

definition endpoint_is_source :: "qmodem_voip_endpoint \<Rightarrow> bool" where
  "endpoint_is_source e \<longleftrightarrow>
     e = ENDPOINT_BROWSER \<or> e = ENDPOINT_LAN_SIP \<or> e = ENDPOINT_EXTERNAL_SIP \<or> e = ENDPOINT_RJ11"

definition number_char :: "char \<Rightarrow> bool" where
  "number_char c \<longleftrightarrow> is_digit c \<or> c = CHR ''+'' \<or> c = CHR ''*'' \<or> c = CHR ''#'' \<or>
     c = CHR '','' \<or> c = CHR ''p''"

definition valid_number :: "string option \<Rightarrow> bool" where
  "valid_number n = (case n of None \<Rightarrow> False
     | Some s \<Rightarrow> s \<noteq> [] \<and> length s < NUMBER_SIZE \<and> list_all number_char s)"

definition qmodem_voip_call_touch :: "qmodem_voip_call \<Rightarrow> qmodem_voip_call" where
  "qmodem_voip_call_touch c = c\<lparr>vc_revision := vc_revision c + 1\<rparr>"

fun issue :: "callbacks \<Rightarrow> string \<Rightarrow> qmodem_voip_call \<times> effect list \<Rightarrow> qmodem_voip_call \<times> effect list" where
  "issue cb v (c, es) =
     (case cb_command cb of None \<Rightarrow> (c, es) | Some f \<Rightarrow> (f v c, es @ [Command v]))"

fun notify :: "callbacks \<Rightarrow> string \<Rightarrow> qmodem_voip_call \<times> effect list \<Rightarrow> qmodem_voip_call \<times> effect list" where
  "notify cb name (c, es) =
     (let c' = qmodem_voip_call_touch c
      in case cb_event cb of None \<Rightarrow> (c', es) | Some f \<Rightarrow> (f name c', es @ [Event name c']))"

definition qmodem_voip_call_init :: qmodem_voip_call where
  "qmodem_voip_call_init = \<lparr>vc_state = VOIP_DISABLED, vc_origin = ENDPOINT_NONE,
     vc_endpoint = ENDPOINT_NONE, vc_number = [], vc_caller_id_withheld = False,
     vc_enabled = False, vc_at_port = [], vc_restart_epoch = 0, vc_sequence = 0,
     vc_drop_count = 0, vc_revision = 0, vc_active_since_msec = 0, vc_started_at = 0,
     vc_was_active = False, vc_reconcile_command_id = 0, vc_reconcile_pending = False,
     vc_reconcile_saw_data = False, vc_reconcile_voice_misses = 0, vc_idle_poll = False,
     vc_answer_owner = ENDPOINT_NONE, vc_completed = zero_completed\<rparr>"

definition complete_call :: "clocks \<Rightarrow> qmodem_voip_call \<Rightarrow> qmodem_voip_call" where
  "complete_call k c =
     (if vc_started_at c = 0 \<or> vc_origin c = ENDPOINT_NONE \<or> cc_pending (vc_completed c) then c
      else c\<lparr>vc_completed := \<lparr>cc_started_at = vc_started_at c, cc_ended_at = clk_time k,
             cc_duration_seconds = qmodem_voip_call_duration_seconds k c,
             cc_origin = vc_origin c, cc_number = vc_number c,
             cc_caller_id_withheld = vc_caller_id_withheld c,
             cc_was_active = vc_was_active c, cc_pending = True\<rparr>\<rparr>)"

section \<open>Control operations\<close>

definition qmodem_voip_call_select_at_port ::
  "qmodem_voip_call \<Rightarrow> string option \<Rightarrow> int \<times> qmodem_voip_call" where
  "qmodem_voip_call_select_at_port c port =
     (case port of None \<Rightarrow> (-1, c)
      | Some p \<Rightarrow>
          if p = [] \<or> length p \<ge> AT_PORT_SIZE then (-1, c)
          else if vc_at_port c = p then (0, c)
          else (1, c\<lparr>vc_at_port := p, vc_restart_epoch := 0, vc_sequence := 0,
                     vc_drop_count := 0, vc_reconcile_command_id := 0\<rparr>))"

definition qmodem_voip_call_set_enabled :: "clocks \<Rightarrow> qmodem_voip_call \<Rightarrow> bool \<Rightarrow> qmodem_voip_call" where
  "qmodem_voip_call_set_enabled k c enabled =
     (let c1 = c\<lparr>vc_enabled := enabled\<rparr>;
          c2 = (if \<not> enabled then
                  (complete_call k c1)\<lparr>vc_state := VOIP_DISABLED, vc_origin := ENDPOINT_NONE,
                     vc_endpoint := ENDPOINT_NONE, vc_number := [], vc_active_since_msec := 0,
                     vc_started_at := 0, vc_was_active := False,
                     vc_answer_owner := ENDPOINT_NONE, vc_reconcile_pending := False\<rparr>
                else if vc_state c1 = VOIP_DISABLED then c1\<lparr>vc_state := VOIP_IDLE\<rparr>
                else c1)
      in qmodem_voip_call_touch c2)"

definition qmodem_voip_call_get_completed :: "qmodem_voip_call \<Rightarrow> qmodem_voip_completed option" where
  "qmodem_voip_call_get_completed c =
     (if cc_pending (vc_completed c) then Some (vc_completed c) else None)"

definition qmodem_voip_call_ack_completed :: "qmodem_voip_call \<Rightarrow> qmodem_voip_call" where
  "qmodem_voip_call_ack_completed c = c\<lparr>vc_completed := zero_completed\<rparr>"

definition qmodem_voip_endpoint_parse :: "string option \<Rightarrow> qmodem_voip_endpoint option" where
  "qmodem_voip_endpoint_parse v =
     (case v of None \<Rightarrow> None
      | Some s \<Rightarrow>
          if s = ''browser'' then Some ENDPOINT_BROWSER
          else if s = ''lan_sip'' then Some ENDPOINT_LAN_SIP
          else if s = ''cellular'' then Some ENDPOINT_CELLULAR
          else if s = ''external_sip'' then Some ENDPOINT_EXTERNAL_SIP
          else if s = ''rj11'' then Some ENDPOINT_RJ11
          else None)"

fun qmodem_voip_state_name :: "qmodem_voip_state \<Rightarrow> string" where
  "qmodem_voip_state_name VOIP_DISABLED = ''disabled''"
| "qmodem_voip_state_name VOIP_IDLE = ''idle''"
| "qmodem_voip_state_name VOIP_OUTGOING_SETUP = ''outgoing_setup''"
| "qmodem_voip_state_name VOIP_INCOMING_RINGING = ''incoming_ringing''"
| "qmodem_voip_state_name VOIP_EARLY_MEDIA = ''early_media''"
| "qmodem_voip_state_name VOIP_ACTIVE = ''active''"
| "qmodem_voip_state_name VOIP_TERMINATING = ''terminating''"
| "qmodem_voip_state_name VOIP_RECOVERING = ''recovering''"
| "qmodem_voip_state_name VOIP_FAULT = ''fault''"

fun qmodem_voip_endpoint_name :: "qmodem_voip_endpoint \<Rightarrow> string" where
  "qmodem_voip_endpoint_name ENDPOINT_BROWSER = ''browser''"
| "qmodem_voip_endpoint_name ENDPOINT_LAN_SIP = ''lan_sip''"
| "qmodem_voip_endpoint_name ENDPOINT_CELLULAR = ''cellular''"
| "qmodem_voip_endpoint_name ENDPOINT_EXTERNAL_SIP = ''external_sip''"
| "qmodem_voip_endpoint_name ENDPOINT_RJ11 = ''rj11''"
| "qmodem_voip_endpoint_name ENDPOINT_NONE = ''none''"

section \<open>Call operations\<close>

definition qmodem_voip_originate ::
  "callbacks \<Rightarrow> clocks \<Rightarrow> qmodem_voip_call \<Rightarrow> qmodem_voip_endpoint \<Rightarrow> string option
   \<Rightarrow> int \<times> qmodem_voip_call \<times> effect list" where
  "qmodem_voip_originate cb k c origin number =
     (if \<not> vc_enabled c \<or> \<not> endpoint_is_source origin \<or> \<not> valid_number number then (-1, c, [])
      else if vc_state c \<noteq> VOIP_IDLE then (-3, c, [])
      else let n = the number;
               at_command = c_copy (NUMBER_SIZE + 8) (''ATD'' @ n @ '';'');
               c1 = c\<lparr>vc_origin := origin, vc_endpoint := ENDPOINT_CELLULAR,
                      vc_number := c_copy NUMBER_SIZE n, vc_caller_id_withheld := False,
                      vc_active_since_msec := 0, vc_started_at := clk_time k,
                      vc_was_active := False, vc_answer_owner := ENDPOINT_NONE,
                      vc_reconcile_voice_misses := 0, vc_state := VOIP_OUTGOING_SETUP\<rparr>
           in (0, issue cb at_command (qmodem_voip_call_touch c1, [])))"

definition qmodem_voip_answer ::
  "callbacks \<Rightarrow> clocks \<Rightarrow> qmodem_voip_call \<Rightarrow> qmodem_voip_endpoint
   \<Rightarrow> int \<times> qmodem_voip_call \<times> effect list" where
  "qmodem_voip_answer cb k c ep =
     (if \<not> vc_enabled c \<or> \<not> endpoint_is_source ep then (-1, c, [])
      else if vc_answer_owner c \<noteq> ENDPOINT_NONE then (-3, c, [])
      else if vc_state c \<noteq> VOIP_INCOMING_RINGING \<and> vc_state c \<noteq> VOIP_EARLY_MEDIA then (-2, c, [])
      else let c1 = mark_call_active k (c\<lparr>vc_answer_owner := ep\<rparr>)
           in (0, issue cb ''ATA'' (qmodem_voip_call_touch c1, [])))"

definition terminate :: "callbacks \<Rightarrow> qmodem_voip_call \<Rightarrow> qmodem_voip_endpoint
   \<Rightarrow> int \<times> qmodem_voip_call \<times> effect list" where
  "terminate cb c ep =
     (if \<not> vc_enabled c \<or> \<not> endpoint_is_source ep then (-1, c, [])
      else if vc_state c = VOIP_IDLE \<or> vc_state c = VOIP_DISABLED then (0, c, [])
      else if vc_state c = VOIP_TERMINATING then (0, c, [])
      else (0, issue cb ''AT+CHUP'' (qmodem_voip_call_touch (c\<lparr>vc_state := VOIP_TERMINATING\<rparr>), [])))"

definition qmodem_voip_reject :: "callbacks \<Rightarrow> qmodem_voip_call \<Rightarrow> qmodem_voip_endpoint
   \<Rightarrow> int \<times> qmodem_voip_call \<times> effect list" where
  "qmodem_voip_reject cb c ep =
     (if vc_state c = VOIP_INCOMING_RINGING \<or> vc_state c = VOIP_EARLY_MEDIA then terminate cb c ep
      else (if vc_state c = VOIP_IDLE \<or> vc_state c = VOIP_TERMINATING then 0 else -2, c, []))"

definition qmodem_voip_hangup :: "callbacks \<Rightarrow> qmodem_voip_call \<Rightarrow> qmodem_voip_endpoint
   \<Rightarrow> int \<times> qmodem_voip_call \<times> effect list" where
  "qmodem_voip_hangup cb c ep = terminate cb c ep"

definition dtmf_char :: "char \<Rightarrow> bool" where
  "dtmf_char d \<longleftrightarrow> is_digit d \<or> d = CHR ''*'' \<or> d = CHR ''#'' \<or>
     (65 \<le> (of_char d :: nat) \<and> (of_char d :: nat) \<le> 68)"

definition qmodem_voip_send_dtmf ::
  "callbacks \<Rightarrow> qmodem_voip_call \<Rightarrow> qmodem_voip_endpoint \<Rightarrow> char
   \<Rightarrow> int \<times> qmodem_voip_call \<times> effect list" where
  "qmodem_voip_send_dtmf cb c ep digit =
     (if \<not> vc_enabled c \<or> \<not> endpoint_is_source ep then (-1, c, [])
      else if vc_state c \<noteq> VOIP_ACTIVE then (-2, c, [])
      else if vc_origin c \<noteq> ep \<and> vc_answer_owner c \<noteq> ep then (-3, c, [])
      else if \<not> dtmf_char digit then (-4, c, [])
      else (0, issue cb (''AT+VTS='' @ [CHR 0x22, digit, CHR 0x22]) (c, [])))"

definition qmodem_voip_start_recovery ::
  "callbacks \<Rightarrow> qmodem_voip_call \<Rightarrow> int \<times> qmodem_voip_call \<times> effect list" where
  "qmodem_voip_start_recovery cb c =
     (if \<not> vc_enabled c then (-1, c, [])
      else (0, issue cb ''AT+CLCC'' (qmodem_voip_call_touch
              (c\<lparr>vc_state := VOIP_RECOVERING, vc_reconcile_pending := True,
                 vc_reconcile_command_id := 0, vc_reconcile_saw_data := False\<rparr>), [])))"

definition qmodem_voip_poll_active ::
  "callbacks \<Rightarrow> qmodem_voip_call \<Rightarrow> int \<times> qmodem_voip_call \<times> effect list" where
  "qmodem_voip_poll_active cb c =
     (if \<not> vc_enabled c \<or>
         (vc_state c \<noteq> VOIP_OUTGOING_SETUP \<and> vc_state c \<noteq> VOIP_INCOMING_RINGING \<and>
          vc_state c \<noteq> VOIP_EARLY_MEDIA \<and> vc_state c \<noteq> VOIP_ACTIVE \<and>
          vc_state c \<noteq> VOIP_TERMINATING) \<or> vc_reconcile_pending c then (-1, c, [])
      else (0, issue cb ''AT+CLCC''
              (c\<lparr>vc_reconcile_pending := True, vc_reconcile_command_id := 0\<rparr>, [])))"

definition qmodem_voip_poll_idle ::
  "callbacks \<Rightarrow> qmodem_voip_call \<Rightarrow> int \<times> qmodem_voip_call \<times> effect list" where
  "qmodem_voip_poll_idle cb c =
     (if \<not> vc_enabled c \<or> vc_state c \<noteq> VOIP_IDLE \<or> vc_reconcile_pending c then (-1, c, [])
      else (0, issue cb ''AT+CLCC''
              (c\<lparr>vc_reconcile_pending := True, vc_reconcile_command_id := 0,
                 vc_reconcile_saw_data := False, vc_idle_poll := True\<rparr>, [])))"

section \<open>Lines from the modem\<close>

definition clip_number :: "qmodem_voip_call \<Rightarrow> string \<Rightarrow> bool \<times> qmodem_voip_call" where
  "clip_number c line =
     (case strchr line (CHR 0x22) of None \<Rightarrow> (False, c)
      | Some first \<Rightarrow>
          (case strchr (tl first) (CHR 0x22) of None \<Rightarrow> (False, c)
           | Some last_quote \<Rightarrow>
               let len = length (tl first) - length last_quote;
                   digits = take len (tl first)
               in if len = 0 then (True, c\<lparr>vc_caller_id_withheld := True, vc_number := []\<rparr>)
                  else if len \<ge> NUMBER_SIZE then (False, c)
                  else (True, c\<lparr>vc_number := digits, vc_caller_id_withheld := False\<rparr>)))"

text \<open>One comma-terminated integer field: \<open>strtol\<close>, then the character it stopped at must be
  a comma. The rest starts after the comma.\<close>

definition clcc_field :: "string \<Rightarrow> (int \<times> string) option" where
  "clcc_field p =
     (let (v, rest) = strtol10 p
      in if rest = p \<or> rest = [] \<or> hd rest \<noteq> CHR '','' then None else Some (v, tl rest))"

text \<open>Direction, status, mode, and whether the first quoted string is empty.\<close>

definition clcc_status :: "string \<Rightarrow> (int \<times> int \<times> int \<times> bool) option" where
  "clcc_status line =
     (case strchr line CHR '':'' of None \<Rightarrow> None
      | Some p0 \<Rightarrow>
     (case clcc_field (tl p0) of None \<Rightarrow> None
      | Some (_, p1) \<Rightarrow>
     (case clcc_field p1 of None \<Rightarrow> None
      | Some (direction, p2) \<Rightarrow>
     (case clcc_field p2 of None \<Rightarrow> None
      | Some (status, p3) \<Rightarrow>
     (case clcc_field p3 of None \<Rightarrow> None
      | Some (mode, p4) \<Rightarrow>
          Some (to_int32 direction, to_int32 status, to_int32 mode,
            (case strchr p4 (CHR 0x22) of None \<Rightarrow> False
             | Some quote \<Rightarrow> tl quote \<noteq> [] \<and> hd (tl quote) = CHR 0x22)))))))"

definition clear_call :: "clocks \<Rightarrow> qmodem_voip_call \<Rightarrow> qmodem_voip_call" where
  "clear_call k c =
     (let c1 = complete_call k c
      in qmodem_voip_call_touch (c1\<lparr>
           vc_state := (if vc_enabled c1 then VOIP_IDLE else VOIP_DISABLED),
           vc_origin := ENDPOINT_NONE, vc_endpoint := ENDPOINT_NONE, vc_number := [],
           vc_caller_id_withheld := False, vc_active_since_msec := 0, vc_started_at := 0,
           vc_was_active := False, vc_answer_owner := ENDPOINT_NONE,
           vc_reconcile_voice_misses := 0\<rparr>))"

definition in_voice_state :: "qmodem_voip_call \<Rightarrow> bool" where
  "in_voice_state c \<longleftrightarrow> vc_state c = VOIP_OUTGOING_SETUP \<or> vc_state c = VOIP_INCOMING_RINGING \<or>
     vc_state c = VOIP_EARLY_MEDIA \<or> vc_state c = VOIP_ACTIVE"

definition reset_reconcile :: "qmodem_voip_call \<Rightarrow> qmodem_voip_call" where
  "reset_reconcile c = c\<lparr>vc_reconcile_pending := False, vc_reconcile_command_id := 0,
     vc_reconcile_saw_data := False\<rparr>"

text \<open>The \<open>OK\<close> that ends a reconciliation poll: no call was listed.\<close>

definition line_poll_ok :: "callbacks \<Rightarrow> clocks \<Rightarrow> qmodem_voip_call \<times> effect list
   \<Rightarrow> int \<times> qmodem_voip_call \<times> effect list" where
  "line_poll_ok cb k ce =
     (let (c, es) = ce in
      if vc_idle_poll c \<and> vc_state c = VOIP_IDLE
      then (0, reset_reconcile (c\<lparr>vc_idle_poll := False\<rparr>), es)
      else let c1 = c\<lparr>vc_idle_poll := False\<rparr>;
               c2 = (if in_voice_state c1
                     then c1\<lparr>vc_reconcile_voice_misses := vc_reconcile_voice_misses c1 + 1\<rparr> else c1)
           in if in_voice_state c1 \<and> vc_reconcile_voice_misses c2 < 2
              then (0, notify cb ''reconcile_inconclusive'' (reset_reconcile c2, es))
              else let had_active_call = (vc_state c2 = VOIP_ACTIVE);
                       c3 = (if \<not> in_voice_state c2 \<or> vc_reconcile_voice_misses c2 \<ge> 2
                             then clear_call k c2 else c2);
                       c4 = reset_reconcile c3
                   in if had_active_call then (0, notify cb ''release'' (c4, es))
                      else (0, notify cb (if vc_state c4 = VOIP_ACTIVE
                              then ''reconcile_inconclusive'' else ''reconcile_idle'') (c4, es)))"

text \<open>The state a \<open>+CLCC\<close> status selects.\<close>

definition clcc_apply_status :: "clocks \<Rightarrow> int \<Rightarrow> qmodem_voip_call \<Rightarrow> qmodem_voip_call" where
  "clcc_apply_status k status c =
     (if status = 0 then mark_call_active k c
      else if status = 1 \<or> status = 2 then c\<lparr>vc_state := VOIP_OUTGOING_SETUP\<rparr>
      else if status = 3 then c\<lparr>vc_state := VOIP_EARLY_MEDIA\<rparr>
      else if status = 4 \<or> status = 5 then
        (if vc_answer_owner c = ENDPOINT_NONE \<or> vc_state c \<noteq> VOIP_ACTIVE
         then c\<lparr>vc_state := VOIP_INCOMING_RINGING\<rparr> else c)
      else c)"

text \<open>A voice record that shows an incoming call begins it, and a ringing one carries the
  caller's number.\<close>

definition clcc_incoming :: "clocks \<Rightarrow> string \<Rightarrow> int \<Rightarrow> int \<Rightarrow> bool \<Rightarrow> qmodem_voip_call \<Rightarrow> qmodem_voip_call" where
  "clcc_incoming k raw direction status empty_number c =
     (let c1 = (if vc_started_at c = 0 \<and> direction = 1 \<and> (status = 0 \<or> status = 4 \<or> status = 5)
                then begin_call k (c\<lparr>vc_origin := ENDPOINT_CELLULAR, vc_endpoint := ENDPOINT_CELLULAR\<rparr>)
                else c)
      in if (status = 4 \<or> status = 5) \<and> \<not> empty_number then snd (clip_number c1 raw) else c1)"

text \<open>A changed state is announced, and a call that starts to ring as a ring.\<close>

definition announce_state :: "callbacks \<Rightarrow> qmodem_voip_state \<Rightarrow> qmodem_voip_call \<times> effect list
   \<Rightarrow> qmodem_voip_call \<times> effect list" where
  "announce_state cb previous_state ce =
     (let ce1 = (if vc_state (fst ce) \<noteq> previous_state then notify cb ''call_state'' ce else ce)
      in if previous_state = VOIP_IDLE \<and> vc_state (fst ce1) = VOIP_INCOMING_RINGING
         then notify cb ''ring'' ce1 else ce1)"

text \<open>A voice record of the call list, once it may update the call.\<close>

definition line_clcc_voice :: "callbacks \<Rightarrow> clocks \<Rightarrow> qmodem_voip_state \<Rightarrow> string \<Rightarrow> int \<Rightarrow> int \<Rightarrow> bool
   \<Rightarrow> qmodem_voip_call \<times> effect list \<Rightarrow> int \<times> qmodem_voip_call \<times> effect list" where
  "line_clcc_voice cb k previous_state raw direction status empty_number ce =
     (let c1 = clcc_incoming k raw direction status empty_number (fst ce)
      in if vc_state c1 = VOIP_TERMINATING
         then (0, notify cb ''release_pending'' (issue cb ''AT+CHUP''
                (c1\<lparr>vc_reconcile_pending := False, vc_reconcile_command_id := 0,
                    vc_reconcile_voice_misses := 0\<rparr>, snd ce)))
         else (0, announce_state cb previous_state (clcc_apply_status k status
                (c1\<lparr>vc_reconcile_pending := False, vc_reconcile_voice_misses := 0,
                    vc_idle_poll := False\<rparr>), snd ce)))"

definition line_clcc :: "callbacks \<Rightarrow> clocks \<Rightarrow> string \<Rightarrow> qmodem_voip_correlation \<Rightarrow> u64
   \<Rightarrow> qmodem_voip_call \<times> effect list \<Rightarrow> int \<times> qmodem_voip_call \<times> effect list" where
  "line_clcc cb k raw correlation command_id ce =
     (let (c, es) = ce; previous_state = vc_state c in
      case clcc_status raw of None \<Rightarrow> (0, c, es)
      | Some (direction, status, mode, empty_number) \<Rightarrow>
          if mode = 1 then
            (if vc_reconcile_pending c \<and> command_id \<noteq> 0 \<and> correlation = CORR_RESPONSE
             then (0, (let c1 = c\<lparr>vc_reconcile_saw_data := True\<rparr>
                       in if vc_reconcile_command_id c1 = 0
                          then c1\<lparr>vc_reconcile_command_id := command_id\<rparr> else c1), es)
             else (0, c, es))
          else
            let correlated = (vc_reconcile_pending c \<and> command_id \<noteq> 0 \<and>
                  (correlation = CORR_RESPONSE \<or> correlation = CORR_TERMINAL));
                c1 = (if correlated \<and> vc_reconcile_command_id c = 0
                      then c\<lparr>vc_reconcile_command_id := command_id\<rparr> else c)
            in if correlated \<and> command_id = vc_reconcile_command_id c1 \<and> empty_number
               then (0, notify cb ''phantom_clcc_quarantined'' (c1, es))
               else if vc_reconcile_pending c1 \<and> \<not> correlated then (0, c1, es)
               else line_clcc_voice cb k previous_state raw direction status empty_number (c1, es))"

definition line_ring :: "callbacks \<Rightarrow> clocks \<Rightarrow> qmodem_voip_call \<times> effect list
   \<Rightarrow> int \<times> qmodem_voip_call \<times> effect list" where
  "line_ring cb k ce =
     (let (c, es) = ce;
          c1 = (if vc_state c = VOIP_IDLE
                then begin_call k (c\<lparr>vc_origin := ENDPOINT_CELLULAR, vc_endpoint := ENDPOINT_CELLULAR,
                       vc_state := VOIP_INCOMING_RINGING, vc_answer_owner := ENDPOINT_NONE,
                       vc_active_since_msec := 0, vc_was_active := False\<rparr>)
                else c)
      in (0, notify cb ''ring'' (c1, es)))"

definition line_release :: "callbacks \<Rightarrow> clocks \<Rightarrow> qmodem_voip_call \<times> effect list
   \<Rightarrow> int \<times> qmodem_voip_call \<times> effect list" where
  "line_release cb k ce = (let (c, es) = ce in (0, notify cb ''release'' (clear_call k c, es)))"

text \<open>Whether a terminal line answers the outstanding reconciliation poll.\<close>

definition answers_poll :: "qmodem_voip_call \<Rightarrow> qmodem_voip_correlation \<Rightarrow> u64 \<Rightarrow> bool" where
  "answers_poll c correlation command_id \<longleftrightarrow>
     vc_reconcile_pending c \<and> correlation = CORR_TERMINAL \<and> command_id \<noteq> 0 \<and>
     (vc_reconcile_command_id c = 0 \<or> command_id = vc_reconcile_command_id c)"

definition line_dispatch :: "callbacks \<Rightarrow> clocks \<Rightarrow> string \<Rightarrow> qmodem_voip_correlation \<Rightarrow> u64
   \<Rightarrow> qmodem_voip_call \<times> effect list \<Rightarrow> int \<times> qmodem_voip_call \<times> effect list" where
  "line_dispatch cb k raw correlation command_id ce =
     (let (c, es) = ce in
      if has_prefix raw ''+CLIP:''
      then (0, notify cb ''caller_id'' (snd (clip_number c raw), es))
      else if (has_prefix raw ''ERROR'' \<or> has_prefix raw ''+CME ERROR'') \<and>
              answers_poll c correlation command_id
      then (0, reset_reconcile (c\<lparr>vc_idle_poll := False\<rparr>), es)
      else if raw = ''OK'' \<and> answers_poll c correlation command_id then line_poll_ok cb k ce
      else if has_prefix raw ''+CLCC:'' then line_clcc cb k raw correlation command_id ce
      else if has_prefix raw ''RING'' then line_ring cb k ce
      else if raw = ''NO CARRIER'' \<or> raw = ''BUSY'' \<or> raw = ''NO DIALTONE'' \<or> has_prefix raw ''+CEND:''
      then line_release cb k ce
      else (0, c, es))"

text \<open>A line older than, or equal to, the last one accepted.\<close>

definition line_stale :: "qmodem_voip_call \<Rightarrow> u64 \<Rightarrow> u64 \<Rightarrow> bool" where
  "line_stale c epoch sequence \<longleftrightarrow>
     (vc_restart_epoch c \<noteq> 0 \<and> epoch < vc_restart_epoch c) \<or>
     (vc_restart_epoch c \<noteq> 0 \<and> epoch = vc_restart_epoch c \<and> sequence \<le> vc_sequence c)"

definition line_gap :: "qmodem_voip_call \<Rightarrow> u64 \<Rightarrow> u64 \<Rightarrow> bool" where
  "line_gap c epoch sequence \<longleftrightarrow>
     vc_restart_epoch c \<noteq> 0 \<and> (epoch \<noteq> vc_restart_epoch c \<or> sequence > vc_sequence c + 1)"

text \<open>Lost lines: the call is re-synchronised with the modem before the line is handled.\<close>

definition line_resync :: "callbacks \<Rightarrow> u64 \<Rightarrow> u64 \<Rightarrow> qmodem_voip_call \<Rightarrow> qmodem_voip_call \<times> effect list" where
  "line_resync cb epoch sequence c =
     (if line_gap c epoch sequence
      then notify cb ''event_gap'' (issue cb ''AT+CLCC''
             (c\<lparr>vc_state := VOIP_RECOVERING, vc_reconcile_pending := True,
                vc_reconcile_command_id := 0\<rparr>, []))
      else (c, []))"

definition qmodem_voip_line ::
  "callbacks \<Rightarrow> clocks \<Rightarrow> qmodem_voip_call \<Rightarrow> string option \<Rightarrow> u64 \<Rightarrow> u64 \<Rightarrow> string option
   \<Rightarrow> qmodem_voip_correlation \<Rightarrow> u64 \<Rightarrow> u64 \<Rightarrow> int \<times> qmodem_voip_call \<times> effect list" where
  "qmodem_voip_line cb k c port epoch sequence raw correlation command_id drop_count =
     (if \<not> vc_enabled c \<or> raw = None \<or> port = None then (-1, c, [])
      else if vc_at_port c = [] \<or> vc_at_port c \<noteq> the port then (1, c, [])
      else if line_stale c epoch sequence then (1, c, [])
      else let (c1, es) = line_resync cb epoch sequence c
           in line_dispatch cb k (the raw) correlation command_id
                (c1\<lparr>vc_restart_epoch := epoch, vc_sequence := sequence, vc_drop_count := drop_count\<rparr>, es))"

section \<open>The invariant of the call\<close>

text \<open>
  A call is disabled exactly when its state says so; an idle or disabled call has no owner, no
  origin and no clocks running; an answer owner is one of the audio sources; and the fixed
  buffers are never overrun.
\<close>

definition busy_state :: "qmodem_voip_state \<Rightarrow> bool" where
  "busy_state s \<longleftrightarrow> s \<noteq> VOIP_IDLE \<and> s \<noteq> VOIP_DISABLED"

definition call_quiet :: "qmodem_voip_call \<Rightarrow> bool" where
  "call_quiet c \<longleftrightarrow> vc_origin c = ENDPOINT_NONE \<and> vc_endpoint c = ENDPOINT_NONE \<and>
     vc_started_at c = 0 \<and> vc_active_since_msec c = 0 \<and> \<not> vc_was_active c \<and>
     vc_answer_owner c = ENDPOINT_NONE"

definition call_base :: "qmodem_voip_call \<Rightarrow> bool" where
  "call_base c \<longleftrightarrow>
     (vc_state c = VOIP_DISABLED \<longleftrightarrow> \<not> vc_enabled c) \<and>
     (vc_answer_owner c \<noteq> ENDPOINT_NONE \<longrightarrow> endpoint_is_source (vc_answer_owner c)) \<and>
     length (vc_number c) < NUMBER_SIZE \<and> length (vc_at_port c) < AT_PORT_SIZE \<and>
     length (cc_number (vc_completed c)) < NUMBER_SIZE"

definition call_ok :: "qmodem_voip_call \<Rightarrow> bool" where
  "call_ok c \<longleftrightarrow> call_base c \<and> (busy_state (vc_state c) \<or> call_quiet c)"

lemmas call_ok_defs [helper_defs] = call_ok_def call_base_def call_quiet_def

lemma busy_state_simps [simp]:
  "busy_state VOIP_OUTGOING_SETUP" "busy_state VOIP_INCOMING_RINGING" "busy_state VOIP_EARLY_MEDIA"
  "busy_state VOIP_ACTIVE" "busy_state VOIP_TERMINATING" "busy_state VOIP_RECOVERING"
  "busy_state VOIP_FAULT" "\<not> busy_state VOIP_IDLE" "\<not> busy_state VOIP_DISABLED"
  by (simp_all add: busy_state_def)

lemmas call_update_defs [helper_defs] =
  begin_call_def mark_call_active_def qmodem_voip_call_touch_def complete_call_def
  clear_call_def reset_reconcile_def qmodem_voip_call_ack_completed_def Let_def

lemma call_ok_init: "call_ok qmodem_voip_call_init"
  by (simp add: call_ok_defs qmodem_voip_call_init_def zero_completed_def)

lemma call_ok_touch [simp]: "call_ok (qmodem_voip_call_touch c) = call_ok c"
  by (simp add: call_ok_defs qmodem_voip_call_touch_def)

lemma call_ok_ack: "call_ok c \<Longrightarrow> call_ok (qmodem_voip_call_ack_completed c)"
  by (auto simp: call_ok_defs qmodem_voip_call_ack_completed_def zero_completed_def)

lemma call_ok_complete: "call_ok c \<Longrightarrow> call_ok (complete_call k c)"
  by (auto simp: call_ok_defs complete_call_def)

lemma call_ok_clear: "call_ok c \<Longrightarrow> call_ok (clear_call k c)"
  by (auto simp: call_ok_defs clear_call_def complete_call_def qmodem_voip_call_touch_def Let_def)

lemma call_ok_reset_reconcile: "call_ok (reset_reconcile c) = call_ok c"
  by (simp add: call_ok_defs reset_reconcile_def)

lemma call_ok_reconcile_update [simp]:
  "call_ok (c\<lparr>vc_reconcile_pending := p\<rparr>) = call_ok c"
  "call_ok (c\<lparr>vc_reconcile_command_id := i\<rparr>) = call_ok c"
  "call_ok (c\<lparr>vc_reconcile_saw_data := d\<rparr>) = call_ok c"
  "call_ok (c\<lparr>vc_reconcile_voice_misses := m\<rparr>) = call_ok c"
  "call_ok (c\<lparr>vc_idle_poll := q\<rparr>) = call_ok c"
  "call_ok (c\<lparr>vc_restart_epoch := e\<rparr>) = call_ok c"
  "call_ok (c\<lparr>vc_sequence := s\<rparr>) = call_ok c"
  "call_ok (c\<lparr>vc_drop_count := n\<rparr>) = call_ok c"
  "call_ok (c\<lparr>vc_caller_id_withheld := w\<rparr>) = call_ok c"
  by (simp_all add: call_ok_defs)

lemma call_ok_to_busy: "call_ok c \<Longrightarrow> vc_enabled c \<Longrightarrow> busy_state s \<Longrightarrow> call_ok (c\<lparr>vc_state := s\<rparr>)"
  by (auto simp: call_ok_defs)

lemma call_ok_enabled_iff: "call_ok c \<Longrightarrow> vc_enabled c = (vc_state c \<noteq> VOIP_DISABLED)"
  by (auto simp: call_ok_defs)

lemma clip_number_cases:
  "snd (clip_number c line) = c \<or>
   (\<exists>n w. snd (clip_number c line) = c\<lparr>vc_number := n, vc_caller_id_withheld := w\<rparr> \<and> length n < NUMBER_SIZE)"
proof (cases "strchr line (CHR 0x22)")
  case None
  then show ?thesis by (simp add: clip_number_def)
next
  case (Some first)
  note first = Some
  show ?thesis
  proof (cases "strchr (tl first) (CHR 0x22)")
    case None
    with first show ?thesis by (simp add: clip_number_def)
  next
    case (Some last_quote)
    let ?len = "length (tl first) - length last_quote"
    show ?thesis
    proof (cases "?len = 0")
      case True
      with first Some have "snd (clip_number c line) = c\<lparr>vc_number := [], vc_caller_id_withheld := True\<rparr>"
        by (simp add: clip_number_def)
      then show ?thesis by (intro disjI2 exI) auto
    next
      case False
      then show ?thesis
      proof (cases "?len < NUMBER_SIZE")
        case True
        with False first Some have "snd (clip_number c line) =
            c\<lparr>vc_number := take ?len (tl first), vc_caller_id_withheld := False\<rparr>"
          by (simp add: clip_number_def Let_def)
        moreover have "length (take ?len (tl first)) < NUMBER_SIZE" using True by simp
        ultimately show ?thesis by blast
      next
        case ge: False
        with False first Some show ?thesis by (simp add: clip_number_def Let_def)
      qed
    qed
  qed
qed

lemma call_ok_clip: "call_ok c \<Longrightarrow> call_ok (snd (clip_number c line))"
  using clip_number_cases [of c line] by (auto simp: call_ok_defs)

lemma clip_number_fields [simp]:
  "vc_state (snd (clip_number c line)) = vc_state c"
  "vc_enabled (snd (clip_number c line)) = vc_enabled c"
  "vc_at_port (snd (clip_number c line)) = vc_at_port c"
  "vc_restart_epoch (snd (clip_number c line)) = vc_restart_epoch c"
  "vc_sequence (snd (clip_number c line)) = vc_sequence c"
  using clip_number_cases [of c line] by auto

lemma call_ok_active:
  "call_ok c \<Longrightarrow> vc_enabled c \<Longrightarrow> call_ok (mark_call_active k c)"
  by (auto simp: call_ok_defs mark_call_active_def begin_call_def Let_def)

lemma call_ok_begin: "call_ok c \<Longrightarrow> busy_state (vc_state c) \<Longrightarrow> call_ok (begin_call k c)"
  by (auto simp: call_ok_defs begin_call_def)

section \<open>What the callbacks may write\<close>

text \<open>
  The contract between the call machine and its callbacks: the command callback may move the
  call to another AT port, which resets the position in the event stream, and the event callback
  may acknowledge the completed call. They write nothing else.
\<close>

locale call_callbacks =
  fixes cb :: callbacks
  assumes command_frame: "cb_command cb = Some f \<Longrightarrow>
      \<exists>p e s d r. f v c = c\<lparr>vc_at_port := p, vc_restart_epoch := e, vc_sequence := s,
         vc_drop_count := d, vc_reconcile_command_id := r\<rparr> \<and>
         (p = vc_at_port c \<or> length p < AT_PORT_SIZE)"
    and event_frame: "cb_event cb = Some g \<Longrightarrow>
      g v c = c \<or> g v c = qmodem_voip_call_ack_completed c"
begin

lemma issue_frame:
  "\<exists>p e s d r es'. issue cb v (c, es) = (c\<lparr>vc_at_port := p, vc_restart_epoch := e, vc_sequence := s,
       vc_drop_count := d, vc_reconcile_command_id := r\<rparr>, es') \<and>
       (p = vc_at_port c \<or> length p < AT_PORT_SIZE)"
proof (cases "cb_command cb")
  case None
  then show ?thesis
    by (intro exI [of _ "vc_at_port c"] exI [of _ "vc_restart_epoch c"] exI [of _ "vc_sequence c"]
        exI [of _ "vc_drop_count c"] exI [of _ "vc_reconcile_command_id c"] exI [of _ es]) simp
next
  case (Some f)
  then show ?thesis using command_frame [of f v c] by auto
qed

lemma notify_cases:
  "fst (notify cb v (c, es)) = qmodem_voip_call_touch c \<or>
   fst (notify cb v (c, es)) = qmodem_voip_call_ack_completed (qmodem_voip_call_touch c)"
  using event_frame by (auto simp: Let_def split: option.splits)

lemma issue_fields [simp]:
  "vc_state (fst (issue cb v ce)) = vc_state (fst ce)"
  "vc_enabled (fst (issue cb v ce)) = vc_enabled (fst ce)"
  "vc_answer_owner (fst (issue cb v ce)) = vc_answer_owner (fst ce)"
  "vc_revision (fst (issue cb v ce)) = vc_revision (fst ce)"
  "vc_completed (fst (issue cb v ce)) = vc_completed (fst ce)"
  "vc_origin (fst (issue cb v ce)) = vc_origin (fst ce)"
  using issue_frame [of v "fst ce" "snd ce"] by auto

lemma notify_fields [simp]:
  "vc_state (fst (notify cb v ce)) = vc_state (fst ce)"
  "vc_enabled (fst (notify cb v ce)) = vc_enabled (fst ce)"
  "vc_answer_owner (fst (notify cb v ce)) = vc_answer_owner (fst ce)"
  "vc_revision (fst (notify cb v ce)) = vc_revision (fst ce) + 1"
  "vc_at_port (fst (notify cb v ce)) = vc_at_port (fst ce)"
  "vc_restart_epoch (fst (notify cb v ce)) = vc_restart_epoch (fst ce)"
  "vc_sequence (fst (notify cb v ce)) = vc_sequence (fst ce)"
  using notify_cases [of v "fst ce" "snd ce"]
  by (auto simp: qmodem_voip_call_touch_def qmodem_voip_call_ack_completed_def)

lemma call_ok_issue: "call_ok (fst ce) \<Longrightarrow> call_ok (fst (issue cb v ce))"
  using issue_frame [of v "fst ce" "snd ce"] by (auto simp: call_ok_defs)

lemma call_ok_notify: "call_ok (fst ce) \<Longrightarrow> call_ok (fst (notify cb v ce))"
  using notify_cases [of v "fst ce" "snd ce"] by (auto simp: call_ok_ack)

end

section \<open>Every operation keeps the invariant\<close>

lemma call_ok_select_port: "call_ok c \<Longrightarrow> call_ok (snd (qmodem_voip_call_select_at_port c port))"
  by (auto simp: call_ok_defs qmodem_voip_call_select_at_port_def split: option.splits)

lemma call_ok_set_enabled: "call_ok c \<Longrightarrow> call_ok (qmodem_voip_call_set_enabled k c b)"
  by (auto simp: call_ok_defs qmodem_voip_call_set_enabled_def complete_call_def
      qmodem_voip_call_touch_def Let_def)

lemma call_ok_clcc_status:
  "call_ok c \<Longrightarrow> vc_enabled c \<Longrightarrow> call_ok (clcc_apply_status k status c)"
  by (simp add: clcc_apply_status_def call_ok_active call_ok_to_busy)

lemma call_base_reconcile_update [simp]:
  "call_base (c\<lparr>vc_reconcile_pending := p\<rparr>) = call_base c"
  "call_base (c\<lparr>vc_reconcile_command_id := i\<rparr>) = call_base c"
  "call_base (c\<lparr>vc_reconcile_voice_misses := m\<rparr>) = call_base c"
  "call_base (c\<lparr>vc_idle_poll := q\<rparr>) = call_base c"
  by (simp_all add: call_base_def)

lemma call_base_clip: "call_base c \<Longrightarrow> call_base (snd (clip_number c line))"
  using clip_number_cases [of c line] by (auto simp: call_base_def)

lemma call_base_origin:
  "call_base c \<Longrightarrow> call_base (begin_call k (c\<lparr>vc_origin := a, vc_endpoint := b\<rparr>))"
  by (simp add: call_base_def begin_call_def)

lemma begin_call_fields [simp]:
  "vc_state (begin_call k c) = vc_state c" "vc_enabled (begin_call k c) = vc_enabled c"
  by (simp_all add: begin_call_def)

lemma clcc_incoming_fields:
  "vc_state (clcc_incoming k raw dir st mt c) = vc_state c"
  "vc_enabled (clcc_incoming k raw dir st mt c) = vc_enabled c"
  "vc_at_port (clcc_incoming k raw dir st mt c) = vc_at_port c"
  "vc_restart_epoch (clcc_incoming k raw dir st mt c) = vc_restart_epoch c"
  "vc_sequence (clcc_incoming k raw dir st mt c) = vc_sequence c"
  by (simp_all add: clcc_incoming_def begin_call_def Let_def clip_number_fields)

lemma call_base_incoming: "call_base c \<Longrightarrow> call_base (clcc_incoming k raw dir st mt c)"
  by (simp add: clcc_incoming_def Let_def call_base_clip call_base_origin)

text \<open>An incoming call that begins with a status report leaves the idle state.\<close>

lemma call_ok_clcc_begin:
  assumes "call_base c" "vc_enabled c" "status = 0 \<or> status = 4 \<or> status = 5"
  shows "call_ok (clcc_apply_status k status c)"
  using assms by (auto simp: clcc_apply_status_def call_ok_def call_base_def mark_call_active_def
      begin_call_def Let_def busy_state_def)

context call_callbacks
begin

lemma originate_ok: "call_ok c \<Longrightarrow> call_ok (fst (snd (qmodem_voip_originate cb k c origin number)))"
proof -
  assume ok: "call_ok c"
  have "call_ok (c\<lparr>vc_origin := origin, vc_endpoint := ENDPOINT_CELLULAR,
          vc_number := c_copy NUMBER_SIZE n, vc_caller_id_withheld := False,
          vc_active_since_msec := 0, vc_started_at := clk_time k, vc_was_active := False,
          vc_answer_owner := ENDPOINT_NONE, vc_reconcile_voice_misses := 0,
          vc_state := VOIP_OUTGOING_SETUP\<rparr>)" if "vc_enabled c" for n
    using ok that length_c_copy [of NUMBER_SIZE n] by (simp add: call_ok_defs)
  with ok show ?thesis
    by (simp add: qmodem_voip_originate_def Let_def call_ok_issue del: issue.simps)
qed

lemma answer_ok: "call_ok c \<Longrightarrow> call_ok (fst (snd (qmodem_voip_answer cb k c ep)))"
proof -
  assume ok: "call_ok c"
  have "call_ok (c\<lparr>vc_answer_owner := ep\<rparr>)"
    if "endpoint_is_source ep" "vc_state c = VOIP_INCOMING_RINGING \<or> vc_state c = VOIP_EARLY_MEDIA"
    using ok that by (auto simp: call_ok_defs)
  with ok show ?thesis
    by (auto simp: qmodem_voip_answer_def Let_def call_ok_active intro!: call_ok_issue simp del: issue.simps)
qed

lemma terminate_ok: "call_ok c \<Longrightarrow> call_ok (fst (snd (terminate cb c ep)))"
  by (auto simp: terminate_def intro!: call_ok_issue call_ok_to_busy simp del: issue.simps)

lemma reject_ok: "call_ok c \<Longrightarrow> call_ok (fst (snd (qmodem_voip_reject cb c ep)))"
  by (simp add: qmodem_voip_reject_def terminate_ok)

lemma dtmf_ok: "call_ok c \<Longrightarrow> call_ok (fst (snd (qmodem_voip_send_dtmf cb c ep d)))"
  by (auto simp: qmodem_voip_send_dtmf_def intro!: call_ok_issue simp del: issue.simps)

lemma recovery_ok: "call_ok c \<Longrightarrow> call_ok (fst (snd (qmodem_voip_start_recovery cb c)))"
  by (auto simp: qmodem_voip_start_recovery_def intro!: call_ok_issue call_ok_to_busy simp del: issue.simps)

lemma poll_active_ok: "call_ok c \<Longrightarrow> call_ok (fst (snd (qmodem_voip_poll_active cb c)))"
  by (auto simp: qmodem_voip_poll_active_def intro!: call_ok_issue simp del: issue.simps)

lemma poll_idle_ok: "call_ok c \<Longrightarrow> call_ok (fst (snd (qmodem_voip_poll_idle cb c)))"
  by (auto simp: qmodem_voip_poll_idle_def intro!: call_ok_issue simp del: issue.simps)

lemma line_poll_ok_ok: "call_ok (fst ce) \<Longrightarrow> call_ok (fst (snd (line_poll_ok cb k ce)))"
  by (auto simp: line_poll_ok_def Let_def split_beta call_ok_reset_reconcile
      intro!: call_ok_notify call_ok_clear simp del: notify.simps)

lemma announce_fields [simp]:
  "vc_state (fst (announce_state cb prev ce)) = vc_state (fst ce)"
  "vc_enabled (fst (announce_state cb prev ce)) = vc_enabled (fst ce)"
  "vc_at_port (fst (announce_state cb prev ce)) = vc_at_port (fst ce)"
  "vc_restart_epoch (fst (announce_state cb prev ce)) = vc_restart_epoch (fst ce)"
  "vc_sequence (fst (announce_state cb prev ce)) = vc_sequence (fst ce)"
  by (simp_all add: announce_state_def Let_def del: notify.simps)

lemma call_ok_announce: "call_ok (fst ce) \<Longrightarrow> call_ok (fst (announce_state cb prev ce))"
  by (simp add: announce_state_def Let_def call_ok_notify del: notify.simps)

lemma line_clcc_voice_ok:
  assumes ok: "call_ok (fst ce)" and en: "vc_enabled (fst ce)"
  shows "call_ok (fst (snd (line_clcc_voice cb k prev raw dir st mt ce)))"
proof -
  define c1 where "c1 = clcc_incoming k raw dir st mt (fst ce)"
  have base: "call_base c1" and en1: "vc_enabled c1"
    using ok en by (auto simp: c1_def call_ok_def call_base_incoming clcc_incoming_fields)
  have "call_ok (clcc_apply_status k st (c1\<lparr>vc_reconcile_pending := False,
      vc_reconcile_voice_misses := 0, vc_idle_poll := False\<rparr>))"
  proof (cases "st = 0 \<or> st = 4 \<or> st = 5")
    case True
    then show ?thesis using base en1 by (intro call_ok_clcc_begin) simp_all
  next
    case False
    then have "c1 = fst ce" by (auto simp: c1_def clcc_incoming_def)
    then show ?thesis using ok en by (intro call_ok_clcc_status) simp_all
  qed
  moreover have "call_ok (c1\<lparr>vc_reconcile_pending := False, vc_reconcile_command_id := 0,
      vc_reconcile_voice_misses := 0\<rparr>)" if "vc_state c1 = VOIP_TERMINATING"
    using base that by (simp add: call_ok_def)
  ultimately show ?thesis
    by (simp add: line_clcc_voice_def Let_def c1_def [symmetric] call_ok_notify call_ok_issue
        call_ok_announce del: notify.simps issue.simps)
qed

lemma line_clcc_ok:
  assumes ok: "call_ok (fst ce)" and en: "vc_enabled (fst ce)"
  shows "call_ok (fst (snd (line_clcc cb k raw cor cmd ce)))"
proof (cases "clcc_status raw")
  case None
  with ok show ?thesis by (simp add: line_clcc_def split_beta)
next
  case (Some r)
  obtain dir st md mt where r: "r = (dir, st, md, mt)" by (cases r)
  have upd: "call_ok ((fst ce)\<lparr>vc_reconcile_command_id := cmd\<rparr>)" "call_ok ((fst ce)\<lparr>vc_reconcile_saw_data := True\<rparr>)"
    "call_ok ((fst ce)\<lparr>vc_reconcile_saw_data := True, vc_reconcile_command_id := cmd\<rparr>)"
    using ok by simp_all
  show ?thesis
    unfolding line_clcc_def Let_def split_beta Some r option.case fst_conv snd_conv
    using ok en upd
    by (simp add: call_ok_notify line_clcc_voice_ok del: notify.simps)
qed

lemma line_ring_ok:
  assumes "call_ok (fst ce)" "vc_enabled (fst ce)"
  shows "call_ok (fst (snd (line_ring cb k ce)))"
proof -
  have "call_ok (begin_call k ((fst ce)\<lparr>vc_origin := ENDPOINT_CELLULAR, vc_endpoint := ENDPOINT_CELLULAR,
      vc_state := VOIP_INCOMING_RINGING, vc_answer_owner := ENDPOINT_NONE,
      vc_active_since_msec := 0, vc_was_active := False\<rparr>))"
    using assms by (auto simp: call_ok_defs begin_call_def)
  with assms show ?thesis
    by (simp add: line_ring_def Let_def split_beta call_ok_notify del: notify.simps)
qed

lemma line_release_ok: "call_ok (fst ce) \<Longrightarrow> call_ok (fst (snd (line_release cb k ce)))"
  by (simp add: line_release_def split_beta call_ok_notify call_ok_clear del: notify.simps)

lemma line_dispatch_ok:
  assumes "call_ok (fst ce)" "vc_enabled (fst ce)"
  shows "call_ok (fst (snd (line_dispatch cb k raw cor cmd ce)))"
  unfolding line_dispatch_def Let_def split_beta
  using assms
  by (simp add: call_ok_reset_reconcile call_ok_clip call_ok_notify line_poll_ok_ok line_clcc_ok
      line_ring_ok line_release_ok del: notify.simps)

lemma line_resync_ok:
  assumes "call_ok c" "vc_enabled c"
  shows "call_ok (fst (line_resync cb epoch sequence c))" "vc_enabled (fst (line_resync cb epoch sequence c))"
proof -
  have ok: "call_ok (c\<lparr>vc_state := VOIP_RECOVERING, vc_reconcile_pending := True, vc_reconcile_command_id := 0\<rparr>)"
    using assms by (simp add: call_ok_to_busy)
  show "call_ok (fst (line_resync cb epoch sequence c))"
    using assms ok by (simp add: line_resync_def call_ok_notify call_ok_issue del: notify.simps issue.simps)
  show "vc_enabled (fst (line_resync cb epoch sequence c))"
    using assms by (simp add: line_resync_def notify_fields issue_fields del: notify.simps issue.simps)
qed

lemma line_ok: "call_ok c \<Longrightarrow>
    call_ok (fst (snd (qmodem_voip_line cb k c port epoch sequence raw cor cmd drops)))"
  unfolding qmodem_voip_line_def Let_def split_beta
  using line_resync_ok [of c epoch sequence]
  by (simp add: line_dispatch_ok)

end

section \<open>The position in the event stream\<close>

text \<open>Whether the call listens to its AT port, and where it stands in the stream of that port.\<close>

definition position :: "qmodem_voip_call \<Rightarrow> bool \<times> string \<times> u64 \<times> u64" where
  "position c = (vc_enabled c, vc_at_port c, vc_restart_epoch c, vc_sequence c)"

lemma position_complete [simp]: "position (complete_call k c) = position c"
  by (simp add: complete_call_def position_def)

lemma position_helpers [simp]:
  "position (qmodem_voip_call_touch c) = position c"
  "position (reset_reconcile c) = position c"
  "position (begin_call k c) = position c"
  "position (mark_call_active k c) = position c"
  "position (snd (clip_number c raw)) = position c"
  "position (clcc_apply_status k st c) = position c"
  using clip_number_cases [of c raw]
  by (auto simp: position_def qmodem_voip_call_touch_def reset_reconcile_def
      begin_call_def mark_call_active_def clcc_apply_status_def Let_def)

lemma position_clear [simp]: "position (clear_call k c) = position c"
  using position_complete [of k c]
  by (simp add: clear_call_def Let_def position_def qmodem_voip_call_touch_def)

lemma position_incoming [simp]: "position (clcc_incoming k raw dir st mt c) = position c"
  by (simp add: position_def clcc_incoming_fields)

lemma position_updates [simp]:
  "position (c\<lparr>vc_state := a1\<rparr>) = position c"
  "position (c\<lparr>vc_reconcile_pending := a2\<rparr>) = position c"
  "position (c\<lparr>vc_reconcile_command_id := a3\<rparr>) = position c"
  "position (c\<lparr>vc_reconcile_saw_data := a4\<rparr>) = position c"
  "position (c\<lparr>vc_reconcile_voice_misses := a5\<rparr>) = position c"
  "position (c\<lparr>vc_idle_poll := a6\<rparr>) = position c"
  "position (c\<lparr>vc_origin := a7\<rparr>) = position c"
  "position (c\<lparr>vc_endpoint := a8\<rparr>) = position c"
  "position (c\<lparr>vc_answer_owner := a9\<rparr>) = position c"
  "position (c\<lparr>vc_active_since_msec := a10\<rparr>) = position c"
  "position (c\<lparr>vc_was_active := a11\<rparr>) = position c"
  by (simp_all add: position_def)

context call_callbacks begin

lemma position_notify [simp]: "position (fst (notify cb v ce)) = position (fst ce)"
  by (simp add: position_def)

lemma position_announce [simp]: "position (fst (announce_state cb prev ce)) = position (fst ce)"
  by (simp add: position_def)

lemma position_poll_ok: "position (fst (snd (line_poll_ok cb k ce))) = position (fst ce)"
  unfolding line_poll_ok_def Let_def split_beta
  by (simp del: notify.simps)

lemma position_clcc_voice:
  assumes "vc_state (fst ce) \<noteq> VOIP_TERMINATING"
  shows "position (fst (snd (line_clcc_voice cb k prev raw dir st mt ce))) = position (fst ce)"
  using assms
  by (simp add: line_clcc_voice_def Let_def clcc_incoming_fields del: notify.simps issue.simps)

lemma position_clcc:
  assumes "vc_state (fst ce) \<noteq> VOIP_TERMINATING"
  shows "position (fst (snd (line_clcc cb k raw cor cmd ce))) = position (fst ce)"
proof (cases "clcc_status raw")
  case None
  then show ?thesis by (simp add: line_clcc_def split_beta)
next
  case (Some r)
  obtain dir st md mt where r: "r = (dir, st, md, mt)" by (cases r)
  show ?thesis
    unfolding line_clcc_def Let_def split_beta Some r option.case fst_conv snd_conv
    using assms by (simp add: position_clcc_voice del: notify.simps)
qed

lemma position_ring: "position (fst (snd (line_ring cb k ce))) = position (fst ce)"
  by (simp add: line_ring_def Let_def split_beta del: notify.simps)

lemma position_release: "position (fst (snd (line_release cb k ce))) = position (fst ce)"
  by (simp add: line_release_def Let_def split_beta del: notify.simps)

lemma position_dispatch:
  assumes "vc_state (fst ce) \<noteq> VOIP_TERMINATING"
  shows "position (fst (snd (line_dispatch cb k raw cor cmd ce))) = position (fst ce)"
  using assms unfolding line_dispatch_def Let_def split_beta
  by (simp add: position_poll_ok position_clcc position_ring position_release del: notify.simps)


end

definition moved_only :: "qmodem_voip_call \<Rightarrow> qmodem_voip_call \<Rightarrow> bool" where
  "moved_only c c' \<longleftrightarrow> vc_enabled c' = vc_enabled c \<and>
     (vc_at_port c' = vc_at_port c \<longrightarrow> position c' = position c)"

text \<open>A command callback that writes to the call only when it moves the call to another port.\<close>

locale port_callbacks = call_callbacks +
  assumes command_port: "cb_command cb = Some f \<Longrightarrow> vc_at_port (f v c) = vc_at_port c \<Longrightarrow> f v c = c"
begin

lemma position_issue:
  assumes "vc_at_port (fst (issue cb v ce)) = vc_at_port (fst ce)"
  shows "position (fst (issue cb v ce)) = position (fst ce)"
proof (cases "cb_command cb")
  case None
  then show ?thesis by (cases ce) simp
next
  case (Some f)
  with assms command_port [of f v "fst ce"] show ?thesis by (cases ce) simp
qed

lemma moved_only_refl: "position c' = position c \<Longrightarrow> moved_only c c'"
  by (simp add: moved_only_def position_def)

lemma moved_only_issue:
  assumes "position (fst ce) = position c"
  shows "moved_only c (fst (issue cb v ce))"
  using assms position_issue [of v ce] issue_fields(2) [of v ce]
  by (auto simp: moved_only_def position_def simp del: issue.simps)

lemma moved_only_clcc: "moved_only (fst ce) (fst (snd (line_clcc cb k raw cor cmd ce)))"
proof (cases "vc_state (fst ce) = VOIP_TERMINATING")
  case False
  then show ?thesis by (intro moved_only_refl position_clcc)
next
  case True
  have voice: "moved_only (fst ce) (fst (snd (line_clcc_voice cb k p raw d st mt x)))"
    if "position (fst x) = position (fst ce)" "vc_state (fst x) = VOIP_TERMINATING" for p d st mt x
    using that moved_only_issue [of "(clcc_incoming k raw d st mt (fst x)
        \<lparr>vc_reconcile_pending := False, vc_reconcile_command_id := 0, vc_reconcile_voice_misses := 0\<rparr>, snd x)" "fst ce"]
    by (simp add: line_clcc_voice_def Let_def clcc_incoming_fields moved_only_def
        del: notify.simps issue.simps)
  show ?thesis
  proof (cases "clcc_status raw")
    case None
    then show ?thesis by (simp add: line_clcc_def split_beta moved_only_refl)
  next
    case (Some r)
    obtain dir st md mt where r: "r = (dir, st, md, mt)" by (cases r)
    show ?thesis
      unfolding line_clcc_def Let_def split_beta Some r option.case fst_conv snd_conv
      using True by (simp add: voice moved_only_refl del: notify.simps)
  qed
qed

lemma moved_only_dispatch: "moved_only (fst ce) (fst (snd (line_dispatch cb k raw cor cmd ce)))"
  unfolding line_dispatch_def Let_def split_beta
  by (simp add: moved_only_clcc moved_only_refl position_poll_ok position_ring position_release del: notify.simps)

text \<open>After an accepted line the call either left the port or stands exactly at that line.\<close>

lemma line_position:
  assumes line: "qmodem_voip_line cb k c (Some p) e s raw cor cmd dr = (0, c', es)"
  shows "vc_enabled c'" "vc_at_port c' = p \<Longrightarrow> vc_restart_epoch c' = e \<and> vc_sequence c' = s"
proof -
  define r where "r = line_resync cb e s c"
  define c1 where "c1 = (fst r)\<lparr>vc_restart_epoch := e, vc_sequence := s, vc_drop_count := dr\<rparr>"
  from line have en: "vc_enabled c" and port: "vc_at_port c = p"
    and c': "c' = fst (snd (line_dispatch cb k (the raw) cor cmd (c1, snd r)))"
    by (auto simp: qmodem_voip_line_def Let_def split_beta c1_def r_def split: if_splits)
  have moved: "moved_only c1 c'"
    using moved_only_dispatch [of "(c1, snd r)" k "the raw" cor cmd] by (simp add: c')
  have en1: "vc_enabled c1" using en
    by (simp add: c1_def r_def line_resync_def del: notify.simps issue.simps)
  show "vc_enabled c'" using moved en1 by (simp add: moved_only_def)
  show "vc_restart_epoch c' = e \<and> vc_sequence c' = s" if "vc_at_port c' = p"
  proof (cases "line_gap c e s")
    case True
    then have "vc_state c1 \<noteq> VOIP_TERMINATING"
      by (simp add: c1_def r_def line_resync_def del: notify.simps issue.simps)
    then have "position c' = position c1"
      using position_dispatch [of "(c1, snd r)" k "the raw" cor cmd] by (simp add: c')
    then show ?thesis by (simp add: position_def c1_def)
  next
    case False
    then have "c1 = c\<lparr>vc_restart_epoch := e, vc_sequence := s, vc_drop_count := dr\<rparr>"
      by (simp add: c1_def r_def line_resync_def)
    with moved that port show ?thesis by (simp add: moved_only_def position_def)
  qed
qed

lemma replay_ignored:
  assumes line: "qmodem_voip_line cb k c (Some p) e s raw cor cmd dr = (0, c', es)"
    and e: "e \<noteq> 0" and old: "e2 < e \<or> (e2 = e \<and> s2 \<le> s)"
  shows "qmodem_voip_line cb2 k2 c' (Some p) e2 s2 (Some raw2) cor2 cmd2 dr2 = (1, c', [])"
  using line_position [OF line] e old
  by (auto simp: qmodem_voip_line_def line_stale_def)

end

section \<open>The completed-call record\<close>

lemma completed_helpers [simp]:
  "vc_completed (qmodem_voip_call_touch c) = vc_completed c"
  "vc_completed (reset_reconcile c) = vc_completed c"
  "vc_completed (begin_call k c) = vc_completed c"
  "vc_completed (mark_call_active k c) = vc_completed c"
  "vc_completed (snd (clip_number c raw)) = vc_completed c"
  "vc_completed (clcc_apply_status k st c) = vc_completed c"
  using clip_number_cases [of c raw]
  by (auto simp: qmodem_voip_call_touch_def reset_reconcile_def
      begin_call_def mark_call_active_def clcc_apply_status_def Let_def)

lemma completed_incoming [simp]: "vc_completed (clcc_incoming k raw dir st mt c) = vc_completed c"
  by (simp add: clcc_incoming_def Let_def)

lemma completed_pending_kept:
  assumes "cc_pending (vc_completed c)"
  shows "vc_completed (complete_call k c) = vc_completed c" "vc_completed (clear_call k c) = vc_completed c"
    "vc_completed (qmodem_voip_call_set_enabled k c b) = vc_completed c"
  using assms by (simp_all add: complete_call_def clear_call_def qmodem_voip_call_set_enabled_def Let_def)

text \<open>A record waits in the call, or was handed to a callback that stored it.\<close>

definition kept_or_stored :: "(qmodem_voip_completed \<Rightarrow> bool) \<Rightarrow> qmodem_voip_completed
   \<Rightarrow> qmodem_voip_call \<times> effect list \<Rightarrow> bool" where
  "kept_or_stored stored r ce \<longleftrightarrow> vc_completed (fst ce) = r \<or>
     (stored r \<and> (\<exists>name c. Event name c \<in> set (snd ce) \<and> vc_completed c = r))"

text \<open>The event callback acknowledges a completed call exactly when it stored the record.\<close>

locale history_callbacks = call_callbacks +
  fixes stored :: "qmodem_voip_completed \<Rightarrow> bool"
  assumes event_stores: "cb_event cb = Some g \<Longrightarrow>
      g v c = (if cc_pending (vc_completed c) \<and> stored (vc_completed c)
               then qmodem_voip_call_ack_completed c else c)"
begin

lemma kept_issue: "kept_or_stored stored r ce \<Longrightarrow> kept_or_stored stored r (issue cb v ce)"
  using issue_fields(5) [of v ce]
  by (cases ce) (auto simp: kept_or_stored_def split: option.splits)

lemma kept_notify: "kept_or_stored stored r ce \<Longrightarrow> kept_or_stored stored r (notify cb v ce)"
  using completed_helpers(1) [of "fst ce"]
  by (cases ce) (fastforce simp: kept_or_stored_def event_stores Let_def split: option.splits)

lemma kept_update:
  "kept_or_stored stored r (c, es) \<Longrightarrow> (vc_completed c = r \<Longrightarrow> vc_completed c' = r) \<Longrightarrow>
   kept_or_stored stored r (c', es)"
  by (auto simp: kept_or_stored_def)

lemma kept_announce: "kept_or_stored stored r ce \<Longrightarrow> kept_or_stored stored r (announce_state cb p ce)"
  by (simp add: announce_state_def Let_def kept_notify del: notify.simps)

lemma kept_clcc_voice:
  assumes "kept_or_stored stored r ce"
  shows "kept_or_stored stored r (snd (line_clcc_voice cb k prev raw dir st mt ce))"
  using assms unfolding line_clcc_voice_def Let_def
  by (cases ce) (auto intro!: kept_notify kept_issue kept_announce intro: kept_update simp del: notify.simps issue.simps)

lemma kept_clcc:
  assumes "kept_or_stored stored r ce"
  shows "kept_or_stored stored r (snd (line_clcc cb k raw cor cmd ce))"
proof (cases "clcc_status raw")
  case None
  then show ?thesis using assms by (simp add: line_clcc_def split_beta)
next
  case (Some q)
  obtain dir st md mt where q: "q = (dir, st, md, mt)" by (cases q)
  have upd: "kept_or_stored stored r ((fst ce)\<lparr>vc_reconcile_command_id := cmd\<rparr>, snd ce)"
    "kept_or_stored stored r ((fst ce)\<lparr>vc_reconcile_saw_data := True\<rparr>, snd ce)"
    "kept_or_stored stored r ((fst ce)\<lparr>vc_reconcile_saw_data := True, vc_reconcile_command_id := cmd\<rparr>, snd ce)"
    using assms by (auto simp: kept_or_stored_def)
  show ?thesis
    unfolding line_clcc_def Let_def split_beta Some q option.case fst_conv snd_conv
    using assms upd by (simp add: kept_clcc_voice kept_notify del: notify.simps)
qed

lemma kept_poll_ok:
  assumes "kept_or_stored stored r (c, es)" "cc_pending r"
  shows "kept_or_stored stored r (snd (line_poll_ok cb k (c, es)))"
proof -
  have upd: "kept_or_stored stored r (reset_reconcile c', es)"
    "kept_or_stored stored r (reset_reconcile (clear_call k c'), es)" if "vc_completed c' = vc_completed c" for c'
    using assms that completed_pending_kept(2) [of c' k]
    by (auto simp: kept_or_stored_def)
  show ?thesis
    unfolding line_poll_ok_def Let_def split_beta
    by (simp add: upd kept_notify del: notify.simps)
qed

lemma kept_dispatch:
  assumes "kept_or_stored stored r ce" "cc_pending r"
  shows "kept_or_stored stored r (snd (line_dispatch cb k raw cor cmd ce))"
proof -
  obtain c es where ce: "ce = (c, es)" by (cases ce)
  have upd: "kept_or_stored stored r (snd (clip_number c raw), es)"
    "kept_or_stored stored r (reset_reconcile (c\<lparr>vc_idle_poll := False\<rparr>), es)"
    "kept_or_stored stored r (clear_call k c, es)"
    "kept_or_stored stored r (snd (line_ring cb k (c, es)))"
    using assms completed_pending_kept(2) [of c k] unfolding ce line_ring_def
    by (auto simp: Let_def intro!: kept_notify intro: kept_update simp del: notify.simps)
  show ?thesis
    using assms upd unfolding ce line_dispatch_def Let_def split_beta line_release_def
    by (simp add: kept_poll_ok kept_clcc kept_notify del: notify.simps)
qed

lemma kept_line:
  assumes "cc_pending (vc_completed c)"
  shows "kept_or_stored stored (vc_completed c)
     (snd (qmodem_voip_line cb k c port e s raw cor cmd dr))"
proof -
  have init: "kept_or_stored stored (vc_completed c) (c, [])" by (simp add: kept_or_stored_def)
  have "kept_or_stored stored (vc_completed c) (line_resync cb e s c)"
    unfolding line_resync_def using init
    by (auto intro!: kept_notify kept_issue intro: kept_update simp del: notify.simps issue.simps)
  then have "kept_or_stored stored (vc_completed c)
      ((fst (line_resync cb e s c))\<lparr>vc_restart_epoch := e, vc_sequence := s, vc_drop_count := dr\<rparr>,
       snd (line_resync cb e s c))"
    by (auto simp: kept_or_stored_def)
  with init assms show ?thesis
    unfolding qmodem_voip_line_def Let_def split_beta by (simp add: kept_dispatch)
qed

end

end
