(* ===== verification/Media_Socket.thy ===== *)
theory Media_Socket
  imports Browser_Media Call_State
begin

text \<open>
  The local media socket of the voice daemon (\<open>application/voipd/src/media_socket.c\<close>) and the client
  of it that the SIP service carries (\<open>application/qmodem_sipd/src/media_socket_client.c\<close>).

  A datagram is the list of its bytes. Structures travel in the byte order of the machine, which is
  little-endian, with the layout of the 64-bit targets: 12 bytes of header, 80 bytes for an attach
  request (its 73 bytes padded to the alignment of the revision), 328 bytes for a PCM frame. The
  buffer a datagram is received into keeps its old contents behind the bytes received, so the old
  contents are a parameter. The system calls, the clock, the random source and the check of a login
  session are parameters. The engine, which the code shares by a pointer, is passed along.
\<close>

abbreviation SOCKET_MAGIC :: u32 where "SOCKET_MAGIC \<equiv> 0x514d534b"
abbreviation SOCKET_VERSION :: u16 where "SOCKET_VERSION \<equiv> 1"
abbreviation SOCKET_PATH_MAX :: nat where "SOCKET_PATH_MAX \<equiv> 108"
abbreviation SOCKET_PEERS :: nat where "SOCKET_PEERS \<equiv> 8"
abbreviation SESSION_SLOTS :: nat where "SESSION_SLOTS \<equiv> 8"
abbreviation SESSION_TTL :: u64 where "SESSION_TTL \<equiv> 30"
abbreviation SESSION_ID_MAX :: nat where "SESSION_ID_MAX \<equiv> 64"

text \<open>The types of messages, as the number that travels.\<close>

abbreviation SOCKET_ATTACH :: u16 where "SOCKET_ATTACH \<equiv> 0x01"
abbreviation SOCKET_DETACH :: u16 where "SOCKET_DETACH \<equiv> 0x02"
abbreviation SOCKET_HEARTBEAT :: u16 where "SOCKET_HEARTBEAT \<equiv> 0x03"
abbreviation SOCKET_PCM_CAPTURE :: u16 where "SOCKET_PCM_CAPTURE \<equiv> 0x10"
abbreviation SOCKET_PCM_PLAYBACK :: u16 where "SOCKET_PCM_PLAYBACK \<equiv> 0x11"
abbreviation SOCKET_STATE_CHANGE :: u16 where "SOCKET_STATE_CHANGE \<equiv> 0x12"
abbreviation SOCKET_ERROR :: u16 where "SOCKET_ERROR \<equiv> 0xFF"

abbreviation HEADER_SIZE :: nat where "HEADER_SIZE \<equiv> 12"
abbreviation ATTACH_SIZE :: nat where "ATTACH_SIZE \<equiv> 80"
abbreviation PCM_SIZE :: nat where "PCM_SIZE \<equiv> 328"
abbreviation MESSAGE_SIZE :: nat where "MESSAGE_SIZE \<equiv> 340"

section \<open>Structures in memory\<close>

definition read_le16 :: "u8 list \<Rightarrow> nat \<Rightarrow> u16" where
  "read_le16 v i = ucast (v ! i) OR push_bit 8 (ucast (v ! (i + 1)))"

definition write_le16 :: "u16 \<Rightarrow> u8 list" where
  "write_le16 n = [ucast n, ucast (drop_bit 8 n)]"

definition read_le64 :: "u8 list \<Rightarrow> nat \<Rightarrow> u64" where
  "read_le64 v i = ucast (read_le32 v i) OR push_bit 32 (ucast (read_le32 v (i + 4)))"

definition write_le64 :: "u64 \<Rightarrow> u8 list" where
  "write_le64 n = write_le32 (ucast n) @ write_le32 (ucast (drop_bit 32 n))"

record qmodem_voip_media_socket_header =
  hd_magic :: u32
  hd_version :: u16
  hd_type :: u16
  hd_payload_length :: u32

record qmodem_voip_media_socket_attach =
  at_call_revision :: u64
  at_session_id :: string

record qmodem_voip_media_socket_pcm =
  pm_sequence :: u32
  pm_timestamp_ms :: u32
  pm_samples :: "i16 list"

definition header_bytes :: "qmodem_voip_media_socket_header \<Rightarrow> u8 list" where
  "header_bytes h = write_le32 (hd_magic h) @ write_le16 (hd_version h) @ write_le16 (hd_type h) @
     write_le32 (hd_payload_length h)"

definition read_header :: "u8 list \<Rightarrow> qmodem_voip_media_socket_header" where
  "read_header m = \<lparr>hd_magic = read_le32 m 0, hd_version = read_le16 m 4, hd_type = read_le16 m 6,
     hd_payload_length = read_le32 m 8\<rparr>"

text \<open>The session identifier occupies 65 bytes behind the revision, the last of them forced to NUL.\<close>

definition attach_bytes :: "qmodem_voip_media_socket_attach \<Rightarrow> u8 list" where
  "attach_bytes a = write_le64 (at_call_revision a) @ map of_char (at_session_id a) @
     replicate (72 - length (at_session_id a)) 0"

definition read_attach :: "u8 list \<Rightarrow> qmodem_voip_media_socket_attach" where
  "read_attach p = \<lparr>at_call_revision = read_le64 p 0,
     at_session_id = c_str (map (\<lambda>b. char_of (unat b)) (take 64 (drop 8 p)))\<rparr>"

definition pcm_bytes :: "qmodem_voip_media_socket_pcm \<Rightarrow> u8 list" where
  "pcm_bytes p = write_le32 (pm_sequence p) @ write_le32 (pm_timestamp_ms p) @ le_bytes (pm_samples p)"

definition read_pcm :: "u8 list \<Rightarrow> qmodem_voip_media_socket_pcm" where
  "read_pcm p = \<lparr>pm_sequence = read_le32 p 0, pm_timestamp_ms = read_le32 p 4,
     pm_samples = le_samples (take (2 * QMODEM_VOIP_MEDIA_SAMPLES) (drop 8 p))\<rparr>"

section \<open>Sessions\<close>

record qmodem_voip_media_socket_session =
  sn_id :: string
  sn_call_revision :: u64
  sn_expires_at :: u64
  sn_active :: bool

record qmodem_voip_media_socket_peer =
  pe_fd :: int
  pe_watched :: bool
  pe_attached :: bool
  pe_call_revision :: u64
  pe_outbound_sequence :: u32
  pe_dropped :: int

text \<open>\<open>pe_watched\<close> and \<open>ms_watched\<close> say whether the event loop watches the descriptor.\<close>

record qmodem_voip_media_socket =
  ms_listener_fd :: int
  ms_watched :: bool
  ms_path :: string
  ms_peers :: "qmodem_voip_media_socket_peer list"
  ms_sessions :: "qmodem_voip_media_socket_session list"
  ms_ready :: bool
  ms_running :: bool

definition zero_session :: qmodem_voip_media_socket_session where
  "zero_session = \<lparr>sn_id = [], sn_call_revision = 0, sn_expires_at = 0, sn_active = False\<rparr>"

text \<open>The FNV-1a hash of a session identifier.\<close>

definition session_hash :: "string \<Rightarrow> u64" where
  "session_hash session =
     (let hash = fold (\<lambda>c hash. (hash XOR of_char c) * 1099511628211) session 1469598103934665603
      in if hash = 0 then 1 else hash)"

definition session_alphabet :: string where
  "session_alphabet = ''0123456789abcdefghijklmnopqrstuvwxyzABCDEFGHIJKLMNOPQRSTUVWXYZ''"

text \<open>\<open>random\<close> are the 64 bytes of the random source, if it could be read; the last character is
  replaced by the terminator.\<close>

definition session_generate_id :: "u8 list option \<Rightarrow> string" where
  "session_generate_id random =
     (case random of None \<Rightarrow> []
      | Some r \<Rightarrow> map (\<lambda>b. session_alphabet ! (unat b mod length session_alphabet)) (take (SESSION_ID_MAX - 1) r))"

definition session_expire :: "u64 \<Rightarrow> qmodem_voip_media_socket \<Rightarrow> qmodem_voip_media_socket" where
  "session_expire now s =
     s\<lparr>ms_sessions := map (\<lambda>x. if sn_active x \<and> now \<ge> sn_expires_at x then zero_session else x) (ms_sessions s)\<rparr>"

text \<open>The identifier of a slot has at most 63 characters, so comparing 64 compares all of it.\<close>

definition session_matches :: "string \<Rightarrow> u64 \<Rightarrow> qmodem_voip_media_socket_session \<Rightarrow> bool" where
  "session_matches ident call_revision x \<longleftrightarrow> sn_active x \<and> sn_call_revision x = call_revision \<and>
     take SESSION_ID_MAX (sn_id x) = take SESSION_ID_MAX ident"

definition qmodem_voip_media_socket_session_valid ::
  "qmodem_voip_media_socket \<Rightarrow> string \<Rightarrow> u64 \<Rightarrow> u64 \<Rightarrow> bool \<times> qmodem_voip_media_socket" where
  "qmodem_voip_media_socket_session_valid s ident call_revision now =
     (if ident = [] then (False, s)
      else let s1 = session_expire now s in (list_ex (session_matches ident call_revision) (ms_sessions s1), s1))"

definition oldest_session :: "qmodem_voip_media_socket_session list \<Rightarrow> nat" where
  "oldest_session ss = fold (\<lambda>i best. if sn_expires_at (ss ! i) < sn_expires_at (ss ! best) then i else best)
     [1..<SESSION_SLOTS] 0"

definition session_slot :: "qmodem_voip_media_socket_session list \<Rightarrow> nat" where
  "session_slot ss = (case first_index (\<lambda>x. \<not> sn_active x) ss of Some i \<Rightarrow> i | None \<Rightarrow> oldest_session ss)"

definition qmodem_voip_media_socket_session_issue ::
  "u8 list option \<Rightarrow> qmodem_voip_media_socket \<Rightarrow> u64 \<Rightarrow> u64 \<Rightarrow> int \<times> string option \<times> qmodem_voip_media_socket" where
  "qmodem_voip_media_socket_session_issue random s call_revision now =
     (if call_revision = 0 then (-1, None, s)
      else let s1 = session_expire now s; candidate = session_generate_id random in
      if candidate = [] then (-1, None, s1)
      else (0, Some candidate,
            s1\<lparr>ms_sessions := (ms_sessions s1)[session_slot (ms_sessions s1) :=
                \<lparr>sn_id = candidate, sn_call_revision = call_revision, sn_expires_at = now + SESSION_TTL,
                 sn_active = True\<rparr>]\<rparr>))"

section \<open>Messages from a peer\<close>

text \<open>The datagram that is sent, if it fits the buffer.\<close>

definition send_message :: "u16 \<Rightarrow> u8 list \<Rightarrow> u8 list option" where
  "send_message typ payload =
     (if length payload > SOCKET_PATH_MAX + 2 * QMODEM_VOIP_MEDIA_SAMPLES - HEADER_SIZE then None
      else Some (header_bytes \<lparr>hd_magic = SOCKET_MAGIC, hd_version = SOCKET_VERSION, hd_type = typ,
                   hd_payload_length = of_nat (length payload)\<rparr> @ payload))"

text \<open>Every handler gives the socket, the engine and the datagrams it hands to the peer.\<close>

type_synonym peer_result = "qmodem_voip_media_socket \<times> qmodem_voip_media_engine \<times> u8 list list"

definition answer :: "u16 \<Rightarrow> u8 list \<Rightarrow> u8 list list" where
  "answer typ payload = (case send_message typ payload of None \<Rightarrow> [] | Some m \<Rightarrow> [m])"

definition set_peer :: "nat \<Rightarrow> qmodem_voip_media_socket_peer \<Rightarrow> qmodem_voip_media_socket \<Rightarrow> qmodem_voip_media_socket" where
  "set_peer i p s = s\<lparr>ms_peers := (ms_peers s)[i := p]\<rparr>"

definition close_peer :: "nat \<Rightarrow> qmodem_voip_media_socket \<Rightarrow> qmodem_voip_media_engine \<Rightarrow> peer_result" where
  "close_peer i s e =
     (let p = ms_peers s ! i in
      (set_peer i (p\<lparr>pe_fd := -1, pe_watched := False, pe_attached := False\<rparr>) s,
       if pe_attached p then qmodem_voip_media_detach e else e, []))"

text \<open>The number of a call state in the C enumeration.\<close>

fun state_number :: "qmodem_voip_state \<Rightarrow> u32" where
  "state_number VOIP_DISABLED = 0"
| "state_number VOIP_IDLE = 1"
| "state_number VOIP_OUTGOING_SETUP = 2"
| "state_number VOIP_INCOMING_RINGING = 3"
| "state_number VOIP_EARLY_MEDIA = 4"
| "state_number VOIP_ACTIVE = 5"
| "state_number VOIP_TERMINATING = 6"
| "state_number VOIP_RECOVERING = 7"
| "state_number VOIP_FAULT = 8"

text \<open>\<open>authorized\<close> is \<open>qmodem_voip_session_is_authorized\<close>, which asks the session service.\<close>

definition peer_attach ::
  "(string \<Rightarrow> bool) \<Rightarrow> u64 \<Rightarrow> qmodem_voip_call \<Rightarrow> u8 list \<Rightarrow> nat \<Rightarrow> qmodem_voip_media_socket \<Rightarrow> qmodem_voip_media_engine
   \<Rightarrow> peer_result" where
  "peer_attach authorized now call message i s e =
     (let p = ms_peers s ! i in
      if pe_attached p then (s, e, [])
      else if hd_payload_length (read_header message) \<noteq> of_nat ATTACH_SIZE then (s, e, [])
      else let attach = read_attach (drop HEADER_SIZE message); session = at_session_id attach in
      if at_call_revision attach \<noteq> vc_revision call then (s, e, answer SOCKET_ERROR [])
      else let (valid, s1) = qmodem_voip_media_socket_session_valid s session (at_call_revision attach) now in
      if \<not> valid \<and> \<not> authorized session then (s1, e, answer SOCKET_ERROR [])
      else case qmodem_voip_media_attach e QMODEM_VOIP_MEDIA_ATTACH_SOCKET (session_hash session) of
        (r, e1) \<Rightarrow>
          if r \<noteq> 0 then (s1, e1, answer SOCKET_ERROR [])
          else (set_peer i (p\<lparr>pe_attached := True, pe_call_revision := at_call_revision attach,
                   pe_outbound_sequence := 0, pe_dropped := 0\<rparr>) s1, e1,
                answer SOCKET_STATE_CHANGE (write_le32 (state_number (vc_state call)) @ write_le32 (ucast (vc_revision call)))))"

definition peer_detach :: "nat \<Rightarrow> qmodem_voip_media_socket \<Rightarrow> qmodem_voip_media_engine \<Rightarrow> peer_result" where
  "peer_detach i s e =
     (let p = ms_peers s ! i in
      if \<not> pe_attached p then (s, e, [])
      else (set_peer i (p\<lparr>pe_attached := False\<rparr>) s, qmodem_voip_media_detach e, []))"

definition peer_playback :: "u8 list \<Rightarrow> nat \<Rightarrow> qmodem_voip_media_socket \<Rightarrow> qmodem_voip_media_engine \<Rightarrow> peer_result" where
  "peer_playback message i s e =
     (if \<not> pe_attached (ms_peers s ! i) \<or> hd_payload_length (read_header message) \<noteq> of_nat PCM_SIZE then (s, e, [])
      else let pcm = read_pcm (drop HEADER_SIZE message) in
      case qmodem_voip_media_queue_push (me_canonical_to_modem e) (pm_samples pcm) (ucast (pm_timestamp_ms pcm)) of
        (r, q) \<Rightarrow> (s, e\<lparr>me_canonical_to_modem := q\<rparr>, if r \<noteq> 0 then answer SOCKET_ERROR [] else []))"

definition header_refused :: "qmodem_voip_media_socket_header \<Rightarrow> nat \<Rightarrow> bool" where
  "header_refused h received \<longleftrightarrow> hd_magic h \<noteq> SOCKET_MAGIC \<or> hd_version h \<noteq> SOCKET_VERSION \<or>
     hd_payload_length h \<noteq> word_of_int (int received - int HEADER_SIZE)"

definition peer_message ::
  "(string \<Rightarrow> bool) \<Rightarrow> u64 \<Rightarrow> qmodem_voip_call \<Rightarrow> u8 list \<Rightarrow> u8 list \<Rightarrow> nat \<Rightarrow> qmodem_voip_media_socket
   \<Rightarrow> qmodem_voip_media_engine \<Rightarrow> peer_result" where
  "peer_message authorized now call stale datagram i s e =
     (let bytes = take MESSAGE_SIZE datagram; message = bytes @ drop (length bytes) stale;
          h = read_header message in
      if bytes = [] then close_peer i s e
      else if header_refused h (length bytes) then close_peer i s e
      else if hd_type h = SOCKET_ATTACH then peer_attach authorized now call message i s e
      else if hd_type h = SOCKET_DETACH then peer_detach i s e
      else if hd_type h = SOCKET_HEARTBEAT then (s, e, [])
      else if hd_type h = SOCKET_PCM_PLAYBACK then peer_playback message i s e
      else (s, e, answer SOCKET_ERROR []))"

text \<open>The loop only repeats an interrupted call; after the results the call would block.\<close>

fun channel_peer ::
  "(string \<Rightarrow> bool) \<Rightarrow> u64 \<Rightarrow> qmodem_voip_call \<Rightarrow> u8 list \<Rightarrow> nat \<Rightarrow> read_result list \<Rightarrow> qmodem_voip_media_socket
   \<Rightarrow> qmodem_voip_media_engine \<Rightarrow> peer_result" where
  "channel_peer authorized now call stale i [] s e = (s, e, [])"
| "channel_peer authorized now call stale i (Read_interrupted # rs) s e = channel_peer authorized now call stale i rs s e"
| "channel_peer authorized now call stale i (Read_again # rs) s e = (s, e, [])"
| "channel_peer authorized now call stale i (Read_failed # rs) s e = (s, e, [])"
| "channel_peer authorized now call stale i (Read datagram # rs) s e = peer_message authorized now call stale datagram i s e"

text \<open>\<open>fd\<close> is the result of \<open>accept\<close>.\<close>

definition channel_accept :: "int \<Rightarrow> bool \<Rightarrow> qmodem_voip_media_socket \<Rightarrow> qmodem_voip_media_socket" where
  "channel_accept fd nonblocking s =
     (case first_index (\<lambda>p. pe_fd p < 0) (ms_peers s) of
        None \<Rightarrow> s
      | Some i \<Rightarrow>
          let p = (ms_peers s ! i)\<lparr>pe_fd := fd\<rparr> in
          if fd < 0 \<or> \<not> nonblocking then set_peer i p s
          else set_peer i (p\<lparr>pe_attached := False, pe_watched := True\<rparr>) s)"

section \<open>The modem's audio\<close>

text \<open>The last component is the datagram handed to the peer; \<open>sent\<close> says whether it was taken.\<close>

definition qmodem_voip_media_socket_service ::
  "bool \<Rightarrow> qmodem_voip_media_socket \<Rightarrow> qmodem_voip_media_engine
   \<Rightarrow> int \<times> qmodem_voip_media_socket \<times> qmodem_voip_media_engine \<times> (int \<times> u8 list) option" where
  "qmodem_voip_media_socket_service sent s e =
     (if \<not> ms_running s then (0, s, e, None)
      else case first_index (\<lambda>p. pe_attached p \<and> pe_fd p \<ge> 0) (ms_peers s) of
        None \<Rightarrow> (0, s, e, None)
      | Some i \<Rightarrow>
          if mq_count (me_modem_to_canonical e) = 0 then (0, s, e, None)
          else case qmodem_voip_media_queue_pop (me_modem_to_canonical e) of
            (r, frame, q) \<Rightarrow>
              let e1 = e\<lparr>me_modem_to_canonical := q\<rparr> in
              if r \<noteq> 0 then (-1, s, e1, None)
              else let p = ms_peers s ! i;
                       pcm = \<lparr>pm_sequence = pe_outbound_sequence p, pm_timestamp_ms = ucast (fr_timestamp_ms frame),
                              pm_samples = fr_samples frame\<rparr>;
                       p1 = p\<lparr>pe_outbound_sequence := pe_outbound_sequence p + 1,
                              pe_dropped := pe_dropped p + (if sent then 0 else 1)\<rparr>
                   in (0, set_peer i p1 s, e1,
                       map_option (\<lambda>m. (pe_fd p, m)) (send_message SOCKET_PCM_CAPTURE (pcm_bytes pcm))))"

section \<open>Starting and stopping\<close>

definition zero_peer :: qmodem_voip_media_socket_peer where
  "zero_peer = \<lparr>pe_fd = 0, pe_watched = False, pe_attached = False, pe_call_revision = 0, pe_outbound_sequence = 0,
     pe_dropped = 0\<rparr>"

text \<open>The results of the system calls: creating the directory (or finding it), the new descriptor, and
  the three calls that prepare it.\<close>

record socket_env =
  so_directory :: bool
  so_fd :: int
  so_nonblocking :: bool
  so_bind :: bool
  so_listen :: bool

definition qmodem_voip_media_socket_start ::
  "socket_env \<Rightarrow> string \<Rightarrow> qmodem_voip_media_socket \<Rightarrow> int \<times> qmodem_voip_media_socket" where
  "qmodem_voip_media_socket_start env path s =
     (if path = [] \<or> length path \<ge> SOCKET_PATH_MAX then (-1, s)
      else if \<not> so_directory env then (-1, s)
      else let s1 = \<lparr>ms_listener_fd = -1, ms_watched = False, ms_path = path,
                     ms_peers = replicate SOCKET_PEERS (zero_peer\<lparr>pe_fd := -1\<rparr>),
                     ms_sessions = replicate SESSION_SLOTS zero_session, ms_ready = False, ms_running = False\<rparr> in
      if so_fd env < 0 \<or> \<not> so_nonblocking env \<or> \<not> so_bind env \<or> \<not> so_listen env then (-1, s1)
      else (0, s1\<lparr>ms_listener_fd := so_fd env, ms_watched := True, ms_running := True, ms_ready := True\<rparr>))"

definition stop_peer :: "qmodem_voip_media_socket_peer \<Rightarrow> qmodem_voip_media_socket_peer" where
  "stop_peer p = (if pe_fd p \<ge> 0 then p\<lparr>pe_fd := -1, pe_watched := False, pe_attached := False\<rparr> else p)"

text \<open>The last component are the descriptors closed, those of the peers first.\<close>

definition qmodem_voip_media_socket_stop ::
  "qmodem_voip_media_socket \<Rightarrow> qmodem_voip_media_engine
   \<Rightarrow> qmodem_voip_media_socket \<times> qmodem_voip_media_engine \<times> int list" where
  "qmodem_voip_media_socket_stop s e =
     (s\<lparr>ms_running := False, ms_ready := False, ms_watched := False, ms_peers := map stop_peer (ms_peers s),
        ms_listener_fd := -1, ms_path := []\<rparr>,
      fold (\<lambda>p e. if pe_fd p \<ge> 0 \<and> pe_attached p then qmodem_voip_media_detach e else e) (ms_peers s) e,
      map pe_fd (filter (\<lambda>p. pe_fd p \<ge> 0) (ms_peers s)) @ (if ms_listener_fd s \<ge> 0 then [ms_listener_fd s] else []))"

definition qmodem_voip_media_socket_attached :: "qmodem_voip_media_socket \<Rightarrow> bool" where
  "qmodem_voip_media_socket_attached s = list_ex pe_attached (ms_peers s)"

definition qmodem_voip_media_socket_release ::
  "qmodem_voip_media_socket \<Rightarrow> qmodem_voip_media_engine \<Rightarrow> qmodem_voip_media_socket \<times> qmodem_voip_media_engine" where
  "qmodem_voip_media_socket_release s e =
     (s\<lparr>ms_peers := map (\<lambda>p. p\<lparr>pe_attached := False, pe_call_revision := 0\<rparr>) (ms_peers s),
        ms_sessions := replicate SESSION_SLOTS zero_session\<rparr>,
      if qmodem_voip_media_socket_attached s then qmodem_voip_media_detach e else e)"

section \<open>The client\<close>

record qmodem_voip_media_socket_client =
  cl_fd :: int
  cl_attached :: bool
  cl_call_revision :: u64
  cl_session_id :: string
  cl_outbound_sequence :: u32
  cl_dropped :: u32

text \<open>\<open>fd\<close> is the connected descriptor, if the calls that make it succeed. \<open>exchange\<close> gives what is
  received within the second the client waits for the answer to a datagram; it is \<open>None\<close> when sending
  fails, nothing arrives or receiving fails.\<close>

definition qmodem_voip_media_socket_client_attach ::
  "int option \<Rightarrow> (u8 list \<Rightarrow> u8 list option) \<Rightarrow> qmodem_voip_media_socket_client \<Rightarrow> string \<Rightarrow> u64 \<Rightarrow> string
   \<Rightarrow> int \<times> qmodem_voip_media_socket_client" where
  "qmodem_voip_media_socket_client_attach fd exchange client path call_revision session_id =
     (if path = [] \<or> session_id = [] \<or> length path \<ge> SOCKET_PATH_MAX \<or> length session_id \<ge> 65 then (-1, client)
      else case fd of
        None \<Rightarrow> (-1, client)
      | Some f \<Rightarrow>
          let outgoing = header_bytes \<lparr>hd_magic = SOCKET_MAGIC, hd_version = SOCKET_VERSION, hd_type = SOCKET_ATTACH,
                hd_payload_length = of_nat ATTACH_SIZE\<rparr> @
                attach_bytes \<lparr>at_call_revision = call_revision, at_session_id = session_id\<rparr> in
          case exchange outgoing of
            None \<Rightarrow> (-1, client)
          | Some reply \<Rightarrow>
              let incoming = take MESSAGE_SIZE reply; h = read_header incoming in
              if length incoming < HEADER_SIZE then (-1, client)
              else if header_refused h (length incoming) then (-1, client)
              else if hd_type h \<noteq> SOCKET_STATE_CHANGE then (-1, client)
              else (0, client\<lparr>cl_fd := f, cl_attached := True, cl_call_revision := call_revision,
                       cl_outbound_sequence := 0, cl_dropped := 0\<rparr>))"

text \<open>The second component is the buffer of the caller.\<close>

definition qmodem_voip_media_socket_client_read ::
  "read_result \<Rightarrow> qmodem_voip_media_socket_client \<Rightarrow> u8 list \<Rightarrow> int \<times> u8 list" where
  "qmodem_voip_media_socket_client_read result client message =
     (if cl_fd client < 0 then (-1, message)
      else case result of
        Read_again \<Rightarrow> (0, message)
      | Read_interrupted \<Rightarrow> (0, message)
      | Read_failed \<Rightarrow> (-1, message)
      | Read datagram \<Rightarrow>
          let bytes = take MESSAGE_SIZE datagram; m = bytes @ drop (length bytes) message in
          if bytes = [] then (-1, message)
          else if header_refused (read_header m) (length bytes) then (-1, m)
          else (1, m))"

text \<open>The second component is the datagram handed to the daemon.\<close>

definition qmodem_voip_media_socket_client_write ::
  "bool \<Rightarrow> qmodem_voip_media_socket_client \<Rightarrow> u16 \<Rightarrow> u8 list \<Rightarrow> int \<times> u8 list option" where
  "qmodem_voip_media_socket_client_write sent client typ payload =
     (if cl_fd client < 0 \<or> length payload > PCM_SIZE then (-1, None)
      else (if sent then 0 else -1,
            Some (header_bytes \<lparr>hd_magic = SOCKET_MAGIC, hd_version = SOCKET_VERSION, hd_type = typ,
                    hd_payload_length = of_nat (length payload)\<rparr> @ payload)))"

definition qmodem_voip_media_socket_client_detach ::
  "qmodem_voip_media_socket_client \<Rightarrow> qmodem_voip_media_socket_client \<times> u8 list option" where
  "qmodem_voip_media_socket_client_detach client =
     (if cl_fd client < 0 then (client, None)
      else (client\<lparr>cl_fd := -1, cl_attached := False\<rparr>,
            if cl_attached client
            then Some (header_bytes \<lparr>hd_magic = SOCKET_MAGIC, hd_version = SOCKET_VERSION, hd_type = SOCKET_DETACH,
                   hd_payload_length = 0\<rparr>)
            else None))"

section \<open>Structures survive the wire\<close>

lemma length_writes [simp]: "length (write_le16 n) = 2" "length (write_le64 m) = 8"
  by (simp_all add: write_le16_def write_le64_def)

lemma read_write_le16: "read_le16 (pre @ write_le16 n @ rest) (length pre) = n"
proof -
  have "(ucast (ucast n :: u8) :: u16) OR push_bit 8 (ucast (ucast (drop_bit 8 n) :: u8)) = n" (is "?l = n")
  proof (rule bit_word_eqI)
    fix m assume "m < LENGTH(16)"
    then consider "m < 8" | "8 \<le> m" "m < 16" by fastforce
    then show "bit ?l m = bit n m" by cases (auto simp: bit_simps)
  qed
  then show ?thesis by (simp add: read_le16_def write_le16_def nth_append)
qed

lemma read_write_le64: "read_le64 (pre @ write_le64 n @ rest) (length pre) = n"
proof -
  have "(ucast (ucast n :: u32) :: u64) OR push_bit 32 (ucast (ucast (drop_bit 32 n) :: u32)) = n" (is "?l = n")
  proof (rule bit_word_eqI)
    fix m assume "m < LENGTH(64)"
    then consider "m < 32" | "32 \<le> m" "m < 64" by fastforce
    then show "bit ?l m = bit n m" by cases (auto simp: bit_simps)
  qed
  moreover have "read_le32 (pre @ write_le64 n @ rest) (length pre) = ucast n"
    using read_write_le32 [of pre "ucast n"] by (simp add: write_le64_def)
  moreover have "read_le32 (pre @ write_le64 n @ rest) (length pre + 4) = ucast (drop_bit 32 n)"
    using read_write_le32 [of "pre @ write_le32 (ucast n)" "ucast (drop_bit 32 n)" rest] by (simp add: write_le64_def)
  ultimately show ?thesis by (simp add: read_le64_def)
qed

lemma length_header_bytes [simp]: "length (header_bytes h) = HEADER_SIZE"
  by (simp add: header_bytes_def)

lemma header_round_trip [simp]: "read_header (header_bytes h @ rest) = h"
proof -
  let ?m = "write_le32 (hd_magic h)" and ?v = "write_le16 (hd_version h)" and ?t = "write_le16 (hd_type h)"
    and ?n = "write_le32 (hd_payload_length h)"
  have b: "header_bytes h @ rest = ?m @ ?v @ ?t @ ?n @ rest" by (simp add: header_bytes_def)
  have "read_le32 (header_bytes h @ rest) 0 = hd_magic h"
    using read_write_le32 [of "[]"] b by simp
  moreover have "read_le16 (header_bytes h @ rest) 4 = hd_version h"
    using read_write_le16 [of ?m] b by simp
  moreover have "read_le16 (header_bytes h @ rest) 6 = hd_type h"
    using read_write_le16 [of "?m @ ?v"] b by simp
  moreover have "read_le32 (header_bytes h @ rest) 8 = hd_payload_length h"
    using read_write_le32 [of "?m @ ?v @ ?t"] b by simp
  ultimately show ?thesis by (simp add: read_header_def)
qed

lemma length_attach_bytes: "length (at_session_id a) \<le> 72 \<Longrightarrow> length (attach_bytes a) = ATTACH_SIZE"
  by (simp add: attach_bytes_def)

lemma char_byte: "char_of (unat (of_char c :: u8)) = c"
proof -
  have "(of_char c :: u8) = of_nat (of_char c)" by (cases c) (simp add: of_bool_def)
  then have "unat (of_char c :: u8) = (of_char c :: nat)"
    by (simp only: unat_of_nat) (simp add: of_char_mod_256)
  then show ?thesis by simp
qed

lemma attach_round_trip:
  assumes "CHR 0x00 \<notin> set (at_session_id a)" "length (at_session_id a) \<le> 64"
  shows "read_attach (attach_bytes a @ rest) = a"
proof -
  let ?s = "at_session_id a"
  have "read_le64 (attach_bytes a @ rest) 0 = at_call_revision a"
    using read_write_le64 [of "[]" "at_call_revision a" "map of_char ?s @ replicate (72 - length ?s) 0 @ rest"]
    by (simp add: attach_bytes_def)
  moreover have "take 64 (drop 8 (attach_bytes a @ rest)) = map of_char ?s @ replicate (64 - length ?s) 0"
    using assms(2) by (simp add: attach_bytes_def)
  moreover have "c_str (map (\<lambda>b. char_of (unat b)) (map of_char ?s @ replicate n (0::u8))) = ?s" for n
  proof -
    have "char_of (0::nat) = CHR 0x00" by (simp add: char_of_def bit_0)
    then have "map (\<lambda>b. char_of (unat b)) (map of_char ?s @ replicate n (0::u8)) = ?s @ replicate n (CHR 0x00)"
      by (simp add: char_byte o_def map_idI)
    then show ?thesis using assms(1) by (cases n) (auto simp: c_str_def takeWhile_tail takeWhile_eq_all_conv)
  qed
  ultimately show ?thesis by (simp add: read_attach_def)
qed

lemma length_pcm_bytes: "length (pm_samples p) = QMODEM_VOIP_MEDIA_SAMPLES \<Longrightarrow> length (pcm_bytes p) = PCM_SIZE"
  by (simp add: pcm_bytes_def)

lemma pcm_round_trip:
  assumes "length (pm_samples p) = QMODEM_VOIP_MEDIA_SAMPLES"
  shows "read_pcm (pcm_bytes p @ rest) = p"
proof -
  have "read_le32 (pcm_bytes p @ rest) 0 = pm_sequence p"
    using read_write_le32 [of "[]" "pm_sequence p" "write_le32 (pm_timestamp_ms p) @ le_bytes (pm_samples p) @ rest"]
    by (simp add: pcm_bytes_def)
  moreover have "read_le32 (pcm_bytes p @ rest) 4 = pm_timestamp_ms p"
    using read_write_le32 [of "write_le32 (pm_sequence p)" "pm_timestamp_ms p" "le_bytes (pm_samples p) @ rest"]
    by (simp add: pcm_bytes_def)
  ultimately show ?thesis using assms by (simp add: read_pcm_def pcm_bytes_def le_samples_bytes)
qed

text \<open>A well-formed datagram of the protocol.\<close>

definition datagram :: "u16 \<Rightarrow> u8 list \<Rightarrow> u8 list" where
  "datagram typ payload = header_bytes \<lparr>hd_magic = SOCKET_MAGIC, hd_version = SOCKET_VERSION, hd_type = typ,
     hd_payload_length = of_nat (length payload)\<rparr> @ payload"

lemma datagram_header:
  "read_header (datagram typ payload @ rest) = \<lparr>hd_magic = SOCKET_MAGIC, hd_version = SOCKET_VERSION, hd_type = typ,
     hd_payload_length = of_nat (length payload)\<rparr>"
  "read_header (datagram typ payload) = \<lparr>hd_magic = SOCKET_MAGIC, hd_version = SOCKET_VERSION, hd_type = typ,
     hd_payload_length = of_nat (length payload)\<rparr>"
  using header_round_trip [of _ payload] by (simp_all add: datagram_def)

lemma length_datagram [simp]: "length (datagram typ payload) = HEADER_SIZE + length payload"
  by (simp add: datagram_def)

lemma drop_datagram [simp]: "drop HEADER_SIZE (datagram typ payload) = payload"
  by (simp add: datagram_def)

lemma datagram_accepted: "\<not> header_refused (read_header (datagram typ payload @ rest)) (HEADER_SIZE + length payload)"
  by (simp add: header_refused_def datagram_header)

lemma datagram_nonempty [simp]: "datagram typ payload \<noteq> []"
  by (metis length_datagram list.size(3) add_is_0 zero_neq_numeral)

lemma answer_datagram: "length payload \<le> 416 \<Longrightarrow> answer typ payload = [datagram typ payload]"
  by (simp add: answer_def send_message_def datagram_def)

section \<open>Sessions that were issued\<close>

definition socket_wf :: "qmodem_voip_media_socket \<Rightarrow> bool" where
  "socket_wf s \<longleftrightarrow> length (ms_peers s) = SOCKET_PEERS \<and> length (ms_sessions s) = SESSION_SLOTS"

lemma generated_id:
  assumes "length r = SESSION_ID_MAX"
  shows "length (session_generate_id (Some r)) = SESSION_ID_MAX - 1" "CHR 0x00 \<notin> set (session_generate_id (Some r))"
proof -
  have "session_alphabet ! (n mod length session_alphabet) \<in> set session_alphabet" for n
    by (rule nth_mem) (simp add: session_alphabet_def)
  moreover have "CHR 0x00 \<notin> set session_alphabet" by (simp add: session_alphabet_def)
  ultimately show "CHR 0x00 \<notin> set (session_generate_id (Some r))"
    by (auto simp: session_generate_id_def)
  show "length (session_generate_id (Some r)) = SESSION_ID_MAX - 1"
    using assms by (simp add: session_generate_id_def)
qed

lemma oldest_session_less: "oldest_session ss < SESSION_SLOTS"
proof -
  have "fold (\<lambda>i best. if sn_expires_at (ss ! i) < sn_expires_at (ss ! best) then i else best) is b < n"
    if "b < n" "\<forall>i \<in> set is. i < n" for "is" b n
    using that by (induction "is" arbitrary: b) auto
  then show ?thesis by (simp add: oldest_session_def)
qed

lemma session_slot_less: "length ss = SESSION_SLOTS \<Longrightarrow> session_slot ss < SESSION_SLOTS"
  using oldest_session_less first_index_Some by (fastforce simp: session_slot_def split: option.splits)

lemma session_expire_fields [simp]:
  "ms_peers (session_expire now s) = ms_peers s" "length (ms_sessions (session_expire now s)) = length (ms_sessions s)"
  "ms_running (session_expire now s) = ms_running s" "ms_ready (session_expire now s) = ms_ready s"
  by (simp_all add: session_expire_def)

text \<open>A session is accepted from the moment it is issued until it expires.\<close>

lemma issued_valid:
  assumes "socket_wf s" "length random = SESSION_ID_MAX"
    and "qmodem_voip_media_socket_session_issue (Some random) s revision now = (0, Some ident, s1)"
  shows "socket_wf s1" "ms_peers s1 = ms_peers s" "ms_running s1 = ms_running s" "ident = session_generate_id (Some random)"
    "t < now + SESSION_TTL \<Longrightarrow> fst (qmodem_voip_media_socket_session_valid s1 ident revision t)"
proof -
  define s0 where "s0 = session_expire now s"
  define k where "k = session_slot (ms_sessions s0)"
  define x where "x = \<lparr>sn_id = ident, sn_call_revision = revision, sn_expires_at = now + SESSION_TTL, sn_active = True\<rparr>"
  have i: "ident = session_generate_id (Some random)" "ident \<noteq> []"
    and s1: "s1 = s0\<lparr>ms_sessions := (ms_sessions s0)[k := x]\<rparr>"
    using assms(3) by (auto simp: qmodem_voip_media_socket_session_issue_def Let_def s0_def k_def x_def split: if_splits)
  have len: "length (ms_sessions s0) = SESSION_SLOTS" using assms(1) by (simp add: s0_def socket_wf_def)
  then have k: "k < length (ms_sessions s0)" using session_slot_less by (simp add: k_def)
  show "ident = session_generate_id (Some random)" by (rule i)
  show "socket_wf s1" "ms_peers s1 = ms_peers s" "ms_running s1 = ms_running s"
    using assms(1) by (simp_all add: s1 s0_def socket_wf_def)
  assume t: "t < now + SESSION_TTL"
  then have "x = ms_sessions (session_expire t s1) ! k"
    using k by (simp add: session_expire_def s1 x_def)
  moreover have "session_matches ident revision x" by (simp add: session_matches_def x_def)
  ultimately have "list_ex (session_matches ident revision) (ms_sessions (session_expire t s1))"
    using k by (auto simp: list_ex_length session_expire_def s1)
  then show "fst (qmodem_voip_media_socket_session_valid s1 ident revision t)"
    using i(2) by (simp add: qmodem_voip_media_socket_session_valid_def Let_def)
qed

section \<open>What a peer can do\<close>

lemma valid_cases:
  assumes "qmodem_voip_media_socket_session_valid s ident revision now = (v, s1)"
  shows "ms_peers s1 = ms_peers s \<and> ms_running s1 = ms_running s \<and> length (ms_sessions s1) = length (ms_sessions s) \<and>
    (v \<longrightarrow> (\<exists>x. x \<in> set (ms_sessions s) \<and> session_matches ident revision x \<and> now < sn_expires_at x))"
proof (cases "ident = []")
  case True
  then show ?thesis using assms by (simp add: qmodem_voip_media_socket_session_valid_def)
next
  case False
  then have s1: "s1 = session_expire now s" and v: "v = list_ex (session_matches ident revision) (ms_sessions s1)"
    using assms by (auto simp: qmodem_voip_media_socket_session_valid_def Let_def)
  have "\<exists>x. x \<in> set (ms_sessions s) \<and> session_matches ident revision x \<and> now < sn_expires_at x" if v
    using that unfolding v s1 by (auto simp: list_ex_iff session_expire_def session_matches_def zero_session_def split: if_splits)
  then show ?thesis by (simp add: s1)
qed

lemma set_peer_simps [simp]:
  "ms_peers (set_peer i p s) = (ms_peers s)[i := p]" "ms_running (set_peer i p s) = ms_running s"
  "ms_sessions (set_peer i p s) = ms_sessions s"
  by (simp_all add: set_peer_def)

text \<open>What the daemon asks of a session before it lets a peer in.\<close>

definition admits :: "(string \<Rightarrow> bool) \<Rightarrow> u64 \<Rightarrow> qmodem_voip_call \<Rightarrow> qmodem_voip_media_socket \<Rightarrow> string \<Rightarrow> bool" where
  "admits authorized now call s ident \<longleftrightarrow> authorized ident \<or>
     (\<exists>x. x \<in> set (ms_sessions s) \<and> session_matches ident (vc_revision call) x \<and> now < sn_expires_at x)"

lemma media_attach_ok:
  "qmodem_voip_media_attach e a n = (r, e1) \<Longrightarrow> if r = 0 then me_session_id e1 = n \<and> me_attachment e1 = a \<and>
     (me_session_id e = 0 \<or> me_session_id e = n) else e1 = e"
  by (auto simp: qmodem_voip_media_attach_def split: if_splits)

lemma peer_attach_cases:
  assumes "peer_attach authorized now call message i s e = (s', e', out)" "i < length (ms_peers s)"
    and "\<not> pe_attached (ms_peers s ! i)"
  shows "(ms_peers s' = ms_peers s \<and> e' = e) \<or>
    (\<exists>ident. admits authorized now call s ident \<and> me_session_id e' = session_hash ident \<and>
      me_attachment e' = QMODEM_VOIP_MEDIA_ATTACH_SOCKET \<and>
      (me_session_id e = 0 \<or> me_session_id e = session_hash ident) \<and>
      (\<forall>j. j \<noteq> i \<longrightarrow> ms_peers s' ! j = ms_peers s ! j))"
proof -
  define a where "a = read_attach (drop HEADER_SIZE message)"
  obtain v s1 where v: "qmodem_voip_media_socket_session_valid s (at_session_id a) (at_call_revision a) now = (v, s1)"
    by (metis surj_pair)
  obtain r e1 where r: "qmodem_voip_media_attach e QMODEM_VOIP_MEDIA_ATTACH_SOCKET (session_hash (at_session_id a)) = (r, e1)"
    by (metis surj_pair)
  note cases = assms(1) [unfolded peer_attach_def Let_def, folded a_def]
  show ?thesis
    using cases assms(2,3) v r valid_cases [OF v] media_attach_ok [OF r]
    by (auto simp: admits_def split: if_splits)
qed

lemma peer_message_cases:
  assumes "peer_message authorized now call stale d i s e = (s', e', out)" "i < length (ms_peers s)"
    and "\<not> pe_attached (ms_peers s ! i)"
  shows "(\<not> pe_attached (ms_peers s' ! i) \<and> e' = e \<and> (\<forall>j. j \<noteq> i \<longrightarrow> ms_peers s' ! j = ms_peers s ! j)) \<or>
    (\<exists>ident. admits authorized now call s ident \<and> me_session_id e' = session_hash ident \<and>
      me_attachment e' = QMODEM_VOIP_MEDIA_ATTACH_SOCKET \<and>
      (me_session_id e = 0 \<or> me_session_id e = session_hash ident) \<and>
      (\<forall>j. j \<noteq> i \<longrightarrow> ms_peers s' ! j = ms_peers s ! j))"
proof -
  let ?b = "take MESSAGE_SIZE d"
  let ?m = "?b @ drop (length ?b) stale"
  consider "(s', e', out) = close_peer i s e" | "(s', e', out) = peer_attach authorized now call ?m i s e"
    | "(s', e', out) = peer_detach i s e" | "s' = s" "e' = e" | "(s', e', out) = peer_playback ?m i s e"
    using assms(1) by (auto simp: peer_message_def Let_def split: if_splits)
  then show ?thesis
  proof cases
    case 2
    from peer_attach_cases [OF 2 [symmetric] assms(2,3)] assms(3) show ?thesis by auto
  qed (use assms(2,3) in \<open>auto simp: close_peer_def peer_detach_def peer_playback_def Let_def\<close>)
qed

section \<open>The client and the daemon agree\<close>

lemma peer_datagram:
  assumes "length payload \<le> PCM_SIZE"
  shows "peer_message authorized now call stale (datagram typ payload) i s e =
    (let m = datagram typ payload @ drop (HEADER_SIZE + length payload) stale in
     if typ = SOCKET_ATTACH then peer_attach authorized now call m i s e
     else if typ = SOCKET_DETACH then peer_detach i s e
     else if typ = SOCKET_HEARTBEAT then (s, e, [])
     else if typ = SOCKET_PCM_PLAYBACK then peer_playback m i s e
     else (s, e, answer SOCKET_ERROR []))"
proof -
  have t: "take MESSAGE_SIZE (datagram typ payload) = datagram typ payload" using assms by simp
  show ?thesis unfolding peer_message_def t Let_def
    using datagram_accepted [of _ payload] by (simp add: datagram_header)
qed

text \<open>The datagram of an attach request, and the state of the daemon after it let the peer in.\<close>

definition attach_request :: "u64 \<Rightarrow> string \<Rightarrow> u8 list" where
  "attach_request revision ident = datagram SOCKET_ATTACH (attach_bytes \<lparr>at_call_revision = revision, at_session_id = ident\<rparr>)"

definition state_report :: "qmodem_voip_call \<Rightarrow> u8 list" where
  "state_report call = datagram SOCKET_STATE_CHANGE (write_le32 (state_number (vc_state call)) @ write_le32 (ucast (vc_revision call)))"

definition free_for :: "string \<Rightarrow> qmodem_voip_media_engine \<Rightarrow> bool" where
  "free_for ident e \<longleftrightarrow> me_ready e \<and> (me_session_id e = 0 \<or> me_session_id e = session_hash ident)"

lemma session_hash_nonzero: "session_hash ident \<noteq> 0"
  by (simp add: session_hash_def Let_def)

lemma attach_accepted:
  assumes "CHR 0x00 \<notin> set ident" "length ident < SESSION_ID_MAX" "\<not> pe_attached (ms_peers s ! i)"
    and "fst (qmodem_voip_media_socket_session_valid s ident (vc_revision call) now)" "free_for ident e"
  shows "channel_peer authorized now call stale i [Read (attach_request (vc_revision call) ident)] s e =
    (set_peer i ((ms_peers s ! i)\<lparr>pe_attached := True, pe_call_revision := vc_revision call,
       pe_outbound_sequence := 0, pe_dropped := 0\<rparr>) (snd (qmodem_voip_media_socket_session_valid s ident (vc_revision call) now)),
     e\<lparr>me_session_id := session_hash ident, me_attachment := QMODEM_VOIP_MEDIA_ATTACH_SOCKET\<rparr>, [state_report call])"
proof -
  let ?a = "\<lparr>at_call_revision = vc_revision call, at_session_id = ident\<rparr>"
  have len: "length (attach_bytes ?a) = ATTACH_SIZE" using assms(2) by (simp add: length_attach_bytes)
  have a: "read_attach (attach_bytes ?a @ rest) = ?a" for rest
    using assms(1,2) by (intro attach_round_trip) simp_all
  obtain v s1 where v: "qmodem_voip_media_socket_session_valid s ident (vc_revision call) now = (v, s1)"
    by (metis surj_pair)
  have "v" using assms(4) v by simp
  moreover have "qmodem_voip_media_attach e QMODEM_VOIP_MEDIA_ATTACH_SOCKET (session_hash ident) =
      (0, e\<lparr>me_session_id := session_hash ident, me_attachment := QMODEM_VOIP_MEDIA_ATTACH_SOCKET\<rparr>)"
    using assms(5) session_hash_nonzero [of ident] by (auto simp: qmodem_voip_media_attach_def free_for_def)
  moreover have "answer SOCKET_STATE_CHANGE (write_le32 (state_number (vc_state call)) @ write_le32 (ucast (vc_revision call))) =
      [state_report call]"
    by (simp add: answer_datagram state_report_def)
  ultimately show ?thesis using len assms(3) v
    by (simp add: attach_request_def peer_datagram peer_attach_def datagram_header a)
qed

text \<open>The first datagram the daemon answers a datagram with.\<close>

definition first_reply :: "peer_result \<Rightarrow> u8 list option" where
  "first_reply r = (case snd (snd r) of [] \<Rightarrow> None | m # ms \<Rightarrow> Some m)"

lemma client_attached:
  assumes "path \<noteq> []" "length path < SOCKET_PATH_MAX" "ident \<noteq> []" "length ident < SESSION_ID_MAX"
    and "exchange (attach_request revision ident) = Some (state_report call)"
  shows "qmodem_voip_media_socket_client_attach (Some fd) exchange client path revision ident =
    (0, client\<lparr>cl_fd := fd, cl_attached := True, cl_call_revision := revision, cl_outbound_sequence := 0, cl_dropped := 0\<rparr>)"
proof -
  let ?a = "\<lparr>at_call_revision = revision, at_session_id = ident\<rparr>"
  have len: "length (attach_bytes ?a) = ATTACH_SIZE" using assms(4) by (simp add: length_attach_bytes)
  have out: "header_bytes \<lparr>hd_magic = SOCKET_MAGIC, hd_version = SOCKET_VERSION, hd_type = SOCKET_ATTACH,
      hd_payload_length = of_nat ATTACH_SIZE\<rparr> @ attach_bytes ?a = attach_request revision ident"
    unfolding attach_request_def datagram_def len ..
  let ?p = "write_le32 (state_number (vc_state call)) @ write_le32 (ucast (vc_revision call))"
  have p: "length ?p = 8" by simp
  have t: "take MESSAGE_SIZE (state_report call) = state_report call" "length (state_report call) = 20"
    by (simp_all add: state_report_def)
  have "\<not> header_refused (read_header (state_report call)) 20" "hd_type (read_header (state_report call)) = SOCKET_STATE_CHANGE"
    using datagram_accepted [of SOCKET_STATE_CHANGE ?p "[]"] by (simp_all add: state_report_def datagram_header)
  then show ?thesis
    using assms unfolding qmodem_voip_media_socket_client_attach_def out by (simp add: t)
qed

lemma playback_accepted:
  assumes "pe_attached (ms_peers s ! i)" "mq_wf (me_canonical_to_modem e)" "0 \<le> cl_fd client"
    and "length samples = QMODEM_VOIP_MEDIA_SAMPLES"
  shows "\<exists>m e'. qmodem_voip_media_socket_client_write True client SOCKET_PCM_PLAYBACK
        (pcm_bytes \<lparr>pm_sequence = n, pm_timestamp_ms = ts, pm_samples = samples\<rparr>) = (0, Some m) \<and>
      channel_peer authorized now call stale i [Read m] s e = (s, e', []) \<and>
      mq_contents (me_canonical_to_modem e') =
        lastn QMODEM_VOIP_MEDIA_QUEUE_FRAMES (mq_contents (me_canonical_to_modem e) @ [(samples, ucast ts)])"
proof -
  let ?p = "\<lparr>pm_sequence = n, pm_timestamp_ms = ts, pm_samples = samples\<rparr>"
  let ?q = "media_queue_store samples (ucast ts) (me_canonical_to_modem e)"
  have len: "length (pcm_bytes ?p) = PCM_SIZE" using assms(4) by (simp add: length_pcm_bytes)
  have r: "read_pcm (pcm_bytes ?p @ rest) = ?p" for rest using assms(4) by (intro pcm_round_trip) simp
  have "qmodem_voip_media_queue_push (me_canonical_to_modem e) samples (ucast ts) = (0, ?q)"
    using assms(2,4) by (simp add: qmodem_voip_media_queue_push_def mq_wf_def)
  then have "channel_peer authorized now call stale i [Read (datagram SOCKET_PCM_PLAYBACK (pcm_bytes ?p))] s e =
      (s, e\<lparr>me_canonical_to_modem := ?q\<rparr>, [])"
    using assms(1) len by (simp add: peer_datagram peer_playback_def datagram_header r)
  moreover have "qmodem_voip_media_socket_client_write True client SOCKET_PCM_PLAYBACK (pcm_bytes ?p) =
      (0, Some (datagram SOCKET_PCM_PLAYBACK (pcm_bytes ?p)))"
    using assms(3) len by (simp add: qmodem_voip_media_socket_client_write_def datagram_def)
  ultimately show ?thesis using store_ok(2) [OF assms(2)]
    by (intro exI [of _ "datagram SOCKET_PCM_PLAYBACK (pcm_bytes ?p)"] exI [of _ "e\<lparr>me_canonical_to_modem := ?q\<rparr>"]) simp
qed

lemma capture_datagram:
  assumes "ms_running s" "first_index (\<lambda>p. pe_attached p \<and> pe_fd p \<ge> 0) (ms_peers s) = Some i"
    and "mq_wf (me_modem_to_canonical e)" "mq_contents (me_modem_to_canonical e) = (samples, ts) # ds"
    and "length samples = QMODEM_VOIP_MEDIA_SAMPLES" "0 \<le> cl_fd client"
  defines "pcm \<equiv> \<lparr>pm_sequence = pe_outbound_sequence (ms_peers s ! i), pm_timestamp_ms = ucast ts, pm_samples = samples\<rparr>"
  shows "\<exists>s' e' m. qmodem_voip_media_socket_service True s e = (0, s', e', Some (pe_fd (ms_peers s ! i), m)) \<and>
      mq_contents (me_modem_to_canonical e') = ds \<and>
      qmodem_voip_media_socket_client_read (Read m) client buf = (1, datagram SOCKET_PCM_CAPTURE (pcm_bytes pcm) @ drop 340 buf)"
proof -
  obtain f q where f: "qmodem_voip_media_queue_pop (me_modem_to_canonical e) = (0, f, q)" "frame_data f = (samples, ts)"
      "mq_contents q = ds"
    using mq.pop_cons [OF assms(3,4)] by (auto simp: mq_get_def split: prod.splits if_splits)
  let ?m = "datagram SOCKET_PCM_CAPTURE (pcm_bytes pcm)"
  have len: "length (pcm_bytes pcm) = PCM_SIZE" using assms(5) by (simp add: pcm_def length_pcm_bytes)
  have c: "mq_count (me_modem_to_canonical e) \<noteq> 0" using assms(4) length_mq_contents [of "me_modem_to_canonical e"] by auto
  have sm: "send_message SOCKET_PCM_CAPTURE (pcm_bytes pcm) = Some ?m"
    using len by (simp add: send_message_def datagram_def)
  have fd: "fr_samples f = samples" "fr_timestamp_ms f = ts" using f(2) by (simp_all add: frame_data_def)
  have t: "take MESSAGE_SIZE ?m = ?m" using len by simp
  have acc: "\<not> header_refused (read_header (?m @ rest)) 340" for rest
    using datagram_accepted [of SOCKET_PCM_CAPTURE "pcm_bytes pcm" rest] len by simp
  have "qmodem_voip_media_socket_client_read (Read ?m) client buf = (1, ?m @ drop 340 buf)"
    using acc assms(6) len unfolding qmodem_voip_media_socket_client_read_def by (simp add: t)
  moreover have "\<exists>s'. qmodem_voip_media_socket_service True s e =
      (0, s', e\<lparr>me_modem_to_canonical := q\<rparr>, Some (pe_fd (ms_peers s ! i), ?m))"
    unfolding qmodem_voip_media_socket_service_def using assms(1,2) c f(1) sm by (simp add: fd Let_def pcm_def)
  ultimately show ?thesis using f(3) by fastforce
qed

lemma capture_accepted:
  assumes "ms_running s" "first_index (\<lambda>p. pe_attached p \<and> pe_fd p \<ge> 0) (ms_peers s) = Some i"
    and "mq_wf (me_modem_to_canonical e)" "mq_contents (me_modem_to_canonical e) = (samples, ts) # ds"
    and "length samples = QMODEM_VOIP_MEDIA_SAMPLES" "0 \<le> cl_fd client"
  shows "\<exists>s' e' m buf'. qmodem_voip_media_socket_service True s e = (0, s', e', Some (pe_fd (ms_peers s ! i), m)) \<and>
      mq_contents (me_modem_to_canonical e') = ds \<and>
      qmodem_voip_media_socket_client_read (Read m) client buf = (1, buf') \<and>
      read_pcm (drop HEADER_SIZE buf') = \<lparr>pm_sequence = pe_outbound_sequence (ms_peers s ! i),
        pm_timestamp_ms = ucast ts, pm_samples = samples\<rparr>"
proof -
  let ?pcm = "\<lparr>pm_sequence = pe_outbound_sequence (ms_peers s ! i), pm_timestamp_ms = ucast ts, pm_samples = samples\<rparr>"
  have "read_pcm (pcm_bytes ?pcm @ rest) = ?pcm" for rest using assms(5) by (intro pcm_round_trip) simp
  then have "read_pcm (drop HEADER_SIZE (datagram SOCKET_PCM_CAPTURE (pcm_bytes ?pcm) @ rest)) = ?pcm" for rest
    by (simp add: datagram_def)
  then show ?thesis using capture_datagram [OF assms, of buf] by blast
qed

section \<open>Properties\<close>

definition sample_socket :: qmodem_voip_media_socket where
  "sample_socket = \<lparr>ms_listener_fd = 5, ms_watched = True, ms_path = ''/tmp/media'',
     ms_peers = [zero_peer\<lparr>pe_fd := 8\<rparr>, zero_peer\<lparr>pe_fd := 9\<rparr>] @ replicate 6 (zero_peer\<lparr>pe_fd := -1\<rparr>),
     ms_sessions = replicate SESSION_SLOTS zero_session, ms_ready = True, ms_running = True\<rparr>"

definition sample_call :: qmodem_voip_call where
  "sample_call = qmodem_voip_call_init\<lparr>vc_revision := 7\<rparr>"

definition sample_random :: "u8 list" where
  "sample_random = replicate SESSION_ID_MAX 3"

lemma sample_socket_ok:
  "socket_wf sample_socket" "\<forall>p \<in> set (ms_peers sample_socket). \<not> pe_attached p" "ms_running sample_socket"
  "0 \<le> pe_fd (ms_peers sample_socket ! 0)" "\<not> pe_attached (ms_peers sample_socket ! 0)"
  "\<not> pe_attached (ms_peers sample_socket ! 1)" "vc_revision sample_call = 7" "length sample_random = SESSION_ID_MAX"
  by (simp_all add: socket_wf_def sample_socket_def zero_peer_def sample_call_def sample_random_def)

text \<open>Issuing succeeds for a call with a revision when the random source can be read.\<close>

lemma issue_succeeds:
  "revision \<noteq> 0 \<Longrightarrow> length random = SESSION_ID_MAX \<Longrightarrow>
   \<exists>s1. qmodem_voip_media_socket_session_issue (Some random) s revision now = (0, Some (session_generate_id (Some random)), s1)"
  using generated_id(1) [of random] by (auto simp: qmodem_voip_media_socket_session_issue_def Let_def)

text \<open>C35: only an admitted peer touches the audio. Whatever a peer that is not attached sends, with
  whatever is left in the receive buffer, the engine is unchanged and the peer stays unattached, or the
  peer presented a session that the daemon issued for the current revision and that has not expired, or
  a login session that is authorised, and the engine then belongs to that session and belonged to nobody
  else before. The other peers are not affected.\<close>

theorem media_socket_admission:
  assumes "socket_wf s" "i < SOCKET_PEERS" "\<not> pe_attached (ms_peers s ! i)"
    and "channel_peer authorized now call stale i results s e = (s', e', out)"
  shows "(\<forall>j. j \<noteq> i \<longrightarrow> ms_peers s' ! j = ms_peers s ! j) \<and>
    ((\<not> pe_attached (ms_peers s' ! i) \<and> e' = e) \<or>
     (\<exists>ident. (authorized ident \<or>
         (\<exists>x. x \<in> set (ms_sessions s) \<and> session_matches ident (vc_revision call) x \<and> now < sn_expires_at x)) \<and>
       me_session_id e' = session_hash ident \<and> me_attachment e' = QMODEM_VOIP_MEDIA_ATTACH_SOCKET \<and>
       (me_session_id e = 0 \<or> me_session_id e = session_hash ident)))"
  using assms
proof (induction results)
  case (Cons r results)
  show ?case
  proof (cases r)
    case (Read d)
    then have "peer_message authorized now call stale d i s e = (s', e', out)" using Cons.prems by simp
    from peer_message_cases [OF this] Cons.prems show ?thesis by (auto simp: socket_wf_def admits_def)
  qed (use Cons in auto)
qed auto

theorem media_socket_admission_witness:
  "let (s', e', out) = channel_peer (\<lambda>_. False) 100 sample_call (replicate MESSAGE_SIZE 0) 0 [Read_interrupted, Read [1, 2, 3]]
     sample_socket sample_engine
   in \<not> pe_attached (ms_peers s' ! 0) \<and> e' = sample_engine"
proof -
  obtain s' e' out where r: "channel_peer (\<lambda>_. False) 100 sample_call (replicate MESSAGE_SIZE 0) 0
      [Read_interrupted, Read [1, 2, 3]] sample_socket sample_engine = (s', e', out)"
    by (metis prod_cases3)
  from media_socket_admission [OF sample_socket_ok(1) _ sample_socket_ok(5) r]
  have "\<not> pe_attached (ms_peers s' ! 0) \<and> e' = sample_engine"
    by (auto simp: sample_socket_def zero_session_def session_matches_def)
  then show ?thesis unfolding r by simp
qed

text \<open>C36: the client of the SIP service and the daemon understand each other. With a session the daemon
  issued for the current call and that has not expired, the client's attach succeeds on the daemon's
  answer; then a frame the client writes arrives in the queue towards the modem with its time stamp,
  and the oldest frame of the modem reaches the client with the first sequence number.\<close>

theorem media_socket_end_to_end:
  assumes "socket_wf s" "ms_running s" "i < SOCKET_PEERS" "0 \<le> pe_fd (ms_peers s ! i)"
    and "\<forall>p \<in> set (ms_peers s). \<not> pe_attached p"
    and "me_ready e" "me_session_id e = 0" "mq_wf (me_canonical_to_modem e)" "mq_wf (me_modem_to_canonical e)"
    and "mq_contents (me_modem_to_canonical e) = (captured_pcm, ts) # ds" "length captured_pcm = QMODEM_VOIP_MEDIA_SAMPLES"
    and "length random = SESSION_ID_MAX" "t < now + SESSION_TTL"
    and "qmodem_voip_media_socket_session_issue (Some random) s (vc_revision call) now = (0, Some ident, s1)"
    and "path \<noteq> []" "length path < SOCKET_PATH_MAX" "0 \<le> fd" "length spoken_pcm = QMODEM_VOIP_MEDIA_SAMPLES"
  shows "\<exists>client' s2 e2 m e3 s4 e4 d buf'.
    qmodem_voip_media_socket_client_attach (Some fd)
      (\<lambda>m. first_reply (channel_peer authorized t call stale i [Read m] s1 e)) client path (vc_revision call) ident = (0, client') \<and>
    channel_peer authorized t call stale i [Read (attach_request (vc_revision call) ident)] s1 e = (s2, e2, [state_report call]) \<and>
    qmodem_voip_media_socket_client_write True client' SOCKET_PCM_PLAYBACK
      (pcm_bytes \<lparr>pm_sequence = n, pm_timestamp_ms = u, pm_samples = spoken_pcm\<rparr>) = (0, Some m) \<and>
    channel_peer authorized t call stale i [Read m] s2 e2 = (s2, e3, []) \<and>
    mq_contents (me_canonical_to_modem e3) =
      lastn QMODEM_VOIP_MEDIA_QUEUE_FRAMES (mq_contents (me_canonical_to_modem e) @ [(spoken_pcm, ucast u)]) \<and>
    qmodem_voip_media_socket_service True s2 e2 = (0, s4, e4, Some (pe_fd (ms_peers s ! i), d)) \<and>
    qmodem_voip_media_socket_client_read (Read d) client' buf = (1, buf') \<and>
    read_pcm (drop HEADER_SIZE buf') = \<lparr>pm_sequence = 0, pm_timestamp_ms = ucast ts, pm_samples = captured_pcm\<rparr>"
proof -
  note iss = issued_valid [OF assms(1,12,14)]
  have ident: "length ident = 63" "CHR 0x00 \<notin> set ident" using generated_id [OF assms(12)] iss(4) by simp_all
  have len: "length (ms_peers s) = SOCKET_PEERS" using assms(1) by (simp add: socket_wf_def)
  have un: "\<not> pe_attached (ms_peers s1 ! i)" using assms(3,5) len iss(2) by simp
  define p where "p = (ms_peers s1 ! i)\<lparr>pe_attached := True, pe_call_revision := vc_revision call,
       pe_outbound_sequence := 0, pe_dropped := 0\<rparr>"
  define v where "v = snd (qmodem_voip_media_socket_session_valid s1 ident (vc_revision call) t)"
  have v: "ms_peers v = ms_peers s" "ms_running v"
    using valid_cases [of s1 ident "vc_revision call" t] iss(2,3) assms(2) by (simp_all add: v_def) (metis prod.collapse)+
  define e2 where "e2 = e\<lparr>me_session_id := session_hash ident, me_attachment := QMODEM_VOIP_MEDIA_ATTACH_SOCKET\<rparr>"
  have srv: "channel_peer authorized t call stale i [Read (attach_request (vc_revision call) ident)] s1 e =
      (set_peer i p v, e2, [state_report call])"
    using attach_accepted [OF ident(2) _ un iss(5) [OF assms(13)], of e] assms(6,7) ident(1)
    unfolding p_def v_def e2_def free_for_def by simp
  let ?c = "client\<lparr>cl_fd := fd, cl_attached := True, cl_call_revision := vc_revision call, cl_outbound_sequence := 0,
    cl_dropped := 0\<rparr>"
  have c: "qmodem_voip_media_socket_client_attach (Some fd)
      (\<lambda>m. first_reply (channel_peer authorized t call stale i [Read m] s1 e)) client path (vc_revision call) ident = (0, ?c)"
  proof (rule client_attached [where call = call])
    show "first_reply (channel_peer authorized t call stale i [Read (attach_request (vc_revision call) ident)] s1 e) =
        Some (state_report call)"
      unfolding srv first_reply_def by simp
  qed (use assms(15,16) ident in auto)
  have i: "i < length (ms_peers v)" using len v(1) assms(3) by simp
  have fi: "first_index (\<lambda>p. pe_attached p \<and> pe_fd p \<ge> 0) (ms_peers (set_peer i p v)) = Some i"
    using i assms(4,5) v(1) iss(2) nth_mem
    by (intro first_index_unique) (fastforce simp: p_def nth_list_update split: if_splits)+
  have "pe_attached (ms_peers (set_peer i p v) ! i)" "pe_fd (ms_peers (set_peer i p v) ! i) = pe_fd (ms_peers s ! i)"
      "pe_outbound_sequence (ms_peers (set_peer i p v) ! i) = 0" "ms_running (set_peer i p v)"
    using i v iss(2) by (simp_all add: p_def)
  with playback_accepted [of "set_peer i p v" i e2 ?c spoken_pcm n u] capture_accepted [OF _ fi, of e2 captured_pcm ts ds ?c buf]
    assms(8-11,17,18) srv c show ?thesis by (simp add: e2_def) metis
qed

theorem media_socket_end_to_end_witness:
  "\<exists>ident s1 client'. qmodem_voip_media_socket_session_issue (Some sample_random) sample_socket 7 100 = (0, Some ident, s1) \<and>
     qmodem_voip_media_socket_client_attach (Some 4)
       (\<lambda>m. first_reply (channel_peer (\<lambda>_. False) 110 sample_call [] 0 [Read m] s1
          (sample_engine\<lparr>me_modem_to_canonical := mq_put (replicate 160 1, 20) (qmodem_voip_media_queue_init True)\<rparr>)))
       \<lparr>cl_fd = -1, cl_attached = False, cl_call_revision = 0, cl_session_id = [], cl_outbound_sequence = 0, cl_dropped = 0\<rparr>
       ''/tmp/media'' 7 ident = (0, client')"
proof -
  let ?q = "mq_put (replicate 160 1, 20) (qmodem_voip_media_queue_init True)"
  let ?e = "sample_engine\<lparr>me_modem_to_canonical := ?q\<rparr>"
  obtain s1 where i: "qmodem_voip_media_socket_session_issue (Some sample_random) sample_socket (vc_revision sample_call) 100 =
      (0, Some (session_generate_id (Some sample_random)), s1)"
    using issue_succeeds [OF _ sample_socket_ok(8)] sample_socket_ok(7) by fastforce
  have wf: "mq_wf (qmodem_voip_media_queue_init True)" "mq_contents (qmodem_voip_media_queue_init True) = []"
    by (simp_all add: mq_wf_def mq_contents_def qmodem_voip_media_queue_init_def zero_queue_def)
  have e: "me_ready ?e" "me_session_id ?e = 0" "mq_wf (me_canonical_to_modem ?e)" "mq_wf (me_modem_to_canonical ?e)"
      "mq_contents (me_modem_to_canonical ?e) = [(replicate 160 1, 20)]"
    using wf mq.push_wf mq.push_contents [OF wf(1)] by (simp_all add: sample_engine_def zero_engine_def lastn_def)
  from media_socket_end_to_end [OF sample_socket_ok(1,3) _ sample_socket_ok(4,2) e _ sample_socket_ok(8) _ i,
    of 110 "''/tmp/media''" 4 "replicate 160 2" "\<lambda>_. False" "[]"
      "\<lparr>cl_fd = -1, cl_attached = False, cl_call_revision = 0, cl_session_id = [], cl_outbound_sequence = 0, cl_dropped = 0\<rparr>" 0 0 "[]"]
  show ?thesis using i sample_socket_ok(7) by auto
qed

text \<open>C37: a session admits more than one peer, and then one of them ends it for the others. Two peers
  that present the same session are both attached; when one of them detaches, the engine is free and its
  queues are empty, while the other is still attached, receives the modem's audio and can still write
  to whoever attaches next.\<close>

theorem media_socket_shared_session:
  assumes "socket_wf s" "i < SOCKET_PEERS" "j < SOCKET_PEERS" "i \<noteq> j"
    and "\<not> pe_attached (ms_peers s ! i)" "\<not> pe_attached (ms_peers s ! j)"
    and "CHR 0x00 \<notin> set ident" "length ident < SESSION_ID_MAX" "me_ready e" "me_session_id e = 0"
    and "fst (qmodem_voip_media_socket_session_valid s ident (vc_revision call) t)"
    and "channel_peer authorized t call stale i [Read (attach_request (vc_revision call) ident)] s e = (s1, e1, out1)"
    and "channel_peer authorized t call stale j [Read (attach_request (vc_revision call) ident)] s1 e1 = (s2, e2, out2)"
    and "channel_peer authorized t call stale i [Read (datagram SOCKET_DETACH [])] s2 e2 = (s3, e3, out3)"
  shows "pe_attached (ms_peers s2 ! i) \<and> pe_attached (ms_peers s2 ! j) \<and>
    me_session_id e3 = 0 \<and> \<not> pe_attached (ms_peers s3 ! i) \<and> pe_attached (ms_peers s3 ! j)"
proof -
  let ?w = "\<lambda>s. snd (qmodem_voip_media_socket_session_valid s ident (vc_revision call) t)"
  have len: "length (ms_peers s) = SOCKET_PEERS" using assms(1) by (simp add: socket_wf_def)
  have id0: "ident \<noteq> []" using assms(11) by (auto simp: qmodem_voip_media_socket_session_valid_def)
  have w: "ms_peers (?w x) = ms_peers x" "ms_sessions (?w x) = ms_sessions (session_expire t x)" for x
    using id0 by (simp_all add: qmodem_voip_media_socket_session_valid_def Let_def)
  have s1: "ms_peers s1 = (ms_peers s)[i := (ms_peers s ! i)\<lparr>pe_attached := True, pe_call_revision := vc_revision call,
       pe_outbound_sequence := 0, pe_dropped := 0\<rparr>]" "ms_sessions s1 = ms_sessions (session_expire t s)"
      and e1: "me_ready e1" "me_session_id e1 = session_hash ident"
    using attach_accepted [OF assms(7,8,5,11), of e] assms(9,10,12) w by (auto simp: free_for_def)
  have twice: "ms_sessions (session_expire t s1) = ms_sessions (session_expire t s)"
    unfolding session_expire_def using s1(2) by (auto simp: session_expire_def zero_session_def)
  have "\<not> pe_attached (ms_peers s1 ! j)" using assms(4,6) s1(1) by simp
  moreover have "fst (qmodem_voip_media_socket_session_valid s1 ident (vc_revision call) t)"
    using assms(11) id0 twice by (simp add: qmodem_voip_media_socket_session_valid_def Let_def)
  ultimately have s2: "ms_peers s2 = (ms_peers s1)[j := (ms_peers s1 ! j)\<lparr>pe_attached := True,
       pe_call_revision := vc_revision call, pe_outbound_sequence := 0, pe_dropped := 0\<rparr>]"
    using attach_accepted [OF assms(7,8), of s1 j call t e1] e1 assms(13) w by (auto simp: free_for_def)
  then have both: "pe_attached (ms_peers s2 ! i)" "pe_attached (ms_peers s2 ! j)"
    using s1(1) len assms(2-4) by simp_all
  have "(s3, e3, out3) = peer_detach i s2 e2"
    using assms(14) peer_datagram [of "[]" authorized t call stale SOCKET_DETACH i s2 e2] by simp
  then show ?thesis using both assms(2-4) len s1(1) s2
    by (simp add: peer_detach_def Let_def qmodem_voip_media_detach_def)
qed

theorem media_socket_shared_session_witness:
  "\<exists>ident s. let (s1, e1, out1) = channel_peer (\<lambda>_. False) 110 sample_call [] 0 [Read (attach_request 7 ident)] s sample_engine;
       (s2, e2, out2) = channel_peer (\<lambda>_. False) 110 sample_call [] 1 [Read (attach_request 7 ident)] s1 e1;
       (s3, e3, out3) = channel_peer (\<lambda>_. False) 110 sample_call [] 0 [Read (datagram SOCKET_DETACH [])] s2 e2
     in me_session_id e3 = 0 \<and> pe_attached (ms_peers s3 ! 1)"
proof -
  define ident where "ident = session_generate_id (Some sample_random)"
  obtain s where i: "qmodem_voip_media_socket_session_issue (Some sample_random) sample_socket (vc_revision sample_call) 100 =
      (0, Some ident, s)"
    using issue_succeeds [OF _ sample_socket_ok(8)] sample_socket_ok(7) unfolding ident_def by fastforce
  note iss = issued_valid [OF sample_socket_ok(1,8) i]
  obtain s1 e1 out1 where r1: "channel_peer (\<lambda>_. False) 110 sample_call [] 0
      [Read (attach_request (vc_revision sample_call) ident)] s sample_engine = (s1, e1, out1)" by (metis prod_cases3)
  obtain s2 e2 out2 where r2: "channel_peer (\<lambda>_. False) 110 sample_call [] 1
      [Read (attach_request (vc_revision sample_call) ident)] s1 e1 = (s2, e2, out2)" by (metis prod_cases3)
  obtain s3 e3 out3 where r3: "channel_peer (\<lambda>_. False) 110 sample_call [] 0 [Read (datagram SOCKET_DETACH [])] s2 e2 =
      (s3, e3, out3)" by (metis prod_cases3)
  have "me_session_id e3 = 0 \<and> pe_attached (ms_peers s3 ! 1)"
    using media_socket_shared_session [OF iss(1) _ _ _ _ _ _ _ _ _ _ r1 r2 r3] iss(2) iss(5) [of 110] sample_socket_ok
      generated_id [OF sample_socket_ok(8)]
    by (simp add: ident_def sample_engine_def zero_engine_def)
  then show ?thesis using r1 r2 r3 sample_socket_ok(7) by (intro exI [of _ ident] exI [of _ s]) (simp del: channel_peer.simps)
qed

end
