(* ===== verification/Rtp_Transport.thy ===== *)
theory Rtp_Transport
  imports Media_Core
begin

text \<open>
  The RTP transport to a telephone on the local network,
  \<open>application/voipd/src/rtp_transport.c\<close>: locating the payload of a packet, receiving and
  sending one frame of audio, and the life of the socket.

  The transport refers to the daemon's one media engine, which the operations take and return. The
  results of the socket calls are arguments. Addresses and ports are kept in host order.
\<close>

abbreviation RTP_HEADER_SIZE :: nat where "RTP_HEADER_SIZE \<equiv> 12"
abbreviation RTP_PACKET_SIZE :: nat where "RTP_PACKET_SIZE \<equiv> 172"

record qmodem_voip_rtp_transport =
  rt_fd :: int
  rt_active :: bool
  rt_peer_address :: u32
  rt_peer_port :: u16
  rt_has_engine :: bool
  rt_codec :: nat
  rt_sequence :: u16
  rt_timestamp :: u32
  rt_ssrc :: u32

section \<open>Packets\<close>

text \<open>Offset and length of the payload.\<close>

definition payload_offset :: "u8 list \<Rightarrow> (nat \<times> nat) option" where
  "payload_offset packet =
     (if length packet < RTP_HEADER_SIZE \<or> unat (packet ! 0) div 64 \<noteq> 2 then None
      else let v = RTP_HEADER_SIZE + unat (packet ! 0) mod 16 * 4 in
      if v > length packet then None
      else let extension = bit (packet ! 0) 4 in
      if extension \<and> length packet - v < 4 then None
      else let extension_words = be16 (packet ! (v + 2)) (packet ! (v + 3)) in
      if extension \<and> extension_words > (length packet - v - 4) div 4 then None
      else let v = (if extension then v + 4 + extension_words * 4 else v);
               padded = bit (packet ! 0) 5;
               padding = unat (packet ! (length packet - 1)) in
      if padded \<and> (padding = 0 \<or> padding > length packet - v) then None
      else let e = (if padded then length packet - padding else length packet) in
      if v > e then None else Some (v, e - v))"

definition be_bytes16 :: "u16 \<Rightarrow> u8 list" where
  "be_bytes16 w = [ucast (drop_bit 8 w), ucast w]"

definition be_bytes32 :: "u32 \<Rightarrow> u8 list" where
  "be_bytes32 w = [ucast (drop_bit 24 w), ucast (drop_bit 16 w), ucast (drop_bit 8 w), ucast w]"

definition rtp_header :: "qmodem_voip_rtp_transport \<Rightarrow> u8 list" where
  "rtp_header t = [0x80, of_nat (rt_codec t)] @ be_bytes16 (rt_sequence t) @ be_bytes32 (rt_timestamp t) @
     be_bytes32 (rt_ssrc t)"

section \<open>Audio\<close>

definition receive_audio ::
  "qmodem_voip_rtp_transport \<Rightarrow> u8 list \<Rightarrow> u64 \<Rightarrow> qmodem_voip_media_engine \<Rightarrow> int \<times> qmodem_voip_media_engine" where
  "receive_audio t packet timestamp_ms engine =
     (case payload_offset packet of
        None \<Rightarrow> (0, engine)
      | Some (offset, payload_length) \<Rightarrow>
          if unat (packet ! 1) mod 128 \<noteq> rt_codec t \<or> payload_length \<noteq> QMODEM_VOIP_MEDIA_SAMPLES then (0, engine)
          else case qmodem_voip_media_rtp_receive engine packet (rt_peer_address t) (rt_peer_port t) of
            (r, e1, digit) \<Rightarrow>
              if r \<noteq> 0 then (0, e1)
              else case qmodem_voip_media_g711_decode (rt_codec t) (take payload_length (drop offset packet)) of
                None \<Rightarrow> (0, e1)
              | Some samples \<Rightarrow>
                  case qmodem_voip_media_queue_push (me_canonical_to_modem e1) samples timestamp_ms of
                    (p, q) \<Rightarrow>
                      if p \<noteq> 0 then (-1, e1)
                      else (1, e1\<lparr>me_canonical_to_modem := q,
                              me_rtp := (me_rtp e1)\<lparr>re_received_packets := re_received_packets (me_rtp e1) + 1\<rparr>,
                              me_rtp_received_packets := me_rtp_received_packets e1 + 1\<rparr>))"

text \<open>\<open>sendto packet\<close> is the result of the system call; the last component is the packet given to
  it.\<close>

definition send_audio ::
  "(u8 list \<Rightarrow> int) \<Rightarrow> qmodem_voip_rtp_transport \<Rightarrow> qmodem_voip_media_engine
   \<Rightarrow> int \<times> qmodem_voip_rtp_transport \<times> qmodem_voip_media_engine \<times> u8 list option" where
  "send_audio sendto t engine =
     (if mq_count (me_modem_to_canonical engine) = 0 then (0, t, engine, None)
      else case qmodem_voip_media_queue_pop (me_modem_to_canonical engine) of
        (p, frame, q) \<Rightarrow>
          let e1 = engine\<lparr>me_modem_to_canonical := q\<rparr> in
          if p \<noteq> 0 then (-1, t, e1, None)
          else case qmodem_voip_media_g711_encode (rt_codec t) (fr_samples frame) of
            None \<Rightarrow> (-1, t, e1, None)
          | Some payload \<Rightarrow>
              let packet = rtp_header t @ payload in
              if sendto packet \<noteq> int RTP_PACKET_SIZE then (-1, t, e1, Some packet)
              else (1, t\<lparr>rt_sequence := rt_sequence t + 1, rt_timestamp := rt_timestamp t + 160\<rparr>,
                    e1\<lparr>me_rtp := (me_rtp e1)\<lparr>re_sent_packets := re_sent_packets (me_rtp e1) + 1\<rparr>,
                       me_rtp_sent_packets := me_rtp_sent_packets e1 + 1\<rparr>, Some packet))"

section \<open>The life of the transport\<close>

definition zero_transport :: qmodem_voip_rtp_transport where
  "zero_transport = \<lparr>rt_fd = -1, rt_active = False, rt_peer_address = 0, rt_peer_port = 0, rt_has_engine = False,
     rt_codec = 0, rt_sequence = 0, rt_timestamp = 0, rt_ssrc = 0\<rparr>"

text \<open>The last component are the descriptors closed.\<close>

definition qmodem_voip_rtp_release ::
  "qmodem_voip_rtp_transport \<Rightarrow> qmodem_voip_media_engine \<Rightarrow> qmodem_voip_rtp_transport \<times> qmodem_voip_media_engine \<times> int list" where
  "qmodem_voip_rtp_release t engine =
     (zero_transport, if rt_has_engine t then qmodem_voip_media_detach engine else engine,
      if rt_active t \<and> rt_fd t \<ge> 0 then [rt_fd t] else [])"

text \<open>\<open>socket\<close> is the descriptor the system gives, \<open>configured\<close> whether it could be made
  non-blocking and bound.\<close>

definition qmodem_voip_rtp_attach ::
  "int \<Rightarrow> bool \<Rightarrow> qmodem_voip_rtp_transport \<Rightarrow> qmodem_voip_media_engine \<Rightarrow> u32 \<Rightarrow> u16 \<Rightarrow> nat \<Rightarrow> u64
   \<Rightarrow> int \<times> qmodem_voip_rtp_transport \<times> qmodem_voip_media_engine \<times> int list" where
  "qmodem_voip_rtp_attach socket configured t engine peer_address peer_port codec session_id =
     (if peer_address = 0 \<or> peer_port = 0 \<or> (codec \<noteq> QMODEM_VOIP_MEDIA_PCMA \<and> codec \<noteq> QMODEM_VOIP_MEDIA_PCMU)
      then (-1, t, engine, [])
      else case qmodem_voip_rtp_release t engine of
        (t1, e1, closed) \<Rightarrow>
          if socket < 0 then (-1, t1, e1, closed)
          else if \<not> configured then (-1, t1, e1, closed @ [socket])
          else case qmodem_voip_media_attach e1 QMODEM_VOIP_MEDIA_ATTACH_LAN_SIP session_id of
            (r, e2) \<Rightarrow>
              if r \<noteq> 0 then (-1, t1, e1, closed @ [socket])
              else (0, t1\<lparr>rt_fd := socket, rt_active := True, rt_has_engine := True, rt_codec := codec,
                        rt_peer_address := peer_address, rt_peer_port := peer_port,
                        rt_sequence := ucast session_id, rt_timestamp := ucast (session_id * 160),
                        rt_ssrc := ucast (xor session_id (xor (ucast peer_address) (ucast peer_port)))\<rparr>,
                    e2\<lparr>me_rtp := (me_rtp e2)\<lparr>re_address := peer_address, re_port := peer_port, re_codec := codec\<rparr>\<rparr>, closed))"

text \<open>What \<open>recvfrom\<close> returns.\<close>

datatype rtp_arrival =
  Datagram bool u32 u16 "u8 list"
| Nothing_yet
| Socket_error

definition qmodem_voip_rtp_service ::
  "rtp_arrival \<Rightarrow> (u8 list \<Rightarrow> int) \<Rightarrow> qmodem_voip_rtp_transport \<Rightarrow> qmodem_voip_media_engine \<Rightarrow> u64
   \<Rightarrow> int \<times> qmodem_voip_rtp_transport \<times> qmodem_voip_media_engine \<times> u8 list option" where
  "qmodem_voip_rtp_service arrival sendto t engine timestamp_ms =
     (if \<not> rt_active t \<or> rt_fd t < 0 \<or> \<not> rt_has_engine t \<or> \<not> me_ready engine then (-1, t, engine, None)
      else let (r, t1, e1) = (case arrival of
             Datagram inet address port packet \<Rightarrow>
               (if inet \<and> address = rt_peer_address t
                then let t1 = t\<lparr>rt_peer_port := port\<rparr>; (r, e1) = receive_audio t1 packet timestamp_ms engine
                     in (r, t1, e1)
                else (0, t, engine))
           | Nothing_yet \<Rightarrow> (0, t, engine)
           | Socket_error \<Rightarrow> (-1, t, engine))
      in if r < 0 then (-1, t1, e1, None)
         else let (s, t2, e2, out) = send_audio sendto t1 e1
              in if s < 0 then (-1, t2, e2, out) else (r + s, t2, e2, out))"

section \<open>Packets that are sent can be received\<close>

lemma payload_offset_bounds:
  assumes "payload_offset packet = Some (off, n)"
  shows "RTP_HEADER_SIZE \<le> off \<and> off + n \<le> length packet"
proof -
  define v where "v = RTP_HEADER_SIZE + unat (packet ! 0) mod 16 * 4"
  define w where "w = be16 (packet ! (v + 2)) (packet ! (v + 3))"
  define x where "x = bit (packet ! 0) 4"
  define v' where "v' = (if x then v + 4 + w * 4 else v)"
  have v: "v \<le> length packet" "\<not> (x \<and> length packet - v < 4)" "\<not> (x \<and> w > (length packet - v - 4) div 4)"
    and o: "off = v'" "n \<le> length packet - v'"
    using assms unfolding payload_offset_def Let_def v_def [symmetric] w_def [symmetric] x_def [symmetric] v'_def [symmetric]
    by (auto split: if_splits)
  have "v' \<le> length packet"
  proof (cases x)
    case True
    then have "w \<le> (length packet - v - 4) div 4" "4 \<le> length packet - v" using v by auto
    then have "w * 4 \<le> length packet - v - 4" by (simp add: less_eq_div_iff_mult_less_eq)
    then show ?thesis using True v(1) \<open>4 \<le> length packet - v\<close> by (simp add: v'_def)
  qed (simp add: v'_def v)
  moreover have "RTP_HEADER_SIZE \<le> v'" by (simp add: v'_def v_def)
  ultimately show ?thesis using o by simp
qed

lemma length_rtp_header [simp]: "length (rtp_header t) = RTP_HEADER_SIZE"
  by (simp add: rtp_header_def be_bytes16_def be_bytes32_def)

lemma rtp_header_nth:
  "(rtp_header t @ p) ! 0 = 0x80" "(rtp_header t @ p) ! 1 = of_nat (rt_codec t)"
  by (simp_all add: rtp_header_def)

lemma sent_offset: "payload_offset (rtp_header t @ p) = Some (RTP_HEADER_SIZE, length p)"
proof -
  have "\<not> bit (0x80 :: u8) 4" "\<not> bit (0x80 :: u8) 5" by simp_all
  then show ?thesis by (simp add: payload_offset_def rtp_header_nth Let_def)
qed

lemma be16_bytes: "of_nat (be16 (ucast (drop_bit 8 (w :: u16))) (ucast w)) = w"
proof -
  have "unat w < 2 ^ 16" using unsigned_less [where 'a = nat, of w] by simp
  then have "unat w div 256 < 256" by (simp add: less_mult_imp_div_less)
  then have "be16 (ucast (drop_bit 8 w)) (ucast w) = unat w"
    using byte_of [of 8 w] low_byte [of w] unfolding be16_def by simp
  then show ?thesis by simp
qed

lemma base256: "(x::nat) < 2 ^ 32 \<Longrightarrow>
   (x div 2 ^ 24 mod 256 * 256 + x div 2 ^ 16 mod 256) * 65536 + (x div 2 ^ 8 mod 256 * 256 + x mod 256) = x"
proof -
  assume x: "x < 2 ^ 32"
  define a b c where "a = x div 256" and "b = a div 256" and "c = b div 256"
  have "x div 2 ^ 8 = a" "x div 2 ^ 16 = b" "x div 2 ^ 24 = c" by (simp_all add: a_def b_def c_def flip: div_mult2_eq)
  moreover have "c < 256" using x by (simp add: a_def b_def c_def less_mult_imp_div_less flip: div_mult2_eq)
  moreover have "x = 256 * a + x mod 256" "a = 256 * b + a mod 256" "b = 256 * c + b mod 256"
    by (simp_all add: a_def b_def c_def)
  ultimately show ?thesis by simp
qed

lemma be32_bytes:
  assumes "take 4 (drop i p) = be_bytes32 w" "i + 4 \<le> length p"
  shows "be32 p i = w"
proof -
  have n: "p ! (i + k) = be_bytes32 w ! k" if "k < 4" for k
    using that assms by (metis add_leD1 nth_drop nth_take)
  have "unat w < 2 ^ 32" using unsigned_less [where 'a = nat, of w] by simp
  moreover have "unat (p ! i) = unat w div 2 ^ 24 mod 256" "unat (p ! (i + 1)) = unat w div 2 ^ 16 mod 256"
    "unat (p ! (i + 2)) = unat w div 2 ^ 8 mod 256"
    using n [of 0] n [of 1] n [of 2] by (simp_all add: be_bytes32_def flip: byte_of del: power_numeral)
  moreover have "unat (p ! (i + 3)) = unat w mod 256"
    using n [of 3] by (simp add: be_bytes32_def low_byte)
  ultimately have "be16 (p ! i) (p ! (i + 1)) * 65536 + be16 (p ! (i + 2)) (p ! (i + 3)) = unat w"
    using base256 [of "unat w"] unfolding be16_def by (simp only:)
  then show ?thesis by (simp add: be32_def)
qed

lemma sent_header:
  "of_nat (be16 ((rtp_header t @ p) ! 2) ((rtp_header t @ p) ! 3)) = rt_sequence t"
  "be32 (rtp_header t @ p) 4 = rt_timestamp t"
proof -
  show "of_nat (be16 ((rtp_header t @ p) ! 2) ((rtp_header t @ p) ! 3)) = rt_sequence t"
    by (simp add: rtp_header_def be_bytes16_def be16_bytes)
  show "be32 (rtp_header t @ p) 4 = rt_timestamp t"
    by (rule be32_bytes) (simp_all add: rtp_header_def be_bytes16_def be_bytes32_def)
qed

text \<open>What the codec does to a sample.\<close>

definition coded :: "nat \<Rightarrow> i16 \<Rightarrow> i16" where
  "coded codec s = (if codec = QMODEM_VOIP_MEDIA_PCMA then qmodem_g711_alaw_decode (qmodem_g711_alaw_encode s)
     else qmodem_g711_ulaw_decode (qmodem_g711_ulaw_encode s))"

lemma g711_round:
  assumes "qmodem_voip_media_g711_encode codec samples = Some p"
  shows "qmodem_voip_media_g711_decode codec p = Some (map (coded codec) samples)" "length p = length samples"
    "codec = QMODEM_VOIP_MEDIA_PCMA \<or> codec = QMODEM_VOIP_MEDIA_PCMU"
  using assms by (auto simp: qmodem_voip_media_g711_encode_def qmodem_voip_media_g711_decode_def coded_def
      split: if_splits)

lemma receive_sent:
  assumes enc: "qmodem_voip_media_g711_encode (rt_codec t) samples = Some p"
    and len: "length samples = QMODEM_VOIP_MEDIA_SAMPLES" and codec: "rt_codec u = rt_codec t"
    and wf: "mq_wf (me_canonical_to_modem e)"
  shows "\<exists>e'. receive_audio u (rtp_header t @ p) ts e = (1, e') \<and>
     mq_contents (me_canonical_to_modem e') =
       lastn QMODEM_VOIP_MEDIA_QUEUE_FRAMES (mq_contents (me_canonical_to_modem e) @ [(map (coded (rt_codec t)) samples, ts)]) \<and>
     re_sequence (me_rtp e') = rt_sequence t \<and> re_timestamp (me_rtp e') = rt_timestamp t"
proof -
  define packet where "packet = rtp_header t @ p"
  have c: "unat (packet ! 1) mod 128 = rt_codec t"
    using g711_round(3) [OF enc] by (auto simp: packet_def rtp_header_nth(2) [simplified])
  have rtp: "qmodem_voip_media_rtp_receive e packet (rt_peer_address u) (rt_peer_port u) =
      (0, e\<lparr>me_rtp := rtp_note packet (rt_peer_address u) (rt_peer_port u) (me_rtp e)\<rparr>, None)"
    using g711_round(3) [OF enc] c rtp_header_nth(1) [of t p]
    by (auto simp: qmodem_voip_media_rtp_receive_def packet_def Let_def)
  have off: "payload_offset packet = Some (RTP_HEADER_SIZE, QMODEM_VOIP_MEDIA_SAMPLES)"
    using sent_offset [of t p] g711_round(2) [OF enc] len by (simp add: packet_def)
  have pl: "take QMODEM_VOIP_MEDIA_SAMPLES (drop RTP_HEADER_SIZE packet) = p"
    using g711_round(2) [OF enc] len by (simp add: packet_def)
  have push: "qmodem_voip_media_queue_push (me_canonical_to_modem e) (map (coded (rt_codec t)) samples) ts =
      (0, mq_put (map (coded (rt_codec t)) samples, ts) (me_canonical_to_modem e))"
    using wf len by (simp add: qmodem_voip_media_queue_push_def mq_put_def mq_wf_def)
  show ?thesis
    unfolding packet_def [symmetric] receive_audio_def off option.case prod.case c codec rtp pl g711_round(1) [OF enc]
    using mq.push_contents [OF wf] sent_header [of t p] push
    by (simp add: rtp_note_def packet_def)
qed

section \<open>Properties\<close>

text \<open>A frame that is sent arrives. The packet \<open>send_audio\<close> writes for the oldest queued
  frame, received by a transport of the same codec, is queued there as the coded frame with its
  sequence number and timestamp; the sender's sequence number advances by one packet and its
  timestamp by one frame.\<close>

lemma rtp_round_trip:
  assumes "mq_wf (me_modem_to_canonical engine)" "mq_contents (me_modem_to_canonical engine) = (samples, ts0) # rest"
    and "length samples = QMODEM_VOIP_MEDIA_SAMPLES"
    and "send_audio sendto t engine = (1, t', engine', Some packet)"
    and "rt_codec u = rt_codec t" "mq_wf (me_canonical_to_modem e)"
  shows "\<exists>e'. receive_audio u packet ts e = (1, e') \<and>
     mq_contents (me_canonical_to_modem e') = lastn QMODEM_VOIP_MEDIA_QUEUE_FRAMES
       (mq_contents (me_canonical_to_modem e) @ [(map (coded (rt_codec t)) samples, ts)]) \<and>
     re_sequence (me_rtp e') = rt_sequence t \<and> re_timestamp (me_rtp e') = rt_timestamp t \<and>
     rt_sequence t' = rt_sequence t + 1 \<and> rt_timestamp t' = rt_timestamp t + 160"
proof -
  obtain f q where pop: "qmodem_voip_media_queue_pop (me_modem_to_canonical engine) = (0, f, q)" "fr_samples f = samples"
    using pop_frame [OF assms(1,2)] by auto
  have "mq_count (me_modem_to_canonical engine) \<noteq> 0"
    using assms(2) length_mq_contents [of "me_modem_to_canonical engine"] by simp
  with pop assms(4) obtain p where "qmodem_voip_media_g711_encode (rt_codec t) samples = Some p" "packet = rtp_header t @ p"
    "rt_sequence t' = rt_sequence t + 1" "rt_timestamp t' = rt_timestamp t + 160"
    by (auto simp: send_audio_def Let_def split: option.splits if_splits)
  with receive_sent [OF _ assms(3,5,6)] show ?thesis by blast
qed

definition sample_transport :: qmodem_voip_rtp_transport where
  "sample_transport = zero_transport\<lparr>rt_fd := 9, rt_active := True, rt_has_engine := True, rt_codec := 8,
     rt_peer_address := 5, rt_peer_port := 4000, rt_sequence := 0xffff, rt_timestamp := 320\<rparr>"

end
