(* ===== verification/Voip_Daemon.thy ===== *)
theory Voip_Daemon
  imports Call_State
begin

text \<open>
  The event handlers of the voice daemon, \<open>application/voipd/src/daemon_core.c\<close>, with the
  cached AT route of \<open>at_direct.c\<close>.

  The context structure is the record \<open>voip_context\<close> (its media engine is represented by the
  few fields the handlers read). What a handler learns from the world while it runs (the clocks,
  the helper programs it forks, the bus, the history file) is the record \<open>voip_env\<close>; what it
  does to the world is the list of \<open>voip_fx\<close> it returns. The call machine runs with the
  daemon's own callbacks \<open>voip_callbacks\<close>; the effects it returns are replayed on the context
  in their order by \<open>replay\<close>.
\<close>

section \<open>The cached AT route\<close>

record at_direct =
  ad_port :: string
  ad_object :: u32
  ad_pending :: bool
  ad_failures :: u32

definition qmodem_voip_at_direct_reset :: "at_direct \<Rightarrow> at_direct" where
  "qmodem_voip_at_direct_reset x = x\<lparr>ad_port := [], ad_object := 0, ad_pending := False\<rparr>"

definition qmodem_voip_at_direct_ready :: "at_direct \<Rightarrow> string option \<Rightarrow> bool" where
  "qmodem_voip_at_direct_ready x call_port \<longleftrightarrow>
     ad_port x \<noteq> [] \<and> ad_object x \<noteq> 0 \<and> \<not> ad_pending x \<and> call_port = Some (ad_port x)"

definition qmodem_voip_at_direct_learn :: "at_direct \<Rightarrow> string option \<Rightarrow> u32 \<Rightarrow> at_direct" where
  "qmodem_voip_at_direct_learn x port object =
     (let y = qmodem_voip_at_direct_reset x in
      case port of None \<Rightarrow> y
      | Some p \<Rightarrow> if p = [] \<or> length p \<ge> AT_PORT_SIZE \<or> object = 0 then y
                  else y\<lparr>ad_port := p, ad_object := object\<rparr>)"

definition qmodem_voip_at_direct_begin :: "at_direct \<Rightarrow> at_direct" where
  "qmodem_voip_at_direct_begin x = x\<lparr>ad_pending := True\<rparr>"

definition qmodem_voip_at_direct_done :: "at_direct \<Rightarrow> bool \<Rightarrow> at_direct" where
  "qmodem_voip_at_direct_done x ok =
     (let y = x\<lparr>ad_pending := False\<rparr>
      in if ok then y else qmodem_voip_at_direct_reset (y\<lparr>ad_failures := ad_failures y + 1\<rparr>))"

definition qmodem_voip_at_direct_reply_ok :: "string option \<Rightarrow> bool" where
  "qmodem_voip_at_direct_reply_ok status \<longleftrightarrow> status = Some ''success''"

section \<open>State, environment and effects\<close>

record voip_profile =
  vp_adb_unlock :: bool
  vp_media_gate :: bool
  vp_voice_server_restart :: bool
  vp_voice_server_service :: string
  vp_dependency_service :: string
  vp_idle_clcc_poll :: bool

record voip_context =
  dm_call :: qmodem_voip_call
  dm_idle_at :: at_direct
  dm_idle_at_reply_ok :: bool
  dm_profile :: voip_profile
  dm_serial_backend :: bool
  dm_media_ready :: bool
  dm_rtp_active :: bool
  dm_browser_timer :: "nat option"
  dm_call_timer :: "nat option"
  dm_activation_timer :: "nat option"
  dm_activation_attempts :: u32
  dm_restart_timer :: "nat option"
  dm_arm_pending :: bool
  dm_voice_restart_pending :: bool
  dm_voice_restart_revision :: u64
  dm_voice_restart_needed :: bool
  dm_command_failed :: bool
  dm_arm_attempts :: u32
  dm_active_generation :: u32
  dm_arm_generation :: u32
  dm_start_enabled :: bool
  dm_stop :: bool
  dm_idle_poll_waits :: u32

text \<open>
  The answers of the world during one handler: the two clocks; what the AT adapter prints as the
  port when a command is about to be sent (\<open>None\<close> when it fails) and whether sending
  succeeded; whether the history file took a record; the exit status of the helper programs; the
  lines of the safety journal; how starting the media engine ends (no device recorded, a failure
  that leaves the engine released, or a running engine, serial or not); and the results of the bus
  calls.
\<close>

datatype media_start = Media_no_slot | Media_failed | Media_started bool

record voip_env =
  en_clocks :: clocks
  en_endpoint :: "string \<Rightarrow> string option"
  en_at :: "string \<Rightarrow> bool"
  en_history :: "qmodem_voip_completed \<Rightarrow> bool"
  en_safety :: "string \<Rightarrow> bool"
  en_journal :: "string list option"
  en_gate :: bool
  en_adb :: "nat option"
  en_uci_set :: "bool \<Rightarrow> bool"
  en_uci_commit :: bool
  en_profile :: voip_profile
  en_media_start :: media_start
  en_fork :: bool
  en_process_add :: bool
  en_object :: "u32 option"
  en_invoke :: bool
  en_reopen_pending :: bool
  en_reopen :: bool

datatype voip_fx =
  Fx_at string | Fx_history qmodem_voip_completed bool | Fx_event string qmodem_voip_call
| Fx_serial_attached bool | Fx_serial_prepare | Fx_serial_reopen | Fx_serial_reset
| Fx_rtp_release | Fx_socket_release | Fx_media_sync | Fx_runtime_release
| Fx_safety string | Fx_uci bool | Fx_arm | Fx_voice_restart string | Fx_sendat string string

text \<open>A reply: the status with its error code, or a snapshot of the call.\<close>

datatype voip_reply = Reply_status ubus_status string | Reply_snapshot

section \<open>Commands and completed calls\<close>

definition strip_eol :: "string \<Rightarrow> string" where
  "strip_eol s = rev (dropWhile (\<lambda>c. c = CHR 0x0A \<or> c = CHR 0x0D) (rev s))"

definition resolve_at_port :: "string option \<Rightarrow> string option" where
  "resolve_at_port output =
     (case output of None \<Rightarrow> None
      | Some s \<Rightarrow> let port = strip_eol (take (AT_PORT_SIZE - 1) s)
                  in if port = [] then None else Some port)"

text \<open>Whether the command was sent, and the call, which may have moved to another port.\<close>

definition run_at :: "voip_env \<Rightarrow> string \<Rightarrow> qmodem_voip_call \<Rightarrow> bool \<times> qmodem_voip_call" where
  "run_at e v c =
     (case resolve_at_port (en_endpoint e v) of None \<Rightarrow> (False, c)
      | Some p \<Rightarrow>
          let (r, c1) = qmodem_voip_call_select_at_port c (Some p)
          in if r < 0 then (False, c1) else (en_at e v, c1))"

text \<open>A completed call is appended to the history and acknowledged only when that succeeded.\<close>

definition record_completed :: "voip_env \<Rightarrow> qmodem_voip_call \<Rightarrow> qmodem_voip_call" where
  "record_completed e c =
     (case qmodem_voip_call_get_completed c of None \<Rightarrow> c
      | Some completed \<Rightarrow>
          if en_history e completed then qmodem_voip_call_ack_completed c else c)"

definition voip_callbacks :: "voip_env \<Rightarrow> callbacks" where
  "voip_callbacks e = \<lparr>cb_command = Some (\<lambda>v c. snd (run_at e v c)),
                       cb_event = Some (\<lambda>_ c. record_completed e c)\<rparr>"

definition journal_enabled :: "string list option \<Rightarrow> bool" where
  "journal_enabled lines = (case lines of None \<Rightarrow> False
     | Some ls \<Rightarrow> list_ex (\<lambda>l. l = ''phase=enabled'' @ [CHR 0x0A] \<or>
                              l = ''phase=enabled'' @ [CHR 0x0D, CHR 0x0A]) ls)"

definition qmodem_voip_prepare_adb :: "voip_env \<Rightarrow> voip_profile \<Rightarrow> int" where
  "qmodem_voip_prepare_adb e profile =
     (if \<not> vp_adb_unlock profile then 0
      else case en_adb e of None \<Rightarrow> -1
           | Some status \<Rightarrow> if status = 2 then 1 else if status = 0 then 0 else -1)"

definition qmodem_voip_prepare_media_gate :: "voip_env \<Rightarrow> voip_profile \<Rightarrow> int" where
  "qmodem_voip_prepare_media_gate e profile =
     (if \<not> vp_media_gate profile then 0 else if en_gate e then 0 else -1)"

definition set_application_enabled :: "voip_env \<Rightarrow> bool \<Rightarrow> int" where
  "set_application_enabled e enabled =
     (if \<not> en_uci_set e enabled then -1 else if en_uci_commit e then 0 else -1)"

section \<open>Publishing events\<close>

type_synonym daemon_state = "voip_context \<times> voip_fx list"

abbreviation emit :: "voip_fx \<Rightarrow> daemon_state \<Rightarrow> daemon_state" where
  "emit x s \<equiv> (fst s, snd s @ [x])"

abbreviation with_ctx :: "(voip_context \<Rightarrow> voip_context) \<Rightarrow> daemon_state \<Rightarrow> daemon_state" where
  "with_ctx f s \<equiv> (f (fst s), snd s)"

definition voice_restart_command :: "voip_profile \<Rightarrow> string" where
  "voice_restart_command p =
     c_copy 256 (if vp_dependency_service p \<noteq> []
       then ''systemctl restart '' @ vp_dependency_service p @ '' && systemctl restart '' @ vp_voice_server_service p
       else ''systemctl restart '' @ vp_voice_server_service p)"

definition restart_voice_server :: "voip_env \<Rightarrow> qmodem_voip_call \<Rightarrow> daemon_state \<Rightarrow> daemon_state" where
  "restart_voice_server e c s =
     (let d = fst s in
      if \<not> vp_voice_server_restart (dm_profile d) \<or> vp_voice_server_service (dm_profile d) = [] then s
      else if dm_voice_restart_pending d then s
      else if dm_voice_restart_revision d = vc_revision c then s
      else if \<not> en_fork e then s
      else emit (Fx_voice_restart (voice_restart_command (dm_profile d)))
             (d\<lparr>dm_voice_restart_revision := vc_revision c,
                dm_voice_restart_pending := en_process_add e\<rparr>, snd s))"

definition call_is_over :: "qmodem_voip_state \<Rightarrow> bool" where
  "call_is_over x \<longleftrightarrow> x = VOIP_IDLE \<or> x = VOIP_TERMINATING \<or> x = VOIP_DISABLED \<or> x = VOIP_FAULT"

definition publish_history :: "voip_env \<Rightarrow> qmodem_voip_call \<Rightarrow> daemon_state \<Rightarrow> daemon_state" where
  "publish_history e c s =
     (case qmodem_voip_call_get_completed c of None \<Rightarrow> s
      | Some completed \<Rightarrow> emit (Fx_history completed (en_history e completed)) s)"

text \<open>A call that became active on a serial backend asks for the audio stream to be armed.\<close>

definition publish_arm :: "qmodem_voip_call \<Rightarrow> daemon_state \<Rightarrow> daemon_state" where
  "publish_arm c s =
     (let d = fst s;
          s1 = (if vc_state c = VOIP_ACTIVE \<and> dm_serial_backend d \<and> dm_arm_attempts d = 0
                then with_ctx (\<lambda>x. x\<lparr>dm_active_generation := dm_active_generation x + 1,
                                    dm_arm_attempts := 1\<rparr>) s
                else s)
      in if dm_serial_backend d \<and> (vc_state c = VOIP_EARLY_MEDIA \<or> vc_state c = VOIP_ACTIVE)
         then emit (Fx_serial_attached True) s1 else s1)"

text \<open>The media of a call that is over is released.\<close>

definition publish_release :: "qmodem_voip_call \<Rightarrow> daemon_state \<Rightarrow> daemon_state" where
  "publish_release c s =
     (if \<not> call_is_over (vc_state c) then s
      else let d = fst s;
               s1 = with_ctx (\<lambda>x. x\<lparr>dm_arm_attempts := 0,
                                   dm_active_generation := dm_active_generation x + 1\<rparr>) s;
               s2 = (if dm_rtp_active d then emit Fx_rtp_release (with_ctx (dm_rtp_active_update (\<lambda>_. False)) s1) else s1);
               s3 = emit Fx_socket_release s2
           in if dm_serial_backend d then emit Fx_serial_reset (emit (Fx_serial_attached False) s3) else s3)"

text \<open>The part of the event callback that follows the history: the call machine has already
  applied the acknowledgement, and \<open>c\<close> is the call it passed.\<close>

definition publish_rest :: "voip_env \<Rightarrow> string \<Rightarrow> qmodem_voip_call \<Rightarrow> daemon_state \<Rightarrow> daemon_state" where
  "publish_rest e event c s =
     (let s1 = publish_arm c (publish_history e c s);
          s2 = (if vc_state c = VOIP_FAULT then with_ctx (dm_voice_restart_needed_update (\<lambda>_. True)) s1 else s1);
          s3 = publish_release c s2;
          s4 = (if vc_state c = VOIP_IDLE \<and> dm_voice_restart_needed (fst s3)
                then restart_voice_server e c (with_ctx (dm_voice_restart_needed_update (\<lambda>_. False)) s3)
                else s3)
      in emit (Fx_event event c) (emit Fx_media_sync s4))"

definition qmodem_voip_publish_event :: "voip_env \<Rightarrow> string \<Rightarrow> daemon_state \<Rightarrow> daemon_state" where
  "qmodem_voip_publish_event e event s =
     (let c = dm_call (fst s)
      in publish_rest e event c (with_ctx (dm_call_update (record_completed e)) s))"

text \<open>The effects of a call operation, applied to the rest of the context.\<close>

fun replay :: "voip_env \<Rightarrow> effect list \<Rightarrow> daemon_state \<Rightarrow> daemon_state" where
  "replay e [] s = s"
| "replay e (Command v # es) s =
     replay e es (let ok = fst (run_at e v (dm_call (fst s)));
                      s1 = (if resolve_at_port (en_endpoint e v) = None then s else emit (Fx_at v) s)
                  in if ok then s1 else with_ctx (dm_command_failed_update (\<lambda>_. True)) s1)"
| "replay e (Event name c # es) s = replay e es (publish_rest e name c s)"

text \<open>Runs a call operation inside the daemon: the new call is stored, its effects are applied.\<close>

definition run_call :: "voip_env \<Rightarrow> int \<times> qmodem_voip_call \<times> effect list \<Rightarrow> daemon_state \<Rightarrow> int \<times> daemon_state" where
  "run_call e outcome s =
     (let (r, c, es) = outcome in (r, replay e es (with_ctx (dm_call_update (\<lambda>_. c)) s)))"

definition set_fault :: "voip_env \<Rightarrow> daemon_state \<Rightarrow> daemon_state" where
  "set_fault e s =
     qmodem_voip_publish_event e ''fault''
       (with_ctx (dm_call_update (\<lambda>c. qmodem_voip_call_touch (c\<lparr>vc_state := VOIP_FAULT\<rparr>))) s)"

section \<open>The serial audio stream\<close>

definition serial_arm_process_done :: "voip_env \<Rightarrow> nat option \<Rightarrow> voip_context \<Rightarrow> daemon_state" where
  "serial_arm_process_done e status d0 =
     (let d = d0\<lparr>dm_arm_pending := False\<rparr> in
      if dm_arm_generation d \<noteq> dm_active_generation d \<or> vc_state (dm_call d) \<noteq> VOIP_ACTIVE then (d, [])
      else if status \<noteq> Some 0 then set_fault e (d, [])
      else (d\<lparr>dm_arm_attempts := 4\<rparr>, []))"

definition start_serial_arm :: "voip_env \<Rightarrow> daemon_state \<Rightarrow> int \<times> daemon_state" where
  "start_serial_arm e s =
     (if dm_arm_pending (fst s) then (0, s)
      else if \<not> en_fork e then (-1, s)
      else let s1 = emit Fx_arm (with_ctx (\<lambda>d. d\<lparr>dm_arm_generation := dm_active_generation d\<rparr>) s)
           in if \<not> en_process_add e then (-1, s1)
              else (0, with_ctx (\<lambda>d. d\<lparr>dm_arm_pending := True, dm_arm_attempts := dm_arm_attempts d + 1\<rparr>) s1))"

definition voice_restart_process_done :: "voip_context \<Rightarrow> voip_context" where
  "voice_restart_process_done d = d\<lparr>dm_voice_restart_pending := False\<rparr>"

definition qmodem_voip_cancel_serial_prepare :: "voip_env \<Rightarrow> daemon_state \<Rightarrow> daemon_state" where
  "qmodem_voip_cancel_serial_prepare e s =
     (if \<not> dm_serial_backend (fst s) then s
      else if en_reopen_pending e
      then (if en_reopen e then emit (Fx_serial_attached False) (emit Fx_serial_reopen s)
            else with_ctx (dm_media_ready_update (\<lambda>_. False)) (emit Fx_serial_reopen s))
      else emit (Fx_serial_attached False) s)"

section \<open>Call control requests\<close>

datatype call_action = Originate | Answer | Reject | Hangup | Send_dtmf

fun action_name :: "call_action \<Rightarrow> string" where
  "action_name Originate = ''originate''"
| "action_name Answer = ''answer''"
| "action_name Reject = ''reject''"
| "action_name Hangup = ''hangup''"
| "action_name Send_dtmf = ''send_dtmf''"

text \<open>The checks before a call may use the modem's audio: \<open>None\<close> when they pass. The safety
  helper runs only when the earlier checks passed.\<close>

definition media_precheck :: "voip_env \<Rightarrow> daemon_state \<Rightarrow> voip_reply option \<times> daemon_state" where
  "media_precheck e s =
     (let d = fst s; not_ready = Some (Reply_status UBUS_STATUS_NOT_SUPPORTED ''media_not_ready'') in
      if dm_voice_restart_pending d then (not_ready, s)
      else if qmodem_voip_prepare_media_gate e (dm_profile d) \<noteq> 0 then (not_ready, s)
      else if \<not> journal_enabled (en_journal e) then (not_ready, s)
      else if \<not> en_safety e ''recover'' then (not_ready, emit (Fx_safety ''recover'') s)
      else (None, emit (Fx_safety ''recover'') s))"

text \<open>The call operation an action runs, with its preparation; \<open>Inl\<close> is an early reply.\<close>

definition action_run :: "voip_env \<Rightarrow> call_action \<Rightarrow> qmodem_voip_endpoint \<Rightarrow> string option \<Rightarrow> string option
   \<Rightarrow> daemon_state \<Rightarrow> (voip_reply + int) \<times> daemon_state" where
  "action_run e action ep number digit s =
     (let k = en_clocks e; cb = voip_callbacks e; c = dm_call (fst s) in
      case action of
        Send_dtmf \<Rightarrow>
          (case digit of
             Some [x] \<Rightarrow> apfst Inr (run_call e (qmodem_voip_send_dtmf cb c ep x) s)
           | _ \<Rightarrow> (Inl (Reply_status UBUS_STATUS_INVALID_ARGUMENT ''invalid_dtmf''), s))
      | Originate \<Rightarrow>
          if number = None then (Inl (Reply_status UBUS_STATUS_INVALID_ARGUMENT ''invalid_number''), s)
          else if vc_state c \<noteq> VOIP_IDLE then (Inl (Reply_status UBUS_STATUS_NOT_SUPPORTED ''busy''), s)
          else (case media_precheck e s of
                  (Some reply, s1) \<Rightarrow> (Inl reply, s1)
                | (None, s1) \<Rightarrow>
                    let s2 = with_ctx (dm_arm_attempts_update (\<lambda>_. 0)) (emit Fx_serial_prepare s1);
                        (r, s3) = run_call e (qmodem_voip_originate cb k c ep number) s2
                    in (Inr r, if r \<noteq> 0 then qmodem_voip_cancel_serial_prepare e s3 else s3))
      | Answer \<Rightarrow>
          (case media_precheck e s of
             (Some reply, s1) \<Rightarrow> (Inl reply, s1)
           | (None, s1) \<Rightarrow>
               let (r, s3) = run_call e (qmodem_voip_answer cb k c ep) (emit Fx_serial_prepare s1)
               in (Inr r, if r \<noteq> 0 then qmodem_voip_cancel_serial_prepare e s3 else s3))
      | Reject \<Rightarrow> apfst Inr (run_call e (qmodem_voip_reject cb c ep) s)
      | Hangup \<Rightarrow> apfst Inr (run_call e (qmodem_voip_hangup cb c ep) s))"

text \<open>The reply of a finished action, by its result code.\<close>

definition action_reply :: "voip_env \<Rightarrow> call_action \<Rightarrow> int \<Rightarrow> daemon_state \<Rightarrow> voip_reply \<times> daemon_state" where
  "action_reply e action r s =
     (if dm_command_failed (fst s) then
        (if action = Send_dtmf then (Reply_status UBUS_STATUS_UNKNOWN_ERROR ''at_failed'', s)
         else (Reply_status UBUS_STATUS_UNKNOWN_ERROR ''at_failed'',
               set_fault e (qmodem_voip_cancel_serial_prepare e s)))
      else if action = Send_dtmf then
        (if r = -4 then (Reply_status UBUS_STATUS_INVALID_ARGUMENT ''invalid_dtmf'', s)
         else if r = -3 then (Reply_status UBUS_STATUS_PERMISSION_DENIED ''invalid_endpoint'', s)
         else if r = -2 then (Reply_status UBUS_STATUS_NOT_SUPPORTED ''invalid_state'', s)
         else if r \<noteq> 0 then (Reply_status UBUS_STATUS_INVALID_ARGUMENT ''invalid_endpoint'', s)
         else (Reply_snapshot, s))
      else if r = -3 then (Reply_status UBUS_STATUS_NOT_SUPPORTED ''busy'', s)
      else if r = -2 then (Reply_status UBUS_STATUS_INVALID_ARGUMENT ''invalid_state'', s)
      else if r \<noteq> 0 then (Reply_status UBUS_STATUS_INVALID_ARGUMENT
             (if action = Originate then ''invalid_number'' else ''invalid_endpoint''), s)
      else (Reply_snapshot, qmodem_voip_publish_event e (action_name action) s))"

definition action_call :: "voip_env \<Rightarrow> call_action \<Rightarrow> string option \<Rightarrow> string option \<Rightarrow> string option
   \<Rightarrow> voip_context \<Rightarrow> voip_reply \<times> daemon_state" where
  "action_call e action endpoint number digit d =
     (case qmodem_voip_endpoint_parse endpoint of
        None \<Rightarrow> (Reply_status UBUS_STATUS_INVALID_ARGUMENT ''invalid_endpoint'', (d, []))
      | Some ep \<Rightarrow>
          if \<not> vc_enabled (dm_call d)
          then (Reply_status UBUS_STATUS_NOT_SUPPORTED ''disabled'', (d, []))
          else (case action_run e action ep number digit (d\<lparr>dm_command_failed := False\<rparr>, []) of
                  (Inl reply, s) \<Rightarrow> (reply, s)
                | (Inr r, s) \<Rightarrow> action_reply e action r s))"

section \<open>Activation\<close>

datatype activation = Activation_failed | Activation_ready | Activation_restart

definition release_runtime :: "daemon_state \<Rightarrow> daemon_state" where
  "release_runtime s = emit Fx_runtime_release (with_ctx
     (\<lambda>d. d\<lparr>dm_browser_timer := None, dm_rtp_active := False, dm_media_ready := False,
            dm_serial_backend := False\<rparr>) s)"

definition activate_runtime :: "voip_env \<Rightarrow> daemon_state \<Rightarrow> activation \<times> daemon_state" where
  "activate_runtime e s =
     (let adb = qmodem_voip_prepare_adb e (dm_profile (fst s)) in
      if adb < 0 then (Activation_failed, s)
      else if adb > 0 then (Activation_restart, s)
      else if qmodem_voip_prepare_media_gate e (dm_profile (fst s)) \<noteq> 0 then (Activation_failed, s)
      else let s1 = emit (Fx_safety ''enable'') s in
      if \<not> en_safety e ''enable'' then (Activation_failed, s1)
      else let s2 = with_ctx (dm_profile_update (\<lambda>_. en_profile e)) s1 in
      case en_media_start e of
        Media_no_slot \<Rightarrow> (Activation_failed, emit (Fx_safety ''disable'') s2)
      | Media_failed \<Rightarrow> (Activation_failed, emit (Fx_safety ''disable'')
          (with_ctx (\<lambda>d. d\<lparr>dm_serial_backend := False, dm_media_ready := False\<rparr>) s2))
      | Media_started serial \<Rightarrow>
           let s3 = with_ctx (\<lambda>d. d\<lparr>dm_serial_backend := serial, dm_media_ready := True,
                      dm_call := qmodem_voip_call_set_enabled (en_clocks e) (dm_call d) True,
                      dm_command_failed := False\<rparr>) s2;
               (r, s4) = run_call e (qmodem_voip_start_recovery (voip_callbacks e) (dm_call (fst s3))) s3
           in if r \<noteq> 0 \<or> dm_command_failed (fst s4)
              then (Activation_failed, with_ctx (dm_call_update
                     (\<lambda>c. qmodem_voip_call_set_enabled (en_clocks e) c False))
                     (emit (Fx_safety ''disable'') (release_runtime s4)))
              else (Activation_ready, qmodem_voip_publish_event e ''enabled''
                     (with_ctx (dm_browser_timer_update (\<lambda>_. Some 20)) s4)))"

definition schedule_modem_reenumeration :: "voip_env \<Rightarrow> daemon_state \<Rightarrow> daemon_state" where
  "schedule_modem_reenumeration e s =
     with_ctx (\<lambda>d. d\<lparr>dm_call := qmodem_voip_call_touch
         ((qmodem_voip_call_set_enabled (en_clocks e) (dm_call d) True)\<lparr>vc_state := VOIP_RECOVERING\<rparr>),
         dm_restart_timer := Some 500\<rparr>) s"

abbreviation QMODEM_VOIP_ACTIVATION_ATTEMPTS :: u32 where "QMODEM_VOIP_ACTIVATION_ATTEMPTS \<equiv> 18"
abbreviation QMODEM_VOIP_ACTIVATION_RETRY_MS :: nat where "QMODEM_VOIP_ACTIVATION_RETRY_MS \<equiv> 10000"

definition qmodem_voip_activation_timer :: "voip_env \<Rightarrow> voip_context \<Rightarrow> daemon_state" where
  "qmodem_voip_activation_timer e d0 =
     (let d = d0\<lparr>dm_activation_timer := None\<rparr> in
      if \<not> dm_start_enabled d \<or> vc_enabled (dm_call d) then (d, [])
      else case activate_runtime e (d, []) of
             (Activation_restart, s) \<Rightarrow> schedule_modem_reenumeration e s
           | (Activation_ready, s) \<Rightarrow> s
           | (Activation_failed, s) \<Rightarrow>
               let s1 = with_ctx (\<lambda>x. x\<lparr>dm_activation_attempts := dm_activation_attempts x + 1\<rparr>) s
               in if dm_activation_attempts (fst s1) < QMODEM_VOIP_ACTIVATION_ATTEMPTS
                  then with_ctx (dm_activation_timer_update (\<lambda>_. Some QMODEM_VOIP_ACTIVATION_RETRY_MS)) s1
                  else emit (Fx_uci False) (with_ctx (dm_start_enabled_update (\<lambda>_. False)) s1))"

definition qmodem_voip_restart_timer :: "voip_context \<Rightarrow> voip_context" where
  "qmodem_voip_restart_timer d = d\<lparr>dm_restart_timer := None, dm_stop := True\<rparr>"

definition enable_method :: "voip_env \<Rightarrow> voip_context \<Rightarrow> voip_reply \<times> daemon_state" where
  "enable_method e d0 =
     (let d = d0\<lparr>dm_command_failed := False\<rparr> in
      if vc_enabled (dm_call d) then (Reply_snapshot, (d, []))
      else if set_application_enabled e True \<noteq> 0
      then (Reply_status UBUS_STATUS_UNKNOWN_ERROR ''config_failed'', (d, [Fx_uci True]))
      else case activate_runtime e (d\<lparr>dm_start_enabled := True\<rparr>, [Fx_uci True]) of
             (Activation_restart, s) \<Rightarrow> (Reply_snapshot, schedule_modem_reenumeration e s)
           | (Activation_failed, s) \<Rightarrow> (Reply_status UBUS_STATUS_NOT_SUPPORTED ''unsupported'',
               emit (Fx_uci False) (with_ctx (dm_start_enabled_update (\<lambda>_. False)) s))
           | (Activation_ready, s) \<Rightarrow> (Reply_snapshot, s))"

definition disable_method :: "voip_env \<Rightarrow> voip_context \<Rightarrow> voip_reply \<times> daemon_state" where
  "disable_method e d0 =
     (let d = d0\<lparr>dm_command_failed := False\<rparr>; finish = (\<lambda>s. (Reply_snapshot,
            qmodem_voip_publish_event e ''disabled'' (release_runtime (with_ctx (dm_call_update
              (\<lambda>c. qmodem_voip_call_set_enabled (en_clocks e) c False)) s)))) in
      if set_application_enabled e False \<noteq> 0
      then (Reply_status UBUS_STATUS_UNKNOWN_ERROR ''config_failed'', (d, [Fx_uci False]))
      else let s1 = (d\<lparr>dm_start_enabled := False, dm_activation_timer := None\<rparr>, [Fx_uci False]) in
      if dm_restart_timer d \<noteq> None then finish (with_ctx (dm_restart_timer_update (\<lambda>_. None)) s1)
      else if vc_enabled (dm_call d) then
        (if en_safety e ''disable'' then finish (emit (Fx_safety ''disable'') s1)
         else (Reply_status UBUS_STATUS_UNKNOWN_ERROR ''restore_failed'',
               emit (Fx_uci True) (with_ctx (dm_start_enabled_update (\<lambda>_. True)) (emit (Fx_safety ''disable'') s1))))
      else finish s1)"

section \<open>Events from the AT daemon\<close>

definition qmodem_voip_correlation_parse :: "string option \<Rightarrow> qmodem_voip_correlation" where
  "qmodem_voip_correlation_parse v =
     (if v = None \<or> v = Some ''response'' then CORR_RESPONSE
      else if v = Some ''terminal'' then CORR_TERMINAL
      else if v = Some ''ambiguous'' then CORR_AMBIGUOUS
      else CORR_IDLE)"

text \<open>The fields of an event message; a missing attribute is \<open>None\<close>.\<close>

record at_message =
  ms_port :: "string option"
  ms_owner :: "string option"
  ms_epoch :: "u64 option"
  ms_sequence :: "u64 option"
  ms_raw :: "string option"
  ms_correlation :: "string option"
  ms_command_id :: "u64 option"
  ms_drop_count :: "u64 option"

definition feed_line :: "voip_env \<Rightarrow> at_message \<Rightarrow> qmodem_voip_correlation \<Rightarrow> u64 \<Rightarrow> voip_context \<Rightarrow> daemon_state" where
  "feed_line e m correlation command_id d =
     (let s = snd (run_call e (qmodem_voip_line (voip_callbacks e) (en_clocks e) (dm_call d) (ms_port m)
                     (the (ms_epoch m)) (the (ms_sequence m)) (ms_raw m) correlation command_id
                     (case ms_drop_count m of None \<Rightarrow> 0 | Some n \<Rightarrow> n)) (d\<lparr>dm_command_failed := False\<rparr>, []))
      in if dm_command_failed (fst s) then set_fault e s else s)"

definition at_line_event :: "voip_env \<Rightarrow> at_message \<Rightarrow> voip_context \<Rightarrow> daemon_state" where
  "at_line_event e m d =
     (if ms_port m = None \<or> ms_epoch m = None \<or> ms_sequence m = None \<or> ms_raw m = None then (d, [])
      else let command_id = (case ms_command_id m of None \<Rightarrow> 0 | Some n \<Rightarrow> n) in
      if ms_command_id m = None \<or> command_id = 0 \<or>
         qmodem_voip_correlation_parse (ms_correlation m) = CORR_IDLE then (d, [])
      else feed_line e m (qmodem_voip_correlation_parse (ms_correlation m)) command_id d)"

definition at_urc_event :: "voip_env \<Rightarrow> at_message \<Rightarrow> voip_context \<Rightarrow> daemon_state" where
  "at_urc_event e m d =
     (if ms_port m = None \<or> ms_owner m \<noteq> Some ''qmodem.voip'' \<or> ms_raw m = None \<or> ms_epoch m = None \<or>
         ms_sequence m = None then (d, [])
      else feed_line e m CORR_IDLE 0 d)"

section \<open>The periodic timer\<close>

text \<open>Sending the idle poll over the cached route, or through the adapter, which teaches the
  route.\<close>

definition idle_callbacks :: "voip_env \<Rightarrow> at_direct \<Rightarrow> callbacks" where
  "idle_callbacks e route =
     \<lparr>cb_command = Some (\<lambda>v c. if qmodem_voip_at_direct_ready route (Some (vc_at_port c)) then c
                               else snd (run_at e v c)),
      cb_event = None\<rparr>"

definition qmodem_voip_issue_idle_at :: "voip_env \<Rightarrow> string \<Rightarrow> bool \<Rightarrow> daemon_state \<Rightarrow> daemon_state" where
  "qmodem_voip_issue_idle_at e v ready s =
     (let d = fst s in
      if \<not> ready then
        (let s1 = (if resolve_at_port (en_endpoint e v) = None then s else emit (Fx_at v) s)
         in if \<not> fst (run_at e v (dm_call d)) then with_ctx (dm_command_failed_update (\<lambda>_. True)) s1
            else case en_object e of None \<Rightarrow> s1
                 | Some object \<Rightarrow> with_ctx (dm_idle_at_update (\<lambda>x. qmodem_voip_at_direct_learn x
                      (Some (vc_at_port (dm_call d))) object)) s1)
      else let s1 = emit (Fx_sendat (ad_port (dm_idle_at d)) v)
                      (with_ctx (dm_idle_at_reply_ok_update (\<lambda>_. False)) s)
           in if \<not> en_invoke e
              then with_ctx (\<lambda>x. x\<lparr>dm_idle_at := qmodem_voip_at_direct_done (dm_idle_at x) False,
                                  dm_command_failed := True\<rparr>) s1
              else with_ctx (dm_idle_at_update qmodem_voip_at_direct_begin) s1)"

definition clear_idle_poll :: "qmodem_voip_call \<Rightarrow> qmodem_voip_call" where
  "clear_idle_poll c = c\<lparr>vc_idle_poll := False, vc_reconcile_pending := False, vc_reconcile_command_id := 0\<rparr>"

definition idle_at_data :: "string option \<Rightarrow> voip_context \<Rightarrow> voip_context" where
  "idle_at_data status d = d\<lparr>dm_idle_at_reply_ok := qmodem_voip_at_direct_reply_ok status\<rparr>"

definition idle_at_failed :: "voip_context \<Rightarrow> voip_context" where
  "idle_at_failed d =
     (let d1 = d\<lparr>dm_idle_at := qmodem_voip_at_direct_done (dm_idle_at d) False\<rparr>
      in if vc_idle_poll (dm_call d1) then d1\<lparr>dm_call := clear_idle_poll (dm_call d1)\<rparr> else d1)"

definition idle_at_complete :: "int \<Rightarrow> voip_context \<Rightarrow> voip_context" where
  "idle_at_complete result d =
     (if result = 0 \<and> dm_idle_at_reply_ok d
      then d\<lparr>dm_idle_at := qmodem_voip_at_direct_done (dm_idle_at d) True\<rparr>
      else idle_at_failed d)"

definition timer_arm :: "voip_env \<Rightarrow> daemon_state \<Rightarrow> daemon_state" where
  "timer_arm e s =
     (let d = fst s in
      if vc_state (dm_call d) = VOIP_ACTIVE \<and> dm_serial_backend d \<and> 0 < dm_arm_attempts d \<and> dm_arm_attempts d \<le> 3
      then (let (r, s1) = start_serial_arm e s in if r \<noteq> 0 then set_fault e s1 else s1)
      else s)"

text \<open>An idle poll that stays unanswered for five periods is given up.\<close>

definition idle_poll_expire :: "daemon_state \<Rightarrow> daemon_state" where
  "idle_poll_expire s =
     (let waiting = (vc_reconcile_pending (dm_call (fst s)) \<and> vc_idle_poll (dm_call (fst s)));
          s1 = (if waiting then with_ctx (\<lambda>d. d\<lparr>dm_idle_poll_waits := dm_idle_poll_waits d + 1\<rparr>) s else s)
      in if waiting \<and> dm_idle_poll_waits (fst s1) \<ge> 5
         then with_ctx (\<lambda>d. d\<lparr>dm_call := clear_idle_poll (dm_call d),
                dm_idle_at := (if ad_pending (dm_idle_at d)
                               then qmodem_voip_at_direct_done (dm_idle_at d) False
                               else dm_idle_at d)\<rparr>) s1
         else s1)"

definition idle_poll_send :: "voip_env \<Rightarrow> daemon_state \<Rightarrow> daemon_state" where
  "idle_poll_send e s =
     (let s1 = with_ctx (\<lambda>d. d\<lparr>dm_idle_poll_waits := 0, dm_command_failed := False\<rparr>) s;
          route = dm_idle_at (fst s1);
          ready = qmodem_voip_at_direct_ready route (Some (vc_at_port (dm_call (fst s1))));
          (r, c, es) = qmodem_voip_poll_idle (idle_callbacks e route) (dm_call (fst s1));
          s2 = with_ctx (dm_call_update (\<lambda>_. c)) s1;
          s3 = (if r = 0 then qmodem_voip_issue_idle_at e ''AT+CLCC'' ready s2 else s2)
      in if dm_command_failed (fst s3) then with_ctx (dm_call_update clear_idle_poll) s3 else s3)"

definition timer_idle_poll :: "voip_env \<Rightarrow> daemon_state \<Rightarrow> daemon_state" where
  "timer_idle_poll e s =
     (let s1 = idle_poll_expire s
      in if vc_reconcile_pending (dm_call (fst s1)) then s1 else idle_poll_send e s1)"

definition timer_poll :: "voip_env \<Rightarrow> daemon_state \<Rightarrow> daemon_state" where
  "timer_poll e s =
     (let c = dm_call (fst s); st = vc_state c;
          polled = snd (run_call e (qmodem_voip_poll_active (voip_callbacks e) c)
                     (with_ctx (dm_command_failed_update (\<lambda>_. False)) s)) in
      if vc_enabled c \<and> (st = VOIP_OUTGOING_SETUP \<or> st = VOIP_INCOMING_RINGING \<or> st = VOIP_EARLY_MEDIA)
      then (if dm_command_failed (fst polled) then set_fault e polled else polled)
      else if vc_enabled c \<and> (st = VOIP_ACTIVE \<or> st = VOIP_TERMINATING) \<and> \<not> vc_reconcile_pending c
      then (if dm_command_failed (fst polled)
            then with_ctx (dm_call_update (\<lambda>x. x\<lparr>vc_reconcile_pending := False, vc_reconcile_command_id := 0\<rparr>)) polled
            else polled)
      else if vc_enabled c \<and> st = VOIP_IDLE \<and> vp_idle_clcc_poll (dm_profile (fst s)) then timer_idle_poll e s
      else s)"

definition qmodem_voip_call_timer :: "voip_env \<Rightarrow> voip_context \<Rightarrow> daemon_state" where
  "qmodem_voip_call_timer e d =
     (let s1 = timer_arm e (d\<lparr>dm_call_timer := None\<rparr>, []);
          s2 = (if dm_arm_pending (fst s1) then s1 else timer_poll e s1)
      in with_ctx (dm_call_timer_update (\<lambda>_. Some 1000)) s2)"

section \<open>The daemon's callbacks keep the call machine's contract\<close>

lemma run_at_cases:
  "snd (run_at e v c) = c \<or>
   (\<exists>p. length p < AT_PORT_SIZE \<and> p \<noteq> vc_at_port c \<and>
      snd (run_at e v c) = c\<lparr>vc_at_port := p, vc_restart_epoch := 0, vc_sequence := 0,
        vc_drop_count := 0, vc_reconcile_command_id := 0\<rparr>)"
proof (cases "resolve_at_port (en_endpoint e v)")
  case None
  then show ?thesis by (simp add: run_at_def)
next
  case (Some p)
  then have "snd (run_at e v c) = snd (qmodem_voip_call_select_at_port c (Some p))"
    by (simp add: run_at_def split_beta Let_def)
  then show ?thesis
    by (cases "p = [] \<or> length p \<ge> AT_PORT_SIZE \<or> vc_at_port c = p")
       (auto simp: qmodem_voip_call_select_at_port_def intro!: exI [of _ p])
qed

lemma record_completed_cases:
  "record_completed e c = (if cc_pending (vc_completed c) \<and> en_history e (vc_completed c)
     then qmodem_voip_call_ack_completed c else c)"
  by (simp add: record_completed_def qmodem_voip_call_get_completed_def)

lemma same_call_frame:
  "\<exists>p ep s d r. c = c\<lparr>vc_at_port := p, vc_restart_epoch := ep, vc_sequence := s,
         vc_drop_count := d, vc_reconcile_command_id := r\<rparr> \<and>
         (p = vc_at_port c \<or> length p < AT_PORT_SIZE)"
  by (intro exI [of _ "vc_at_port c"] exI [of _ "vc_restart_epoch c"] exI [of _ "vc_sequence c"]
        exI [of _ "vc_drop_count c"] exI [of _ "vc_reconcile_command_id c"]) simp

lemma run_at_frame:
  "\<exists>p ep s d r. snd (run_at e v c) = c\<lparr>vc_at_port := p, vc_restart_epoch := ep, vc_sequence := s,
         vc_drop_count := d, vc_reconcile_command_id := r\<rparr> \<and>
         (p = vc_at_port c \<or> length p < AT_PORT_SIZE)"
  using run_at_cases [of e v c]
proof
  assume "snd (run_at e v c) = c"
  with same_call_frame [of c] show ?thesis by (simp only:)
next
  assume "\<exists>p. length p < AT_PORT_SIZE \<and> p \<noteq> vc_at_port c \<and>
      snd (run_at e v c) = c\<lparr>vc_at_port := p, vc_restart_epoch := 0, vc_sequence := 0,
        vc_drop_count := 0, vc_reconcile_command_id := 0\<rparr>"
  then show ?thesis by blast
qed

interpretation vcb: port_callbacks "voip_callbacks e" for e
proof
  show "\<exists>p ep s d r. f v c = c\<lparr>vc_at_port := p, vc_restart_epoch := ep, vc_sequence := s,
         vc_drop_count := d, vc_reconcile_command_id := r\<rparr> \<and>
         (p = vc_at_port c \<or> length p < AT_PORT_SIZE)"
    if "cb_command (voip_callbacks e) = Some f" for f v c
    using that run_at_frame [of e v c] by (auto simp: voip_callbacks_def)
  show "g v c = c \<or> g v c = qmodem_voip_call_ack_completed c"
    if "cb_event (voip_callbacks e) = Some g" for g v c
    using that by (auto simp: voip_callbacks_def record_completed_cases)
  show "f v c = c"
    if "cb_command (voip_callbacks e) = Some f" "vc_at_port (f v c) = vc_at_port c" for f v c
    using that run_at_cases [of e v c] by (auto simp: voip_callbacks_def)
qed

interpretation vhist: history_callbacks "voip_callbacks e" "en_history e" for e
  by unfold_locales (auto simp: voip_callbacks_def record_completed_cases)

interpretation vidle: call_callbacks "idle_callbacks e route" for e route
proof
  show "\<exists>p ep s d r. f v c = c\<lparr>vc_at_port := p, vc_restart_epoch := ep, vc_sequence := s,
         vc_drop_count := d, vc_reconcile_command_id := r\<rparr> \<and>
         (p = vc_at_port c \<or> length p < AT_PORT_SIZE)"
    if "cb_command (idle_callbacks e route) = Some f" for f v c
  proof -
    have f: "f v c = (if qmodem_voip_at_direct_ready route (Some (vc_at_port c)) then c else snd (run_at e v c))"
      using that by (auto simp: idle_callbacks_def)
    show ?thesis
      unfolding f using run_at_frame [of e v c] same_call_frame [of c]
      by (cases "qmodem_voip_at_direct_ready route (Some (vc_at_port c))") (simp_all only: if_True if_False)
  qed
qed (simp add: idle_callbacks_def)

section \<open>Every handler keeps the invariant of the call\<close>

lemma dm_call_emit [simp]: "dm_call (fst (emit x s)) = dm_call (fst s)"
  by simp

lemma dm_call_publish_parts [simp]:
  "dm_call (fst (publish_history e c s)) = dm_call (fst s)"
  "dm_call (fst (publish_arm c s)) = dm_call (fst s)"
  "dm_call (fst (publish_release c s)) = dm_call (fst s)"
  "dm_call (fst (restart_voice_server e c s)) = dm_call (fst s)"
  by (simp_all add: publish_history_def publish_arm_def publish_release_def restart_voice_server_def
      Let_def split: option.split)

lemma dm_call_publish_rest [simp]: "dm_call (fst (publish_rest e name c s)) = dm_call (fst s)"
  by (simp add: publish_rest_def Let_def)

lemma dm_call_publish [simp]:
  "dm_call (fst (qmodem_voip_publish_event e name s)) = record_completed e (dm_call (fst s))"
  by (simp add: qmodem_voip_publish_event_def Let_def)

lemma dm_call_replay [simp]: "dm_call (fst (replay e es s)) = dm_call (fst s)"
  by (induction e es s rule: replay.induct) (simp_all add: Let_def)

lemma dm_call_run [simp]: "dm_call (fst (snd (run_call e oc s))) = fst (snd oc)"
  by (simp add: run_call_def split_beta)

lemma dm_call_cancel [simp]: "dm_call (fst (qmodem_voip_cancel_serial_prepare e s)) = dm_call (fst s)"
  by (simp add: qmodem_voip_cancel_serial_prepare_def)

lemma dm_call_precheck [simp]: "dm_call (fst (snd (media_precheck e s))) = dm_call (fst s)"
  by (simp add: media_precheck_def Let_def)

lemma dm_call_release [simp]: "dm_call (fst (release_runtime s)) = dm_call (fst s)"
  by (simp add: release_runtime_def)

lemma call_ok_record: "call_ok c \<Longrightarrow> call_ok (record_completed e c)"
  by (simp add: record_completed_cases call_ok_ack)

lemma call_ok_set_fault:
  "call_ok (dm_call (fst s)) \<Longrightarrow> vc_enabled (dm_call (fst s)) \<Longrightarrow> call_ok (dm_call (fst (set_fault e s)))"
  by (simp add: set_fault_def call_ok_record call_ok_touch call_ok_to_busy)

lemma enabled_ops:
  "vc_enabled (fst (snd (qmodem_voip_originate (voip_callbacks e) k c ep n))) = vc_enabled c"
  "vc_enabled (fst (snd (qmodem_voip_answer (voip_callbacks e) k c ep))) = vc_enabled c"
  "vc_enabled (fst (snd (terminate (voip_callbacks e) c ep))) = vc_enabled c"
  "vc_enabled (fst (snd (qmodem_voip_send_dtmf (voip_callbacks e) c ep x))) = vc_enabled c"
  "vc_enabled (fst (snd (qmodem_voip_start_recovery (voip_callbacks e) c))) = vc_enabled c"
  "vc_enabled (fst (snd (qmodem_voip_poll_active (voip_callbacks e) c))) = vc_enabled c"
  by (simp_all add: qmodem_voip_originate_def qmodem_voip_answer_def terminate_def
      qmodem_voip_send_dtmf_def qmodem_voip_start_recovery_def qmodem_voip_poll_active_def Let_def
      qmodem_voip_call_touch_def mark_call_active_def del: issue.simps)

lemma enabled_end_ops:
  "vc_enabled (fst (snd (qmodem_voip_reject (voip_callbacks e) c ep))) = vc_enabled c"
  "vc_enabled (fst (snd (qmodem_voip_hangup (voip_callbacks e) c ep))) = vc_enabled c"
  by (simp_all add: qmodem_voip_reject_def qmodem_voip_hangup_def enabled_ops)

lemma enabled_line:
  "vc_enabled (fst (snd (qmodem_voip_line (voip_callbacks e) k c port ep sq raw cor cmd dr))) = vc_enabled c"
proof -
  have "vc_enabled (fst (line_resync (voip_callbacks e) ep sq c)) = vc_enabled c"
    by (simp add: line_resync_def del: notify.simps issue.simps)
  then show ?thesis
    using vcb.moved_only_dispatch [of "((fst (line_resync (voip_callbacks e) ep sq c))
        \<lparr>vc_restart_epoch := ep, vc_sequence := sq, vc_drop_count := dr\<rparr>,
        snd (line_resync (voip_callbacks e) ep sq c))" e k "the raw" cor cmd]
    by (simp add: qmodem_voip_line_def Let_def split_beta moved_only_def)
qed

text \<open>The outcome of an action: the call stays well formed and stays enabled.\<close>

definition good_call :: "qmodem_voip_call \<Rightarrow> bool" where
  "good_call c \<longleftrightarrow> call_ok c \<and> vc_enabled c"

lemma good_originate: "good_call c \<Longrightarrow> good_call (fst (snd (qmodem_voip_originate (voip_callbacks e) k c ep n)))"
  by (simp add: good_call_def enabled_ops vcb.originate_ok)

lemma good_answer: "good_call c \<Longrightarrow> good_call (fst (snd (qmodem_voip_answer (voip_callbacks e) k c ep)))"
  by (simp add: good_call_def enabled_ops vcb.answer_ok)

lemma good_end:
  "good_call c \<Longrightarrow> good_call (fst (snd (qmodem_voip_reject (voip_callbacks e) c ep)))"
  "good_call c \<Longrightarrow> good_call (fst (snd (qmodem_voip_hangup (voip_callbacks e) c ep)))"
  by (simp_all add: good_call_def enabled_end_ops vcb.reject_ok qmodem_voip_hangup_def vcb.terminate_ok
      enabled_ops)

lemma good_dtmf: "good_call c \<Longrightarrow> good_call (fst (snd (qmodem_voip_send_dtmf (voip_callbacks e) c ep x)))"
  by (simp add: good_call_def enabled_ops vcb.dtmf_ok)

lemma good_poll: "good_call c \<Longrightarrow> good_call (fst (snd (qmodem_voip_poll_active (voip_callbacks e) c)))"
  by (simp add: good_call_def enabled_ops vcb.poll_active_ok)

lemma good_recovery: "good_call c \<Longrightarrow> good_call (fst (snd (qmodem_voip_start_recovery (voip_callbacks e) c)))"
  by (simp add: good_call_def enabled_ops vcb.recovery_ok)

lemma good_fault: "good_call (dm_call (fst s)) \<Longrightarrow> call_ok (dm_call (fst (set_fault e s)))"
  by (simp add: good_call_def call_ok_set_fault)

lemma good_action_run:
  assumes "good_call (dm_call (fst s))"
  shows "good_call (dm_call (fst (snd (action_run e act ep number digit s))))"
proof (cases act)
  case Send_dtmf
  with assms show ?thesis
    by (auto simp: action_run_def Let_def good_dtmf split: option.split list.split)
qed (use assms in \<open>simp_all add: action_run_def Let_def split_beta good_originate good_answer good_end
       split: option.split\<close>)

lemma action_reply_ok:
  assumes "good_call (dm_call (fst s))"
  shows "call_ok (dm_call (fst (snd (action_reply e act r s))))"
proof -
  have "call_ok (dm_call (fst s))" using assms by (simp add: good_call_def)
  with assms show ?thesis
    by (simp add: action_reply_def good_fault call_ok_record)
qed

lemma action_call_ok:
  assumes "call_ok (dm_call d)"
  shows "call_ok (dm_call (fst (snd (action_call e act endpoint number digit d))))"
proof (cases "qmodem_voip_endpoint_parse endpoint = None \<or> \<not> vc_enabled (dm_call d)")
  case True
  with assms show ?thesis by (auto simp: action_call_def split: option.split)
next
  case False
  then obtain ep where ep: "qmodem_voip_endpoint_parse endpoint = Some ep" by auto
  obtain o' s where run: "action_run e act ep number digit (d\<lparr>dm_command_failed := False\<rparr>, []) = (o', s)"
    by (cases "action_run e act ep number digit (d\<lparr>dm_command_failed := False\<rparr>, [])")
  have good: "good_call (dm_call (fst s))"
    using good_action_run [of "(d\<lparr>dm_command_failed := False\<rparr>, [])" e act ep number digit] assms False
    by (simp add: run good_call_def)
  then have "call_ok (dm_call (fst s))" by (simp add: good_call_def)
  with good False ep show ?thesis
    by (simp add: action_call_def run action_reply_ok split: sum.split)
qed

lemma set_enabled_enabled: "vc_enabled (qmodem_voip_call_set_enabled k c b) = b"
  by (simp add: qmodem_voip_call_set_enabled_def Let_def qmodem_voip_call_touch_def complete_call_def)

lemma activate_ok:
  assumes "call_ok (dm_call (fst s))"
  shows "call_ok (dm_call (fst (snd (activate_runtime e s))))"
proof -
  have good: "good_call (qmodem_voip_call_set_enabled k (dm_call (fst s)) True)" for k
    using assms by (simp add: good_call_def call_ok_set_enabled set_enabled_enabled)
  then have "call_ok (fst (snd (qmodem_voip_start_recovery (voip_callbacks e)
      (qmodem_voip_call_set_enabled k (dm_call (fst s)) True))))" for k
    using good_recovery good_call_def by blast
  with assms good show ?thesis
    by (simp add: activate_runtime_def Let_def split_beta call_ok_record call_ok_set_enabled
        split: media_start.split)
qed

lemma schedule_ok:
  assumes "call_ok (dm_call (fst s))"
  shows "call_ok (dm_call (fst (schedule_modem_reenumeration e s)))"
  using assms
  by (simp add: schedule_modem_reenumeration_def call_ok_to_busy call_ok_set_enabled set_enabled_enabled)

lemma activation_timer_ok:
  assumes "call_ok (dm_call d)"
  shows "call_ok (dm_call (fst (qmodem_voip_activation_timer e d)))"
  using assms activate_ok [of "(d\<lparr>dm_activation_timer := None\<rparr>, [])" e]
  by (cases "activate_runtime e (d\<lparr>dm_activation_timer := None\<rparr>, [])")
     (simp add: qmodem_voip_activation_timer_def Let_def schedule_ok split: activation.split)

lemma enable_ok:
  assumes "call_ok (dm_call d)"
  shows "call_ok (dm_call (fst (snd (enable_method e d))))"
  using assms activate_ok [of "(d\<lparr>dm_command_failed := False, dm_start_enabled := True\<rparr>, [Fx_uci True])" e]
  by (cases "activate_runtime e (d\<lparr>dm_command_failed := False, dm_start_enabled := True\<rparr>, [Fx_uci True])")
     (simp add: enable_method_def Let_def schedule_ok split: activation.split)

lemma disable_ok:
  assumes "call_ok (dm_call d)"
  shows "call_ok (dm_call (fst (snd (disable_method e d))))"
  using assms by (simp add: disable_method_def Let_def call_ok_record call_ok_set_enabled)

lemma good_line:
  "good_call c \<Longrightarrow> good_call (fst (snd (qmodem_voip_line (voip_callbacks e) k c port ep sq raw cor cmd dr)))"
  by (simp add: good_call_def enabled_line vcb.line_ok)

lemma feed_ok:
  assumes "call_ok (dm_call d)"
  shows "call_ok (dm_call (fst (feed_line e m cor cmd d)))"
proof (cases "vc_enabled (dm_call d)")
  case True
  define s where "s = snd (run_call e (qmodem_voip_line (voip_callbacks e) (en_clocks e) (dm_call d) (ms_port m)
                     (the (ms_epoch m)) (the (ms_sequence m)) (ms_raw m) cor cmd
                     (case ms_drop_count m of None \<Rightarrow> 0 | Some n \<Rightarrow> n)) (d\<lparr>dm_command_failed := False\<rparr>, []))"
  have good: "good_call (dm_call (fst s))"
    using assms True unfolding s_def dm_call_run by (intro good_line) (simp add: good_call_def)
  then have "call_ok (dm_call (fst s))" by (simp add: good_call_def)
  with good show ?thesis
    by (simp add: feed_line_def s_def [symmetric] good_fault)
next
  case False
  with assms show ?thesis
    by (simp add: feed_line_def qmodem_voip_line_def run_call_def)
qed

lemma at_event_ok:
  assumes "call_ok (dm_call d)"
  shows "call_ok (dm_call (fst (at_line_event e m d)))" "call_ok (dm_call (fst (at_urc_event e m d)))"
  using assms by (simp_all add: at_line_event_def at_urc_event_def feed_ok Let_def)

lemma clear_idle_poll_ok: "call_ok c \<Longrightarrow> call_ok (clear_idle_poll c)"
  by (simp add: clear_idle_poll_def)

lemma idle_at_ok:
  assumes "call_ok (dm_call d)"
  shows "call_ok (dm_call (idle_at_data st d))" "call_ok (dm_call (idle_at_complete r d))"
  using assms by (simp_all add: idle_at_data_def idle_at_complete_def idle_at_failed_def Let_def clear_idle_poll_ok)

lemma active_good: "call_ok c \<Longrightarrow> vc_state c \<noteq> VOIP_DISABLED \<Longrightarrow> good_call c"
  by (auto simp: good_call_def call_ok_def call_base_def)

lemma arm_done_ok:
  assumes "call_ok (dm_call d)"
  shows "call_ok (dm_call (fst (serial_arm_process_done e st d)))"
  using assms by (simp add: serial_arm_process_done_def Let_def good_fault active_good)

lemma dm_call_start_arm [simp]: "dm_call (fst (snd (start_serial_arm e s))) = dm_call (fst s)"
  by (simp add: start_serial_arm_def Let_def)

lemma timer_arm_ok: "call_ok (dm_call (fst s)) \<Longrightarrow> call_ok (dm_call (fst (timer_arm e s)))"
  by (simp add: timer_arm_def Let_def split_beta good_fault active_good)

lemma dm_call_issue_idle [simp]:
  "dm_call (fst (qmodem_voip_issue_idle_at e v ready s)) = dm_call (fst s)"
  by (simp add: qmodem_voip_issue_idle_at_def Let_def split: option.split)

lemma timer_idle_poll_ok:
  assumes "call_ok (dm_call (fst s))"
  shows "call_ok (dm_call (fst (timer_idle_poll e s)))"
  using assms
  by (simp add: timer_idle_poll_def idle_poll_expire_def idle_poll_send_def Let_def split_beta
      clear_idle_poll_ok vidle.poll_idle_ok)

lemma timer_poll_ok:
  assumes "call_ok (dm_call (fst s))"
  shows "call_ok (dm_call (fst (timer_poll e s)))"
proof -
  have "good_call (fst (snd (qmodem_voip_poll_active (voip_callbacks e) (dm_call (fst s)))))"
    if "vc_enabled (dm_call (fst s))"
    using assms that good_poll by (simp add: good_call_def)
  moreover have "call_ok (fst (snd (qmodem_voip_poll_active (voip_callbacks e) (dm_call (fst s)))))"
    using assms by (rule vcb.poll_active_ok)
  ultimately show ?thesis
    using assms by (simp add: timer_poll_def Let_def good_fault timer_idle_poll_ok)
qed

lemma call_timer_ok: "call_ok (dm_call d) \<Longrightarrow> call_ok (dm_call (fst (qmodem_voip_call_timer e d)))"
  by (simp add: qmodem_voip_call_timer_def Let_def timer_arm_ok timer_poll_ok)

section \<open>The daemon as a transition system\<close>

text \<open>One handler run: the state before, what the handler did to the world, the state after.\<close>

inductive voip_step :: "voip_context \<Rightarrow> voip_fx list \<Rightarrow> voip_context \<Rightarrow> bool" where
  step_action: "action_call e act endpoint number digit d = (reply, d', fx) \<Longrightarrow> voip_step d fx d'"
| step_enable: "enable_method e d = (reply, d', fx) \<Longrightarrow> voip_step d fx d'"
| step_disable: "disable_method e d = (reply, d', fx) \<Longrightarrow> voip_step d fx d'"
| step_activation: "qmodem_voip_activation_timer e d = (d', fx) \<Longrightarrow> voip_step d fx d'"
| step_restart: "voip_step d [] (qmodem_voip_restart_timer d)"
| step_line: "at_line_event e m d = (d', fx) \<Longrightarrow> voip_step d fx d'"
| step_urc: "at_urc_event e m d = (d', fx) \<Longrightarrow> voip_step d fx d'"
| step_timer: "qmodem_voip_call_timer e d = (d', fx) \<Longrightarrow> voip_step d fx d'"
| step_arm_done: "serial_arm_process_done e status d = (d', fx) \<Longrightarrow> voip_step d fx d'"
| step_voice_done: "voip_step d [] (voice_restart_process_done d)"
| step_idle_data: "voip_step d [] (idle_at_data status_text d)"
| step_idle_complete: "voip_step d [] (idle_at_complete result d)"

definition voip_start :: "voip_context \<Rightarrow> bool" where
  "voip_start d \<longleftrightarrow> dm_call d = qmodem_voip_call_init"

definition voip_run :: "voip_context \<Rightarrow> voip_context \<Rightarrow> bool" where
  "voip_run d d' \<longleftrightarrow> (\<exists>fx. voip_step d fx d')"

definition context_ok :: "voip_context \<Rightarrow> bool" where
  "context_ok d \<longleftrightarrow> call_ok (dm_call d)"

lemma voip_step_ok:
  assumes "voip_step d fx d'" "call_ok (dm_call d)"
  shows "call_ok (dm_call d')"
  using assms
proof cases
  case (step_action e act endpoint number digit reply)
  then show ?thesis using action_call_ok [OF assms(2), of e act endpoint number digit] by simp
next
  case (step_enable e reply)
  then show ?thesis using enable_ok [OF assms(2), of e] by simp
next
  case (step_disable e reply)
  then show ?thesis using disable_ok [OF assms(2), of e] by simp
next
  case (step_activation e)
  then show ?thesis using activation_timer_ok [OF assms(2), of e] by simp
next
  case (step_line e m)
  then show ?thesis using at_event_ok(1) [OF assms(2), of e m] by simp
next
  case (step_urc e m)
  then show ?thesis using at_event_ok(2) [OF assms(2), of e m] by simp
next
  case (step_timer e)
  then show ?thesis using call_timer_ok [OF assms(2), of e] by simp
next
  case (step_arm_done e status)
  then show ?thesis using arm_done_ok [OF assms(2), of e status] by simp
qed (use assms in \<open>simp_all add: qmodem_voip_restart_timer_def voice_restart_process_done_def idle_at_ok\<close>)

interpretation voip: inductive_invariant voip_start voip_run context_ok
  by unfold_locales
     (auto simp: context_ok_def voip_start_def voip_run_def call_ok_init intro: voip_step_ok)

end
