(* ===== verification/Media_Manager.thy ===== *)
theory Media_Manager
  imports Media_Alsa Media_Socket Rtp_Transport Voip_Daemon
begin

text \<open>
  The media side of the voice daemon as one system: \<open>application/voipd/src/media_manager.c\<close> with the
  media operations of \<open>daemon_core.c\<close>. The engine, the RTP transport, the browser session and the
  media socket of \<open>struct qmodem_voip_context\<close> are one record; the browser session refers to the
  one engine of the record. The handlers of the daemon (theory \<open>Voip_Daemon\<close>) reach the media through
  their effects, which \<open>media_fx\<close> carries out.

  The WebSocket library is a parameter through the events it delivers when it is polled; it keeps one
  connection structure for each connection.
\<close>

section \<open>State\<close>

record media_context =
  mx_media :: qmodem_voip_media_engine
  mx_rtp :: qmodem_voip_rtp_transport
  mx_browser :: qmodem_voip_browser_media
  mx_connections :: "nat \<Rightarrow> qmodem_voip_browser_connection"
  mx_media_sock :: qmodem_voip_media_socket
  mx_media_socket_path :: string

text \<open>An operation of the browser session, on the shared engine.\<close>

definition the_browser :: "media_context \<Rightarrow> qmodem_voip_browser_media" where
  "the_browser x = (mx_browser x)\<lparr>bm_engine := mx_media x\<rparr>"

definition put_browser :: "qmodem_voip_browser_media \<Rightarrow> media_context \<Rightarrow> media_context" where
  "put_browser b x = x\<lparr>mx_browser := b, mx_media := bm_engine b\<rparr>"

definition put_socket :: "qmodem_voip_media_socket \<Rightarrow> qmodem_voip_media_engine \<Rightarrow> media_context \<Rightarrow> media_context" where
  "put_socket s e x = x\<lparr>mx_media_sock := s, mx_media := e\<rparr>"

section \<open>The browser session follows the call\<close>

definition call_media_state :: "qmodem_voip_call \<Rightarrow> bool" where
  "call_media_state c \<longleftrightarrow> vc_state c = VOIP_OUTGOING_SETUP \<or> vc_state c = VOIP_EARLY_MEDIA \<or> vc_state c = VOIP_ACTIVE"

definition browser_call :: "qmodem_voip_call \<Rightarrow> bool" where
  "browser_call c \<longleftrightarrow> vc_origin c = ENDPOINT_BROWSER \<or> vc_answer_owner c = ENDPOINT_BROWSER"

text \<open>\<open>created\<close> is the result of creating the WebSocket context, if that is tried.\<close>

definition qmodem_voip_media_sync :: "bool \<Rightarrow> qmodem_voip_call \<Rightarrow> media_context \<Rightarrow> media_context" where
  "qmodem_voip_media_sync created c x =
     (let b = the_browser x in
      if \<not> (me_ready (mx_media x) \<and> bm_engine_set b)
      then (if bm_ready b then put_browser (qmodem_voip_browser_media_stop b) x else x)
      else let (r, b1) = (if \<not> bm_ready b then qmodem_voip_browser_media_start created b else (0, b)) in
      if r \<noteq> 0 then put_browser b1 x
      else if \<not> (call_media_state c \<and> browser_call c)
      then (if bm_call_revision b1 \<noteq> 0 \<or> bm_attached b1 \<or> bm_client b1 \<noteq> None
            then put_browser (qmodem_voip_browser_media_reset_call b1) x else put_browser b1 x)
      else put_browser (b1\<lparr>bm_call_revision := vc_revision c\<rparr>) x)"

section \<open>The timer\<close>

text \<open>What a poll of the WebSocket library delivers: for each event the connection it belongs to.
  \<open>None\<close> stands for a write outside a buffer.\<close>

fun qmodem_voip_browser_media_service ::
  "(nat \<Rightarrow> nat \<Rightarrow> i16 list \<Rightarrow> nat \<Rightarrow> i16 list option) \<Rightarrow> (nat \<times> lws_event) list \<Rightarrow> media_context \<Rightarrow> media_context option" where
  "qmodem_voip_browser_media_service soxr [] x = Some x"
| "qmodem_voip_browser_media_service soxr ((wsi, event) # events) x =
     (case browser_callback soxr wsi event (mx_connections x wsi) (the_browser x) of
        None \<Rightarrow> None
      | Some (r, c, b, out) \<Rightarrow>
          qmodem_voip_browser_media_service soxr events (put_browser b (x\<lparr>mx_connections := (mx_connections x)(wsi := c)\<rparr>)))"

record timer_env =
  ti_created :: bool
  ti_socket :: socket_env
  ti_clock :: "u64 option"
  ti_backend :: backend_env
  ti_events :: "(nat \<times> lws_event) list"
  ti_sent :: bool
  ti_arrival :: rtp_arrival
  ti_sendto :: "u8 list \<Rightarrow> int"

definition socket_path :: "media_context \<Rightarrow> string" where
  "socket_path x = (if mx_media_socket_path x \<noteq> [] then mx_media_socket_path x else ''/var/run/qmodem_voip/media.sock'')"

definition timer_start_socket :: "timer_env \<Rightarrow> media_context \<Rightarrow> media_context" where
  "timer_start_socket env x =
     (if me_ready (mx_media x) \<and> \<not> ms_ready (mx_media_sock x)
      then x\<lparr>mx_media_sock := snd (qmodem_voip_media_socket_start (ti_socket env) (socket_path x) (mx_media_sock x))\<rparr> else x)"

text \<open>The time is read only while the engine is ready; the serial port is read by its own thread.\<close>

definition timer_time :: "timer_env \<Rightarrow> media_context \<Rightarrow> u64" where
  "timer_time env x = (if me_ready (mx_media x) then (case ti_clock env of Some t \<Rightarrow> t | None \<Rightarrow> 0) else 0)"

definition timer_capture :: "timer_env \<Rightarrow> media_context \<Rightarrow> media_context option" where
  "timer_capture env x =
     (if me_ready (mx_media x) \<and> ti_clock env \<noteq> None \<and> me_backend (mx_media x) \<noteq> QMODEM_VOIP_MEDIA_BACKEND_SERIAL
      then map_option (\<lambda>(r, e). x\<lparr>mx_media := e\<rparr>) (qmodem_voip_media_capture (ti_backend env) (mx_media x) (timer_time env x))
      else Some x)"

definition timer_browser :: "timer_env \<Rightarrow> media_context \<Rightarrow> media_context option" where
  "timer_browser env x =
     (if bm_ready (mx_browser x) then qmodem_voip_browser_media_service (be_soxr (ti_backend env)) (ti_events env) x else Some x)"

definition timer_socket :: "timer_env \<Rightarrow> media_context \<Rightarrow> media_context" where
  "timer_socket env x =
     (if ms_ready (mx_media_sock x)
      then (case qmodem_voip_media_socket_service (ti_sent env) (mx_media_sock x) (mx_media x) of
              (r, s, e, out) \<Rightarrow> put_socket s e x)
      else x)"

definition timer_rtp :: "timer_env \<Rightarrow> bool \<Rightarrow> u64 \<Rightarrow> media_context \<Rightarrow> media_context" where
  "timer_rtp env rtp_attached timestamp_ms x =
     (if rtp_attached
      then (case qmodem_voip_rtp_service (ti_arrival env) (ti_sendto env) (mx_rtp x) (mx_media x) timestamp_ms of
              (r, t, e, out) \<Rightarrow> x\<lparr>mx_rtp := t, mx_media := e\<rparr>)
      else x)"

definition timer_playback :: "timer_env \<Rightarrow> bool \<Rightarrow> u64 \<Rightarrow> media_context \<Rightarrow> media_context option" where
  "timer_playback env attached timestamp_ms x =
     (if attached
      then map_option (\<lambda>(r, e). x\<lparr>mx_media := e\<rparr>) (qmodem_voip_media_playback (ti_backend env) (mx_media x) timestamp_ms)
      else Some x)"

definition browser_attached :: "qmodem_voip_call \<Rightarrow> media_context \<Rightarrow> bool" where
  "browser_attached c x \<longleftrightarrow> bm_ready (mx_browser x) \<and> bm_attached (mx_browser x) \<and> vc_state c = VOIP_ACTIVE \<and> me_ready (mx_media x)"

definition rtp_attached :: "qmodem_voip_call \<Rightarrow> media_context \<Rightarrow> bool" where
  "rtp_attached c x \<longleftrightarrow> rt_active (mx_rtp x) \<and> me_ready (mx_media x) \<and> call_media_state c"

definition socket_attached :: "qmodem_voip_call \<Rightarrow> media_context \<Rightarrow> bool" where
  "socket_attached c x \<longleftrightarrow> me_ready (mx_media x) \<and> vc_state c = VOIP_ACTIVE \<and> qmodem_voip_media_socket_attached (mx_media_sock x)"

text \<open>The second component is the time until the next run.\<close>

definition qmodem_voip_browser_timer :: "timer_env \<Rightarrow> qmodem_voip_call \<Rightarrow> media_context \<Rightarrow> (media_context \<times> nat) option" where
  "qmodem_voip_browser_timer env c x =
     (let any = (browser_attached c x \<or> rtp_attached c x \<or> socket_attached c x);
          x1 = timer_start_socket env (qmodem_voip_media_sync (ti_created env) c x);
          timestamp_ms = timer_time env x1 in
      case timer_capture env x1 of
        None \<Rightarrow> None
      | Some x2 \<Rightarrow>
          (case timer_browser env x2 of
             None \<Rightarrow> None
           | Some x3 \<Rightarrow>
               (case timer_playback env any timestamp_ms
                       (timer_rtp env (rtp_attached c x) timestamp_ms (timer_socket env x3)) of
                  None \<Rightarrow> None
                | Some x4 \<Rightarrow> Some (x4, if any then 1 else 20))))"

section \<open>Requests\<close>

text \<open>An integer argument of a request arrives as a 32-bit or a 64-bit number.\<close>

datatype blob_integer = Blob_int64 u64 | Blob_int32 u32 | Blob_other

fun blob_value :: "blob_integer \<Rightarrow> u64 option" where
  "blob_value (Blob_int64 n) = Some n"
| "blob_value (Blob_int32 n) = Some (ucast n)"
| "blob_value Blob_other = None"

datatype media_reply = Refused ubus_status string | Granted string u32 u64

definition qmodem_voip_media_token_method ::
  "bool \<Rightarrow> (string \<Rightarrow> bool) \<Rightarrow> u8 list option \<Rightarrow> u64 \<Rightarrow> qmodem_voip_call \<Rightarrow> string option \<Rightarrow> blob_integer option \<Rightarrow> string option
   \<Rightarrow> media_context \<Rightarrow> media_reply \<times> media_context" where
  "qmodem_voip_media_token_method created authorized random now c session revision origin x0 =
     (let x = qmodem_voip_media_sync created c x0; invalid = Refused UBUS_STATUS_INVALID_ARGUMENT ''invalid_session'' in
      case (session, revision, origin) of
        (Some session_id, Some rv, Some orig) \<Rightarrow>
          if \<not> call_media_state c \<or> \<not> browser_call c \<or> \<not> me_ready (mx_media x) \<or> \<not> bm_ready (mx_browser x)
          then (Refused UBUS_STATUS_NOT_SUPPORTED ''unsupported'', x)
          else (case blob_value rv of
                  None \<Rightarrow> (invalid, x)
                | Some n \<Rightarrow>
                    if (n \<noteq> vc_revision c \<and> (vc_revision c = 0 \<or> n \<noteq> vc_revision c - 1)) \<or> \<not> authorized session_id then (invalid, x)
                    else case qmodem_voip_browser_token_issue random (bm_tokens (mx_browser x)) (Some session_id)
                                (vc_revision c) (Some orig) None now of
                      (r, token, toks) \<Rightarrow>
                        let x1 = x\<lparr>mx_browser := (mx_browser x)\<lparr>bm_tokens := toks\<rparr>\<rparr> in
                        (case token of
                           Some t \<Rightarrow> if r \<noteq> 0 then (invalid, x1) else (Granted t 30 (vc_revision c), x1)
                         | None \<Rightarrow> (invalid, x1)))
      | _ \<Rightarrow> (invalid, x))"

definition qmodem_voip_socket_session_method ::
  "u8 list option \<Rightarrow> u64 \<Rightarrow> qmodem_voip_call \<Rightarrow> blob_integer option \<Rightarrow> media_context \<Rightarrow> media_reply \<times> media_context" where
  "qmodem_voip_socket_session_method random now c revision x =
     (let invalid = Refused UBUS_STATUS_INVALID_ARGUMENT ''invalid_call'' in
      case revision of
        None \<Rightarrow> (invalid, x)
      | Some rv \<Rightarrow>
          (case blob_value rv of
             None \<Rightarrow> (invalid, x)
           | Some n \<Rightarrow>
               if n = 0 \<or> n \<noteq> vc_revision c then (invalid, x)
               else if \<not> me_ready (mx_media x) \<or> \<not> ms_ready (mx_media_sock x)
               then (Refused UBUS_STATUS_NOT_SUPPORTED ''not_ready'', x)
               else case qmodem_voip_media_socket_session_issue random (mx_media_sock x) n now of
                 (r, ident, s) \<Rightarrow>
                   let x1 = x\<lparr>mx_media_sock := s\<rparr> in
                   (case ident of
                      Some i \<Rightarrow> if r \<noteq> 0 then (Refused UBUS_STATUS_UNKNOWN_ERROR ''session_failed'', x1) else (Granted i 30 n, x1)
                    | None \<Rightarrow> (Refused UBUS_STATUS_UNKNOWN_ERROR ''session_failed'', x1))))"

text \<open>\<open>address\<close> is the parsed address; \<open>socket\<close> and \<open>configured\<close> are the results of the system calls. The
  reply is the error, if there is one.\<close>

definition qmodem_voip_rtp_attach_method ::
  "int \<Rightarrow> bool \<Rightarrow> qmodem_voip_call \<Rightarrow> u32 option \<Rightarrow> u32 option \<Rightarrow> u32 option \<Rightarrow> blob_integer option \<Rightarrow> media_context
   \<Rightarrow> voip_reply \<times> media_context" where
  "qmodem_voip_rtp_attach_method socket configured c address port payload_type session x =
     (let invalid = Reply_status UBUS_STATUS_INVALID_ARGUMENT ''invalid_media'' in
      case (address, port, payload_type, session) of
        (Some a, Some p, Some codec, Some sess) \<Rightarrow>
          (case blob_value sess of
             None \<Rightarrow> (invalid, x)
           | Some session_id \<Rightarrow>
               if \<not> call_media_state c \<or> \<not> me_ready (mx_media x) \<or> session_id = 0 \<or> p = 0 \<or> p > 65535 \<or>
                  (unat codec \<noteq> QMODEM_VOIP_MEDIA_PCMA \<and> unat codec \<noteq> QMODEM_VOIP_MEDIA_PCMU)
               then (Reply_status UBUS_STATUS_NOT_SUPPORTED ''media_not_ready'', x)
               else if bm_attached (mx_browser x) then (Reply_status UBUS_STATUS_NOT_SUPPORTED ''media_busy'', x)
               else case qmodem_voip_rtp_attach socket configured (mx_rtp x) (mx_media x) a (ucast p) (unat codec) session_id of
                 (r, t, e, closed) \<Rightarrow>
                   (if r \<noteq> 0 then Reply_status UBUS_STATUS_UNKNOWN_ERROR ''rtp_bind_failed'' else Reply_snapshot,
                    x\<lparr>mx_rtp := t, mx_media := e\<rparr>))
      | _ \<Rightarrow> (invalid, x))"

definition release_rtp :: "media_context \<Rightarrow> media_context" where
  "release_rtp x = (case qmodem_voip_rtp_release (mx_rtp x) (mx_media x) of (t, e, closed) \<Rightarrow> x\<lparr>mx_rtp := t, mx_media := e\<rparr>)"

definition qmodem_voip_rtp_release_method :: "media_context \<Rightarrow> voip_reply \<times> media_context" where
  "qmodem_voip_rtp_release_method x = (Reply_snapshot, release_rtp x)"

definition stop_socket :: "media_context \<Rightarrow> media_context" where
  "stop_socket x = (case qmodem_voip_media_socket_stop (mx_media_sock x) (mx_media x) of (s, e, closed) \<Rightarrow> put_socket s e x)"

definition release_media :: "media_context \<Rightarrow> media_context" where
  "release_media x = x\<lparr>mx_media := fst (qmodem_voip_media_release (mx_media x))\<rparr>"

definition qmodem_voip_media_manager_shutdown :: "media_context \<Rightarrow> media_context" where
  "qmodem_voip_media_manager_shutdown x =
     release_media (stop_socket (release_rtp (put_browser (qmodem_voip_browser_media_release (the_browser x)) x)))"

text \<open>What disabling does to the media.\<close>

definition release_runtime_media :: "media_context \<Rightarrow> media_context" where
  "release_runtime_media x =
     release_media (stop_socket (release_rtp (put_browser (qmodem_voip_browser_media_stop (the_browser x)) x)))"

section \<open>Reports\<close>

text \<open>A reply of the daemon is a list of named values.\<close>

datatype blob = Blob_string string | Blob_u8 bool | Blob_u32 u32 | Blob_u64 u64

definition qmodem_voip_add_redacted_status :: "clocks \<Rightarrow> qmodem_voip_call \<Rightarrow> (string \<times> blob) list" where
  "qmodem_voip_add_redacted_status k c =
     [(''state'', Blob_string (qmodem_voip_state_name (vc_state c))),
      (''origin'', Blob_string (qmodem_voip_endpoint_name (vc_origin c))),
      (''endpoint'', Blob_string (qmodem_voip_endpoint_name (vc_endpoint c))),
      (''number_present'', Blob_u8 (vc_number c \<noteq> [])),
      (''caller_id_withheld'', Blob_u8 (vc_caller_id_withheld c)),
      (''remote_number'', Blob_string (if vc_caller_id_withheld c then [] else vc_number c)),
      (''call_duration_seconds'', Blob_u64 (qmodem_voip_call_duration_seconds k c)),
      (''enabled'', Blob_u8 (vc_enabled c)),
      (''revision'', Blob_u64 (vc_revision c)),
      (''restart_epoch'', Blob_u64 (vc_restart_epoch c)),
      (''sequence'', Blob_u64 (vc_sequence c)),
      (''drop_count'', Blob_u64 (vc_drop_count c)),
      (''reconcile_pending'', Blob_u8 (vc_reconcile_pending c)),
      (''answer_owner'', Blob_string (qmodem_voip_endpoint_name (vc_answer_owner c)))]"

fun backend_name :: "qmodem_voip_media_backend \<Rightarrow> string" where
  "backend_name QMODEM_VOIP_MEDIA_BACKEND_SERIAL = ''serial_pcm''"
| "backend_name QMODEM_VOIP_MEDIA_BACKEND_UAC = ''uac''"
| "backend_name QMODEM_VOIP_MEDIA_BACKEND_PCM_SOCKET = ''pcm_socket''"
| "backend_name QMODEM_VOIP_MEDIA_BACKEND_NONE = ''none''"

definition status_engine :: "media_context \<Rightarrow> (string \<times> blob) list" where
  "status_engine x =
     (let e = mx_media x; b = mx_browser x; ready = (\<lambda>r. Blob_string (if r then ''ready'' else ''not_ready'')) in
      [(''media'', ready (me_ready e)), (''media_engine'', ready (me_ready e)),
       (''media_backend'', Blob_string (backend_name (me_backend e))), (''browser_media'', ready (bm_ready b)),
       (''rtp_media'', Blob_string (if rt_active (mx_rtp x) then ''attached'' else ''detached''))] @
      (case qmodem_voip_browser_media_url b 96 of Some url \<Rightarrow> [(''media_url'', Blob_string url)] | None \<Rightarrow> []) @
      [(''canonical_format'', Blob_string ''s16le/mono/8000/20ms''),
       (''capture_rate'', Blob_u32 (dv_capture_rate (me_device e))), (''playback_rate'', Blob_u32 (dv_playback_rate (me_device e))),
       (''media_drop_count'', Blob_u64 (mq_dropped (me_modem_to_canonical e) + mq_dropped (me_canonical_to_modem e))),
       (''media_underrun_count'', Blob_u64 (mq_underruns (me_modem_to_canonical e) + mq_underruns (me_canonical_to_modem e))),
       (''media_drift_ppm'', Blob_u32 (of_int (mq_drift_ppm (me_modem_to_canonical e) + 100))),
       (''media_tone_failures'', Blob_u64 (me_tone_failures e))])"

definition status_browser :: "qmodem_voip_browser_media \<Rightarrow> (string \<times> blob) list" where
  "status_browser b =
     [(''browser_uplink_frames'', Blob_u64 (bm_uplink_frames b)),
      (''browser_uplink_non_silent_frames'', Blob_u64 (bm_uplink_non_silent_frames b)),
      (''browser_uplink_peak'', Blob_u32 (of_nat (bm_uplink_peak b))),
      (''browser_downlink_frames'', Blob_u64 (bm_downlink_frames b)),
      (''browser_downlink_empty'', Blob_u64 (bm_downlink_empty b)),
      (''browser_downlink_write_errors'', Blob_u64 (bm_downlink_write_errors b))]"

definition status_serial :: "qmodem_voip_serial_state \<Rightarrow> (string \<times> blob) list" where
  "status_serial s =
     [(''serial_capture_frames'', Blob_u64 (sr_captured_frames s)), (''serial_poll_wakeups'', Blob_u64 (sr_poll_wakeups s)),
      (''serial_read_bytes'', Blob_u64 (sr_read_bytes s)), (''serial_read_eagain'', Blob_u64 (sr_read_eagain s)),
      (''serial_read_errors'', Blob_u64 (sr_read_errors s)), (''serial_write_bytes'', Blob_u64 (sr_write_bytes s)),
      (''serial_write_eagain'', Blob_u64 (sr_write_eagain s)), (''serial_write_errors'', Blob_u64 (sr_write_errors s)),
      (''serial_reopen_count'', Blob_u64 (sr_reopen_count s))]"

definition status_pcm_socket :: "qmodem_voip_media_engine \<Rightarrow> (string \<times> blob) list" where
  "status_pcm_socket e =
     (let p = me_pcm_socket e in
      if me_backend e \<noteq> QMODEM_VOIP_MEDIA_BACKEND_PCM_SOCKET then []
      else [(''pcm_socket_connected'', Blob_u8 (ps_fd p \<ge> 0)), (''pcm_socket_capture_frames'', Blob_u64 (ps_capture_frames p)),
            (''pcm_socket_playback_frames'', Blob_u64 (ps_playback_frames p)), (''pcm_socket_connects'', Blob_u64 (ps_connects p)),
            (''pcm_socket_errors'', Blob_u64 (ps_errors p))])"

definition qmodem_voip_media_status :: "media_context \<Rightarrow> (string \<times> blob) list" where
  "qmodem_voip_media_status x =
     status_engine x @ status_browser (mx_browser x) @ status_serial (me_serial (mx_media x)) @ status_pcm_socket (mx_media x) @
     [(''rtp_receive_packets'', Blob_u64 (me_rtp_received_packets (mx_media x))),
      (''rtp_send_packets'', Blob_u64 (me_rtp_sent_packets (mx_media x)))]"

definition qmodem_voip_reply_ok_snapshot :: "clocks \<Rightarrow> qmodem_voip_call \<Rightarrow> media_context \<Rightarrow> (string \<times> blob) list" where
  "qmodem_voip_reply_ok_snapshot k c x =
     (''status'', Blob_string ''ok'') # qmodem_voip_add_redacted_status k c @ qmodem_voip_media_status x"

definition status_method :: "bool \<Rightarrow> clocks \<Rightarrow> qmodem_voip_call \<Rightarrow> media_context \<Rightarrow> (string \<times> blob) list \<times> media_context" where
  "status_method created k c x0 =
     (let x = qmodem_voip_media_sync created c x0 in (qmodem_voip_add_redacted_status k c @ qmodem_voip_media_status x, x))"

text \<open>\<open>supported\<close> is the result of the probe.\<close>

definition capabilities_method :: "bool \<Rightarrow> bool \<Rightarrow> qmodem_voip_call \<Rightarrow> media_context \<Rightarrow> (string \<times> blob) list \<times> media_context" where
  "capabilities_method created supported c x0 =
     (let x = qmodem_voip_media_sync created c x0 in
      ([(''status'', Blob_string ''experimental''), (''supported'', Blob_u8 supported),
        (''support_state'', Blob_string (if supported then ''supported'' else ''unsupported'')),
        (''reason'', Blob_string (if supported then ''probe_passed'' else ''hardware_probe_failed'')),
        (''enabled'', Blob_u8 (vc_enabled c)), (''hardware'', Blob_string (pr_model (me_profile (mx_media x)))),
        (''external_sip'', Blob_string ''unsupported'')] @ qmodem_voip_media_status x, x))"

section \<open>The start of the daemon\<close>

text \<open>The address, the path of the media socket and whether the daemon starts enabled.\<close>

definition main_arguments :: "string list \<Rightarrow> (string \<times> string \<times> bool) option" where
  "main_arguments argv =
     (if length argv \<noteq> 11 \<or> argv ! 1 \<noteq> ''--media-address'' \<or> argv ! 3 \<noteq> ''--media-cert'' \<or> argv ! 5 \<noteq> ''--media-key'' \<or>
         argv ! 7 \<noteq> ''--media-socket-path'' \<or> argv ! 9 \<noteq> ''--start-enabled'' \<or> (argv ! 10 \<noteq> ''0'' \<and> argv ! 10 \<noteq> ''1'')
      then None
      else if argv ! 8 = [] \<or> length (argv ! 8) \<ge> SOCKET_PATH_MAX then None
      else Some (argv ! 2, argv ! 8, argv ! 10 = ''1''))"

text \<open>The structures as the loader leaves them, all zero.\<close>

definition zero_browser :: "qmodem_voip_media_engine \<Rightarrow> qmodem_voip_browser_media" where
  "zero_browser e = \<lparr>bm_tokens = qmodem_voip_browser_tokens_init, bm_engine_set = False, bm_engine = e,
     bm_context = False, bm_client = None, bm_pending_client = None, bm_address = [],
     bm_certificate_data = [], bm_key_data = [], bm_certificate_length = 0, bm_key_length = 0, bm_origin = [],
     bm_call_revision = 0, bm_expected_sequence = 0, bm_last_timestamp_ms = 0, bm_sequence_seen = False,
     bm_uplink = replicate QMODEM_VOIP_MEDIA_SAMPLES 0, bm_uplink_count = 0, bm_uplink_frames = 0,
     bm_uplink_non_silent_frames = 0, bm_uplink_peak = 0, bm_downlink_frames = 0, bm_downlink_empty = 0,
     bm_downlink_write_errors = 0, bm_dropped = 0, bm_attached = False, bm_ready = False\<rparr>"

definition zero_socket :: qmodem_voip_media_socket where
  "zero_socket = \<lparr>ms_listener_fd = 0, ms_watched = False, ms_path = [], ms_peers = replicate SOCKET_PEERS zero_peer,
     ms_sessions = replicate SESSION_SLOTS zero_session, ms_ready = False, ms_running = False\<rparr>"

text \<open>What \<open>main\<close> prepares before the event loop runs; \<open>None\<close> when it gives up. \<open>profile\<close> is the
  profile it selects.\<close>

definition main_media :: "(string \<Rightarrow> u32 option) \<Rightarrow> qmodem_voip_modem_profile \<Rightarrow> string list \<Rightarrow> (media_context \<times> bool) option" where
  "main_media inet_pton profile argv =
     (case main_arguments argv of
        None \<Rightarrow> None
      | Some (address, path, enabled) \<Rightarrow>
          let e = zero_engine profile in
          (case qmodem_voip_browser_configure inet_pton (zero_browser e) e (Some address) of
             (r, b) \<Rightarrow>
               if r \<noteq> 0 then None
               else Some (\<lparr>mx_media = e, mx_rtp = zero_transport, mx_browser = b, mx_connections = (\<lambda>_. zero_connection),
                           mx_media_sock = zero_socket, mx_media_socket_path = path\<rparr>, enabled)))"

section \<open>The effects of the daemon's handlers\<close>

text \<open>\<open>c\<close> is the call at the time of the effect.\<close>

fun media_fx :: "bool \<Rightarrow> serial_env \<Rightarrow> qmodem_voip_call \<Rightarrow> voip_fx \<Rightarrow> media_context \<Rightarrow> media_context" where
  "media_fx created serial c (Fx_serial_attached a) x = x\<lparr>mx_media := qmodem_voip_serial_set_attached a (mx_media x)\<rparr>"
| "media_fx created serial c Fx_serial_prepare x = x\<lparr>mx_media := qmodem_voip_serial_prepare_call (mx_media x)\<rparr>"
| "media_fx created serial c Fx_serial_reopen x =
     (case qmodem_voip_serial_reopen serial (mx_media x) of
        (r, e, closed) \<Rightarrow> x\<lparr>mx_media := (if r \<noteq> 0 then e\<lparr>me_ready := False\<rparr> else e)\<rparr>)"
| "media_fx created serial c Fx_serial_reset x = x\<lparr>mx_media := qmodem_voip_serial_reset_stream (mx_media x)\<rparr>"
| "media_fx created serial c Fx_rtp_release x = release_rtp x"
| "media_fx created serial c Fx_socket_release x =
     (case qmodem_voip_media_socket_release (mx_media_sock x) (mx_media x) of (s, e) \<Rightarrow> put_socket s e x)"
| "media_fx created serial c Fx_media_sync x = qmodem_voip_media_sync created c x"
| "media_fx created serial c Fx_runtime_release x = release_runtime_media x"
| "media_fx created serial c _ x = x"

end
