(* ===== verification/Voip_Properties.thy ===== *)
theory Voip_Properties
  imports Voip_Daemon
begin

text \<open>
  What the voice daemon guarantees: the call invariant over every run of its handlers, lines that
  are handled once, completed calls that are never lost, one owner per answered call, commands
  that cannot be forged, and polls that neither disturb nor end a call by accident.
\<close>

section \<open>No completed call is lost\<close>

text \<open>A record that waited is still there, or the handler appended it to the history.\<close>

definition record_safe :: "qmodem_voip_completed \<Rightarrow> daemon_state \<Rightarrow> bool" where
  "record_safe r s \<longleftrightarrow> vc_completed (dm_call (fst s)) = r \<or> Fx_history r True \<in> set (snd s)"

lemma publish_parts_mono:
  "set (snd s) \<subseteq> set (snd (publish_history e c s))"
  "set (snd s) \<subseteq> set (snd (publish_arm c s))"
  "set (snd s) \<subseteq> set (snd (publish_release c s))"
  "set (snd s) \<subseteq> set (snd (restart_voice_server e c s))"
  by (auto simp: publish_history_def publish_arm_def publish_release_def restart_voice_server_def
      Let_def split: option.split)

lemma publish_rest_mono: "set (snd (publish_history e c s)) \<subseteq> set (snd (publish_rest e name c s))"
proof -
  define s1 where "s1 = publish_arm c (publish_history e c s)"
  define s2 where "s2 = (if vc_state c = VOIP_FAULT then with_ctx (dm_voice_restart_needed_update (\<lambda>_. True)) s1 else s1)"
  define s3 where "s3 = publish_release c s2"
  have 1: "set (snd (publish_history e c s)) \<subseteq> set (snd s1)" by (simp add: s1_def publish_parts_mono)
  have 2: "snd s2 = snd s1" by (simp add: s2_def)
  have 3: "set (snd s2) \<subseteq> set (snd s3)" by (simp add: s3_def publish_parts_mono)
  have 4: "set (snd s3) \<subseteq> set (snd (restart_voice_server e c (with_ctx (dm_voice_restart_needed_update (\<lambda>_. False)) s3)))"
    using publish_parts_mono(4) [of "with_ctx (dm_voice_restart_needed_update (\<lambda>_. False)) s3" e c] by simp
  from 1 2 3 4 show ?thesis
    unfolding publish_rest_def Let_def s1_def [symmetric] s2_def [symmetric] s3_def [symmetric] by auto
qed

lemma publish_rest_records:
  "cc_pending (vc_completed c) \<Longrightarrow> en_history e (vc_completed c) \<Longrightarrow>
   Fx_history (vc_completed c) True \<in> set (snd (publish_rest e name c s))"
  using publish_rest_mono [of e c s name]
  by (auto simp: publish_history_def qmodem_voip_call_get_completed_def)

lemma publish_rest_keeps_fx: "x \<in> set (snd s) \<Longrightarrow> x \<in> set (snd (publish_rest e name c s))"
  using publish_rest_mono [of e c s name] publish_parts_mono(1) [of s e c] by blast

lemma replay_keeps_fx: "x \<in> set (snd s) \<Longrightarrow> x \<in> set (snd (replay e es s))"
proof (induction e es s rule: replay.induct)
  case (2 e v es s)
  then show ?case by (simp add: Let_def)
next
  case (3 e name c es s)
  then show ?case by (simp add: publish_rest_keeps_fx)
qed simp

lemma replay_records:
  "Event name c \<in> set es \<Longrightarrow> cc_pending (vc_completed c) \<Longrightarrow> en_history e (vc_completed c) \<Longrightarrow>
   Fx_history (vc_completed c) True \<in> set (snd (replay e es s))"
proof (induction e es s rule: replay.induct)
  case (2 e v es s)
  then show ?case by (simp add: Let_def)
next
  case (3 e n x es s)
  then show ?case by (auto intro: replay_keeps_fx publish_rest_records)
qed simp

lemma safe_run:
  assumes "kept_or_stored (en_history e) r (snd oc)" "cc_pending r"
  shows "record_safe r (snd (run_call e oc s))"
  using assms by (auto simp: record_safe_def kept_or_stored_def run_call_def split_beta intro: replay_records)

lemma safe_run_same:
  assumes "vc_completed (fst (snd oc)) = vc_completed (dm_call (fst s))" "record_safe r s"
  shows "record_safe r (snd (run_call e oc s))"
  using assms by (auto simp: record_safe_def run_call_def split_beta intro: replay_keeps_fx)

lemma safe_publish:
  assumes "record_safe r s" "cc_pending r"
  shows "record_safe r (qmodem_voip_publish_event e name s)"
  using assms publish_rest_records [of "dm_call (fst s)" e name]
  by (auto simp: record_safe_def qmodem_voip_publish_event_def Let_def record_completed_cases
      intro: publish_rest_keeps_fx)

lemma safe_with_ctx:
  "(vc_completed (dm_call (fst s)) = r \<Longrightarrow> vc_completed (dm_call (f (fst s))) = r) \<Longrightarrow>
    record_safe r s \<Longrightarrow> record_safe r (with_ctx f s)"
  by (auto simp: record_safe_def)

lemma safe_emit: "record_safe r s \<Longrightarrow> record_safe r (emit x s)"
  by (auto simp: record_safe_def)

lemma safe_set_fault: "record_safe r s \<Longrightarrow> cc_pending r \<Longrightarrow> record_safe r (set_fault e s)"
  unfolding set_fault_def by (intro safe_publish safe_with_ctx) simp_all

lemma safe_cancel: "record_safe r s \<Longrightarrow> record_safe r (qmodem_voip_cancel_serial_prepare e s)"
  by (auto simp: record_safe_def qmodem_voip_cancel_serial_prepare_def)

lemma completed_ops:
  "vc_completed (fst (snd (qmodem_voip_originate (voip_callbacks e) k c ep n))) = vc_completed c"
  "vc_completed (fst (snd (qmodem_voip_answer (voip_callbacks e) k c ep))) = vc_completed c"
  "vc_completed (fst (snd (terminate (voip_callbacks e) c ep))) = vc_completed c"
  "vc_completed (fst (snd (qmodem_voip_send_dtmf (voip_callbacks e) c ep x))) = vc_completed c"
  "vc_completed (fst (snd (qmodem_voip_start_recovery (voip_callbacks e) c))) = vc_completed c"
  "vc_completed (fst (snd (qmodem_voip_poll_active (voip_callbacks e) c))) = vc_completed c"
  "vc_completed (fst (snd (qmodem_voip_poll_idle (idle_callbacks e route) c))) = vc_completed c"
  by (simp_all add: qmodem_voip_originate_def qmodem_voip_answer_def terminate_def
      qmodem_voip_send_dtmf_def qmodem_voip_start_recovery_def qmodem_voip_poll_active_def
      qmodem_voip_poll_idle_def Let_def del: issue.simps)

lemma completed_end_ops:
  "vc_completed (fst (snd (qmodem_voip_reject (voip_callbacks e) c ep))) = vc_completed c"
  "vc_completed (fst (snd (qmodem_voip_hangup (voip_callbacks e) c ep))) = vc_completed c"
  by (simp_all add: qmodem_voip_reject_def qmodem_voip_hangup_def completed_ops)

lemma safe_precheck: "record_safe r s \<Longrightarrow> record_safe r (snd (media_precheck e s))"
  by (auto simp: record_safe_def media_precheck_def Let_def)

lemma safe_action_run:
  assumes "record_safe r s"
  shows "record_safe r (snd (action_run e act ep number digit s))"
proof (cases act)
  case Originate
  define s1 where "s1 = snd (media_precheck e s)"
  have "record_safe r s1" "dm_call (fst s1) = dm_call (fst s)"
    using assms by (simp_all add: s1_def safe_precheck)
  then show ?thesis using assms
    by (auto simp: Originate action_run_def Let_def split_beta s1_def [symmetric] completed_ops
        intro!: safe_cancel safe_run_same safe_emit safe_with_ctx split: option.split)
       (auto simp: record_safe_def)
next
  case Answer
  define s1 where "s1 = snd (media_precheck e s)"
  have "record_safe r s1" "dm_call (fst s1) = dm_call (fst s)"
    using assms by (simp_all add: s1_def safe_precheck)
  then show ?thesis
    by (auto simp: Answer action_run_def Let_def split_beta s1_def [symmetric] completed_ops
        intro!: safe_cancel safe_run_same safe_emit split: option.split)
next
  case Send_dtmf
  with assms show ?thesis
    by (auto simp: action_run_def Let_def completed_ops intro!: safe_run_same split: option.split list.split)
qed (use assms in \<open>simp_all add: action_run_def Let_def completed_end_ops safe_run_same\<close>)

lemma safe_action:
  assumes "record_safe r (d, [])" "cc_pending r"
  shows "record_safe r (snd (action_call e act endpoint number digit d))"
proof -
  have run: "record_safe r (snd (action_run e act ep number digit (d\<lparr>dm_command_failed := False\<rparr>, [])))" for ep
    using assms(1) by (intro safe_action_run) (simp add: record_safe_def)
  have rep: "record_safe r (snd (action_reply e act res s))" if "record_safe r s" for res s
    using that assms(2)
    by (auto simp: action_reply_def intro!: safe_set_fault safe_publish safe_cancel)
  show ?thesis
    using assms run rep
    by (auto simp: action_call_def split_beta split: option.split sum.split)
qed

lemma safe_activate:
  assumes "record_safe r s" "cc_pending r"
  shows "record_safe r (snd (activate_runtime e s))"
proof -
  define s2 where "s2 = with_ctx (dm_profile_update (\<lambda>_. en_profile e)) (emit (Fx_safety ''enable'') s)"
  have s2: "record_safe r s2" using assms(1) by (auto simp: s2_def record_safe_def)
  define s3 where "s3 serial = with_ctx (\<lambda>d. d\<lparr>dm_serial_backend := serial, dm_media_ready := True,
                      dm_call := qmodem_voip_call_set_enabled (en_clocks e) (dm_call d) True,
                      dm_command_failed := False\<rparr>) s2" for serial
  have s3: "record_safe r (s3 serial)" for serial
    using s2 assms(2) by (auto simp: s3_def record_safe_def completed_pending_kept)
  define s4 where "s4 serial = snd (run_call e (qmodem_voip_start_recovery (voip_callbacks e)
      (dm_call (fst (s3 serial)))) (s3 serial))" for serial
  have s4: "record_safe r (s4 serial)" for serial
    using s3 by (simp add: s4_def safe_run_same completed_ops)
  have fail: "record_safe r (with_ctx (dm_call_update (\<lambda>c. qmodem_voip_call_set_enabled (en_clocks e) c False))
     (emit (Fx_safety ''disable'') (release_runtime (s4 serial))))" for serial
    using s4 [of serial] assms(2) by (auto simp: record_safe_def release_runtime_def completed_pending_kept)
  have ready: "record_safe r (qmodem_voip_publish_event e ''enabled''
                     (with_ctx (dm_browser_timer_update (\<lambda>_. Some 20)) (s4 serial)))" for serial
    using s4 [of serial] assms(2) by (intro safe_publish safe_with_ctx) auto
  have "record_safe r (emit (Fx_safety ''disable'') s2)"
    "record_safe r (emit (Fx_safety ''disable'') (with_ctx (\<lambda>d. d\<lparr>dm_serial_backend := False, dm_media_ready := False\<rparr>) s2))"
    "record_safe r (emit (Fx_safety ''enable'') s)"
    using s2 assms(1) by (auto simp: record_safe_def)
  with assms(1) fail ready show ?thesis
    unfolding activate_runtime_def Let_def split_beta s2_def [symmetric] s3_def [symmetric] s4_def [symmetric]
    by (auto split: media_start.split)
qed

lemma safe_schedule:
  assumes "record_safe r s" "cc_pending r"
  shows "record_safe r (schedule_modem_reenumeration e s)"
  using assms by (auto simp: record_safe_def schedule_modem_reenumeration_def completed_pending_kept)

lemma safe_enable:
  assumes "record_safe r (d, [])" "cc_pending r"
  shows "record_safe r (snd (enable_method e d))"
proof -
  define a where "a = activate_runtime e (d\<lparr>dm_command_failed := False, dm_start_enabled := True\<rparr>, [Fx_uci True])"
  have a: "record_safe r (snd a)"
    unfolding a_def using assms by (intro safe_activate) (auto simp: record_safe_def)
  have "record_safe r (emit (Fx_uci False) (with_ctx (dm_start_enabled_update (\<lambda>_. False)) (snd a)))"
    using a by (auto simp: record_safe_def)
  moreover have "record_safe r (d\<lparr>dm_command_failed := False\<rparr>, fx)" for fx
    using assms by (auto simp: record_safe_def)
  ultimately show ?thesis
    using a assms(2)
    by (auto simp: enable_method_def Let_def a_def [symmetric] split_beta safe_schedule split: activation.split)
qed

lemma safe_activation:
  assumes "record_safe r (d, [])" "cc_pending r"
  shows "record_safe r (qmodem_voip_activation_timer e d)"
proof -
  define a where "a = activate_runtime e (d\<lparr>dm_activation_timer := None\<rparr>, [])"
  have a: "record_safe r (snd a)"
    unfolding a_def using assms by (intro safe_activate) (auto simp: record_safe_def)
  moreover have "record_safe r (d\<lparr>dm_activation_timer := None\<rparr>, [])"
    using assms by (auto simp: record_safe_def)
  moreover have "record_safe r (with_ctx f (snd a))" "record_safe r (emit x (with_ctx f (snd a)))"
    if "\<And>y. dm_call (f y) = dm_call y" for f x
    using a that by (auto simp: record_safe_def)
  ultimately show ?thesis
    using assms(2)
    by (simp add: qmodem_voip_activation_timer_def Let_def a_def [symmetric] split_beta safe_schedule
        split: activation.split)
       (auto simp: record_safe_def)
qed

lemma safe_disable:
  assumes "record_safe r (d, [])" "cc_pending r"
  shows "record_safe r (snd (disable_method e d))"
proof -
  have r: "vc_completed (dm_call d) = r" using assms(1) by (simp add: record_safe_def)
  have fin: "record_safe r (qmodem_voip_publish_event e ''disabled'' (release_runtime (dm_call_update
              (\<lambda>c. qmodem_voip_call_set_enabled (en_clocks e) c False) d', fx)))"
    if "vc_completed (dm_call d') = r" for d' fx
    using that assms(2) by (intro safe_publish) (auto simp: record_safe_def release_runtime_def completed_pending_kept)
  have ctx: "record_safe r (d', fx)" if "vc_completed (dm_call d') = r" for d' fx
    using that by (simp add: record_safe_def)
  show ?thesis
    unfolding disable_method_def Let_def using r
    by (simp add: fin ctx)
qed

lemma safe_feed:
  assumes "record_safe r (d, [])" "cc_pending r"
  shows "record_safe r (feed_line e m cor cmd d)"
proof -
  have r: "r = vc_completed (dm_call d)" using assms(1) by (simp add: record_safe_def)
  define s where "s = snd (run_call e (qmodem_voip_line (voip_callbacks e) (en_clocks e) (dm_call d) (ms_port m)
                     (the (ms_epoch m)) (the (ms_sequence m)) (ms_raw m) cor cmd
                     (case ms_drop_count m of None \<Rightarrow> 0 | Some n \<Rightarrow> n)) (d\<lparr>dm_command_failed := False\<rparr>, []))"
  have "record_safe r s"
    unfolding s_def using assms(2) r by (intro safe_run) (simp_all add: vhist.kept_line)
  then show ?thesis
    using assms(2) by (simp add: feed_line_def s_def [symmetric] safe_set_fault)
qed

lemma safe_events:
  assumes "record_safe r (d, [])" "cc_pending r"
  shows "record_safe r (at_line_event e m d)" "record_safe r (at_urc_event e m d)"
  using assms by (simp_all add: at_line_event_def at_urc_event_def Let_def safe_feed)

lemma safe_arm_done:
  assumes "record_safe r (d, [])" "cc_pending r"
  shows "record_safe r (serial_arm_process_done e st d)"
proof -
  have "record_safe r (d\<lparr>dm_arm_pending := False\<rparr>, [])" "record_safe r (d\<lparr>dm_arm_pending := False, dm_arm_attempts := 4\<rparr>, [])"
    using assms(1) by (simp_all add: record_safe_def)
  then show ?thesis using assms(2) by (auto simp: serial_arm_process_done_def Let_def intro: safe_set_fault)
qed

lemma safe_timer_arm:
  assumes "record_safe r s" "cc_pending r"
  shows "record_safe r (timer_arm e s)"
proof -
  have "record_safe r (snd (start_serial_arm e s))"
    using assms(1) by (auto simp: record_safe_def start_serial_arm_def Let_def)
  with assms show ?thesis by (auto simp: timer_arm_def Let_def split_beta intro: safe_set_fault)
qed

lemma issue_idle_mono: "set (snd s) \<subseteq> set (snd (qmodem_voip_issue_idle_at e v ready s))"
  by (auto simp: qmodem_voip_issue_idle_at_def Let_def split: option.split)

lemma safe_issue_idle: "record_safe r s \<Longrightarrow> record_safe r (qmodem_voip_issue_idle_at e v ready s)"
  using issue_idle_mono [of s e v ready] by (auto simp: record_safe_def)

lemma clear_idle_poll_completed [simp]: "vc_completed (clear_idle_poll c) = vc_completed c"
  by (simp add: clear_idle_poll_def)

lemma safe_idle_send:
  assumes "record_safe r s"
  shows "record_safe r (idle_poll_send e s)"
proof -
  define s1 where "s1 = with_ctx (\<lambda>d. d\<lparr>dm_idle_poll_waits := 0, dm_command_failed := False\<rparr>) s"
  define q where "q = qmodem_voip_poll_idle (idle_callbacks e (dm_idle_at (fst s1))) (dm_call (fst s1))"
  define s2 where "s2 = with_ctx (dm_call_update (\<lambda>_. fst (snd q))) s1"
  have s2: "record_safe r s2"
    using assms by (auto simp: s2_def s1_def q_def record_safe_def completed_ops)
  have final: "record_safe r (if dm_command_failed (fst x) then with_ctx (dm_call_update clear_idle_poll) x else x)"
    if "record_safe r x" for x
    using that by (auto simp: record_safe_def)
  show ?thesis
    unfolding idle_poll_send_def Let_def split_beta s1_def [symmetric] q_def [symmetric] s2_def [symmetric]
    by (cases "fst q = 0") (simp_all only: if_True if_False final s2 safe_issue_idle simp_thms)
qed

lemma safe_idle_poll:
  assumes "record_safe r s"
  shows "record_safe r (timer_idle_poll e s)"
proof -
  have "record_safe r (idle_poll_expire s)"
    using assms by (auto simp: idle_poll_expire_def Let_def record_safe_def)
  then show ?thesis by (simp add: timer_idle_poll_def Let_def safe_idle_send)
qed

lemma safe_timer_poll:
  assumes "record_safe r s" "cc_pending r"
  shows "record_safe r (timer_poll e s)"
proof -
  define q where "q = snd (run_call e (qmodem_voip_poll_active (voip_callbacks e) (dm_call (fst s)))
                     (with_ctx (dm_command_failed_update (\<lambda>_. False)) s))"
  have "record_safe r q"
    unfolding q_def using assms(1) by (intro safe_run_same) (auto simp: completed_ops record_safe_def)
  moreover from this have "record_safe r (with_ctx (dm_call_update (\<lambda>x. x\<lparr>vc_reconcile_pending := False, vc_reconcile_command_id := 0\<rparr>)) q)"
    by (auto simp: record_safe_def)
  ultimately show ?thesis
    using assms unfolding timer_poll_def Let_def q_def [symmetric]
    by (auto intro: safe_set_fault safe_idle_poll)
qed

lemma safe_timer:
  assumes "record_safe r (d, [])" "cc_pending r"
  shows "record_safe r (qmodem_voip_call_timer e d)"
proof -
  have "record_safe r (timer_arm e (d\<lparr>dm_call_timer := None\<rparr>, []))"
    using assms by (intro safe_timer_arm) (simp_all add: record_safe_def)
  then have "record_safe r (let s1 = timer_arm e (d\<lparr>dm_call_timer := None\<rparr>, []) in
      if dm_arm_pending (fst s1) then s1 else timer_poll e s1)"
    using assms(2) by (simp add: Let_def safe_timer_poll)
  then show ?thesis unfolding qmodem_voip_call_timer_def Let_def
    by (intro safe_with_ctx) simp_all
qed

lemma voip_step_safe:
  assumes "voip_step d fx d'" "cc_pending (vc_completed (dm_call d))"
  shows "record_safe (vc_completed (dm_call d)) (d', fx)"
proof -
  have start: "record_safe (vc_completed (dm_call d)) (d, [])" by (simp add: record_safe_def)
  from assms(1) show ?thesis
  proof cases
    case (step_action e act endpoint number digit reply)
    then show ?thesis using safe_action [OF start assms(2), of e act endpoint number digit] by simp
  next
    case (step_enable e reply)
    then show ?thesis using safe_enable [OF start assms(2), of e] by simp
  next
    case (step_disable e reply)
    then show ?thesis using safe_disable [OF start assms(2), of e] by simp
  next
    case (step_activation e)
    then show ?thesis using safe_activation [OF start assms(2), of e] by simp
  next
    case (step_line e m)
    then show ?thesis using safe_events(1) [OF start assms(2), of e m] by simp
  next
    case (step_urc e m)
    then show ?thesis using safe_events(2) [OF start assms(2), of e m] by simp
  next
    case (step_timer e)
    then show ?thesis using safe_timer [OF start assms(2), of e] by simp
  next
    case (step_arm_done e status)
    then show ?thesis using safe_arm_done [OF start assms(2), of e status] by simp
  qed (simp_all add: record_safe_def qmodem_voip_restart_timer_def voice_restart_process_done_def
        idle_at_data_def idle_at_complete_def idle_at_failed_def Let_def)
qed

section \<open>The owner of an answered call\<close>

definition owned :: "qmodem_voip_endpoint \<Rightarrow> qmodem_voip_call \<Rightarrow> bool" where
  "owned a c \<longleftrightarrow> vc_answer_owner c = a \<or> vc_answer_owner c = ENDPOINT_NONE"

lemma owner_helpers [simp]:
  "vc_answer_owner (qmodem_voip_call_touch c) = vc_answer_owner c"
  "vc_answer_owner (reset_reconcile c) = vc_answer_owner c"
  "vc_answer_owner (begin_call k c) = vc_answer_owner c"
  "vc_answer_owner (mark_call_active k c) = vc_answer_owner c"
  "vc_answer_owner (snd (clip_number c raw)) = vc_answer_owner c"
  "vc_answer_owner (clcc_apply_status k st c) = vc_answer_owner c"
  "vc_answer_owner (clear_idle_poll c) = vc_answer_owner c"
  "vc_answer_owner (clear_call k c) = ENDPOINT_NONE"
  "vc_answer_owner (record_completed e c) = vc_answer_owner c"
  using clip_number_cases [of c raw]
  by (auto simp: qmodem_voip_call_touch_def reset_reconcile_def clear_call_def clear_idle_poll_def
      begin_call_def mark_call_active_def clcc_apply_status_def record_completed_cases
      qmodem_voip_call_ack_completed_def Let_def)

lemma owner_incoming [simp]: "vc_answer_owner (clcc_incoming k raw dir st mt c) = vc_answer_owner c"
  by (simp add: clcc_incoming_def Let_def)

lemma owner_set_enabled: "vc_answer_owner c = a \<Longrightarrow> owned a (qmodem_voip_call_set_enabled k c b)"
  by (simp add: owned_def qmodem_voip_call_set_enabled_def Let_def complete_call_def qmodem_voip_call_touch_def)

context call_callbacks begin

lemma owner_announce [simp]: "vc_answer_owner (fst (announce_state cb p ce)) = vc_answer_owner (fst ce)"
  by (simp add: announce_state_def Let_def del: notify.simps)

lemma owner_clcc: "vc_answer_owner (fst (snd (line_clcc cb k raw cor cmd ce))) = vc_answer_owner (fst ce)"
proof (cases "clcc_status raw")
  case None
  then show ?thesis by (simp add: line_clcc_def split_beta)
next
  case (Some q)
  obtain dir st md mt where q: "q = (dir, st, md, mt)" by (cases q)
  have voice: "vc_answer_owner (fst (snd (line_clcc_voice cb k p raw d s n x))) = vc_answer_owner (fst x)"
    for p d s n x
    by (simp add: line_clcc_voice_def Let_def del: notify.simps issue.simps)
  show ?thesis
    unfolding line_clcc_def Let_def split_beta Some q option.case fst_conv snd_conv
    by (simp add: voice del: notify.simps)
qed

lemma owned_poll_ok: "vc_answer_owner (fst ce) = a \<Longrightarrow> owned a (fst (snd (line_poll_ok cb k ce)))"
  unfolding line_poll_ok_def Let_def split_beta owned_def
  by (simp del: notify.simps)

lemma owned_dispatch:
  assumes "vc_answer_owner (fst ce) = a"
  shows "owned a (fst (snd (line_dispatch cb k raw cor cmd ce)))"
proof -
  have "owned a (fst (snd (line_ring cb k ce)))" "owned a (fst (snd (line_release cb k ce)))"
    "owned a (fst (snd (line_clcc cb k raw cor cmd ce)))" "owned a (fst (snd (line_poll_ok cb k ce)))"
    using assms owned_poll_ok [OF assms]
    by (simp_all add: line_ring_def line_release_def owned_def owner_clcc split_beta Let_def del: notify.simps)
  then show ?thesis
    using assms unfolding line_dispatch_def Let_def split_beta
    by (simp add: owned_def del: notify.simps)
qed

lemma owned_line: "owned (vc_answer_owner c) (fst (snd (qmodem_voip_line cb k c port e s raw cor cmd dr)))"
proof -
  have "vc_answer_owner (fst (line_resync cb e s c)) = vc_answer_owner c"
    by (simp add: line_resync_def del: notify.simps issue.simps)
  then show ?thesis
    unfolding qmodem_voip_line_def Let_def split_beta by (simp add: owned_dispatch) (simp add: owned_def)
qed

end

lemma owned_same: "owned (vc_answer_owner c) c"
  by (simp add: owned_def)

lemma owned_trans: "owned a c \<Longrightarrow> owned (vc_answer_owner c) c' \<Longrightarrow> owned a c'"
  by (auto simp: owned_def)

lemma owner_ops [simp]:
  "vc_answer_owner (fst (snd (terminate (voip_callbacks e) c ep))) = vc_answer_owner c"
  "vc_answer_owner (fst (snd (qmodem_voip_send_dtmf (voip_callbacks e) c ep x))) = vc_answer_owner c"
  "vc_answer_owner (fst (snd (qmodem_voip_start_recovery (voip_callbacks e) c))) = vc_answer_owner c"
  "vc_answer_owner (fst (snd (qmodem_voip_poll_active (voip_callbacks e) c))) = vc_answer_owner c"
  "vc_answer_owner (fst (snd (qmodem_voip_poll_idle (idle_callbacks e route) c))) = vc_answer_owner c"
  by (simp_all add: terminate_def qmodem_voip_send_dtmf_def qmodem_voip_start_recovery_def
      qmodem_voip_poll_active_def qmodem_voip_poll_idle_def Let_def del: issue.simps)

lemma owner_end_ops [simp]:
  "vc_answer_owner (fst (snd (qmodem_voip_reject (voip_callbacks e) c ep))) = vc_answer_owner c"
  "vc_answer_owner (fst (snd (qmodem_voip_hangup (voip_callbacks e) c ep))) = vc_answer_owner c"
  by (simp_all add: qmodem_voip_reject_def qmodem_voip_hangup_def)

lemma owned_originate:
  "owned (vc_answer_owner c) (fst (snd (qmodem_voip_originate (voip_callbacks e) k c ep n)))"
  by (simp add: owned_def qmodem_voip_originate_def Let_def del: issue.simps)

lemma owned_answer:
  "vc_answer_owner c \<noteq> ENDPOINT_NONE \<Longrightarrow>
   owned (vc_answer_owner c) (fst (snd (qmodem_voip_answer (voip_callbacks e) k c ep)))"
  by (simp add: owned_def qmodem_voip_answer_def)

lemma owner_set_fault [simp]:
  "vc_answer_owner (dm_call (fst (set_fault e s))) = vc_answer_owner (dm_call (fst s))"
  by (simp add: set_fault_def)

lemma owned_action:
  assumes "vc_answer_owner (dm_call d) \<noteq> ENDPOINT_NONE"
  shows "owned (vc_answer_owner (dm_call d)) (dm_call (fst (snd (action_call e act endpoint number digit d))))"
proof -
  have run: "owned (vc_answer_owner (dm_call d)) (dm_call (fst (snd (action_run e act ep number digit (d', fx)))))"
    if "dm_call d' = dm_call d" for ep d' fx
    using assms that owned_originate [of "dm_call d" e "en_clocks e" ep number] owned_same [of "dm_call d"]
      owned_answer [of "dm_call d" e "en_clocks e" ep]
    by (cases act) (auto simp: action_run_def Let_def split_beta owned_def split: option.split list.split)
  have rep: "vc_answer_owner (dm_call (fst (snd (action_reply e act r s)))) = vc_answer_owner (dm_call (fst s))" for r s
    by (simp add: action_reply_def)
  show ?thesis
    using run [of "d\<lparr>dm_command_failed := False\<rparr>"]
    by (auto simp: action_call_def split_beta owned_def rep split: option.split sum.split)
qed

lemma owned_activate:
  "owned (vc_answer_owner (dm_call (fst s))) (dm_call (fst (snd (activate_runtime e s))))"
proof -
  have on: "owned (vc_answer_owner c) (qmodem_voip_call_set_enabled k c b)" for c k b
    by (rule owner_set_enabled) simp
  have off: "owned a (qmodem_voip_call_set_enabled k c b)" if "owned a c" for a c k b
    using owned_trans [OF that on] .
  show ?thesis
    using on [of "dm_call (fst s)"] off
    by (simp add: activate_runtime_def Let_def split_beta owned_same split: media_start.split)
       (auto simp: owned_def)
qed

lemma owned_schedule: "owned a (dm_call (fst s)) \<Longrightarrow> owned a (dm_call (fst (schedule_modem_reenumeration e s)))"
  using owner_set_enabled [of "dm_call (fst s)" _ "en_clocks e" True]
  by (auto simp: schedule_modem_reenumeration_def owned_def)

lemma owned_activation:
  "owned (vc_answer_owner (dm_call d)) (dm_call (fst (qmodem_voip_activation_timer e d)))"
  using owned_activate [of "(d\<lparr>dm_activation_timer := None\<rparr>, [])" e]
  by (simp add: qmodem_voip_activation_timer_def Let_def split_beta owned_schedule owned_same
      split: activation.split)

lemma owned_enable: "owned (vc_answer_owner (dm_call d)) (dm_call (fst (snd (enable_method e d))))"
  using owned_activate [of "(d\<lparr>dm_command_failed := False, dm_start_enabled := True\<rparr>, [Fx_uci True])" e]
  by (simp add: enable_method_def Let_def split_beta owned_schedule owned_same split: activation.split)

lemma owned_disable: "owned (vc_answer_owner (dm_call d)) (dm_call (fst (snd (disable_method e d))))"
  using owner_set_enabled [of "dm_call d" "vc_answer_owner (dm_call d)" "en_clocks e" False]
  by (simp add: disable_method_def Let_def owned_def)

lemma owned_feed: "owned (vc_answer_owner (dm_call d)) (dm_call (fst (feed_line e m cor cmd d)))"
  using vcb.owned_line [of "dm_call d" e]
  by (simp add: feed_line_def Let_def owned_def)

lemma owner_timer: "vc_answer_owner (dm_call (fst (qmodem_voip_call_timer e d))) = vc_answer_owner (dm_call d)"
proof -
  have "vc_answer_owner (dm_call (fst (timer_arm e s))) = vc_answer_owner (dm_call (fst s))" for s
    by (simp add: timer_arm_def Let_def split_beta)
  moreover have "vc_answer_owner (dm_call (fst (timer_idle_poll e s))) = vc_answer_owner (dm_call (fst s))" for s
    by (simp add: timer_idle_poll_def idle_poll_expire_def idle_poll_send_def Let_def split_beta)
  then have "vc_answer_owner (dm_call (fst (timer_poll e s))) = vc_answer_owner (dm_call (fst s))" for s
    by (simp add: timer_poll_def Let_def)
  ultimately show ?thesis by (simp add: qmodem_voip_call_timer_def Let_def)
qed

lemma voip_step_owned:
  assumes "voip_step d fx d'" "vc_answer_owner (dm_call d) \<noteq> ENDPOINT_NONE"
  shows "owned (vc_answer_owner (dm_call d)) (dm_call d')"
  using assms(1)
proof cases
  case (step_action e act endpoint number digit reply)
  then show ?thesis using owned_action [OF assms(2), of e act endpoint number digit] by simp
next
  case (step_enable e reply)
  then show ?thesis using owned_enable [of d e] by simp
next
  case (step_disable e reply)
  then show ?thesis using owned_disable [of d e] by simp
next
  case (step_activation e)
  then show ?thesis using owned_activation [of d e] by simp
next
  case (step_line e m)
  then have "d' = d \<or> (\<exists>cor cmd. d' = fst (feed_line e m cor cmd d))"
    by (auto simp: at_line_event_def Let_def split: if_splits) (metis fst_conv)
  then show ?thesis using owned_feed owned_same by auto
next
  case (step_urc e m)
  then have "d' = d \<or> (\<exists>cor cmd. d' = fst (feed_line e m cor cmd d))"
    by (auto simp: at_urc_event_def split: if_splits) (metis fst_conv)
  then show ?thesis using owned_feed owned_same by auto
next
  case (step_timer e)
  then show ?thesis using owner_timer [of e d] by (simp add: owned_def)
next
  case (step_arm_done e status)
  have "vc_answer_owner (dm_call (fst (serial_arm_process_done e status d))) = vc_answer_owner (dm_call d)"
    by (simp add: serial_arm_process_done_def Let_def)
  with step_arm_done show ?thesis by (simp add: owned_def)
qed (simp_all add: owned_def qmodem_voip_restart_timer_def voice_restart_process_done_def
       idle_at_data_def idle_at_complete_def idle_at_failed_def Let_def)

section \<open>Lines that repeat what is known, and polls without an answer\<close>

text \<open>A line of the call's own port that is next in sequence.\<close>

definition next_line :: "qmodem_voip_call \<Rightarrow> string \<Rightarrow> u64 \<Rightarrow> u64 \<Rightarrow> bool" where
  "next_line c port epoch sequence \<longleftrightarrow> vc_enabled c \<and> vc_at_port c = port \<and> port \<noteq> [] \<and>
     \<not> line_stale c epoch sequence \<and> \<not> line_gap c epoch sequence"

lemma next_line_dispatch:
  assumes "next_line c port epoch sequence"
  shows "qmodem_voip_line cb k c (Some port) epoch sequence (Some raw) cor cmd dr =
     line_dispatch cb k raw cor cmd
       (c\<lparr>vc_restart_epoch := epoch, vc_sequence := sequence, vc_drop_count := dr\<rparr>, [])"
  using assms by (auto simp: next_line_def qmodem_voip_line_def line_resync_def)

lemma dispatch_clcc:
  assumes "has_prefix raw ''+CLCC:''"
  shows "line_dispatch cb k raw cor cmd ce = line_clcc cb k raw cor cmd ce"
proof -
  obtain r where raw: "raw = ''+CLCC:'' @ r" using assms by (auto simp: has_prefix_iff)
  show ?thesis by (simp add: line_dispatch_def raw has_prefix_def split_beta)
qed

lemma apply_status_state:
  "vc_state c' = vc_state c \<Longrightarrow> vc_answer_owner c' = vc_answer_owner c \<Longrightarrow>
   vc_state (clcc_apply_status k st c') = vc_state (clcc_apply_status k st c)"
  by (simp add: clcc_apply_status_def mark_call_active_def Let_def)

lemma revision_helpers [simp]:
  "vc_revision (begin_call k c) = vc_revision c"
  "vc_revision (snd (clip_number c raw)) = vc_revision c"
  "vc_revision (clcc_apply_status k st c) = vc_revision c"
  using clip_number_cases [of c raw]
  by (auto simp: begin_call_def clcc_apply_status_def mark_call_active_def Let_def)

lemma revision_incoming [simp]: "vc_revision (clcc_incoming k raw dir st mt c) = vc_revision c"
  by (simp add: clcc_incoming_def Let_def)

lemma clcc_same_state:
  assumes st: "clcc_status raw = Some (dir, st, md, mt)" "md \<noteq> 1"
    and pend: "\<not> vc_reconcile_pending c \<or>
      (cmd \<noteq> 0 \<and> (cor = CORR_RESPONSE \<or> cor = CORR_TERMINAL) \<and> \<not> mt)"
    and same: "vc_state (clcc_apply_status k st c) = vc_state c" "vc_state c \<noteq> VOIP_TERMINATING"
  shows "\<exists>c'. line_clcc cb k raw cor cmd (c, []) = (0, c', []) \<and> vc_revision c' = vc_revision c \<and> vc_state c' = vc_state c"
proof -
  have voice: "\<exists>c'. line_clcc_voice cb k (vc_state c) raw dir st mt (c1, []) = (0, c', []) \<and>
      vc_revision c' = vc_revision c \<and> vc_state c' = vc_state c"
    if "c1 = c \<or> c1 = c\<lparr>vc_reconcile_command_id := cmd\<rparr>" for c1
  proof -
    define c2 where "c2 = (clcc_incoming k raw dir st mt c1)\<lparr>vc_reconcile_pending := False,
        vc_reconcile_voice_misses := 0, vc_idle_poll := False\<rparr>"
    have "vc_state (clcc_apply_status k st c2) = vc_state (clcc_apply_status k st c)"
      using that by (intro apply_status_state) (auto simp: c2_def clcc_incoming_fields)
    moreover have "vc_revision (clcc_apply_status k st c2) = vc_revision c"
      using that by (auto simp: c2_def)
    moreover have "vc_state c1 = vc_state c" using that by auto
    ultimately show ?thesis
      using same that by (auto simp: line_clcc_voice_def Let_def clcc_incoming_fields c2_def [symmetric]
          announce_state_def)
  qed
  define c1 where "c1 = (if vc_reconcile_pending c \<and> vc_reconcile_command_id c = 0
      then c\<lparr>vc_reconcile_command_id := cmd\<rparr> else c)"
  have "line_clcc cb k raw cor cmd (c, []) = line_clcc_voice cb k (vc_state c) raw dir st mt (c1, [])"
    using st pend by (auto simp: line_clcc_def Let_def c1_def)
  then show ?thesis using voice [of c1] by (simp add: c1_def)
qed

text \<open>An \<open>OK\<close> that answers a poll which listed no call.\<close>

lemma dispatch_poll_ok:
  assumes "answers_poll (fst ce) cor cmd"
  shows "line_dispatch cb k ''OK'' cor cmd ce = line_poll_ok cb k ce"
  using assms by (simp add: line_dispatch_def has_prefix_def split_beta)

context call_callbacks begin

lemma notify_frame:
  "\<exists>m. fst (notify cb v ce) = (fst ce)\<lparr>vc_revision := vc_revision (fst ce) + 1, vc_completed := m\<rparr>"
  using notify_cases [of v "fst ce" "snd ce"]
proof
  assume "fst (notify cb v (fst ce, snd ce)) = qmodem_voip_call_touch (fst ce)"
  then show ?thesis by (intro exI [of _ "vc_completed (fst ce)"]) (simp add: qmodem_voip_call_touch_def)
next
  assume "fst (notify cb v (fst ce, snd ce)) = qmodem_voip_call_ack_completed (qmodem_voip_call_touch (fst ce))"
  then show ?thesis
    by (intro exI [of _ zero_completed]) (simp add: qmodem_voip_call_touch_def qmodem_voip_call_ack_completed_def)
qed

lemma notify_reconcile_fields [simp]:
  "vc_reconcile_voice_misses (fst (notify cb v ce)) = vc_reconcile_voice_misses (fst ce)"
  "vc_reconcile_pending (fst (notify cb v ce)) = vc_reconcile_pending (fst ce)"
  using notify_frame [of v ce] by auto

lemma first_empty_poll:
  assumes "in_voice_state c" "vc_reconcile_voice_misses c = 0"
  shows "vc_state (fst (snd (line_poll_ok cb k (c, es)))) = vc_state c"
    "vc_reconcile_voice_misses (fst (snd (line_poll_ok cb k (c, es)))) = 1"
    "\<not> vc_reconcile_pending (fst (snd (line_poll_ok cb k (c, es))))"
proof -
  have "vc_state c \<noteq> VOIP_IDLE" using assms(1) by (auto simp: in_voice_state_def)
  moreover have "in_voice_state (c\<lparr>vc_idle_poll := False\<rparr>)" using assms(1) by (simp add: in_voice_state_def)
  ultimately have eq: "snd (line_poll_ok cb k (c, es)) = notify cb ''reconcile_inconclusive''
      (reset_reconcile (c\<lparr>vc_idle_poll := False, vc_reconcile_voice_misses := 1\<rparr>), es)"
    using assms(2) by (simp add: line_poll_ok_def Let_def)
  show "vc_state (fst (snd (line_poll_ok cb k (c, es)))) = vc_state c"
    "vc_reconcile_voice_misses (fst (snd (line_poll_ok cb k (c, es)))) = 1"
    "\<not> vc_reconcile_pending (fst (snd (line_poll_ok cb k (c, es))))"
    unfolding eq by (simp_all add: reset_reconcile_def del: notify.simps)
qed

lemma second_empty_poll:
  assumes "in_voice_state c" "vc_reconcile_voice_misses c = 1" "vc_enabled c"
  shows "vc_state (fst (snd (line_poll_ok cb k (c, es)))) = VOIP_IDLE"
    "vc_answer_owner (fst (snd (line_poll_ok cb k (c, es)))) = ENDPOINT_NONE"
proof -
  define c2 where "c2 = c\<lparr>vc_idle_poll := False, vc_reconcile_voice_misses := 2\<rparr>"
  have st: "vc_state c \<noteq> VOIP_IDLE" using assms(1) by (auto simp: in_voice_state_def)
  have "in_voice_state (c\<lparr>vc_idle_poll := False\<rparr>)" using assms(1) by (simp add: in_voice_state_def)
  then have eq: "\<exists>name. snd (line_poll_ok cb k (c, es)) = notify cb name (reset_reconcile (clear_call k c2), es)"
    using assms(2) st by (auto simp: line_poll_ok_def Let_def c2_def)
  have idle: "vc_state (clear_call k c2) = VOIP_IDLE"
    using assms(3) by (simp add: clear_call_def Let_def c2_def complete_call_def qmodem_voip_call_touch_def)
  from eq obtain name where eq: "snd (line_poll_ok cb k (c, es)) =
      notify cb name (reset_reconcile (clear_call k c2), es)" ..
  show "vc_state (fst (snd (line_poll_ok cb k (c, es)))) = VOIP_IDLE"
    "vc_answer_owner (fst (snd (line_poll_ok cb k (c, es)))) = ENDPOINT_NONE"
    unfolding eq using idle by (simp_all add: reset_reconcile_def del: notify.simps)
qed

end

section \<open>Properties\<close>

text \<open>Concrete data the examples below run on: a world in which every program succeeds and the
  AT port is \<open>/dev/ttyUSB2\<close>, and an idle, enabled call on that port.\<close>

definition sample_profile :: voip_profile where
  "sample_profile = \<lparr>vp_adb_unlock = False, vp_media_gate = False, vp_voice_server_restart = False,
     vp_voice_server_service = [], vp_dependency_service = [], vp_idle_clcc_poll = False\<rparr>"

definition sample_env :: voip_env where
  "sample_env = \<lparr>en_clocks = \<lparr>clk_time = 1700000000, clk_monotonic = Some (50, 0)\<rparr>,
     en_endpoint = (\<lambda>_. Some (''/dev/ttyUSB2'' @ [CHR 0x0A])), en_at = (\<lambda>_. True),
     en_history = (\<lambda>_. True), en_safety = (\<lambda>_. True),
     en_journal = Some [''phase=enabled'' @ [CHR 0x0A]], en_gate = True, en_adb = Some 0,
     en_uci_set = (\<lambda>_. True), en_uci_commit = True, en_profile = sample_profile,
     en_media_start = Media_started False, en_fork = True, en_process_add = True,
     en_object = None, en_invoke = True, en_reopen_pending = False, en_reopen = True\<rparr>"

definition sample_call :: qmodem_voip_call where
  "sample_call = qmodem_voip_call_init\<lparr>vc_enabled := True, vc_state := VOIP_IDLE,
     vc_at_port := ''/dev/ttyUSB2'', vc_restart_epoch := 1, vc_sequence := 4\<rparr>"

definition sample_context :: "qmodem_voip_call \<Rightarrow> voip_context" where
  "sample_context c = \<lparr>dm_call = c,
     dm_idle_at = \<lparr>ad_port = [], ad_object = 0, ad_pending = False, ad_failures = 0\<rparr>,
     dm_idle_at_reply_ok = False, dm_profile = sample_profile, dm_serial_backend = False,
     dm_media_ready = True, dm_rtp_active = False, dm_browser_timer = None, dm_call_timer = Some 1000,
     dm_activation_timer = None, dm_activation_attempts = 0, dm_restart_timer = None,
     dm_arm_pending = False, dm_voice_restart_pending = False, dm_voice_restart_revision = 0,
     dm_voice_restart_needed = False, dm_command_failed = False, dm_arm_attempts = 0,
     dm_active_generation = 0, dm_arm_generation = 0, dm_start_enabled = True, dm_stop = False,
     dm_idle_poll_waits = 0\<rparr>"

lemmas sample_defs = sample_profile_def sample_env_def sample_call_def sample_context_def
  qmodem_voip_call_init_def zero_completed_def

text \<open>C1: whatever the handlers of the voice daemon do, in any order and with any answers of the
  helper programs, the call stays well formed: it is disabled exactly when its state says so, an
  idle or disabled call has no owner, origin or running clock, an owner is an audio endpoint, and
  no fixed buffer is overrun.\<close>

theorem voip_call_invariant: "reach voip_start voip_run d \<Longrightarrow> call_ok (dm_call d)"
  using voip.reach_inv by (simp add: context_ok_def)

theorem voip_call_invariant_witness:
  "reach voip_start voip_run (fst (snd (enable_method sample_env (sample_context qmodem_voip_call_init)))) \<and>
   vc_state (dm_call (fst (snd (enable_method sample_env (sample_context qmodem_voip_call_init))))) = VOIP_RECOVERING \<and>
   call_ok (dm_call (fst (snd (enable_method sample_env (sample_context qmodem_voip_call_init)))))"
proof -
  let ?d = "sample_context qmodem_voip_call_init"
  have "voip_start ?d" by (simp add: voip_start_def sample_context_def)
  moreover have "voip_run ?d (fst (snd (enable_method sample_env ?d)))"
    unfolding voip_run_def by (metis prod.collapse step_enable)
  ultimately have r: "reach voip_start voip_run (fst (snd (enable_method sample_env ?d)))"
    by (metis reach_init reach_step)
  have "vc_state (dm_call (fst (snd (enable_method sample_env ?d)))) = VOIP_RECOVERING"
    by code_simp
  with r voip_call_invariant [OF r] show ?thesis by blast
qed



text \<open>C4: a call that ended is never lost: after any handler its record still waits in the call,
  or the handler appended exactly that record to the history.\<close>

theorem voip_completed_call_not_lost:
  assumes "voip_step d fx d'" and "cc_pending (vc_completed (dm_call d))"
  shows "vc_completed (dm_call d') = vc_completed (dm_call d) \<or>
         Fx_history (vc_completed (dm_call d)) True \<in> set fx"
  using voip_step_safe [OF assms] by (simp add: record_safe_def)

definition sample_ended :: qmodem_voip_call where
  "sample_ended = sample_call\<lparr>vc_completed := zero_completed\<lparr>cc_number := ''10086'', cc_pending := True\<rparr>\<rparr>"

theorem voip_completed_call_not_lost_witness:
  "Fx_history (vc_completed sample_ended) True
     \<in> set (snd (snd (disable_method sample_env (sample_context sample_ended)))) \<or>
   vc_completed (dm_call (fst (snd (disable_method sample_env (sample_context sample_ended)))))
     = vc_completed sample_ended"
proof -
  let ?r = "disable_method sample_env (sample_context sample_ended)"
  have "voip_step (sample_context sample_ended) (snd (snd ?r)) (fst (snd ?r))"
    by (rule step_disable [of sample_env _ "fst ?r"]) simp
  moreover have "dm_call (sample_context sample_ended) = sample_ended" "cc_pending (vc_completed sample_ended)"
    by (simp_all add: sample_context_def sample_ended_def)
  ultimately show ?thesis
    using voip_completed_call_not_lost [of "sample_context sample_ended" "snd (snd ?r)" "fst (snd ?r)"]
    by metis
qed

text \<open>C6: an answered call belongs to the endpoint that answered it: after any handler the owner
  is the same endpoint, or the call was released and has no owner.\<close>

theorem voip_answer_owner_exclusive:
  assumes "voip_step d fx d'" and "vc_answer_owner (dm_call d) \<noteq> ENDPOINT_NONE"
  shows "vc_answer_owner (dm_call d') = vc_answer_owner (dm_call d) \<or>
         vc_answer_owner (dm_call d') = ENDPOINT_NONE"
  using voip_step_owned [OF assms] by (simp add: owned_def)

theorem voip_answer_owner_exclusive_witness:
  "let c = sample_call\<lparr>vc_state := VOIP_ACTIVE, vc_answer_owner := ENDPOINT_BROWSER\<rparr>;
       r = action_call sample_env Answer (Some ''lan_sip'') None None (sample_context c)
   in fst r = Reply_status UBUS_STATUS_NOT_SUPPORTED ''busy'' \<and>
      vc_answer_owner (dm_call (fst (snd r))) \<in> {ENDPOINT_BROWSER, ENDPOINT_NONE}"
proof -
  let ?c = "sample_call\<lparr>vc_state := VOIP_ACTIVE, vc_answer_owner := ENDPOINT_BROWSER\<rparr>"
  let ?r = "action_call sample_env Answer (Some ''lan_sip'') None None (sample_context ?c)"
  have "fst ?r = Reply_status UBUS_STATUS_NOT_SUPPORTED ''busy''" by code_simp
  moreover have "voip_step (sample_context ?c) (snd (snd ?r)) (fst (snd ?r))"
    by (rule step_action [of sample_env Answer "Some ''lan_sip''" None None _ "fst ?r"]) simp
  moreover have "vc_answer_owner (dm_call (sample_context ?c)) = ENDPOINT_BROWSER"
    by (simp add: sample_context_def)
  ultimately show ?thesis
    using voip_answer_owner_exclusive [of "sample_context ?c" "snd (snd ?r)" "fst (snd ?r)"]
    by (auto simp: Let_def)
qed

lemma digit_char_set: "is_digit c \<Longrightarrow> c \<in> set ''0123456789''"
proof -
  assume "is_digit c"
  have "n \<in> {48, 49, 50, 51, 52, 53, 54, 55, 56, 57}" if "48 \<le> n" "n \<le> 57" for n :: nat
    using that by simp presburger
  from this [of "of_char c"] have "(of_char c :: nat) \<in> {48, 49, 50, 51, 52, 53, 54, 55, 56, 57}"
    using \<open>is_digit c\<close> by (simp only: is_digit_def)
  then have "char_of (of_char c :: nat) \<in> set ''0123456789''"
    by (elim insertE emptyE) (simp_all add: char_of_def bit_0)
  then show ?thesis by simp
qed

lemma number_char_set:
  assumes "number_char c"
  shows "c \<in> set ''0123456789+*#,p''"
proof -
  consider "is_digit c" | "c \<in> set ''+*#,p''" using assms by (auto simp: number_char_def)
  then show ?thesis
  proof cases
    case 1
    from digit_char_set [OF this] show ?thesis by auto
  qed auto
qed

text \<open>C11: a dialling request that is accepted sends exactly one command, the number between
  \<open>ATD\<close> and a semicolon, and a number consists of digits, \<open>+\<close>, \<open>*\<close>,
  \<open>#\<close>, comma and \<open>p\<close> only: no request can smuggle another command into the
  modem. The number is stored unchanged and the call is in setup.\<close>

theorem voip_originate_command:
  assumes "qmodem_voip_originate (voip_callbacks e) k c origin (Some n) = (0, c', es)"
  shows "es = [Command (''ATD'' @ n @ '';'')] \<and> set n \<subseteq> set ''0123456789+*#,p'' \<and> n \<noteq> [] \<and>
         vc_number c' = n \<and> vc_state c' = VOIP_OUTGOING_SETUP \<and> vc_origin c' = origin \<and>
         vc_state c = VOIP_IDLE"
proof -
  from assms have ok: "vc_enabled c" "endpoint_is_source origin" "valid_number (Some n)" "vc_state c = VOIP_IDLE"
    by (auto simp: qmodem_voip_originate_def Let_def split: if_splits)
  define c1 where "c1 = qmodem_voip_call_touch (c\<lparr>vc_origin := origin, vc_endpoint := ENDPOINT_CELLULAR,
                      vc_number := n, vc_caller_id_withheld := False,
                      vc_active_since_msec := 0, vc_started_at := clk_time k,
                      vc_was_active := False, vc_answer_owner := ENDPOINT_NONE,
                      vc_reconcile_voice_misses := 0, vc_state := VOIP_OUTGOING_SETUP\<rparr>)"
  have len: "length n < NUMBER_SIZE" "list_all number_char n" "n \<noteq> []" using ok(3) by (simp_all add: valid_number_def)
  have "(c', es) = (snd (run_at e (''ATD'' @ n @ '';'') c1), [Command (''ATD'' @ n @ '';'')])"
    using assms ok len by (simp add: qmodem_voip_originate_def Let_def c1_def voip_callbacks_def c_copy_id)
  moreover have "vc_number (snd (run_at e v c1)) = n" "vc_state (snd (run_at e v c1)) = VOIP_OUTGOING_SETUP"
    "vc_origin (snd (run_at e v c1)) = origin" for v
    using run_at_cases [of e v c1] by (auto simp: c1_def qmodem_voip_call_touch_def)
  moreover have "set n \<subseteq> set ''0123456789+*#,p''"
    using len(2) number_char_set unfolding list_all_iff by blast
  ultimately show ?thesis using ok len by auto
qed

theorem voip_originate_command_witness:
  "let r = qmodem_voip_originate (voip_callbacks sample_env) (en_clocks sample_env) sample_call
             ENDPOINT_BROWSER (Some ''+8610086'')
   in fst r = 0 \<and> snd (snd r) = [Command ''ATD+8610086;''] \<and> vc_number (fst (snd r)) = ''+8610086''"
proof -
  define r where "r = qmodem_voip_originate (voip_callbacks sample_env) (en_clocks sample_env) sample_call
             ENDPOINT_BROWSER (Some ''+8610086'')"
  have z: "fst r = 0" unfolding r_def by code_simp
  then have "r = (0, fst (snd r), snd (snd r))" by (metis prod.collapse)
  then show ?thesis
    using z voip_originate_command [of sample_env "en_clocks sample_env" sample_call ENDPOINT_BROWSER "''+8610086''"
        "fst (snd r)" "snd (snd r)"]
    by (simp add: r_def [symmetric])
qed

text \<open>A call list record that reports the state the call is already in publishes nothing and
  keeps the revision, so the media sessions bound to that revision stay valid across the periodic
  polls. The record must be a voice record, next in sequence, and either unsolicited while no poll
  is outstanding or a numbered answer to the outstanding poll.\<close>

lemma voip_repeated_clcc_keeps_revision:
  assumes "next_line c port ep sq" "has_prefix raw ''+CLCC:''"
    and "clcc_status raw = Some (dir, st, md, mt)" "md \<noteq> 1"
    and "\<not> vc_reconcile_pending c \<or> (cmd \<noteq> 0 \<and> (cor = CORR_RESPONSE \<or> cor = CORR_TERMINAL) \<and> \<not> mt)"
    and "vc_state (clcc_apply_status k st c) = vc_state c" "vc_state c \<noteq> VOIP_TERMINATING"
  shows "\<exists>c'. qmodem_voip_line cb k c (Some port) ep sq (Some raw) cor cmd dr = (0, c', []) \<and>
           vc_revision c' = vc_revision c \<and> vc_state c' = vc_state c"
proof -
  let ?c = "c\<lparr>vc_restart_epoch := ep, vc_sequence := sq, vc_drop_count := dr\<rparr>"
  have "vc_state (clcc_apply_status k st ?c) = vc_state ?c"
    using assms(6) apply_status_state [of ?c c k st] by simp
  then show ?thesis
    using clcc_same_state [OF assms(3,4), of ?c cmd cor k cb] assms(5,7)
    by (simp add: next_line_dispatch [OF assms(1)] dispatch_clcc [OF assms(2)])
qed

text \<open>One poll that lists no call does not end a voice call; it is the second one in a row
  that releases it. The first leaves the state alone, counts the miss and lets the next poll go
  out; the second leaves the call idle and without an owner.\<close>

lemma voip_two_empty_polls_release:
  assumes "next_line c port ep sq" "in_voice_state c" "answers_poll c cor cmd"
    and "qmodem_voip_line (voip_callbacks e) k c (Some port) ep sq (Some ''OK'') cor cmd dr = (code, r, es)"
  shows "(vc_reconcile_voice_misses c = 0 \<longrightarrow>
            vc_state r = vc_state c \<and> vc_reconcile_voice_misses r = 1 \<and> \<not> vc_reconcile_pending r) \<and>
         (vc_reconcile_voice_misses c = 1 \<longrightarrow>
            vc_state r = VOIP_IDLE \<and> vc_answer_owner r = ENDPOINT_NONE)"
proof -
  let ?c = "c\<lparr>vc_restart_epoch := ep, vc_sequence := sq, vc_drop_count := dr\<rparr>"
  have "in_voice_state ?c" "answers_poll (fst (?c, [])) cor cmd" "vc_enabled ?c"
    using assms(1-3) by (simp_all add: in_voice_state_def answers_poll_def next_line_def)
  then show ?thesis
    using assms(4) vcb.first_empty_poll [of ?c e k "[]"] vcb.second_empty_poll [of ?c e k "[]"]
    by (auto simp: dispatch_poll_ok next_line_dispatch [OF assms(1)])
qed

end
