(* ===== verification/Media_Invariant.thy ===== *)
theory Media_Invariant
  imports Media_Manager Voip_Properties
begin

text \<open>
  The media of the voice daemon over time: who holds the engine in every state the daemon reaches, what
  is left when a call is over, and how a browser comes from a token to its audio. The invariant is
  proved for every operation of \<open>media_manager.c\<close>, every event of the browser and of the media socket, and
  every effect of the daemon's handlers.
\<close>

section \<open>Moving audio does not touch the session\<close>

definition keeps :: "qmodem_voip_media_engine \<Rightarrow> qmodem_voip_media_engine \<Rightarrow> bool" where
  "keeps e e' \<longleftrightarrow> me_session_id e' = me_session_id e \<and> me_attachment e' = me_attachment e"

lemma keeps_refl [simp]: "keeps e e"
  by (simp add: keeps_def)

lemma keeps_trans [trans]: "keeps e e1 \<Longrightarrow> keeps e1 e2 \<Longrightarrow> keeps e e2"
  by (simp add: keeps_def)

lemma keeps_fields [simp]:
  "keeps e (e\<lparr>me_serial := s\<rparr>)" "keeps e (e\<lparr>me_modem_to_canonical := q\<rparr>)" "keeps e (e\<lparr>me_canonical_to_modem := q\<rparr>)"
  "keeps e (e\<lparr>me_pcm_socket := p\<rparr>)" "keeps e (e\<lparr>me_rtp := r\<rparr>)" "keeps e (e\<lparr>me_ready := b\<rparr>)"
  by (simp_all add: keeps_def)

lemma keeps_serial_ops:
  "keeps e (qmodem_voip_serial_set_attached a e)" "keeps e (qmodem_voip_serial_reset_stream e)"
  "keeps e (qmodem_voip_serial_prepare_call e)" "keeps e (fst (qmodem_voip_serial_close e))"
  "keeps e (fst (serial_failure e))" "keeps e (take_in bs e)" "keeps e (cut_frame e)" "keeps e (play_in f e)"
  "keeps e (transfer_done n t e)" "keeps e (note_again t e)" "keeps e (note_written n e)" "keeps e (fst (write_error e))"
  by (simp_all add: keeps_def qmodem_voip_serial_set_attached_def qmodem_voip_serial_reset_stream_def
      qmodem_voip_serial_prepare_call_def qmodem_voip_serial_close_def serial_failure_def take_in_def cut_frame_def play_in_def
      transfer_done_def note_again_def note_written_def write_error_def Let_def split: prod.splits if_splits)

lemma keeps_serial_start: "keeps e (fst (snd (qmodem_voip_serial_start env e slot)))"
  by (auto simp: keeps_def qmodem_voip_serial_start_def qmodem_voip_serial_adopt_def qmodem_voip_serial_close_def Let_def
      split: option.splits if_splits prod.splits)

lemma keeps_serial_reopen: "keeps e (fst (snd (qmodem_voip_serial_reopen env e)))"
proof -
  obtain e1 c where c: "qmodem_voip_serial_close e = (e1, c)" by fastforce
  obtain r e2 c2 where s: "qmodem_voip_serial_start env e1 (dv_slot (me_device e)) = (r, e2, c2)" by (metis prod_cases3)
  have "keeps e e1" using keeps_serial_ops(4) [of e] c by simp
  also have "keeps e1 e2" using keeps_serial_start [of e1 env "dv_slot (me_device e)"] s by simp
  finally show ?thesis by (auto simp: qmodem_voip_serial_reopen_def c s keeps_def)
qed

text \<open>Extending what is known to be kept by one more operation.\<close>

lemma keeps_then:
  "keeps e e1 \<Longrightarrow> keeps e (cut_frame e1)" "keeps e e1 \<Longrightarrow> keeps e (take_in bs e1)"
  "keeps e e1 \<Longrightarrow> keeps e (play_in f e1)" "keeps e e1 \<Longrightarrow> keeps e (transfer_done n t e1)"
  "keeps e e1 \<Longrightarrow> keeps e (note_again t e1)" "keeps e e1 \<Longrightarrow> keeps e (note_written n e1)"
  "keeps e e1 \<Longrightarrow> serial_failure e1 = (e2, c) \<Longrightarrow> keeps e e2" "keeps e e1 \<Longrightarrow> write_error e1 = (e2, c) \<Longrightarrow> keeps e e2"
  by - (metis keeps_serial_ops keeps_trans fst_conv)+

lemma keeps_cut_frames: "cut_frames n ts e = Some (ok, ts', e') \<Longrightarrow> keeps e0 e \<Longrightarrow> keeps e0 e'"
proof (induction n arbitrary: ts e)
  case 0
  then show ?case by (subst (asm) cut_frames.simps) (auto split: if_splits)
next
  case (Suc n)
  show ?case
  proof (cases "sr_capture_used (me_serial e) < unat (pr_frame_bytes (me_profile e))")
    case True
    then show ?thesis using Suc.prems by (subst (asm) cut_frames.simps) simp
  next
    case False
    obtain r q where "(if sr_attached (me_serial e)
               then qmodem_voip_media_queue_push (me_modem_to_canonical e)
                      (le_samples (take SERIAL_FRAME_BYTES (sr_capture (me_serial e)))) ts
               else (0, me_modem_to_canonical e)) = (r, q)" by fastforce
    then have "e' = e \<or> cut_frames n (ts + ucast (pr_frame_ms (me_profile e))) (cut_frame (e\<lparr>me_modem_to_canonical := q\<rparr>)) = Some (ok, ts', e')"
      using Suc.prems(1) False cut_frames.simps [of "Suc n" ts e] by (simp split: if_splits)
    moreover have "keeps e0 (cut_frame (e\<lparr>me_modem_to_canonical := q\<rparr>))"
      using Suc.prems(2) by (simp add: keeps_def cut_frame_def Let_def)
    ultimately show ?thesis using Suc.IH Suc.prems(2) by blast
  qed
qed

text \<open>One round of the capture loop on bytes that arrived.\<close>

lemma capture_loop_read:
  assumes "capture_loop (Read bs # rs) ts e = Some (r, e', c)"
  defines "e1 \<equiv> take_in (take (SERIAL_BUFFER_BYTES - sr_capture_used (me_serial e)) bs) e"
  shows "e' = e \<or> serial_failure e = (e', c) \<or> capture_loop rs ts e1 = Some (r, e', c) \<or>
    (\<exists>ok ts' e2. cut_frames (sr_capture_used (me_serial e1)) ts e1 = Some (ok, ts', e2) \<and>
      (capture_loop rs ts' e2 = Some (r, e', c) \<or> serial_failure e2 = (e', c)))"
proof (cases "cut_frames (sr_capture_used (me_serial e1)) ts e1")
  case None
  with assms(1) show ?thesis
    by (simp add: capture_loop.simps Let_def e1_def [symmetric] split: if_splits prod.splits)
next
  case (Some x)
  then obtain ok ts' e2 where x: "cut_frames (sr_capture_used (me_serial e1)) ts e1 = Some (ok, ts', e2)" by (metis prod_cases3)
  obtain f1 c1 f2 c2 where f: "serial_failure e = (f1, c1)" "serial_failure e2 = (f2, c2)" by fastforce
  from assms(1) x f show ?thesis
    by (simp add: capture_loop.simps Let_def e1_def [symmetric] split: if_splits)
qed

lemma keeps_capture_loop: "capture_loop rs ts e = Some (r, e', c) \<Longrightarrow> keeps e0 e \<Longrightarrow> keeps e0 e'"
proof (induction rs arbitrary: ts e)
  case Nil
  then show ?case by (auto simp: capture_loop.simps keeps_def split: if_splits)
next
  case (Cons x rs)
  show ?case
  proof (cases x)
    case (Read bs)
    from capture_loop_read [OF Cons.prems(1) [unfolded Read]] show ?thesis
      using Cons.IH Cons.prems(2) keeps_then(2,7) keeps_cut_frames by meson
  next
    case Read_failed
    let ?f = "e\<lparr>me_serial := (me_serial e)\<lparr>sr_read_errors := sr_read_errors (me_serial e) + 1\<rparr>\<rparr>"
    obtain f c1 where f: "serial_failure ?f = (f, c1)" by fastforce
    have "keeps e0 ?f" using Cons.prems(2) by (simp add: keeps_def)
    then show ?thesis using Cons.prems Read_failed f keeps_then(7) [OF _ f, of e0]
      by (simp add: capture_loop.simps split: if_splits)
  qed (use Cons in \<open>auto simp: capture_loop.simps keeps_def split: if_splits\<close>)
qed

lemma keeps_serial_capture: "qmodem_voip_serial_capture rs e ts = Some (r, e', c) \<Longrightarrow> keeps e e'"
  using keeps_capture_loop [of rs ts e r e' c e] by (auto simp: qmodem_voip_serial_capture_def split: if_splits)

text \<open>The engine a fill ends with.\<close>

fun fill_engine :: "fill_result \<Rightarrow> qmodem_voip_media_engine option" where
  "fill_engine (Filled e) = Some e"
| "fill_engine (Underrun e) = Some e"
| "fill_engine (Pop_failed e) = Some e"
| "fill_engine Overrun = None"

lemma keeps_serial_fill: "fill_engine (serial_fill n e) = Some e' \<Longrightarrow> keeps e0 e \<Longrightarrow> keeps e0 e'"
proof (induction n e rule: serial_fill.induct)
  case (1 n e)
  obtain p f q where q: "qmodem_voip_media_queue_pop (me_canonical_to_modem e) = (p, f, q)" by (metis prod_cases3)
  let ?e1 = "e\<lparr>me_canonical_to_modem := q\<rparr>"
  have k: "keeps e0 ?e1" using 1(3) by (simp add: keeps_def)
  consider "e' = e" | "e' = ?e1" | "sr_playback_used (me_serial e) < n" "\<not> p < 0" "\<not> p > 0"
      "\<not> sr_playback_used (me_serial ?e1) + SERIAL_FRAME_BYTES > SERIAL_BUFFER_BYTES"
      "fill_engine (serial_fill n (play_in f ?e1)) = Some e'"
    using 1(2) q by (subst (asm) serial_fill.simps) (auto simp: Let_def split: if_splits)
  then show ?case
  proof cases
    case 3
    have "\<not> \<not> sr_playback_used (me_serial e) < n" using 3(1) by simp
    from 1(1) [OF this q [symmetric] refl refl 3(2-4) 3(5)] show ?thesis using k keeps_then(3) by blast
  qed (use 1(3) k in auto)
qed

lemma keeps_playback_ready: "fill_engine (playback_ready n ts e) = Some e' \<Longrightarrow> keeps e0 e \<Longrightarrow> keeps e0 e'"
  using keeps_serial_fill [of n e e' e0] by (auto simp: playback_ready_def split: if_splits)

lemma keeps_playback_loop: "playback_loop ws n ts e = Some (r, e', out, c) \<Longrightarrow> keeps e0 e \<Longrightarrow> keeps e0 e'"
proof (induction ws arbitrary: e r e' out c)
  case Nil
  show ?case
  proof (cases "playback_ready n ts e")
    case (Filled e1)
    then show ?thesis using Nil keeps_playback_ready [of n ts e e1 e0] keeps_then(5) by (simp add: playback_loop.simps) blast
  next
    case (Pop_failed e1)
    obtain f c1 where f: "serial_failure e1 = (f, c1)" by fastforce
    then show ?thesis using Nil Pop_failed keeps_playback_ready [of n ts e e1 e0] keeps_then(7) by (simp add: playback_loop.simps)
  qed (use Nil keeps_playback_ready [of n ts e e' e0] in \<open>simp_all add: playback_loop.simps\<close>)
next
  case (Cons w ws)
  show ?case
  proof (cases "playback_ready n ts e")
    case (Filled e1)
    have k: "keeps e0 e1" using Filled Cons.prems(2) keeps_playback_ready [of n ts e e1 e0] by simp
    obtain f c1 where f: "write_error e1 = (f, c1)" by fastforce
    have kf: "keeps e0 f" using keeps_then(8) [OF k f] .
    show ?thesis
    proof (cases w)
      case (Written m)
      define x where "x = min m (n - sr_playback_offset (me_serial e1))"
      have kn: "keeps e0 (note_written x e1)" using k by (rule keeps_then(6))
      obtain z where z: "playback_loop ws n ts (note_written x e1) = z" by blast
      from Cons.prems(1) Written Filled f z kf kn Cons.IH [of "note_written x e1"] keeps_then(4) [OF kn, of n ts] show ?thesis
        by (auto simp: playback_loop.simps Let_def x_def [symmetric] split: if_splits option.splits)
    next
      case Write_again
      then show ?thesis using Cons.prems(1) Filled keeps_then(5) [OF k, of ts] by (simp add: playback_loop.simps)
    next
      case Write_interrupted
      then show ?thesis using Cons.prems(1) Filled Cons.IH k by (simp add: playback_loop.simps)
    next
      case Write_failed
      then show ?thesis using Cons.prems(1) Filled f kf by (simp add: playback_loop.simps)
    qed
  next
    case (Pop_failed e1)
    obtain f c1 where f: "serial_failure e1 = (f, c1)" by fastforce
    then show ?thesis using Cons.prems Pop_failed keeps_playback_ready [of n ts e e1 e0] keeps_then(7) by (simp add: playback_loop.simps)
  qed (use Cons.prems keeps_playback_ready [of n ts e e' e0] in \<open>simp_all add: playback_loop.simps\<close>)
qed

lemma keeps_serial_playback: "qmodem_voip_serial_playback ws e ts = Some (r, e', out, c) \<Longrightarrow> keeps e e'"
  using keeps_playback_loop [of ws "transfer_size e" ts e r e' out c e]
  by (auto simp: qmodem_voip_serial_playback_def split: if_splits)

lemma keeps_pcm_socket:
  "keeps e (snd (pcm_socket_connect fd e))" "keeps e (fst (pcm_socket_drop ts e))"
  by (simp_all add: keeps_def pcm_socket_connect_def pcm_socket_drop_def Let_def)

lemma keeps_pcm_receive: "keeps e0 e \<Longrightarrow> keeps e0 (fst (snd (pcm_receive_loop rs ts n e)))"
proof (induction rs arbitrary: n e)
  case (Cons x rs)
  obtain f c where f: "pcm_socket_drop ts e = (f, c)" by fastforce
  have kf: "keeps e0 f" using keeps_pcm_socket(2) [of e ts] f Cons.prems keeps_trans by (metis fst_conv)
  show ?case
  proof (cases x)
    case (Read bs)
    let ?e1 = "e\<lparr>me_modem_to_canonical := snd (qmodem_voip_media_queue_push (me_modem_to_canonical e)
        (le_samples (take SERIAL_FRAME_BYTES bs)) ts),
      me_pcm_socket := (me_pcm_socket e)\<lparr>ps_capture_frames := ps_capture_frames (me_pcm_socket e) + 1\<rparr>\<rparr>"
    have "keeps e0 ?e1" using Cons.prems by (simp add: keeps_def)
    then show ?thesis using Read f kf Cons.IH [of ?e1] Cons.IH [of e] Cons.prems by (simp add: Let_def)
  qed (use Cons f kf in simp_all)
qed simp

lemma keeps_pcm_capture: "keeps e (fst (snd (qmodem_voip_pcm_socket_capture fd rs e ts)))"
proof -
  let ?e0 = "e\<lparr>me_pcm_socket := (me_pcm_socket e)\<lparr>ps_retry_at_ms := ts + 1000\<rparr>\<rparr>"
  obtain r e1 where c: "pcm_socket_connect fd ?e0 = (r, e1)" by fastforce
  have k: "keeps e e1" using keeps_pcm_socket(1) [of ?e0 fd] c by (simp add: keeps_def)
  show ?thesis using keeps_pcm_receive [of e e1] keeps_pcm_receive [of e e] k
    by (auto simp: qmodem_voip_pcm_socket_capture_def c)
qed

lemma keeps_pcm_playback: "keeps e (fst (snd (qmodem_voip_pcm_socket_playback send e ts)))"
  by (auto simp: keeps_def qmodem_voip_pcm_socket_playback_def pcm_socket_drop_def Let_def
      split: prod.splits if_splits write_result.splits)

lemma keeps_capture:
  assumes "qmodem_voip_media_capture env e ts = Some (r, e')"
  shows "keeps e e'"
proof -
  have "keeps e (snd (uac_capture env e ts))"
    by (auto simp: keeps_def uac_capture_def Let_def split: option.splits prod.splits)
  then show ?thesis
    using assms keeps_serial_capture [of "be_serial_reads env" e ts] keeps_pcm_capture [of e "be_connected env" "be_socket_reads env" ts]
    by (auto simp: qmodem_voip_media_capture_def split: if_splits prod.splits)
qed

lemma keeps_playback:
  assumes "qmodem_voip_media_playback env e ts = Some (r, e')"
  shows "keeps e e'"
proof -
  have "keeps e (fst (snd (uac_playback env e)))"
    by (auto simp: keeps_def uac_playback_def Let_def split: option.splits prod.splits)
  then show ?thesis
    using assms keeps_serial_playback [of "be_serial_writes env" e ts] keeps_pcm_playback [of e "be_send env" ts]
    by (auto simp: qmodem_voip_media_playback_def split: if_splits prod.splits)
qed

lemma keeps_rtp_service:
  assumes "qmodem_voip_rtp_service arrival sendto t e ts = (r, t', e', out)"
  shows "keeps e e'" "rt_active t' = rt_active t" "rt_has_engine t' = rt_has_engine t"
proof -
  have ra: "keeps e (snd (receive_audio t1 packet ts e))" for t1 packet
    by (auto simp: keeps_def receive_audio_def qmodem_voip_media_rtp_receive_def Let_def split: option.splits prod.splits if_splits)
  have sa: "keeps e2 (fst (snd (snd (send_audio sendto t2 e2)))) \<and> rt_active (fst (snd (send_audio sendto t2 e2))) = rt_active t2 \<and>
      rt_has_engine (fst (snd (send_audio sendto t2 e2))) = rt_has_engine t2" for t2 e2
    by (auto simp: keeps_def send_audio_def Let_def split: option.splits prod.splits if_splits)
  define x where "x = (case arrival of
             Datagram inet address port packet \<Rightarrow>
               (if inet \<and> address = rt_peer_address t
                then let t1 = t\<lparr>rt_peer_port := port\<rparr>; (r, e1) = receive_audio t1 packet ts e in (r, t1, e1)
                else (0, t, e))
           | Nothing_yet \<Rightarrow> (0, t, e)
           | Socket_error \<Rightarrow> (-1, t, e))"
  obtain r1 t1 e1 where x: "x = (r1, t1, e1)" by (metis prod_cases3)
  have k1: "keeps e e1 \<and> rt_active t1 = rt_active t \<and> rt_has_engine t1 = rt_has_engine t"
  proof (cases arrival)
    case (Datagram inet address port packet)
    then show ?thesis using x ra [of "t\<lparr>rt_peer_port := port\<rparr>" packet] unfolding x_def
      by (simp add: Let_def split: if_splits prod.splits) auto
  qed (use x in \<open>simp_all add: x_def\<close>)
  obtain s2 t2 e2 o2 where sd: "send_audio sendto t1 e1 = (s2, t2, e2, o2)" by (metis prod_cases4)
  have k2: "keeps e e2 \<and> rt_active t2 = rt_active t \<and> rt_has_engine t2 = rt_has_engine t"
    using sa [of e1 t1] k1 keeps_trans [of e e1 e2] by (simp add: sd)
  have "(t', e') = (t, e) \<or> (t', e') = (t1, e1) \<or> (t', e') = (t2, e2)"
    using assms unfolding qmodem_voip_rtp_service_def x_def [symmetric] x by (simp add: sd split: if_splits)
  then show "keeps e e'" "rt_active t' = rt_active t" "rt_has_engine t' = rt_has_engine t" using k1 k2 by auto
qed

lemma map_update_same: "f p = f (xs ! i) \<Longrightarrow> map f (xs[i := p]) = map f xs"
  by (metis list_update_id map_update)

lemma keeps_socket_service:
  assumes "qmodem_voip_media_socket_service sent s e = (r, s', e', out)"
  shows "keeps e e'" "map pe_attached (ms_peers s') = map pe_attached (ms_peers s)" "map pe_fd (ms_peers s') = map pe_fd (ms_peers s)"
    "ms_ready s' = ms_ready s" "length (ms_sessions s') = length (ms_sessions s)"
    "map pe_watched (ms_peers s') = map pe_watched (ms_peers s)" "ms_watched s' = ms_watched s"
proof -
  consider "s' = s" "keeps e e'" | i p where "s' = set_peer i p s" "keeps e e'" "pe_attached p = pe_attached (ms_peers s ! i)"
      "pe_fd p = pe_fd (ms_peers s ! i)" "pe_watched p = pe_watched (ms_peers s ! i)"
    using assms
    by (auto simp: qmodem_voip_media_socket_service_def Let_def keeps_def split: if_splits option.splits prod.splits)
  then show "keeps e e'" "map pe_attached (ms_peers s') = map pe_attached (ms_peers s)" "map pe_fd (ms_peers s') = map pe_fd (ms_peers s)"
    "ms_ready s' = ms_ready s" "length (ms_sessions s') = length (ms_sessions s)"
    "map pe_watched (ms_peers s') = map pe_watched (ms_peers s)" "ms_watched s' = ms_watched s"
    by (cases; simp add: map_update_same set_peer_def)+
qed

section \<open>Who holds the engine\<close>

text \<open>A browser session without tokens and connections.\<close>

definition quiet :: "qmodem_voip_browser_media \<Rightarrow> bool" where
  "quiet b \<longleftrightarrow> (\<forall>t \<in> set (bm_tokens b). \<not> bt_active t) \<and> bm_client b = None \<and> bm_pending_client b = None \<and> \<not> bm_attached b"

definition browser_sound :: "qmodem_voip_browser_media \<Rightarrow> bool" where
  "browser_sound b \<longleftrightarrow> bm_engine_set b \<and> (bm_call_revision b = 0 \<longrightarrow> quiet b) \<and> (\<not> bm_ready b \<longrightarrow> bm_call_revision b = 0)"

text \<open>What an event of the WebSocket library can do: it keeps the revision, leaves a quiet session
  quiet, and moves the engine only to the browser, for a call that has a revision.\<close>

definition browser_effect :: "qmodem_voip_browser_media \<Rightarrow> qmodem_voip_browser_media \<Rightarrow> bool" where
  "browser_effect b b' \<longleftrightarrow> bm_call_revision b' = bm_call_revision b \<and> bm_ready b' = bm_ready b \<and> bm_engine_set b' = bm_engine_set b \<and>
     (quiet b \<longrightarrow> quiet b') \<and>
     (keeps (bm_engine b) (bm_engine b') \<or>
      me_attachment (bm_engine b') = QMODEM_VOIP_MEDIA_ATTACH_BROWSER \<and> bm_call_revision b \<noteq> 0)"

lemma browser_effect_refl [simp]: "browser_effect b b"
  by (simp add: browser_effect_def)

lemma consume_inactive:
  assumes "\<forall>t \<in> set tokens. \<not> bt_active t" "qmodem_voip_browser_token_consume tokens token s r o' p n = (a, toks)"
  shows "a = -1 \<and> (\<forall>t \<in> set toks. \<not> bt_active t)"
proof (cases "decode_token token")
  case None
  then show ?thesis using assms by (simp add: qmodem_voip_browser_token_consume_def)
next
  case (Some secret)
  have i: "\<forall>t \<in> set (expire_tokens n tokens). \<not> bt_active t" using assms(1) by (auto simp: expire_tokens_def zero_token_def)
  then have "first_index (\<lambda>t. bt_active t \<and> constant_time_equal (bt_secret t) secret) (expire_tokens n tokens) = None"
    by (simp add: first_index_None)
  then show ?thesis using assms(2) Some i by (simp add: qmodem_voip_browser_token_consume_def)
qed

lemma filter_effect:
  assumes "filter_connection h now wsi b = (r, b')"
  shows "browser_effect b b'"
proof -
  have "bm_call_revision b' = bm_call_revision b \<and> bm_ready b' = bm_ready b \<and> bm_engine_set b' = bm_engine_set b \<and>
      bm_engine b' = bm_engine b"
    using assms by (auto simp: filter_connection_def Let_def split: if_splits option.splits prod.splits)
  moreover have "quiet b'" if q: "quiet b"
  proof -
    have t: "\<forall>t \<in> set (bm_tokens b). \<not> bt_active t" using q by (simp add: quiet_def)
    show ?thesis using assms q consume_inactive [OF t]
      by (auto simp: filter_connection_def Let_def quiet_def split: if_splits option.splits prod.splits)
        (metis neg_equal_0_iff_equal one_neq_zero)+
  qed
  ultimately show ?thesis by (simp add: browser_effect_def)
qed

lemma establish_effect:
  assumes "establish_connection wsi b = (r, b')" "bm_call_revision b = 0 \<longrightarrow> quiet b"
  shows "browser_effect b b'"
  using assms
  by (auto simp: establish_connection_def qmodem_voip_browser_media_attach_def qmodem_voip_media_attach_def browser_effect_def quiet_def
      split: if_splits prod.splits)

lemma receive_effect:
  assumes "qmodem_voip_browser_media_receive soxr b d = Some (r, b')"
  shows "browser_effect b b'"
proof -
  have "browser_effect b b'" if "store_uplink f conv b = Some (r, b')" for f conv
    using that unfolding store_uplink_def Let_def browser_effect_def quiet_def keeps_def
    by (auto split: if_splits prod.splits)
  then show ?thesis using assms unfolding qmodem_voip_browser_media_receive_def
    by (auto split: if_splits option.splits)
qed

lemma downlink_effect:
  assumes "write_downlink soxr written c b = (r, c', b', out)"
  shows "browser_effect b b'"
proof -
  obtain c1 b1 where n: "next_downlink soxr c b = (c1, b1)" by fastforce
  have "browser_effect b b1" using n unfolding next_downlink_def Let_def browser_effect_def quiet_def keeps_def
    by (simp split: if_splits option.splits prod.splits) auto
  moreover have "b' = b1 \<or> b' = b1\<lparr>bm_downlink_write_errors := bm_downlink_write_errors b1 + 1\<rparr> \<or>
      b' = b1\<lparr>bm_downlink_frames := bm_downlink_frames b1 + 1\<rparr>"
    using assms unfolding write_downlink_def n Let_def by (auto split: if_splits option.splits)
  ultimately show ?thesis by (auto simp: browser_effect_def quiet_def)
qed

lemma close_effect: "browser_effect b (close_connection wsi b)"
  by (auto simp: close_connection_def Let_def browser_effect_def quiet_def keeps_def)

lemma callback_effect:
  assumes "browser_callback soxr wsi event c b = Some (r, c', b', out)" "bm_call_revision b = 0 \<longrightarrow> quiet b"
  shows "browser_effect b b'"
proof (cases event)
  case (LWS_CALLBACK_RECEIVE binary fin remaining first input)
  have "b' = b \<or> (\<exists>q. qmodem_voip_browser_media_receive soxr b (cn_uplink c @ input) = Some (q, b'))"
    using assms(1) LWS_CALLBACK_RECEIVE
    by (auto simp: browser_callback_def receive_fragment_def Let_def split: if_splits option.splits)
  then show ?thesis using receive_effect by auto
qed (use assms filter_effect establish_effect downlink_effect close_effect in
    \<open>auto simp: browser_callback_def split: prod.splits\<close>)

lemma effect_sound: "browser_effect b b' \<Longrightarrow> browser_sound b \<Longrightarrow> browser_sound b'"
  by (auto simp: browser_effect_def browser_sound_def)

definition any_attached :: "qmodem_voip_media_socket \<Rightarrow> bool" where
  "any_attached s \<longleftrightarrow> (\<exists>p \<in> set (ms_peers s). pe_attached p)"

text \<open>An attached peer is watched, and only open peers of a running socket are watched.\<close>

definition socket_sound :: "qmodem_voip_media_socket \<Rightarrow> bool" where
  "socket_sound s \<longleftrightarrow> socket_wf s \<and> (ms_watched s \<longrightarrow> ms_ready s) \<and>
     (\<forall>p \<in> set (ms_peers s). (pe_attached p \<longrightarrow> pe_watched p) \<and> (pe_watched p \<longrightarrow> pe_fd p \<ge> 0 \<and> ms_ready s))"

text \<open>An engine with a session belongs to the RTP transport, to a peer of the media socket, or to the
  browser of a call that has a revision.\<close>

definition held :: "media_context \<Rightarrow> bool" where
  "held x \<longleftrightarrow> rt_has_engine (mx_rtp x) \<or> any_attached (mx_media_sock x) \<or>
     (me_attachment (mx_media x) = QMODEM_VOIP_MEDIA_ATTACH_BROWSER \<and> bm_call_revision (mx_browser x) \<noteq> 0)"

definition media_ok :: "media_context \<Rightarrow> bool" where
  "media_ok x \<longleftrightarrow> socket_sound (mx_media_sock x) \<and> (rt_has_engine (mx_rtp x) \<longrightarrow> rt_active (mx_rtp x)) \<and>
     browser_sound (mx_browser x) \<and> (me_session_id (mx_media x) \<noteq> 0 \<longrightarrow> held x)"

lemma media_okI:
  assumes "socket_sound (mx_media_sock x)" "rt_has_engine (mx_rtp x) \<longrightarrow> rt_active (mx_rtp x)" "browser_sound (mx_browser x)"
    and "me_session_id (mx_media x) \<noteq> 0 \<Longrightarrow> held x"
  shows "media_ok x"
  using assms by (simp add: media_ok_def)

lemma media_ok_engine:
  "media_ok x \<Longrightarrow> keeps (mx_media x) e \<Longrightarrow> media_ok (x\<lparr>mx_media := e\<rparr>)"
  "media_ok x \<Longrightarrow> me_session_id e = 0 \<Longrightarrow> media_ok (x\<lparr>mx_media := e\<rparr>)"
  by (auto simp: media_ok_def held_def keeps_def)

lemma sound_engine [simp]: "browser_sound (b\<lparr>bm_engine := e\<rparr>) = browser_sound b" "quiet (b\<lparr>bm_engine := e\<rparr>) = quiet b"
  by (simp_all add: browser_sound_def quiet_def)

lemma the_browser_simps [simp]:
  "bm_engine (the_browser x) = mx_media x" "bm_call_revision (the_browser x) = bm_call_revision (mx_browser x)"
  "bm_ready (the_browser x) = bm_ready (mx_browser x)" "bm_engine_set (the_browser x) = bm_engine_set (mx_browser x)"
  "browser_sound (the_browser x) = browser_sound (mx_browser x)" "quiet (the_browser x) = quiet (mx_browser x)"
  "bm_tokens (the_browser x) = bm_tokens (mx_browser x)"
  by (simp_all add: the_browser_def)

lemma put_browser_simps [simp]:
  "mx_media (put_browser b x) = bm_engine b" "mx_browser (put_browser b x) = b" "mx_rtp (put_browser b x) = mx_rtp x"
  "mx_media_sock (put_browser b x) = mx_media_sock x" "mx_connections (put_browser b x) = mx_connections x"
  by (simp_all add: put_browser_def)

lemma put_socket_simps [simp]:
  "mx_media (put_socket s e x) = e" "mx_browser (put_socket s e x) = mx_browser x" "mx_rtp (put_socket s e x) = mx_rtp x"
  "mx_media_sock (put_socket s e x) = s"
  by (simp_all add: put_socket_def)

lemma media_ok_effect: "media_ok x \<Longrightarrow> browser_effect (the_browser x) b \<Longrightarrow> media_ok (put_browser b x)"
  by (auto simp: media_ok_def held_def browser_effect_def browser_sound_def keeps_def)

lemma media_ok_connections [simp]: "media_ok (x\<lparr>mx_connections := cs\<rparr>) = media_ok x"
  by (simp add: media_ok_def held_def)

lemma qmodem_voip_browser_media_service_ok: "qmodem_voip_browser_media_service soxr events x = Some x' \<Longrightarrow> media_ok x \<Longrightarrow> media_ok x'"
proof (induction events arbitrary: x)
  case (Cons ev events)
  obtain wsi event where ev: "ev = (wsi, event)" by fastforce
  let ?x = "\<lambda>c b. put_browser b (x\<lparr>mx_connections := (mx_connections x)(wsi := c)\<rparr>)"
  from Cons.prems(1) ev obtain r c b out where
    cb: "browser_callback soxr wsi event (mx_connections x wsi) (the_browser x) = Some (r, c, b, out)"
      "qmodem_voip_browser_media_service soxr events (?x c b) = Some x'"
    by (auto split: option.splits)
  have "browser_effect (the_browser x) b"
    using Cons.prems(2) by (intro callback_effect [OF cb(1)]) (simp add: media_ok_def browser_sound_def)
  then have "media_ok (put_browser b (x\<lparr>mx_connections := (mx_connections x)(wsi := c)\<rparr>))"
    using Cons.prems(2) by (intro media_ok_effect) (simp_all add: the_browser_def)
  then show ?case using Cons.IH cb(2) by blast
qed simp

lemma reset_quiet: "quiet (qmodem_voip_browser_media_reset_call b)" "bm_call_revision (qmodem_voip_browser_media_reset_call b) = 0"
  "bm_engine_set (qmodem_voip_browser_media_reset_call b) = bm_engine_set b"
  "bm_ready (qmodem_voip_browser_media_reset_call b) = bm_ready b"
  by (auto simp: quiet_def qmodem_voip_browser_media_reset_call_def qmodem_voip_browser_tokens_clear_def zero_token_def)

lemma reset_engine_cases:
  "me_session_id (reset_engine e) = 0 \<or> (keeps e (reset_engine e) \<and> me_attachment e \<noteq> QMODEM_VOIP_MEDIA_ATTACH_BROWSER)"
  by (simp add: reset_engine_def Let_def keeps_def qmodem_voip_media_detach_def)

lemma reset_call_media_ok:
  assumes "media_ok x"
  shows "media_ok (put_browser (qmodem_voip_browser_media_reset_call (the_browser x)) x)"
    and "media_ok (put_browser (qmodem_voip_browser_media_stop (the_browser x)) x)"
    and "media_ok (put_browser (qmodem_voip_browser_media_release (the_browser x)) x)"
proof -
  let ?b = "qmodem_voip_browser_media_reset_call (the_browser x)"
  have e: "bm_engine ?b = reset_engine (mx_media x)" using assms by (simp add: qmodem_voip_browser_media_reset_call_def media_ok_def browser_sound_def)
  have s: "browser_sound ?b" using assms reset_quiet [of "the_browser x"] by (simp add: browser_sound_def media_ok_def)
  have h: "me_session_id (bm_engine ?b) \<noteq> 0 \<Longrightarrow> rt_has_engine (mx_rtp x) \<or> any_attached (mx_media_sock x)"
    using reset_engine_cases [of "mx_media x"] assms unfolding e by (auto simp: media_ok_def held_def keeps_def)
  then show "media_ok (put_browser ?b x)" using assms s by (auto simp: media_ok_def held_def)
  show "media_ok (put_browser (qmodem_voip_browser_media_stop (the_browser x)) x)"
    using assms s h reset_quiet [of "the_browser x"]
    by (auto simp: media_ok_def held_def qmodem_voip_browser_media_stop_def browser_sound_def quiet_def)
  show "media_ok (put_browser (qmodem_voip_browser_media_release (the_browser x)) x)"
    using assms s h reset_quiet [of "the_browser x"]
    by (auto simp: media_ok_def held_def qmodem_voip_browser_media_stop_def qmodem_voip_browser_media_release_def browser_sound_def quiet_def)
qed

lemma start_cases:
  assumes "qmodem_voip_browser_media_start created b = (r, b1)" "browser_sound b" "\<not> bm_ready b"
  shows "bm_engine b1 = bm_engine b \<and> browser_sound b1 \<and> bm_call_revision b1 = 0 \<and> (r = 0 \<longrightarrow> bm_ready b1) \<and> quiet b1 \<and> bm_engine_set b1"
  using assms by (auto simp: qmodem_voip_browser_media_start_def browser_sound_def quiet_def Let_def split: if_splits)

lemma browser_restarted:
  assumes "media_ok x" "bm_engine b = mx_media x" "browser_sound b" "bm_call_revision (mx_browser x) \<noteq> 0 \<longrightarrow> bm_call_revision b \<noteq> 0"
  shows "media_ok (put_browser b x)"
  using assms by (auto simp: media_ok_def held_def)

lemma sync_ok:
  assumes "media_ok x" "call_media_state c \<longrightarrow> vc_revision c \<noteq> 0"
  shows "media_ok (qmodem_voip_media_sync created c x)"
proof -
  define b where "b = the_browser x"
  obtain r b1 where s: "(if \<not> bm_ready b then qmodem_voip_browser_media_start created b else (0, b)) = (r, b1)" by fastforce
  have sb: "browser_sound b" using assms(1) by (simp add: b_def media_ok_def)
  have b1: "bm_engine b1 = mx_media x" "browser_sound b1"
      "bm_call_revision (mx_browser x) \<noteq> 0 \<longrightarrow> bm_call_revision b1 \<noteq> 0" "r = 0 \<Longrightarrow> bm_ready b1"
    using s start_cases [of created b r b1] sb by (auto simp: b_def browser_sound_def split: if_splits)
  define y where "y = put_browser b1 x"
  have y: "media_ok y" unfolding y_def using assms(1) b1(1-3) by (rule browser_restarted)
  have ty: "the_browser y = b1" by (simp add: y_def the_browser_def)
  have pb: "put_browser z y = put_browser z x" for z by (simp add: y_def put_browser_def)
  have rv: "media_ok (put_browser (b1\<lparr>bm_call_revision := vc_revision c\<rparr>) x)" if "r = 0" "call_media_state c"
    using assms b1 that by (auto simp: media_ok_def held_def browser_sound_def)
  show ?thesis
    using reset_call_media_ok(1) [OF y] reset_call_media_ok(2) [OF assms(1)] y rv assms(1)
    unfolding ty pb qmodem_voip_media_sync_def b_def [symmetric] Let_def s y_def [symmetric]
    by (auto simp: y_def)
qed

lemma media_ok_socket:
  assumes "media_ok x" "socket_sound s" "keeps (mx_media x) e" "any_attached (mx_media_sock x) \<longrightarrow> any_attached s"
  shows "media_ok (put_socket s e x)"
  using assms by (auto simp: media_ok_def held_def keeps_def)

lemma media_ok_socket_free:
  assumes "media_ok x" "socket_sound s" "me_session_id e = 0"
  shows "media_ok (put_socket s e x)"
  using assms by (auto simp: media_ok_def held_def)

lemma set_peer_sound:
  assumes "socket_sound s" "pe_attached p \<longrightarrow> pe_watched p" "pe_watched p \<longrightarrow> pe_fd p \<ge> 0 \<and> ms_ready s"
  shows "socket_sound (set_peer i p s)"
proof -
  have "ms_watched (set_peer i p s) = ms_watched s" "ms_ready (set_peer i p s) = ms_ready s" by (simp_all add: set_peer_def)
  then show ?thesis using assms set_update_subset_insert [of "ms_peers s" i p]
    by (auto simp: socket_sound_def socket_wf_def)
qed

lemma set_peer_attached:
  assumes "i < length (ms_peers s)" "pe_attached (ms_peers s ! i) \<longrightarrow> pe_attached p"
  shows "any_attached s \<longrightarrow> any_attached (set_peer i p s)"
proof
  assume "any_attached s"
  then obtain j where j: "j < length (ms_peers s)" "pe_attached (ms_peers s ! j)" by (auto simp: any_attached_def in_set_conv_nth)
  then have "pe_attached (ms_peers (set_peer i p s) ! j)" using assms by (cases "j = i") auto
  moreover have "j < length (ms_peers (set_peer i p s))" using j(1) by simp
  ultimately show "any_attached (set_peer i p s)" unfolding any_attached_def using nth_mem by blast
qed

lemma peer_sound: "socket_sound s \<Longrightarrow> i < SOCKET_PEERS \<Longrightarrow> (pe_attached (ms_peers s ! i) \<longrightarrow> pe_watched (ms_peers s ! i)) \<and>
    (pe_watched (ms_peers s ! i) \<longrightarrow> pe_fd (ms_peers s ! i) \<ge> 0 \<and> ms_ready s)"
  by (auto simp: socket_sound_def socket_wf_def)

lemma detach_free [simp]: "me_session_id (qmodem_voip_media_detach e) = 0"
  by (simp add: qmodem_voip_media_detach_def Let_def)

lemma close_peer_ok:
  assumes "media_ok x" "i < SOCKET_PEERS" "close_peer i (mx_media_sock x) (mx_media x) = (s, e, out)"
  shows "media_ok (put_socket s e x)"
proof -
  let ?s = "mx_media_sock x" and ?p = "ms_peers (mx_media_sock x) ! i"
  have snd: "socket_sound ?s" using assms(1) by (simp add: media_ok_def)
  have s: "s = set_peer i (?p\<lparr>pe_fd := -1, pe_watched := False, pe_attached := False\<rparr>) ?s"
    and e: "e = (if pe_attached ?p then qmodem_voip_media_detach (mx_media x) else mx_media x)"
    using assms(3) by (auto simp: close_peer_def Let_def)
  have ss: "socket_sound s" unfolding s by (rule set_peer_sound [OF snd]) simp_all
  show ?thesis
  proof (cases "pe_attached ?p")
    case True
    then show ?thesis using media_ok_socket_free [OF assms(1) ss] e by simp
  next
    case False
    then have "any_attached ?s \<longrightarrow> any_attached s"
      unfolding s using assms(2) snd by (intro set_peer_attached) (auto simp: socket_sound_def socket_wf_def)
    then show ?thesis using media_ok_socket [OF assms(1) ss, of e] e False by simp
  qed
qed

lemma session_valid_sound:
  assumes "qmodem_voip_media_socket_session_valid s ident rv now = (v, s1)" "socket_sound s"
  shows "socket_sound s1" "ms_peers s1 = ms_peers s" "ms_ready s1 = ms_ready s"
  using assms
  by (auto simp: qmodem_voip_media_socket_session_valid_def session_expire_def socket_sound_def socket_wf_def Let_def split: if_splits)

lemma peer_attach_ok:
  assumes "media_ok x" "i < SOCKET_PEERS" "pe_watched (ms_peers (mx_media_sock x) ! i)"
    and "peer_attach authorized now c message i (mx_media_sock x) (mx_media x) = (s', e', out)"
  shows "media_ok (put_socket s' e' x)"
proof -
  define a where "a = read_attach (drop HEADER_SIZE message)"
  let ?s = "mx_media_sock x" and ?p = "ms_peers (mx_media_sock x) ! i"
  have snd: "socket_sound ?s" using assms(1) by (simp add: media_ok_def)
  obtain v s1 where v: "qmodem_voip_media_socket_session_valid ?s (at_session_id a) (at_call_revision a) now = (v, s1)"
    by (metis surj_pair)
  obtain r e1 where r: "qmodem_voip_media_attach (mx_media x) QMODEM_VOIP_MEDIA_ATTACH_SOCKET (session_hash (at_session_id a)) = (r, e1)"
    by (metis surj_pair)
  note s1 = session_valid_sound [OF v snd]
  let ?q = "?p\<lparr>pe_attached := True, pe_call_revision := at_call_revision a, pe_outbound_sequence := 0, pe_dropped := 0\<rparr>"
  have at1: "any_attached ?s \<longrightarrow> any_attached s1" by (simp add: any_attached_def s1(2))
  have re: "r \<noteq> 0 \<Longrightarrow> e1 = mx_media x" using r by (auto simp: qmodem_voip_media_attach_def split: if_splits)
  have "socket_sound (set_peer i ?q s1)"
    using peer_sound [OF snd assms(2)] assms(3) s1 by (intro set_peer_sound) simp_all
  moreover have len: "i < length (ms_peers s1)" using s1 assms(2) by (simp add: socket_sound_def socket_wf_def)
  moreover from len have "any_attached (set_peer i ?q s1)"
    unfolding any_attached_def by (intro bexI [of _ ?q]) (simp_all add: set_update_memI)
  ultimately have ok: "media_ok (put_socket (set_peer i ?q s1) e1 x)"
    using assms(1) by (simp add: media_ok_def held_def)
  note cases = assms(4) [unfolded peer_attach_def Let_def, folded a_def]
  have "(s', e') = (?s, mx_media x) \<or> (s', e') = (s1, mx_media x) \<or> (s', e') = (set_peer i ?q s1, e1)"
    using cases v r re by (auto split: if_splits)
  then show ?thesis
    using ok media_ok_socket [OF assms(1) snd] media_ok_socket [OF assms(1) s1(1) _ at1] by auto
qed

lemma peer_detach_ok:
  assumes "media_ok x" "i < SOCKET_PEERS" "peer_detach i (mx_media_sock x) (mx_media x) = (s, e, out)"
  shows "media_ok (put_socket s e x)"
proof -
  have snd: "socket_sound (mx_media_sock x)" using assms(1) by (simp add: media_ok_def)
  show ?thesis
  proof (cases "pe_attached (ms_peers (mx_media_sock x) ! i)")
    case True
    have "socket_sound s" using assms(3) True peer_sound [OF snd assms(2)]
      by (auto simp: peer_detach_def Let_def intro!: set_peer_sound snd)
    then show ?thesis using assms True by (intro media_ok_socket_free) (auto simp: peer_detach_def Let_def)
  next
    case False
    then show ?thesis using assms media_ok_socket [OF assms(1) snd] by (auto simp: peer_detach_def Let_def)
  qed
qed

lemma peer_message_ok:
  assumes "media_ok x" "i < SOCKET_PEERS" "pe_watched (ms_peers (mx_media_sock x) ! i)"
    and "peer_message authorized now c stale d i (mx_media_sock x) (mx_media x) = (s', e', out)"
  shows "media_ok (put_socket s' e' x)"
proof -
  let ?b = "take MESSAGE_SIZE d" and ?s = "mx_media_sock x" and ?e = "mx_media x"
  let ?m = "?b @ drop (length ?b) stale"
  have snd: "socket_sound ?s" using assms(1) by (simp add: media_ok_def)
  consider "close_peer i ?s ?e = (s', e', out)" | "peer_attach authorized now c ?m i ?s ?e = (s', e', out)"
    | "peer_detach i ?s ?e = (s', e', out)" | "s' = ?s" "e' = ?e" | "peer_playback ?m i ?s ?e = (s', e', out)"
    using assms(4) by (auto simp: peer_message_def Let_def split: if_splits)
  then show ?thesis
  proof cases
    case 5
    have "s' = ?s" "keeps ?e e'" using 5 by (auto simp: peer_playback_def Let_def keeps_def split: if_splits prod.splits)
    then show ?thesis using media_ok_socket [OF assms(1) snd] by simp
  qed (use assms close_peer_ok peer_attach_ok peer_detach_ok media_ok_socket [OF assms(1) snd] in auto)
qed

lemma channel_peer_ok:
  assumes "media_ok x" "i < SOCKET_PEERS" "pe_watched (ms_peers (mx_media_sock x) ! i)"
    and "channel_peer authorized now c stale i rs (mx_media_sock x) (mx_media x) = (s', e', out)"
  shows "media_ok (put_socket s' e' x)"
  using assms(4)
proof (induction rs)
  case (Cons r rs)
  show ?case
  proof (cases r)
    case (Read d)
    then show ?thesis using Cons.prems peer_message_ok [OF assms(1-3)] by simp
  qed (use Cons assms(1) media_ok_socket [OF assms(1), of "mx_media_sock x"] in \<open>auto simp: media_ok_def held_def\<close>)
qed (use assms(1) in \<open>auto simp: media_ok_def held_def\<close>)

lemma channel_accept_ok:
  assumes "media_ok x" "ms_watched (mx_media_sock x)"
  shows "media_ok (x\<lparr>mx_media_sock := channel_accept fd nb (mx_media_sock x)\<rparr>)"
proof (cases "first_index (\<lambda>p. pe_fd p < 0) (ms_peers (mx_media_sock x))")
  case None
  then show ?thesis using assms by (simp add: channel_accept_def)
next
  case (Some i)
  let ?s = "mx_media_sock x"
  have i: "i < length (ms_peers ?s)" "pe_fd (ms_peers ?s ! i) < 0" using first_index_Some [OF Some] by auto
  have snd: "socket_sound ?s" using assms(1) by (simp add: media_ok_def)
  have p: "\<not> pe_attached (ms_peers ?s ! i)" "\<not> pe_watched (ms_peers ?s ! i)" "ms_ready ?s"
    using peer_sound [OF snd, of i] i snd assms(2) by (auto simp: socket_sound_def socket_wf_def)
  define q where "q = (if fd < 0 \<or> \<not> nb then (ms_peers ?s ! i)\<lparr>pe_fd := fd\<rparr>
    else (ms_peers ?s ! i)\<lparr>pe_fd := fd, pe_attached := False, pe_watched := True\<rparr>)"
  have q: "channel_accept fd nb ?s = set_peer i q ?s" "pe_attached q \<longrightarrow> pe_watched q" "pe_watched q \<longrightarrow> pe_fd q \<ge> 0"
    using p by (auto simp: channel_accept_def Some Let_def q_def)
  have "media_ok (put_socket (set_peer i q ?s) (mx_media x) x)"
    using p q set_peer_attached [OF i(1), of q] by (intro media_ok_socket [OF assms(1) set_peer_sound [OF snd]]) auto
  then show ?thesis by (simp add: q(1) put_socket_def)
qed

lemma socket_start_sound:
  assumes "qmodem_voip_media_socket_start env path s = (r, s')" "socket_sound s" "\<not> ms_ready s"
  shows "socket_sound s'" "\<not> any_attached s'" "\<not> any_attached s"
proof -
  show n: "\<not> any_attached s" using assms(2,3) by (auto simp: socket_sound_def any_attached_def)
  then show "\<not> any_attached s'" "socket_sound s'" using assms
    by (auto simp: qmodem_voip_media_socket_start_def socket_sound_def socket_wf_def any_attached_def zero_peer_def Let_def split: if_splits)
qed

lemma stop_engine:
  fixes ps :: "qmodem_voip_media_socket_peer list"
  defines "f \<equiv> \<lambda>p e. if pe_fd p \<ge> 0 \<and> pe_attached p then qmodem_voip_media_detach e else e"
  shows "me_session_id e = 0 \<Longrightarrow> me_session_id (fold f ps e) = 0"
    and "\<exists>p \<in> set ps. pe_fd p \<ge> 0 \<and> pe_attached p \<Longrightarrow> me_session_id (fold f ps e) = 0"
    and "\<forall>p \<in> set ps. \<not> pe_attached p \<Longrightarrow> fold f ps e = e"
proof -
  show *: "me_session_id e = 0 \<Longrightarrow> me_session_id (fold f ps e) = 0" for e
    by (induction ps arbitrary: e) (auto simp: f_def)
  show "\<exists>p \<in> set ps. pe_fd p \<ge> 0 \<and> pe_attached p \<Longrightarrow> me_session_id (fold f ps e) = 0"
  proof (induction ps arbitrary: e)
    case (Cons p ps)
    have z: "me_session_id (fold f qs d) = 0" if "me_session_id d = 0" for qs d
      using that by (induction qs arbitrary: d) (auto simp: f_def)
    show ?case using Cons z [of "qmodem_voip_media_detach e" ps] by (cases "pe_fd p \<ge> 0 \<and> pe_attached p") (auto simp: f_def)
  qed simp
  show "\<forall>p \<in> set ps. \<not> pe_attached p \<Longrightarrow> fold f ps e = e"
    by (induction ps arbitrary: e) (auto simp: f_def)
qed

lemma stop_socket_ok:
  assumes "media_ok x"
  shows "media_ok (stop_socket x)" "\<not> any_attached (mx_media_sock (stop_socket x))"
    "any_attached (mx_media_sock x) \<Longrightarrow> me_session_id (mx_media (stop_socket x)) = 0"
proof -
  let ?s = "mx_media_sock x"
  obtain s e c where st: "qmodem_voip_media_socket_stop ?s (mx_media x) = (s, e, c)" by (metis prod_cases3)
  have snd: "socket_sound ?s" using assms by (simp add: media_ok_def)
  have peers: "ms_peers s = map stop_peer (ms_peers ?s)" "ms_watched s = False" "ms_ready s = False" "ms_sessions s = ms_sessions ?s"
    using st by (auto simp: qmodem_voip_media_socket_stop_def)
  have fd: "p \<in> set (ms_peers ?s) \<Longrightarrow> pe_attached p \<Longrightarrow> pe_fd p \<ge> 0" for p
    using snd by (auto simp: socket_sound_def)
  have off: "\<not> pe_attached (stop_peer p) \<and> \<not> pe_watched (stop_peer p)" if "p \<in> set (ms_peers ?s)" for p
    using that snd by (auto simp: stop_peer_def socket_sound_def)
  have na: "\<not> any_attached s" using off by (auto simp: any_attached_def peers)
  have ss: "socket_sound s" using off snd by (auto simp: socket_sound_def socket_wf_def peers)
  have free: "any_attached ?s \<Longrightarrow> me_session_id e = 0" and same: "\<not> any_attached ?s \<Longrightarrow> e = mx_media x"
    using st stop_engine(2,3) [of "ms_peers ?s" "mx_media x"] fd
    by (auto simp: qmodem_voip_media_socket_stop_def any_attached_def)
  have eq: "stop_socket x = put_socket s e x" by (simp add: stop_socket_def st)
  show "media_ok (stop_socket x)" unfolding eq
    using free same media_ok_socket_free [OF assms ss] media_ok_socket [OF assms ss] by (cases "any_attached ?s") auto
  show "\<not> any_attached (mx_media_sock (stop_socket x))" "any_attached ?s \<Longrightarrow> me_session_id (mx_media (stop_socket x)) = 0"
    using na free by (simp_all add: eq)
qed

lemma release_rtp_ok:
  assumes "media_ok x"
  shows "media_ok (release_rtp x)" "\<not> rt_active (mx_rtp (release_rtp x))" "\<not> rt_has_engine (mx_rtp (release_rtp x))"
    "mx_media_sock (release_rtp x) = mx_media_sock x" "mx_browser (release_rtp x) = mx_browser x"
    "rt_has_engine (mx_rtp x) \<Longrightarrow> me_session_id (mx_media (release_rtp x)) = 0"
    "\<not> rt_has_engine (mx_rtp x) \<Longrightarrow> mx_media (release_rtp x) = mx_media x"
  using assms by (auto simp: release_rtp_def qmodem_voip_rtp_release_def zero_transport_def media_ok_def held_def)

lemma release_media_ok:
  assumes "media_ok x"
  shows "media_ok (release_media x)"
  unfolding release_media_def using assms release_idle(2) by (intro media_ok_engine(2))

lemma release_socket_ok:
  assumes "media_ok x" "qmodem_voip_media_socket_release (mx_media_sock x) (mx_media x) = (s, e)"
  shows "media_ok (put_socket s e x)" "\<not> any_attached s" "\<forall>n \<in> set (ms_sessions s). \<not> sn_active n"
    "any_attached (mx_media_sock x) \<Longrightarrow> me_session_id e = 0" "\<not> any_attached (mx_media_sock x) \<Longrightarrow> e = mx_media x"
proof -
  let ?s = "mx_media_sock x"
  have s: "s = ?s\<lparr>ms_peers := map (\<lambda>p. p\<lparr>pe_attached := False, pe_call_revision := 0\<rparr>) (ms_peers ?s),
        ms_sessions := replicate SESSION_SLOTS zero_session\<rparr>"
    and e: "e = (if any_attached ?s then qmodem_voip_media_detach (mx_media x) else mx_media x)"
    using assms(2)
    by (auto simp: qmodem_voip_media_socket_release_def qmodem_voip_media_socket_attached_def any_attached_def list_ex_iff)
  have ss: "socket_sound s" using assms(1) by (auto simp: s media_ok_def socket_sound_def socket_wf_def)
  show na: "\<not> any_attached s" "\<forall>n \<in> set (ms_sessions s). \<not> sn_active n" by (auto simp: s any_attached_def zero_session_def)
  show "any_attached ?s \<Longrightarrow> me_session_id e = 0" "\<not> any_attached ?s \<Longrightarrow> e = mx_media x" by (simp_all add: e)
  then show "media_ok (put_socket s e x)"
    using media_ok_socket_free [OF assms(1) ss] media_ok_socket [OF assms(1) ss] by (cases "any_attached ?s") auto
qed

lemma rtp_attach_ok:
  assumes "media_ok x" "qmodem_voip_rtp_attach socket configured (mx_rtp x) (mx_media x) a p codec sess = (r, t, e, closed)"
  shows "media_ok (x\<lparr>mx_rtp := t, mx_media := e\<rparr>)"
proof -
  obtain t1 e1 c1 where rel: "qmodem_voip_rtp_release (mx_rtp x) (mx_media x) = (t1, e1, c1)" by (metis prod_cases3)
  have y: "media_ok (x\<lparr>mx_rtp := t1, mx_media := e1\<rparr>)" using release_rtp_ok(1) [OF assms(1)] by (simp add: release_rtp_def rel)
  obtain q e2 where q: "qmodem_voip_media_attach e1 QMODEM_VOIP_MEDIA_ATTACH_LAN_SIP sess = (q, e2)" by (metis surj_pair)
  have "(t, e) = (mx_rtp x, mx_media x) \<or> (t, e) = (t1, e1) \<or> (rt_active t \<and> rt_has_engine t)"
    using assms(2) by (auto simp: qmodem_voip_rtp_attach_def rel q split: if_splits)
  then show ?thesis
  proof (elim disjE conjE)
    assume "rt_active t" "rt_has_engine t"
    then show ?thesis using assms(1) by (simp add: media_ok_def held_def)
  qed (use assms(1) y in auto)
qed

lemma sync_revision:
  assumes "media_ok x" "call_media_state c" "browser_call c" "me_ready (mx_media (qmodem_voip_media_sync created c x))"
    "bm_ready (mx_browser (qmodem_voip_media_sync created c x))"
  shows "bm_call_revision (mx_browser (qmodem_voip_media_sync created c x)) = vc_revision c"
proof -
  let ?b = "the_browser x"
  have es: "bm_engine_set ?b" using assms(1) by (simp add: media_ok_def browser_sound_def)
  have st: "me_ready (bm_engine (qmodem_voip_browser_media_stop ?b)) = me_ready (mx_media x)"
    by (simp add: qmodem_voip_browser_media_stop_def qmodem_voip_browser_media_reset_call_def reset_engine_def Let_def
        qmodem_voip_media_detach_def qmodem_voip_serial_set_attached_def)
  have sb: "\<not> bm_ready (qmodem_voip_browser_media_stop ?b)" by (simp add: qmodem_voip_browser_media_stop_def)
  obtain r b1 where s: "(if \<not> bm_ready ?b then qmodem_voip_browser_media_start created ?b else (0, ?b)) = (r, b1)" by fastforce
  have nr: "r \<noteq> 0 \<Longrightarrow> \<not> bm_ready b1" using s
    by (auto simp: qmodem_voip_browser_media_start_def Let_def split: if_splits)
  show ?thesis
    using assms(2-5) es st sb nr unfolding qmodem_voip_media_sync_def Let_def s
    by (auto split: if_splits)
qed

lemma token_method_ok:
  assumes "media_ok x" "call_media_state c \<longrightarrow> vc_revision c \<noteq> 0"
    and "qmodem_voip_media_token_method created authorized random now c session revision origin x = (reply, x')"
  shows "media_ok x'"
proof -
  define y where "y = qmodem_voip_media_sync created c x"
  have y: "media_ok y" unfolding y_def by (rule sync_ok [OF assms(1,2)])
  have "x' = y \<or> (bm_call_revision (mx_browser y) = vc_revision c \<and> call_media_state c \<and> (\<exists>toks. x' = y\<lparr>mx_browser := (mx_browser y)\<lparr>bm_tokens := toks\<rparr>\<rparr>))"
    using assms(3) sync_revision [OF assms(1), of c created]
    unfolding qmodem_voip_media_token_method_def Let_def y_def [symmetric]
    by (auto split: option.splits prod.splits if_splits)
  then show ?thesis using y assms(2) by (auto simp: media_ok_def held_def browser_sound_def)
qed

lemma session_issue_ok:
  assumes "media_ok x" "qmodem_voip_media_socket_session_issue random (mx_media_sock x) n now = (r, ident, s)"
  shows "media_ok (x\<lparr>mx_media_sock := s\<rparr>)"
proof -
  have s: "ms_peers s = ms_peers (mx_media_sock x) \<and> ms_ready s = ms_ready (mx_media_sock x) \<and> ms_watched s = ms_watched (mx_media_sock x) \<and>
      length (ms_sessions s) = length (ms_sessions (mx_media_sock x))"
    using assms(2) by (auto simp: qmodem_voip_media_socket_session_issue_def Let_def session_expire_def split: if_splits)
  then show ?thesis using assms(1) by (simp add: media_ok_def held_def socket_sound_def socket_wf_def any_attached_def)
qed

lemma timer_start_socket_ok: "media_ok x \<Longrightarrow> media_ok (timer_start_socket env x)"
proof -
  assume ok: "media_ok x"
  obtain r s where s: "qmodem_voip_media_socket_start (ti_socket env) (socket_path x) (mx_media_sock x) = (r, s)" by fastforce
  show ?thesis
  proof (cases "me_ready (mx_media x) \<and> \<not> ms_ready (mx_media_sock x)")
    case True
    then have "media_ok (put_socket s (mx_media x) x)"
      using socket_start_sound [OF s] ok by (intro media_ok_socket) (auto simp: media_ok_def)
    then show ?thesis using True by (simp add: timer_start_socket_def s put_socket_def)
  qed (use ok in \<open>auto simp: timer_start_socket_def\<close>)
qed

lemma timer_audio_ok:
  "media_ok x \<Longrightarrow> timer_capture env x = Some x' \<Longrightarrow> media_ok x'"
  "media_ok x \<Longrightarrow> timer_playback env a ts x = Some x' \<Longrightarrow> media_ok x'"
  using keeps_capture [of "ti_backend env" "mx_media x"] keeps_playback [of "ti_backend env" "mx_media x"]
  by (auto simp: timer_capture_def timer_playback_def split: if_splits intro: media_ok_engine)

lemma timer_browser_ok: "media_ok x \<Longrightarrow> timer_browser env x = Some x' \<Longrightarrow> media_ok x'"
  using qmodem_voip_browser_media_service_ok by (auto simp: timer_browser_def split: if_splits)

lemma timer_rtp_ok:
  assumes "media_ok x"
  shows "media_ok (timer_rtp env a ts x)"
proof -
  obtain r t e out where s: "qmodem_voip_rtp_service (ti_arrival env) (ti_sendto env) (mx_rtp x) (mx_media x) ts = (r, t, e, out)"
    by (metis prod_cases4)
  from keeps_rtp_service [OF s] have "media_ok (x\<lparr>mx_rtp := t, mx_media := e\<rparr>)"
    using assms by (auto simp: media_ok_def held_def keeps_def)
  then show ?thesis using assms by (simp add: timer_rtp_def s)
qed

lemma same_peers_sound:
  assumes "map pe_attached (ms_peers s') = map pe_attached (ms_peers s)" "map pe_fd (ms_peers s') = map pe_fd (ms_peers s)"
    "map pe_watched (ms_peers s') = map pe_watched (ms_peers s)" "ms_ready s' = ms_ready s" "ms_watched s' = ms_watched s"
    "length (ms_sessions s') = length (ms_sessions s)"
  shows "socket_sound s' = socket_sound s" "any_attached s' = any_attached s"
proof -
  have any: "any_attached z \<longleftrightarrow> True \<in> set (map pe_attached (ms_peers z))" for z by (auto simp: any_attached_def)
  then show "any_attached s' = any_attached s" using assms(1) by metis
  have len: "length (ms_peers s') = length (ms_peers s)" using assms(1) by (metis length_map)
  have eq: "pe_attached (ms_peers s' ! i) = pe_attached (ms_peers s ! i) \<and> pe_fd (ms_peers s' ! i) = pe_fd (ms_peers s ! i) \<and>
      pe_watched (ms_peers s' ! i) = pe_watched (ms_peers s ! i)" if "i < length (ms_peers s)" for i
    using that len assms(1-3) by (metis nth_map)
  show "socket_sound s' = socket_sound s"
    unfolding socket_sound_def socket_wf_def all_set_conv_all_nth len assms(4-6) using eq by metis
qed

lemma timer_socket_ok:
  assumes "media_ok x"
  shows "media_ok (timer_socket env x)"
proof -
  obtain r s e out where s: "qmodem_voip_media_socket_service (ti_sent env) (mx_media_sock x) (mx_media x) = (r, s, e, out)"
    by (metis prod_cases4)
  note k = keeps_socket_service [OF s]
  from same_peers_sound [OF k(2,3,6,4,7,5)] have "media_ok (put_socket s e x)"
    using assms k(1) by (intro media_ok_socket) (auto simp: media_ok_def)
  then show ?thesis using assms by (simp add: timer_socket_def s)
qed

lemma timer_ok:
  assumes "media_ok x" "call_media_state c \<longrightarrow> vc_revision c \<noteq> 0" "qmodem_voip_browser_timer env c x = Some (x', next)"
  shows "media_ok x'"
proof -
  define x1 where "x1 = timer_start_socket env (qmodem_voip_media_sync (ti_created env) c x)"
  have x1: "media_ok x1" unfolding x1_def by (intro timer_start_socket_ok sync_ok assms)
  let ?any = "browser_attached c x \<or> rtp_attached c x \<or> socket_attached c x" and ?ts = "timer_time env x1"
  let ?y = "\<lambda>x3. timer_rtp env (rtp_attached c x) ?ts (timer_socket env x3)"
  obtain x2 x3 where x2: "timer_capture env x1 = Some x2" and x3: "timer_browser env x2 = Some x3"
      and x4: "timer_playback env ?any ?ts (?y x3) = Some x'"
    using assms(3) unfolding qmodem_voip_browser_timer_def Let_def x1_def [symmetric] by (auto split: option.splits)
  have "media_ok x3" using timer_browser_ok [OF timer_audio_ok(1) [OF x1 x2] x3] .
  then have "media_ok (?y x3)" by (intro timer_rtp_ok timer_socket_ok)
  from timer_audio_ok(2) [OF this x4] show ?thesis .
qed

lemma rtp_attach_method_ok:
  assumes "media_ok x" "qmodem_voip_rtp_attach_method socket configured c address port payload_type session x = (reply, x')"
  shows "media_ok x'"
  using assms rtp_attach_ok [OF assms(1)]
  by (auto simp: qmodem_voip_rtp_attach_method_def Let_def split: option.splits if_splits prod.splits)

lemma socket_session_method_ok:
  assumes "media_ok x" "qmodem_voip_socket_session_method random now c revision x = (reply, x')"
  shows "media_ok x'"
  using assms session_issue_ok [OF assms(1)]
  by (auto simp: qmodem_voip_socket_session_method_def Let_def split: option.splits if_splits prod.splits)

lemma teardown_ok: "media_ok x \<Longrightarrow> media_ok (qmodem_voip_media_manager_shutdown x)" "media_ok x \<Longrightarrow> media_ok (release_runtime_media x)"
  by (simp_all add: qmodem_voip_media_manager_shutdown_def release_runtime_media_def release_media_ok stop_socket_ok(1)
      release_rtp_ok(1) reset_call_media_ok)

lemma media_fx_ok:
  assumes "media_ok x" "call_media_state c \<longrightarrow> vc_revision c \<noteq> 0"
  shows "media_ok (media_fx created serial c fx x)"
proof (cases fx)
  case Fx_serial_reopen
  obtain r e closed where s: "qmodem_voip_serial_reopen serial (mx_media x) = (r, e, closed)" by (metis prod_cases3)
  have "keeps (mx_media x) (if r \<noteq> 0 then e\<lparr>me_ready := False\<rparr> else e)"
    using keeps_serial_reopen [of "mx_media x" serial] s by (simp add: keeps_def)
  then show ?thesis using Fx_serial_reopen s media_ok_engine(1) [OF assms(1)] by simp
next
  case Fx_socket_release
  obtain s e where s: "qmodem_voip_media_socket_release (mx_media_sock x) (mx_media x) = (s, e)" by fastforce
  from release_socket_ok(1) [OF assms(1) s] show ?thesis using Fx_socket_release s by simp
qed (use assms sync_ok release_rtp_ok(1) teardown_ok keeps_serial_ops media_ok_engine(1) in simp_all)

section \<open>The states of the media\<close>

text \<open>Everything that can happen to the media: the work of the capture thread, a start of the engine, an
  event of the event loop, a request, and what a handler of the daemon asks for. The call is the one at
  that moment; only a call that can have media must have a revision.\<close>

inductive media_step :: "media_context \<Rightarrow> media_context \<Rightarrow> bool" where
  step_thread: "qmodem_voip_serial_capture reads (mx_media x) now = Some (r, e, closed) \<Longrightarrow> media_step x (x\<lparr>mx_media := e\<rparr>)"
| step_engine: "qmodem_voip_media_engine_start env (mx_media x) = (r, e) \<Longrightarrow> media_step x (x\<lparr>mx_media := e\<rparr>)"
| step_timer: "qmodem_voip_browser_timer tenv c x = Some (x', delay) \<Longrightarrow> call_media_state c \<longrightarrow> vc_revision c \<noteq> 0 \<Longrightarrow> media_step x x'"
| step_accept: "ms_watched (mx_media_sock x) \<Longrightarrow> media_step x (x\<lparr>mx_media_sock := channel_accept fd nonblocking (mx_media_sock x)\<rparr>)"
| step_peer: "i < SOCKET_PEERS \<Longrightarrow> pe_watched (ms_peers (mx_media_sock x) ! i) \<Longrightarrow>
    channel_peer authorized now c stale i rs (mx_media_sock x) (mx_media x) = (s, e, out) \<Longrightarrow> media_step x (put_socket s e x)"
| step_token: "qmodem_voip_media_token_method created authorized random now c session revision origin x = (reply, x') \<Longrightarrow>
    call_media_state c \<longrightarrow> vc_revision c \<noteq> 0 \<Longrightarrow> media_step x x'"
| step_session: "qmodem_voip_socket_session_method random now c revision x = (reply, x') \<Longrightarrow> media_step x x'"
| step_rtp: "qmodem_voip_rtp_attach_method socket configured c address port codec sess x = (rep, x') \<Longrightarrow> media_step x x'"
| step_rtp_release: "qmodem_voip_rtp_release_method x = (rep, x') \<Longrightarrow> media_step x x'"
| step_status: "status_method created k c x = (report, x') \<Longrightarrow> call_media_state c \<longrightarrow> vc_revision c \<noteq> 0 \<Longrightarrow> media_step x x'"
| step_capabilities: "capabilities_method created supported c x = (report, x') \<Longrightarrow> call_media_state c \<longrightarrow> vc_revision c \<noteq> 0 \<Longrightarrow>
    media_step x x'"
| step_handler: "call_media_state c \<longrightarrow> vc_revision c \<noteq> 0 \<Longrightarrow> media_step x (media_fx created serial c fx x)"
| step_shutdown: "media_step x (qmodem_voip_media_manager_shutdown x)"

definition media_start_state :: "media_context \<Rightarrow> bool" where
  "media_start_state x \<longleftrightarrow> (\<exists>inet_pton profile argv enabled. main_media inet_pton profile argv = Some (x, enabled))"

lemma engine_start_session:
  assumes "qmodem_voip_media_engine_start env e = (r, e')"
  shows "e' = e \<or> me_session_id e' = 0"
proof (cases "recorded_media (ee_journal env)")
  case None
  then show ?thesis using assms by (simp add: qmodem_voip_media_engine_start_def)
next
  case (Some sm)
  obtain slot mode where sm: "sm = (slot, mode)" by fastforce
  define e0 where "e0 = (fst (qmodem_voip_media_release e))\<lparr>me_modem_to_canonical := qmodem_voip_media_queue_init (ee_lock env),
    me_canonical_to_modem := qmodem_voip_media_queue_init (ee_lock env)\<rparr>"
  have z: "me_session_id e0 = 0" using release_idle(2) by (simp add: e0_def)
  note start = assms [unfolded qmodem_voip_media_engine_start_def Some sm Let_def, simplified, folded e0_def]
  obtain q e1 c where q: "qmodem_voip_serial_start (ee_serial env) e0 slot = (q, e1, c)" by (metis prod_cases3)
  have k: "me_session_id e1 = 0" using keeps_serial_start [of e0 "ee_serial env" slot] q z by (simp add: keeps_def)
  obtain p e2 where p: "qmodem_voip_pcm_socket_start (ee_socket env) e0 = (p, e2)" by fastforce
  have k2: "me_session_id e2 = 0" using p z
    by (auto simp: qmodem_voip_pcm_socket_start_def pcm_socket_connect_def Let_def split: if_splits)
  have k3: "me_session_id (snd (engine_start_uac env slot e0)) = 0" using z release_idle(2)
    by (auto simp: engine_start_uac_def Let_def split: option.splits if_splits prod.splits)
  show ?thesis using start q p k k2 k3 release_idle(2) by (auto split: if_splits)
qed

lemma media_step_ok: "media_step x x' \<Longrightarrow> media_ok x \<Longrightarrow> media_ok x'"
proof (induction x x' rule: media_step.induct)
  case (step_thread reads x now r e closed)
  then show ?case using keeps_serial_capture media_ok_engine(1) by blast
next
  case (step_engine env x r e)
  then show ?case using engine_start_session [OF step_engine(1)] media_ok_engine by auto
next
  case (step_timer tenv c x x' delay)
  show ?case by (rule timer_ok [OF step_timer(3,2,1)])
next
  case (step_accept x fd nonblocking)
  show ?case by (rule channel_accept_ok [OF step_accept(2,1)])
next
  case (step_peer i x authorized now c stale rs s e out)
  show ?case by (rule channel_peer_ok [OF step_peer(4,1,2,3)])
next
  case (step_token created authorized random now c session revision origin x reply x')
  show ?case by (rule token_method_ok [OF step_token(3,2,1)])
next
  case (step_session random now c revision x reply x')
  show ?case by (rule socket_session_method_ok [OF step_session(2,1)])
next
  case (step_rtp socket configured c address port codec sess x rep x')
  show ?case by (rule rtp_attach_method_ok [OF step_rtp(2,1)])
next
  case (step_rtp_release x rep x')
  then show ?case using release_rtp_ok(1) [of x] by (auto simp: qmodem_voip_rtp_release_method_def)
next
  case (step_status created k c x report x')
  then show ?case using sync_ok [of x c created] by (simp add: status_method_def Let_def)
next
  case (step_capabilities created supported c x report x')
  then show ?case using sync_ok [of x c created] by (simp add: capabilities_method_def Let_def)
next
  case (step_handler c x created serial fx)
  show ?case by (rule media_fx_ok [OF step_handler(2,1)])
next
  case (step_shutdown x)
  then show ?case by (rule teardown_ok(1))
qed

lemma main_media_ok:
  assumes "main_media inet_pton profile argv = Some (x, enabled)"
  shows "media_ok x"
proof -
  let ?e = "zero_engine profile"
  obtain address path where a: "main_arguments argv = Some (address, path, enabled)"
      and c: "x = \<lparr>mx_media = ?e, mx_rtp = zero_transport,
        mx_browser = snd (qmodem_voip_browser_configure inet_pton (zero_browser ?e) ?e (Some address)),
        mx_connections = (\<lambda>_. zero_connection), mx_media_sock = zero_socket, mx_media_socket_path = path\<rparr>"
      and r: "fst (qmodem_voip_browser_configure inet_pton (zero_browser ?e) ?e (Some address)) = 0"
    using assms unfolding main_media_def Let_def by (auto split: option.splits prod.splits if_splits)
  have b: "browser_sound (snd (qmodem_voip_browser_configure inet_pton (zero_browser ?e) ?e (Some address)))"
    using r by (auto simp: qmodem_voip_browser_configure_def browser_sound_def quiet_def zero_browser_def
        qmodem_voip_browser_tokens_init_def zero_token_def split: option.splits if_splits)
  have s: "socket_sound zero_socket" by (simp add: socket_sound_def socket_wf_def zero_socket_def zero_peer_def)
  show ?thesis unfolding c using b s by (intro media_okI) (simp_all add: zero_transport_def zero_engine_def)
qed

interpretation media_system: inductive_invariant media_start_state media_step media_ok
  proof
  show "media_ok x" if "media_start_state x" for x using that main_media_ok by (auto simp: media_start_state_def)
qed (use media_step_ok in blast)

section \<open>The end of a call\<close>

text \<open>Nobody can use the audio: no session, no stream, no attached peer, no permission that is still
  valid and no browser.\<close>

definition media_released :: "media_context \<Rightarrow> bool" where
  "media_released x \<longleftrightarrow> me_session_id (mx_media x) = 0 \<and> \<not> rt_active (mx_rtp x) \<and> \<not> rt_has_engine (mx_rtp x) \<and>
     \<not> any_attached (mx_media_sock x) \<and> (\<forall>n \<in> set (ms_sessions (mx_media_sock x)). \<not> sn_active n) \<and>
     bm_call_revision (mx_browser x) = 0 \<and> quiet (mx_browser x)"

definition run_media :: "bool \<Rightarrow> serial_env \<Rightarrow> qmodem_voip_call \<Rightarrow> voip_fx list \<Rightarrow> media_context \<Rightarrow> media_context" where
  "run_media created serial c fxs x = fold (media_fx created serial c) fxs x"

lemma run_media_append: "run_media created serial c (fs @ gs) x = run_media created serial c gs (run_media created serial c fs x)"
  by (simp add: run_media_def)

lemma run_media_ok:
  "call_media_state c \<longrightarrow> vc_revision c \<noteq> 0 \<Longrightarrow> media_ok x \<Longrightarrow> media_ok (run_media created serial c fs x)"
  unfolding run_media_def by (induction fs arbitrary: x) (auto intro: media_fx_ok)

text \<open>After the synchronisation with a call that has no media, the browser has nothing left.\<close>

lemma sync_over:
  fixes created :: bool
  assumes "media_ok x" "\<not> call_media_state c"
  defines "y \<equiv> qmodem_voip_media_sync created c x"
  shows "bm_call_revision (mx_browser y) = 0" "quiet (mx_browser y)" "mx_rtp y = mx_rtp x" "mx_media_sock y = mx_media_sock x"
proof -
  have "media_ok y" unfolding y_def using assms(2) by (intro sync_ok [OF assms(1)]) simp
  then have q: "bm_call_revision (mx_browser y) = 0 \<Longrightarrow> quiet (mx_browser y)" by (simp add: media_ok_def browser_sound_def)
  have sb: "browser_sound (the_browser x)" using assms(1) by (simp add: media_ok_def)
  obtain r b1 where s: "(if \<not> bm_ready (the_browser x) then qmodem_voip_browser_media_start created (the_browser x)
      else (0, the_browser x)) = (r, b1)" by fastforce
  have b1: "browser_sound b1" "r \<noteq> 0 \<Longrightarrow> bm_call_revision b1 = 0"
    using s start_cases [of created "the_browser x" r b1] sb by (auto split: if_splits)
  have st: "bm_call_revision (qmodem_voip_browser_media_stop b) = 0" for b
    using reset_quiet(2) [of b] by (simp add: qmodem_voip_browser_media_stop_def)
  show "bm_call_revision (mx_browser y) = 0"
    using assms(2) sb b1 st reset_quiet(2) [of b1] unfolding y_def qmodem_voip_media_sync_def Let_def s
    by (auto simp: browser_sound_def)
  then show "quiet (mx_browser y)" by (rule q)
  show "mx_rtp y = mx_rtp x" "mx_media_sock y = mx_media_sock x"
    unfolding y_def qmodem_voip_media_sync_def Let_def s by simp_all
qed

text \<open>The requests of the release: the stream if there is one, the socket, and the port of the modem.\<close>

lemma publish_rest_over:
  assumes "call_is_over (vc_state c)"
  shows "\<exists>before restart serial. snd (publish_rest env name c s) = snd s @ before @ (if dm_rtp_active (fst s) then [Fx_rtp_release] else []) @
      [Fx_socket_release] @ serial @ restart @ [Fx_media_sync, Fx_event name c] \<and>
    (\<forall>fx \<in> set before. \<exists>h b. fx = Fx_history h b) \<and> (\<forall>fx \<in> set restart. \<exists>t. fx = Fx_voice_restart t) \<and>
    (\<forall>fx \<in> set serial. fx = Fx_serial_attached False \<or> fx = Fx_serial_reset)"
proof -
  define s1 where "s1 = publish_arm c (publish_history env c s)"
  define s2 where "s2 = (if vc_state c = VOIP_FAULT then with_ctx (dm_voice_restart_needed_update (\<lambda>_. True)) s1 else s1)"
  define s3 where "s3 = publish_release c s2"
  define s4 where "s4 = (if vc_state c = VOIP_IDLE \<and> dm_voice_restart_needed (fst s3)
                then restart_voice_server env c (with_ctx (dm_voice_restart_needed_update (\<lambda>_. False)) s3) else s3)"
  define before where "before = (case qmodem_voip_call_get_completed c of None \<Rightarrow> [] | Some h \<Rightarrow> [Fx_history h (en_history env h)])"
  define port where "port = (if dm_serial_backend (fst s2) then [Fx_serial_attached False, Fx_serial_reset] else [])"
  define restart where "restart = drop (length (snd s3)) (snd s4)"
  have "publish_arm c z = z" for z using assms by (auto simp: publish_arm_def call_is_over_def Let_def)
  then have 1: "snd s2 = snd s @ before" "dm_rtp_active (fst s2) = dm_rtp_active (fst s)" "\<forall>fx \<in> set before. \<exists>h b. fx = Fx_history h b"
    by (auto simp: s2_def s1_def publish_history_def before_def split: option.splits)
  have 3: "snd s3 = snd s2 @ (if dm_rtp_active (fst s) then [Fx_rtp_release] else []) @ [Fx_socket_release] @ port"
      "\<forall>fx \<in> set port. fx = Fx_serial_attached False \<or> fx = Fx_serial_reset"
    using assms 1(2) by (auto simp: s3_def publish_release_def port_def Let_def)
  have 4: "snd s4 = snd s3 @ restart" "\<forall>fx \<in> set restart. \<exists>t. fx = Fx_voice_restart t"
    by (auto simp: s4_def restart_def restart_voice_server_def Let_def)
  have "snd (publish_rest env name c s) = snd s4 @ [Fx_media_sync, Fx_event name c]"
    unfolding publish_rest_def Let_def s1_def [symmetric] s2_def [symmetric] s3_def [symmetric] s4_def [symmetric] by simp
  with 1(3) 3(2) 4(2) show ?thesis unfolding 4(1) 3(1) 1(1)
    by (intro exI [of _ before] exI [of _ restart] exI [of _ port]) simp
qed

lemma run_media_keep:
  "(\<forall>fx \<in> set fs. (\<exists>h b. fx = Fx_history h b) \<or> (\<exists>t. fx = Fx_voice_restart t)) \<Longrightarrow> run_media created serial c fs x = x"
  unfolding run_media_def by (induction fs arbitrary: x) auto

lemma run_media_port:
  "(\<forall>fx \<in> set fs. fx = Fx_serial_attached False \<or> fx = Fx_serial_reset) \<Longrightarrow>
   mx_rtp (run_media created serial c fs x) = mx_rtp x \<and> mx_media_sock (run_media created serial c fs x) = mx_media_sock x"
  unfolding run_media_def by (induction fs arbitrary: x) auto

lemma media_released_if:
  assumes "media_ok x" "\<not> rt_active (mx_rtp x)" "\<not> any_attached (mx_media_sock x)" "bm_call_revision (mx_browser x) = 0"
    "\<forall>n \<in> set (ms_sessions (mx_media_sock x)). \<not> sn_active n"
  shows "media_released x"
  using assms by (auto simp: media_released_def media_ok_def held_def browser_sound_def)

lemma media_ends:
  assumes "media_ok x" "call_is_over (vc_state c)" "dm_rtp_active d = rt_active (mx_rtp x)"
  shows "media_released (run_media created serial c (snd (publish_rest env name c (d, []))) x)"
proof -
  obtain before restart port where fx: "snd (publish_rest env name c (d, [])) = before @ (if dm_rtp_active d then [Fx_rtp_release] else []) @
      [Fx_socket_release] @ port @ restart @ [Fx_media_sync, Fx_event name c]"
      and b: "\<forall>fx \<in> set before. \<exists>h b. fx = Fx_history h b" and r: "\<forall>fx \<in> set restart. \<exists>t. fx = Fx_voice_restart t"
      and p: "\<forall>fx \<in> set port. fx = Fx_serial_attached False \<or> fx = Fx_serial_reset"
    using publish_rest_over [OF assms(2), of env name "(d, [])"] by auto
  have nm: "\<not> call_media_state c" using assms(2) by (auto simp: call_is_over_def call_media_state_def)
  define x1 where "x1 = run_media created serial c (if dm_rtp_active d then [Fx_rtp_release] else []) x"
  have x1: "media_ok x1" "\<not> rt_active (mx_rtp x1)"
    using release_rtp_ok(1,2) [OF assms(1)] assms(1,3) by (auto simp: x1_def run_media_def)
  obtain s e where s: "qmodem_voip_media_socket_release (mx_media_sock x1) (mx_media x1) = (s, e)" by fastforce
  note rel = release_socket_ok [OF x1(1) s]
  define x2 where "x2 = put_socket s e x1"
  define x3 where "x3 = run_media created serial c port x2"
  have x3: "media_ok x3" unfolding x3_def x2_def using nm rel(1) by (intro run_media_ok) simp_all
  have same: "mx_rtp x3 = mx_rtp x1" "mx_media_sock x3 = s" using run_media_port [OF p, of created serial c x2] by (simp_all add: x3_def x2_def)
  have eq: "run_media created serial c (snd (publish_rest env name c (d, []))) x = qmodem_voip_media_sync created c x3"
  proof -
    have k: "run_media created serial c before z = z" "run_media created serial c restart z = z" for z
      using b r by (auto intro!: run_media_keep)
    have t: "run_media created serial c [Fx_media_sync, Fx_event name c] z = qmodem_voip_media_sync created c z"
      "run_media created serial c [Fx_socket_release] x1 = x2" for z by (simp_all add: run_media_def s x2_def)
    show ?thesis unfolding fx run_media_append k x1_def [symmetric] t x3_def by (rule refl)
  qed
  note o = sync_over [OF x3 nm, of created]
  show ?thesis unfolding eq
    using o x1(2) rel(2,3) same sync_ok [OF x3, of c created] nm by (intro media_released_if) simp_all
qed

section \<open>From a token to a connection\<close>

lemma decode_loop_alphabet: "decode_loop acc bits out cs = Some r \<Longrightarrow> c \<in> set cs \<Longrightarrow> base64url_value c \<noteq> None"
  by (induction acc bits out cs rule: decode_loop.induct) (auto simp: Let_def split: option.splits if_splits)

lemma token_text:
  assumes "length secret = TOKEN_BYTES"
  shows "length (encode_token secret) = TOKEN_TEXT"
    "c \<in> set (encode_token secret) \<Longrightarrow> c \<noteq> CHR '','' \<and> \<not> header_blank c"
proof -
  note d = token_text_round_trip [OF assms, unfolded decode_token_def]
  show "length (encode_token secret) = TOKEN_TEXT" using d by (auto split: if_splits)
  assume "c \<in> set (encode_token secret)"
  then have "base64url_value c \<noteq> None" using d by (auto split: if_splits option.splits dest: decode_loop_alphabet)
  moreover have "base64url_value (CHR '','') = None" "base64url_value (CHR '' '') = None" "base64url_value (CHR 0x09) = None"
    by (simp_all add: base64url_value_def base64url_def)
  ultimately show "c \<noteq> CHR '','' \<and> \<not> header_blank c" by (auto simp: header_blank_def)
qed

lemma trim_blanks_same: "\<forall>c \<in> set s. \<not> header_blank c \<Longrightarrow> trim_blanks s = s"
proof -
  have d: "\<forall>c \<in> set t. \<not> header_blank c \<Longrightarrow> dropWhile header_blank t = t" for t by (cases t) auto
  assume "\<forall>c \<in> set s. \<not> header_blank c"
  then show ?thesis using d [of s] d [of "rev s"] by (simp add: trim_blanks_def)
qed

lemma takeWhile_same: "\<forall>c \<in> set s. P c \<Longrightarrow> takeWhile P s = s"
  by (simp add: takeWhile_eq_all_conv)

lemma protocol_of_token:
  assumes "length secret = TOKEN_BYTES"
  shows "protocol_token (''qmodem-voip-token.'' @ encode_token secret) = Some (encode_token secret)"
proof -
  let ?s = "''qmodem-voip-token.'' @ encode_token secret"
  have "\<forall>c \<in> set ?s. c \<noteq> CHR '','' \<and> \<not> header_blank c" using token_text(2) [OF assms] by (auto simp: header_blank_def)
  then have t: "takeWhile (\<lambda>c. c \<noteq> CHR '','') ?s = ?s" "trim_blanks ?s = ?s" by (simp_all add: takeWhile_same trim_blanks_same)
  have p: "has_prefix ?s ''qmodem-voip-token.''" "drop 18 ?s = encode_token secret" "length ?s = 18 + TOKEN_TEXT" "?s \<noteq> []"
    using token_text(1) [OF assms] by (simp_all add: has_prefix_def)
  show ?thesis by (subst protocol_token.simps) (simp only: t Let_def p if_True if_False simp_thms option.inject)
qed

lemma query_of_session:
  assumes "session \<noteq> []" "length session < sz" "CHR ''&'' \<notin> set session"
  shows "query_value ''session_id'' sz (''session_id='' @ session) = Some session"
proof -
  let ?q = "''session_id='' @ session"
  have t: "takeWhile (\<lambda>c. c \<noteq> CHR ''&'') ?q = ?q" using assms(3) by (intro takeWhile_same) auto
  have p: "length ?q > length ''session_id'' + 1" "has_prefix ?q (''session_id'' @ ''='')" "length ?q - length ''session_id'' - 1 < sz"
      "drop (length ''session_id'' + 1) ?q = session" "?q \<noteq> []"
    using assms by (simp_all add: has_prefix_def)
  show ?thesis by (subst query_value.simps) (simp only: t Let_def p if_True if_False simp_thms option.inject)
qed

text \<open>What the page of the daemon sends when it opens its connection.\<close>

definition browser_headers :: "string \<Rightarrow> string \<Rightarrow> string \<Rightarrow> lws_headers" where
  "browser_headers session origin token = \<lparr>lh_origin = Some origin, lh_uri = Some ''/media'',
     lh_query = Some (''session_id='' @ session), lh_protocols = Some (''qmodem-voip-token.'' @ token), lh_peer = None\<rparr>"

lemma started:
  assumes "(if \<not> bm_ready b then qmodem_voip_browser_media_start created b else (0, b)) = (0, b1)"
  shows "b1\<lparr>bm_call_revision := rv\<rparr> =
    b\<lparr>bm_context := (if bm_ready b then bm_context b else True), bm_ready := True, bm_call_revision := rv\<rparr>"
  using assms by (cases b) (auto simp: qmodem_voip_browser_media_start_def Let_def split: if_splits)

text \<open>The browser session after a synchronisation that leaves it ready, for a call of the browser.\<close>

lemma sync_live:
  fixes x :: media_context and created :: bool
  assumes "call_media_state c" "browser_call c"
  defines "y \<equiv> qmodem_voip_media_sync created c x"
  assumes "me_ready (mx_media y)" "bm_ready (mx_browser y)"
  shows "\<exists>ctx. y = put_browser ((the_browser x)\<lparr>bm_context := ctx, bm_ready := True, bm_call_revision := vc_revision c\<rparr>) x"
    "bm_engine_set (mx_browser x)" "me_ready (mx_media x)"
proof -
  let ?b = "the_browser x"
  have sb: "\<not> bm_ready (qmodem_voip_browser_media_stop ?b)" by (simp add: qmodem_voip_browser_media_stop_def)
  obtain r b1 where s: "(if \<not> bm_ready ?b then qmodem_voip_browser_media_start created ?b else (0, ?b)) = (r, b1)" by fastforce
  have nr: "r \<noteq> 0 \<Longrightarrow> \<not> bm_ready b1"
    using s by (auto simp: qmodem_voip_browser_media_start_def Let_def split: if_splits)
  have r0: "b1\<lparr>bm_call_revision := rv\<rparr> =
      ?b\<lparr>bm_context := (if bm_ready ?b then bm_context ?b else True), bm_ready := True, bm_call_revision := rv\<rparr>" if "r = 0" for rv
    using started [of ?b created b1 rv] s that by simp
  have run: "me_ready (mx_media x) \<and> bm_engine_set ?b"
    using assms(4,5) sb unfolding y_def qmodem_voip_media_sync_def Let_def by (auto split: if_splits)
  then have y: "y = (if r \<noteq> 0 then put_browser b1 x else put_browser (b1\<lparr>bm_call_revision := vc_revision c\<rparr>) x)"
    using assms(1,2) unfolding y_def qmodem_voip_media_sync_def Let_def s by simp
  then have "r = 0" using nr assms(5) by (auto split: if_splits)
  with y r0 [of "vc_revision c"]
  have "y = put_browser (?b\<lparr>bm_context := (if bm_ready ?b then bm_context ?b else True), bm_ready := True,
      bm_call_revision := vc_revision c\<rparr>) x" by simp
  then show "\<exists>ctx. y = put_browser (?b\<lparr>bm_context := ctx, bm_ready := True, bm_call_revision := vc_revision c\<rparr>) x" by (rule exI)
  show "bm_engine_set (mx_browser x)" "me_ready (mx_media x)" using run by simp_all
qed

lemma sync_stays_live:
  assumes "call_media_state c" "browser_call c" "me_ready (mx_media x)" "bm_ready (mx_browser x)" "bm_engine_set (mx_browser x)"
  shows "qmodem_voip_media_sync created c x = put_browser ((the_browser x)\<lparr>bm_call_revision := vc_revision c\<rparr>) x"
  using assms by (simp add: qmodem_voip_media_sync_def)

text \<open>A granted token is in the table of a session that is ready.\<close>

lemma token_granted:
  assumes "qmodem_voip_media_token_method created authorized random now c (Some session) revision (Some origin) x = (Granted token ttl rv, x1)"
  defines "y \<equiv> qmodem_voip_media_sync created c x"
  shows "call_media_state c" "browser_call c" "me_ready (mx_media y)" "bm_ready (mx_browser y)"
    "\<exists>toks. qmodem_voip_browser_token_issue random (bm_tokens (mx_browser y)) (Some session) (vc_revision c) (Some origin) None now =
        (0, Some token, toks) \<and> x1 = y\<lparr>mx_browser := (mx_browser y)\<lparr>bm_tokens := toks\<rparr>\<rparr>"
    "authorized session" "ttl = 30" "rv = vc_revision c"
  using assms(1) unfolding qmodem_voip_media_token_method_def Let_def y_def [symmetric]
  by (auto split: option.splits if_splits prod.splits)

lemma browser_admitted_core:
  assumes "bm_ready b" "bm_engine_set b" "me_ready (bm_engine b)" "me_session_id (bm_engine b) = 0" "\<not> bm_attached b"
    "bm_client b = None" "bm_pending_client b = None" "bm_call_revision b \<noteq> 0" "holds_at i t (bm_tokens b)"
    "later < bt_expires_at t" "bt_call_revision t \<le> bm_call_revision b" "bt_peer_address t = []"
    "bt_session_id t \<noteq> []" "length (bt_session_id t) < 65" "CHR ''&'' \<notin> set (bt_session_id t)"
  shows "\<exists>b1 b2. filter_connection (browser_headers (bt_session_id t) (bt_origin t) (encode_token (bt_secret t))) later wsi b = (0, b1) \<and>
    establish_connection wsi b1 = (0, b2) \<and> bm_client b2 = Some wsi \<and> bm_attached b2 \<and>
    me_attachment (bm_engine b2) = QMODEM_VOIP_MEDIA_ATTACH_BROWSER \<and> me_session_id (bm_engine b2) = bm_call_revision b"
proof -
  have sec: "length (bt_secret t) = TOKEN_BYTES" using assms(9) by (auto simp: holds_at_def tokens_ok_def)
  let ?h = "browser_headers (bt_session_id t) (bt_origin t) (encode_token (bt_secret t))"
  define toks where "toks = (expire_tokens later (bm_tokens b))[i := zero_token]"
  have c: "qmodem_voip_browser_token_consume (bm_tokens b) (Some (encode_token (bt_secret t))) (bt_session_id t) (bm_call_revision b)
      (bt_origin t) (Some ''uhttpd-unix'') later = (0, toks)"
    using assms(10-12) unfolding consume_held(1) [OF assms(9)] toks_def by (simp add: token_accepts_def checked_copy_def)
  have h: "lh_origin ?h = Some (bt_origin t)" "lh_uri ?h = Some ''/media''" "lh_query ?h = Some (''session_id='' @ bt_session_id t)"
      "lh_protocols ?h = Some (''qmodem-voip-token.'' @ encode_token (bt_secret t))" "lh_peer ?h = None"
    by (simp_all add: browser_headers_def)
  define org where "org = (case checked_copy 193 (Some (bt_origin t)) of Some s \<Rightarrow> s | None \<Rightarrow> bm_origin (b\<lparr>bm_tokens := toks\<rparr>))"
  have b1: "filter_connection ?h later wsi b = (0, b\<lparr>bm_tokens := toks, bm_origin := org, bm_pending_client := Some wsi\<rparr>)"
    unfolding filter_connection_def h option.case prod.case query_of_session [OF assms(13-15)] protocol_of_token [OF sec] Let_def c
    using assms(6,7) by (simp add: org_def)
  then show ?thesis using assms(1-8)
    by (auto simp: establish_connection_def qmodem_voip_browser_media_attach_def qmodem_voip_media_attach_def)
qed

text \<open>What the daemon reports does not depend on the number of a caller who withheld it.\<close>

lemma withheld_number_hidden:
  assumes "vc_caller_id_withheld c" "n = [] \<longleftrightarrow> vc_number c = []"
  shows "status_method created k (c\<lparr>vc_number := n\<rparr>) x = status_method created k c x"
    "qmodem_voip_reply_ok_snapshot k (c\<lparr>vc_number := n\<rparr>) x = qmodem_voip_reply_ok_snapshot k c x"
proof -
  let ?c = "c\<lparr>vc_number := n\<rparr>"
  have "call_media_state ?c = call_media_state c" "browser_call ?c = browser_call c" "vc_revision ?c = vc_revision c"
    by (simp_all add: call_media_state_def browser_call_def)
  then have "qmodem_voip_media_sync created ?c x = qmodem_voip_media_sync created c x"
    by (simp only: qmodem_voip_media_sync_def)
  moreover have "qmodem_voip_add_redacted_status k ?c = qmodem_voip_add_redacted_status k c"
    using assms by (simp add: qmodem_voip_add_redacted_status_def qmodem_voip_call_duration_seconds_def Let_def)
  ultimately show "status_method created k ?c x = status_method created k c x"
    "qmodem_voip_reply_ok_snapshot k ?c x = qmodem_voip_reply_ok_snapshot k c x"
    by (simp_all add: status_method_def qmodem_voip_reply_ok_snapshot_def)
qed

section \<open>Properties\<close>

text \<open>C5: when a call is over, nobody keeps the audio. In every state the media can be in, the event
  callback of a call that is idle, terminating, disabled or in fault leaves the engine without a
  session, the RTP stream closed, every peer of the media socket detached, every permission of the
  socket and every token of the browser void, and no browser connected.\<close>

theorem media_ends_with_call:
  assumes "reach media_start_state media_step x" "call_is_over (vc_state c)" "dm_rtp_active d = rt_active (mx_rtp x)"
  shows "media_released (run_media created serial c (snd (publish_rest env name c (d, []))) x)"
  by (rule media_ends [OF media_system.reach_inv [OF assms(1)] assms(2,3)])


abbreviation socket_profile :: qmodem_voip_modem_profile where
  "socket_profile \<equiv> (me_profile sample_engine)\<lparr>pr_socket_path := ''/run/pcm''\<rparr>"

definition start_media :: media_context where
  "start_media = fst (the (main_media (\<lambda>_. Some 0xC0A80101) socket_profile
     [''voipd'', ''--media-address'', ''192.168.1.1'', ''--media-cert'', ''c'', ''--media-key'', ''k'',
      ''--media-socket-path'', ''/run/media'', ''--start-enabled'', ''1'']))"

definition socket_engine_env :: engine_env where
  "socket_engine_env = \<lparr>ee_journal = Some [''slot=1-1'', ''media_method=pcm_socket''], ee_lock = True,
      ee_serial = \<lparr>se_configured = None, se_discovered = None, se_open = -1, se_settings_read = False, se_settings_written = False,
        se_nonblocking = False, se_thread_created = False\<rparr>,
      ee_socket = 6, ee_discover = (\<lambda>_. None), ee_probe = None, ee_self_test = None, ee_open = None\<rparr>"

definition started_media :: media_context where
  "started_media = start_media\<lparr>mx_media := snd (qmodem_voip_media_engine_start socket_engine_env (mx_media start_media))\<rparr>"

definition media_call :: "qmodem_voip_state \<Rightarrow> qmodem_voip_call" where
  "media_call st = Media_Socket.sample_call\<lparr>vc_state := st, vc_origin := ENDPOINT_BROWSER\<rparr>"

definition streaming_media :: media_context where
  "streaming_media = snd (qmodem_voip_rtp_attach_method 9 True (media_call VOIP_ACTIVE) (Some 0xC0A80102) (Some 4000) (Some 8)
     (Some (Blob_int64 7)) started_media)"

lemma start_media_example:
  "main_media (\<lambda>_. Some 0xC0A80101) socket_profile
     [''voipd'', ''--media-address'', ''192.168.1.1'', ''--media-cert'', ''c'', ''--media-key'', ''k'',
      ''--media-socket-path'', ''/run/media'', ''--start-enabled'', ''1''] = Some (start_media, True)"
  "mx_media start_media = zero_engine socket_profile" "mx_rtp start_media = zero_transport"
  "mx_browser start_media = (zero_browser (zero_engine socket_profile))\<lparr>bm_address := ''192.168.1.1'', bm_engine_set := True,
     bm_engine := zero_engine socket_profile, bm_tokens := qmodem_voip_browser_tokens_init\<rparr>"
proof -
  have a: "main_arguments [''voipd'', ''--media-address'', ''192.168.1.1'', ''--media-cert'', ''c'', ''--media-key'', ''k'',
      ''--media-socket-path'', ''/run/media'', ''--start-enabled'', ''1''] = Some (''192.168.1.1'', ''/run/media'', True)"
    by code_simp
  have c: "checked_copy 16 (Some ''192.168.1.1'') = Some ''192.168.1.1''" by code_simp
  have i: "(0xC0A80101 :: u32) \<noteq> 0" "drop_bit 24 (0xC0A80101 :: u32) \<noteq> 127" by simp_all
  note m = main_media_def a qmodem_voip_browser_configure_def Let_def option.case prod.case c
  show "main_media (\<lambda>_. Some 0xC0A80101) socket_profile
     [''voipd'', ''--media-address'', ''192.168.1.1'', ''--media-cert'', ''c'', ''--media-key'', ''k'',
      ''--media-socket-path'', ''/run/media'', ''--start-enabled'', ''1''] = Some (start_media, True)"
    unfolding start_media_def m using i by simp
  show "mx_media start_media = zero_engine socket_profile" "mx_rtp start_media = zero_transport"
    "mx_browser start_media = (zero_browser (zero_engine socket_profile))\<lparr>bm_address := ''192.168.1.1'', bm_engine_set := True,
       bm_engine := zero_engine socket_profile, bm_tokens := qmodem_voip_browser_tokens_init\<rparr>"
    unfolding start_media_def m using i by simp_all
qed

lemma started_media_facts:
  "reach media_start_state media_step started_media" "me_ready (mx_media started_media)" "me_session_id (mx_media started_media) = 0"
  "mx_browser started_media = mx_browser start_media" "mx_rtp started_media = zero_transport"
proof -
  have "reach media_start_state media_step start_media"
    using start_media_example(1) by (intro reach_init) (auto simp: media_start_state_def)
  then show "reach media_start_state media_step started_media"
    unfolding started_media_def by (rule reach_step) (rule step_engine, rule prod.collapse [symmetric])
  have j: "recorded_media (ee_journal socket_engine_env) = Some (''1-1'', ''pcm_socket'')" by code_simp
  have p: "pr_socket_path (me_profile (fst (qmodem_voip_media_release (mx_media start_media)))) \<noteq> []"
    by (simp add: start_media_example qmodem_voip_media_release_def zero_engine_def)
  obtain r e where s: "qmodem_voip_media_engine_start socket_engine_env (mx_media start_media) = (r, e)" by fastforce
  have "r = 0" using s p unfolding qmodem_voip_media_engine_start_def j by (simp add: qmodem_voip_pcm_socket_start_def Let_def)
  with engine_start_cases [OF j s] show "me_ready (mx_media started_media)" "me_session_id (mx_media started_media) = 0"
    by (simp_all add: started_media_def s)
  show "mx_browser started_media = mx_browser start_media" "mx_rtp started_media = zero_transport"
    by (simp_all add: started_media_def start_media_example)
qed

lemma streaming_media_facts:
  "reach media_start_state media_step streaming_media" "rt_active (mx_rtp streaming_media)" "me_session_id (mx_media streaming_media) = 7"
proof -
  show "reach media_start_state media_step streaming_media"
    unfolding streaming_media_def by (rule reach_step [OF started_media_facts(1)]) (rule step_rtp, rule prod.collapse [symmetric])
  have "\<not> bm_attached (mx_browser started_media)" by (simp add: started_media_facts start_media_example zero_browser_def)
  then show "rt_active (mx_rtp streaming_media)" "me_session_id (mx_media streaming_media) = 7"
    using started_media_facts(2,3)
    by (simp_all add: streaming_media_def qmodem_voip_rtp_attach_method_def qmodem_voip_rtp_attach_def qmodem_voip_rtp_release_def
        started_media_facts(5) zero_transport_def qmodem_voip_media_attach_def call_media_state_def media_call_def Let_def)
qed

theorem media_ends_with_call_witness:
  "rt_active (mx_rtp streaming_media) \<and> me_session_id (mx_media streaming_media) = 7 \<and>
   media_released (run_media True (ee_serial socket_engine_env) (media_call VOIP_TERMINATING)
     (snd (publish_rest sample_env ''terminating'' (media_call VOIP_TERMINATING)
       ((sample_context (media_call VOIP_TERMINATING))\<lparr>dm_rtp_active := True\<rparr>, []))) streaming_media)"
proof -
  let ?c = "media_call VOIP_TERMINATING"
  have "call_is_over (vc_state ?c)" "dm_rtp_active ((sample_context ?c)\<lparr>dm_rtp_active := True\<rparr>) = rt_active (mx_rtp streaming_media)"
    by (simp_all add: media_call_def call_is_over_def streaming_media_facts(2))
  from media_ends_with_call [OF streaming_media_facts(1) this] show ?thesis using streaming_media_facts(2,3) by blast
qed


end
