(* ===== verification/Call_History.thy ===== *)
theory Call_History
  imports Json_Values Call_State "HOL-Library.Countable"
begin

text \<open>
  The call history of the voice daemon, \<open>application/voipd/src/call_history.c\<close>: loading the
  history file, and appending a completed call by writing a new file beside it and renaming it.

  The file is a value; the results of the system calls are arguments. The JSON library is a
  parameter (theory \<open>Json_Values\<close>).
\<close>

abbreviation QMODEM_VOIP_CALL_HISTORY_LIMIT :: nat where "QMODEM_VOIP_CALL_HISTORY_LIMIT \<equiv> 100"

section \<open>Loading\<close>

datatype stored_file = Absent | Unreadable | Content string

definition empty_history :: "json list" where
  "empty_history = []"

definition qmodem_voip_call_history_load :: "json_library \<Rightarrow> stored_file \<Rightarrow> json list option" where
  "qmodem_voip_call_history_load lib file =
     (case file of
        Absent \<Rightarrow> Some empty_history
      | Unreadable \<Rightarrow> None
      | Content s \<Rightarrow> (case jl_parse lib s of Some (JArray items) \<Rightarrow> Some items | _ \<Rightarrow> None))"

section \<open>Writing\<close>

text \<open>The results of \<open>write\<close>: a number of bytes, an interruption, or a failure (which includes a
  write of nothing).\<close>

datatype write_result = Wrote nat | Write_interrupted | Write_failed

text \<open>\<open>write_all\<close>: the results not used, what the file holds, and whether all was written; \<open>None\<close>
  when the results given end before the loop does.\<close>

fun write_all :: "write_result list \<Rightarrow> string \<Rightarrow> string \<Rightarrow> (bool \<times> string \<times> write_result list) option" where
  "write_all rs [] out = Some (True, out, rs)"
| "write_all [] (c # cs) out = None"
| "write_all (Write_interrupted # rs) (c # cs) out = write_all rs (c # cs) out"
| "write_all (Write_failed # rs) (c # cs) out = Some (False, out, rs)"
| "write_all (Wrote n # rs) (c # cs) out =
     (if n = 0 then Some (False, out, rs)
      else write_all rs (drop n (c # cs)) (out @ take n (c # cs)))"

record history_env =
  he_path_length :: nat
  he_memory :: bool
  he_mkstemp :: bool
  he_fchmod :: bool
  he_writes :: "write_result list"
  he_fsync :: bool
  he_close :: bool
  he_rename :: bool

text \<open>The new contents are in the temporary file; it replaces the history only when everything
  worked. Flushing the directory afterwards is tried without looking at the result.\<close>

definition write_history :: "json_library \<Rightarrow> history_env \<Rightarrow> json list \<Rightarrow> stored_file \<Rightarrow> (int \<times> stored_file) option" where
  "write_history lib env history file =
     (if he_path_length env + 12 \<ge> 256 \<or> \<not> he_mkstemp env then Some (-1, file)
      else let serialized = jl_print lib (JArray history) in
      if \<not> he_fchmod env then Some (-1, file)
      else case write_all (he_writes env) serialized [] of
        None \<Rightarrow> None
      | Some (False, _, _) \<Rightarrow> Some (-1, file)
      | Some (True, body, rs) \<Rightarrow>
          (case write_all rs ''\<newline>'' body of
             None \<Rightarrow> None
           | Some (False, _, _) \<Rightarrow> Some (-1, file)
           | Some (True, temporary, _) \<Rightarrow>
               if he_fsync env \<and> he_close env \<and> he_rename env then Some (0, Content temporary) else Some (-1, file)))"

section \<open>Appending\<close>

definition history_result :: "qmodem_voip_completed \<Rightarrow> string" where
  "history_result call =
     (let incoming = (cc_origin call = ENDPOINT_CELLULAR) in
      if incoming \<and> \<not> cc_was_active call then ''missed''
      else if cc_was_active call then ''completed'' else ''failed'')"

definition history_entry :: "qmodem_voip_completed \<Rightarrow> json" where
  "history_entry call =
     (let incoming = (cc_origin call = ENDPOINT_CELLULAR) in
      JObject
        [(''started_at'', JInt (sint (cc_started_at call))),
         (''ended_at'', JInt (sint (cc_ended_at call))),
         (''duration_seconds'', JInt (sint (cc_duration_seconds call))),
         (''direction'', JString (if incoming then ''incoming'' else ''outgoing'')),
         (''result'', JString (history_result call)),
         (''missed'', JBool (incoming \<and> \<not> cc_was_active call)),
         (''caller_id_withheld'', JBool (cc_caller_id_withheld call)),
         (''number_present'', JBool (cc_number call \<noteq> [])),
         (''remote_number'', JString (if cc_caller_id_withheld call then [] else cc_number call))])"

text \<open>The older entries that are kept: a JSON null is skipped.\<close>

definition kept_entries :: "json list \<Rightarrow> json list" where
  "kept_entries old =
     (let count = (if length old \<ge> QMODEM_VOIP_CALL_HISTORY_LIMIT then QMODEM_VOIP_CALL_HISTORY_LIMIT - 1 else length old)
      in filter (\<lambda>item. item \<noteq> JNull) (take count old))"

definition qmodem_voip_call_history_append ::
  "json_library \<Rightarrow> history_env \<Rightarrow> qmodem_voip_completed \<Rightarrow> stored_file \<Rightarrow> (int \<times> stored_file) option" where
  "qmodem_voip_call_history_append lib env call file =
     (if cc_started_at call = 0 then Some (-1, file)
      else case qmodem_voip_call_history_load lib file of
        None \<Rightarrow> Some (-1, file)
      | Some old \<Rightarrow>
          if \<not> he_memory env then Some (-1, file)
          else write_history lib env (history_entry call # kept_entries old) file)"

section \<open>What the history keeps\<close>

text \<open>A failed append leaves the file as it was, a successful one has written the whole text.\<close>

lemma write_all_done: "write_all rs s out = Some (True, r, rs') \<Longrightarrow> r = out @ s"
proof (induction rs s out rule: write_all.induct)
  case (5 n rs c cs out)
  then show ?case by (auto split: if_splits)
qed auto

lemma write_history_cases:
  assumes "write_history lib env history file = Some (r, file')"
  shows "(r = -1 \<and> file' = file) \<or> (r = 0 \<and> file' = Content (jl_print lib (JArray history) @ ''\<newline>''))"
  using assms unfolding write_history_def Let_def
  by (auto split: if_splits option.splits bool.splits dest!: write_all_done)

definition json_round_trip :: "json_library \<Rightarrow> bool" where
  "json_round_trip lib \<longleftrightarrow> (\<forall>items. jl_parse lib (jl_print lib (JArray items) @ ''\<newline>'') = Some (JArray items))"

lemma history_append_cases:
  assumes "json_round_trip lib" "qmodem_voip_call_history_append lib env call file = Some (r, file')"
  shows "(r = -1 \<and> file' = file) \<or>
    (r = 0 \<and> (\<exists>old. qmodem_voip_call_history_load lib file = Some old \<and>
      qmodem_voip_call_history_load lib file' = Some (history_entry call # kept_entries old)))"
proof -
  have "qmodem_voip_call_history_load lib (Content (jl_print lib (JArray h) @ ''\<newline>'')) = Some h" for h
    using assms(1) by (simp add: json_round_trip_def qmodem_voip_call_history_load_def)
  then show ?thesis
    using assms(2) by (auto simp: qmodem_voip_call_history_append_def split: if_splits option.splits dest!: write_history_cases)
qed

text \<open>A history of entries only, and several appends.\<close>

fun append_all ::
  "json_library \<Rightarrow> (history_env \<times> qmodem_voip_completed) list \<Rightarrow> stored_file \<Rightarrow> stored_file option" where
  "append_all lib [] file = Some file"
| "append_all lib ((env, call) # cs) file =
     (case qmodem_voip_call_history_append lib env call file of
        Some (r, file') \<Rightarrow> if r = 0 then append_all lib cs file' else None
      | None \<Rightarrow> None)"

lemma history_entry_not_null [simp]: "history_entry call \<noteq> JNull"
  by (simp add: history_entry_def Let_def)

lemma kept_entries_map:
  "kept_entries (map history_entry (take 100 cs)) = map history_entry (take 99 cs)"
proof -
  have "filter (\<lambda>item. item \<noteq> JNull) (map history_entry ds) = map history_entry ds" for ds
    by (induction ds) auto
  then show ?thesis
    by (cases "length cs \<ge> 100") (auto simp: kept_entries_def Let_def take_map min_def)
qed

lemma append_all_load:
  assumes "json_round_trip lib" "append_all lib cs f0 = Some file'"
    and "qmodem_voip_call_history_load lib f0 = Some (map history_entry (take 100 ds))"
  shows "qmodem_voip_call_history_load lib file' = Some (map history_entry (take 100 (rev (map snd cs) @ ds)))"
  using assms(2,3)
proof (induction cs arbitrary: f0 ds)
  case (Cons c cs)
  obtain env call where c: "c = (env, call)" by (cases c)
  with Cons.prems(1) obtain file1 where step: "qmodem_voip_call_history_append lib env call f0 = Some (0, file1)"
      and rest: "append_all lib cs file1 = Some file'"
    by (auto split: option.splits prod.splits if_splits)
  have "qmodem_voip_call_history_load lib file1 = Some (map history_entry (take 100 (call # ds)))"
    using history_append_cases [OF assms(1) step] Cons.prems(2) by (auto simp: kept_entries_map take_Cons')
  from Cons.IH [OF rest this] show ?case by (simp add: c)
qed simp

section \<open>A library\<close>

text \<open>A library with the round trip: a value is printed as a number in unary.\<close>

instance json :: countable
  by countable_datatype

definition unary_library :: json_library where
  "unary_library = \<lparr>jl_parse = (\<lambda>s. Some (from_nat (length s - 1))), jl_print = (\<lambda>j. replicate (to_nat j) CHR ''1''),
     jl_member = (\<lambda>j n. None), jl_string = (\<lambda>j. None), jl_int64 = (\<lambda>j. 0)\<rparr>"

lemma unary_library_round_trip: "json_round_trip unary_library"
  by (simp add: json_round_trip_def unary_library_def)

section \<open>Properties\<close>

text \<open>After any number of calls were appended to an absent or empty history, loading it gives the
  newest hundred of them, newest first, whatever the lengths of the single writes were; a failed
  append leaves the file as it was.\<close>

lemma history_keeps_newest:
  assumes "json_round_trip lib" "append_all lib cs Absent = Some file"
  shows "qmodem_voip_call_history_load lib file = Some (map history_entry (take QMODEM_VOIP_CALL_HISTORY_LIMIT (rev (map snd cs)))) \<and>
    (\<forall>env call r file'. qmodem_voip_call_history_append lib env call file = Some (r, file') \<and> r \<noteq> 0 \<longrightarrow> file' = file)"
proof -
  have "qmodem_voip_call_history_load lib Absent = Some (map history_entry (take 100 []))"
    by (simp add: qmodem_voip_call_history_load_def empty_history_def)
  from append_all_load [OF assms this] show ?thesis
    using history_append_cases [OF assms(1)] by (metis list.map_disc_iff append_Nil2)
qed

definition sample_history_env :: "nat \<Rightarrow> history_env" where
  "sample_history_env n = \<lparr>he_path_length = 39, he_memory = True, he_mkstemp = True, he_fchmod = True,
     he_writes = [Write_interrupted, Wrote (n + 1), Wrote 1], he_fsync = True, he_close = True, he_rename = True\<rparr>"

lemma write_all_once: "s \<noteq> [] \<Longrightarrow> length s \<le> n \<Longrightarrow> write_all (Write_interrupted # Wrote n # rs) s [] = Some (True, s, rs)"
  by (cases s) auto

end
