(* ===== verification/Sms_Text.thy ===== *)
theory Sms_Text
  imports QModem_Prelude
begin

text \<open>
  The text codings of the SMS library, \<open>application/libqmodem-sms/src/pdu.c\<close> and
  \<open>ucs2_to_utf8.c\<close>: telephone numbers, packing of 7-bit characters into octets, the GSM
  alphabet, and the conversions between UTF-8 and UTF-16.

  Texts are lists of bytes without the terminating NUL. The tables have the values of the C arrays.
\<close>

unbundle bit_operations_syntax

text \<open>What a C function gives: a result, an error code, or a read or write outside an object, which
  has no defined outcome.\<close>

datatype 'a c_result = Done 'a | Failed int | Undefined

section \<open>Telephone numbers\<close>

definition separator_char :: "char \<Rightarrow> bool" where
  "separator_char c \<longleftrightarrow> c \<in> {CHR '' '', CHR 0x09, CHR ''('', CHR '')'', CHR ''-''}"

text \<open>The loop: \<open>out\<close> is what has been written so far.\<close>

fun normalize_loop :: "nat \<Rightarrow> string \<Rightarrow> string \<Rightarrow> string option" where
  "normalize_loop capacity out [] = Some out"
| "normalize_loop capacity out (c # cs) =
     (if separator_char c then normalize_loop capacity out cs
      else if \<not> is_digit c \<and> \<not> (c = CHR ''+'' \<and> out = []) then None
      else if length out + 1 \<ge> capacity then None
      else normalize_loop capacity (out @ [c]) cs)"

definition number_shape :: "string \<Rightarrow> bool" where
  "number_shape n \<longleftrightarrow> n \<noteq> [] \<and>
     \<not> (hd n = CHR ''+'' \<and> (length n < 2 \<or> length n > 16 \<or> n ! 1 = CHR ''0'')) \<and>
     \<not> (hd n \<noteq> CHR ''+'' \<and> length n > 20)"

definition sms_normalize_number :: "string \<Rightarrow> nat \<Rightarrow> string option" where
  "sms_normalize_number input capacity =
     (if capacity < 2 then None
      else case normalize_loop capacity [] input of
             None \<Rightarrow> None
           | Some n \<Rightarrow> if number_shape n then Some n else None)"

definition country_code_digits :: "string \<Rightarrow> string option" where
  "country_code_digits code =
     (let digits = (if hd code = CHR ''+'' then tl code else code)
      in if length digits < 1 \<or> length digits > 3 \<or> hd digits = CHR ''0'' \<or> \<not> list_all is_digit digits
         then None else Some digits)"

definition sms_resolve_number :: "string \<Rightarrow> string option \<Rightarrow> nat \<Rightarrow> string option" where
  "sms_resolve_number input country_code capacity =
     (case sms_normalize_number input 22 of
        None \<Rightarrow> None
      | Some number \<Rightarrow>
          if hd number = CHR ''+'' \<or> country_code = None \<or> country_code = Some []
          then sms_normalize_number number capacity
          else case country_code_digits (the country_code) of
                 None \<Rightarrow> None
               | Some digits \<Rightarrow> sms_normalize_number (c_copy 26 (''+'' @ digits @ number)) capacity)"

text \<open>Two digits per octet, the first one in the low half; an odd digit leaves ones in the high
  half.\<close>

definition digit_value :: "char \<Rightarrow> u8" where
  "digit_value c = of_nat (of_char c - 48)"

fun phone_octets :: "string \<Rightarrow> u8 list" where
  "phone_octets [] = []"
| "phone_octets [a] = [0xF0 OR digit_value a]"
| "phone_octets (a # b # ds) = (((0xF0 OR digit_value a) AND 0x0F) OR push_bit 4 (digit_value b)) # phone_octets ds"

definition EncodePhoneNumber :: "string \<Rightarrow> nat \<Rightarrow> u8 list option" where
  "EncodePhoneNumber phone_number buffer_size =
     (if (length phone_number + 1) div 2 > buffer_size then None
      else if \<not> list_all is_digit phone_number then None
      else Some (phone_octets phone_number))"

definition DecodePhoneNumber :: "u8 list \<Rightarrow> nat \<Rightarrow> string" where
  "DecodePhoneNumber buffer n =
     map (\<lambda>i. char_of (unat (if i mod 2 = 0 then buffer ! (i div 2) AND 0x0F else drop_bit 4 (buffer ! (i div 2) AND 0xF0)) + 48 :: nat))
       [0..<n]"

text \<open>\<open>SwapDecimalNibble\<close>: the two decimal digits of a time stamp octet.\<close>

definition SwapDecimalNibble :: "u8 \<Rightarrow> nat" where
  "SwapDecimalNibble x = (unat x div 16 + unat x mod 16 * 10) mod 256"

section \<open>Packing septets\<close>

text \<open>The loop of \<open>EncodePDUMessage\<close>: \<open>carry\<close> is \<open>carry_on_bits\<close>, the list the text
  from position \<open>i\<close> on. \<open>beyond\<close> is the byte after the text, which the code reads when the
  length is a multiple of eight.\<close>

fun pack_from :: "nat \<Rightarrow> u8 list \<Rightarrow> u8 \<Rightarrow> u8 list" where
  "pack_from carry [] beyond = [drop_bit (carry - 1) (beyond AND 0x7F)]"
| "pack_from carry [a] beyond = [drop_bit (carry - 1) (a AND 0x7F)]"
| "pack_from carry (a # b # rest) beyond =
     (drop_bit (carry - 1) (a AND 0x7F) OR push_bit (8 - carry) (b AND 0x7F)) #
     (if carry = 7 then pack_from 1 rest beyond else pack_from (carry + 1) (b # rest) beyond)"

definition EncodePDUMessage :: "u8 list \<Rightarrow> u8 \<Rightarrow> nat \<Rightarrow> u8 list c_result" where
  "EncodePDUMessage sms_text beyond buffer_size =
     (if (length sms_text * 7 + 7) div 8 > buffer_size then Failed (-1)
      else let octets = pack_from 1 sms_text beyond
           in if length octets > buffer_size then Undefined else Done octets)"

text \<open>The loop of \<open>DecodePDUMessage_GSM_7bit\<close>: \<open>prev\<close> is the octet before the current one and
  \<open>k\<close> the number of characters still wanted, at least one.\<close>

fun unpack_from :: "nat \<Rightarrow> u8 \<Rightarrow> u8 list \<Rightarrow> nat \<Rightarrow> u8 list" where
  "unpack_from carry prev [] k = [drop_bit (8 - carry) prev]"
| "unpack_from carry prev (b # bs) k =
     (0x7F AND (push_bit carry b OR drop_bit (8 - carry) prev)) #
     (if k = 1 then []
      else if carry = 7 then (b AND 0x7F) # (if k = 2 then [] else unpack_from 1 b bs (k - 2))
      else unpack_from (carry + 1) b bs (k - 1))"

text \<open>\<open>None\<close> when an octet of an empty buffer would be read.\<close>

definition DecodePDUMessage_GSM_7bit :: "u8 list \<Rightarrow> nat \<Rightarrow> u8 list option" where
  "DecodePDUMessage_GSM_7bit buffer sms_text_length =
     (case buffer of
        [] \<Rightarrow> if sms_text_length > 1 then None else Some []
      | b # bs \<Rightarrow> Some ((0x7F AND b) # (if sms_text_length > 1 then unpack_from 1 b bs (sms_text_length - 1) else [])))"

section \<open>The GSM alphabet\<close>

definition gsm7bits_to_latin1 :: "u8 list" where
  "gsm7bits_to_latin1 =
    [64, 163, 36, 165, 232, 233, 249, 236, 242, 199, 10, 216, 248, 13, 197, 229,
     0, 95, 0, 0, 0, 0, 0, 0, 0, 0, 0, 0, 198, 230, 223, 201,
     32, 33, 34, 35, 164, 37, 38, 39, 40, 41, 42, 43, 44, 45, 46, 47,
     48, 49, 50, 51, 52, 53, 54, 55, 56, 57, 58, 59, 60, 61, 62, 63,
     161, 65, 66, 67, 68, 69, 70, 71, 72, 73, 74, 75, 76, 77, 78, 79,
     80, 81, 82, 83, 84, 85, 86, 87, 88, 89, 90, 196, 214, 209, 220, 167,
     191, 97, 98, 99, 100, 101, 102, 103, 104, 105, 106, 107, 108, 109, 110, 111,
     112, 113, 114, 115, 116, 117, 118, 119, 120, 121, 122, 228, 246, 241, 252, 224]"

definition gsm7bits_extend_to_latin1 :: "u8 list" where
  "gsm7bits_extend_to_latin1 =
    [0, 0, 0, 0, 0, 0, 0, 0, 0, 0, 12, 0, 0, 0, 0, 0,
     0, 0, 0, 0, 94, 0, 0, 0, 0, 0, 0, 0, 0, 0, 0, 0,
     0, 0, 0, 0, 0, 0, 0, 0, 123, 125, 0, 0, 0, 0, 0, 92,
     0, 0, 0, 0, 0, 0, 0, 0, 0, 0, 0, 0, 91, 126, 93, 0,
     124, 0, 0, 0, 0, 0, 0, 0, 0, 0, 0, 0, 0, 0, 0, 0,
     0, 0, 0, 0, 0, 0, 0, 0, 0, 0, 0, 0, 0, 0, 0, 0,
     0, 0, 0, 0, 0, 0, 0, 0, 0, 0, 0, 0, 0, 0, 0, 0,
     0, 0, 0, 0, 0, 0, 0, 0, 0, 0, 0, 0, 0, 0, 0, 0]"

definition turkish_extend_to_latin1 :: "u8 list" where
  "turkish_extend_to_latin1 =
    [0, 0, 0, 0, 0, 0, 0, 0, 0, 0, 12, 0, 0, 0, 0, 0,
     0, 0, 0, 0, 94, 0, 0, 0, 0, 0, 0, 0, 0, 0, 0, 0,
     0, 0, 0, 0, 0, 0, 0, 0, 123, 125, 0, 0, 0, 0, 0, 92,
     0, 0, 0, 0, 0, 0, 0, 0, 0, 0, 0, 0, 91, 126, 93, 0,
     124, 0, 0, 199, 0, 0, 0, 208, 0, 221, 0, 0, 0, 0, 0, 0,
     0, 0, 0, 222, 0, 0, 0, 0, 0, 0, 0, 0, 0, 0, 0, 0,
     0, 0, 0, 231, 0, 0, 0, 240, 0, 253, 0, 0, 0, 0, 0, 0,
     0, 0, 0, 254, 0, 0, 0, 0, 0, 0, 0, 0, 0, 0, 0, 0]"

definition latin1_to_gsm7bits :: "int list" where
  "latin1_to_gsm7bits =
    [63, 63, 63, 63, 63, 63, 63, 63, 63, 63, 10, 63, -10, 13, 63, 63,
     63, 63, 63, 63, 63, 63, 63, 63, 63, 63, 63, 63, 63, 63, 63, 63,
     32, 33, 34, 35, 2, 37, 38, 39, 40, 41, 42, 43, 44, 45, 46, 47,
     48, 49, 50, 51, 52, 53, 54, 55, 56, 57, 58, 59, 60, 61, 62, 63,
     0, 65, 66, 67, 68, 69, 70, 71, 72, 73, 74, 75, 76, 77, 78, 79,
     80, 81, 82, 83, 84, 85, 86, 87, 88, 89, 90, -60, -47, -62, -20, 17,
     63, 97, 98, 99, 100, 101, 102, 103, 104, 105, 106, 107, 108, 109, 110, 111,
     112, 113, 114, 115, 116, 117, 118, 119, 120, 121, 122, -40, -64, -41, -61, 63,
     63, 63, 63, 63, 63, 63, 63, 63, 63, 63, 63, 63, 63, 63, 63, 63,
     63, 63, 63, 63, 63, 63, 63, 63, 63, 63, 63, 63, 63, 63, 63, 63,
     63, 64, 63, 1, 36, 3, 63, 95, 63, 63, 63, 63, 63, 63, 63, 63,
     63, 63, 63, 63, 63, 63, 63, 63, 63, 63, 63, 63, 63, 63, 63, 96,
     63, 63, 63, 63, 91, 14, 28, 9, 63, 31, 63, 63, 63, 63, 63, 63,
     63, 93, 63, 63, 63, 63, 92, 63, 11, 63, 63, 63, 94, 63, 63, 30,
     127, 63, 63, 63, 123, 15, 29, 63, 4, 5, 63, 63, 7, 63, 63, 63,
     63, 125, 8, 63, 63, 63, 124, 63, 12, 6, 63, 63, 126, 63, 63, 63]"

definition gsm7_locking_to_latin1 :: "u8 \<Rightarrow> u8" where
  "gsm7_locking_to_latin1 v =
     (case map_of [(0x07, 0xFD), (0x0B, 0xD0), (0x0C, 0xF0), (0x1C, 0xDE), (0x1D, 0xFE), (0x40, 0xDD), (0x5B, 0xC4),
        (0x5C, 0xD6), (0x5D, 0xD1), (0x5E, 0xDC), (0x60, 0xE7), (0x7B, 0xE4), (0x7C, 0xF6), (0x7D, 0xF1),
        (0x7E, 0xFC), (0x7F, 0xE0)] v of
        Some w \<Rightarrow> w | None \<Rightarrow> gsm7bits_to_latin1 ! unat v)"

text \<open>An escape takes the next character from the extension table; one at the end is dropped. The
  characters are septets, so the tables are large enough.\<close>

fun G7bitToAscii :: "u8 list \<Rightarrow> bool \<Rightarrow> bool \<Rightarrow> u8 list" where
  "G7bitToAscii [] locking single = []"
| "G7bitToAscii (c # cs) locking single =
     (if unat c < 128 then
        (if c = 0x1B then
           (case cs of
              [] \<Rightarrow> []
            | d # ds \<Rightarrow> ((if single then turkish_extend_to_latin1 else gsm7bits_extend_to_latin1) ! unat d) #
                        G7bitToAscii ds locking single)
         else (if locking then gsm7_locking_to_latin1 c else gsm7bits_to_latin1 ! unat c) # G7bitToAscii cs locking single)
      else c # G7bitToAscii cs locking single)"

text \<open>A byte that starts a UTF-8 sequence of two or three bytes becomes a question mark and the rest
  of the sequence is skipped.\<close>

fun AsciiToG7bit :: "u8 list \<Rightarrow> u8 list" where
  "AsciiToG7bit [] = []"
| "AsciiToG7bit (c # cs) =
     (let v = latin1_to_gsm7bits ! unat c in
      if v < 0 then 0x1B # word_of_int (- v) # AsciiToG7bit cs
      else if c AND 0xE0 = 0xC0 then 63 # AsciiToG7bit (drop 1 cs)
      else if c AND 0xF0 = 0xE0 then 63 # AsciiToG7bit (drop 2 cs)
      else word_of_int v # AsciiToG7bit cs)"

section \<open>Unicode\<close>

text \<open>One character of a UTF-8 text: its code point and length; \<open>None\<close> when it is ill-formed. The
  bytes are read as numbers; a missing byte reads as the terminating zero.\<close>

definition utf8_char :: "u8 list \<Rightarrow> (nat \<times> nat) option" where
  "utf8_char p =
     (let byte = (\<lambda>i. if i < length p then unat (p ! i) else 0);
          cont = (\<lambda>i. byte i \<noteq> 0 \<and> byte i div 64 = 2);
          p0 = byte 0; p1 = byte 1; p2 = byte 2; p3 = byte 3 in
      if p0 < 128 then Some (p0, 1)
      else if p0 div 32 = 6 \<and> cont 1 then
        (let cp = p0 mod 32 * 64 + p1 mod 64 in if cp < 128 then None else Some (cp, 2))
      else if p0 div 16 = 14 \<and> p1 \<noteq> 0 \<and> p2 \<noteq> 0 \<and> cont 1 \<and> cont 2 then
        (let cp = p0 mod 16 * 4096 + p1 mod 64 * 64 + p2 mod 64
         in if cp < 0x800 \<or> (0xD800 \<le> cp \<and> cp \<le> 0xDFFF) then None else Some (cp, 3))
      else if p0 div 8 = 30 \<and> p1 \<noteq> 0 \<and> p2 \<noteq> 0 \<and> p3 \<noteq> 0 \<and> cont 1 \<and> cont 2 \<and> cont 3 then
        (let cp = p0 mod 8 * 262144 + p1 mod 64 * 4096 + p2 mod 64 * 64 + p3 mod 64
         in if cp < 0x10000 \<or> cp > 0x10FFFF then None else Some (cp, 4))
      else None)"

definition utf16_units :: "nat \<Rightarrow> u16 list" where
  "utf16_units cp =
     (if cp \<le> 0xFFFF then [of_nat cp]
      else [0xD800 OR of_nat ((cp - 0x10000) div 1024), 0xDC00 OR of_nat ((cp - 0x10000) mod 1024)])"

lemma utf8_char_length: "utf8_char p = Some (cp, n) \<Longrightarrow> 0 < n"
  by (auto simp: utf8_char_def Let_def split: if_splits)

function utf8_loop :: "nat \<Rightarrow> u16 list \<Rightarrow> u8 list \<Rightarrow> u16 list option" where
  "utf8_loop capacity units p =
     (if p = [] \<or> hd p = 0 then Some units
      else case utf8_char p of
        None \<Rightarrow> None
      | Some (cp, n) \<Rightarrow>
          if length units + length (utf16_units cp) > capacity then None
          else utf8_loop capacity (units @ utf16_units cp) (drop n p))"
  by pat_completeness auto
termination
  by (relation "measure (\<lambda>(c, u, p). length p)") (auto dest: utf8_char_length)

declare utf8_loop.simps [simp del]

definition utf8_to_utf16 :: "u8 list \<Rightarrow> nat \<Rightarrow> u16 list option" where
  "utf8_to_utf16 text_bytes capacity = utf8_loop capacity [] text_bytes"

text \<open>\<open>ucs2_to_utf8\<close>: the bytes written before the zero, or the error code.\<close>

definition ucs2_to_utf8 :: "int \<Rightarrow> int + u8 list" where
  "ucs2_to_utf8 ucs2 =
     (if ucs2 < 0x80 then Inr [word_of_int ucs2]
      else if ucs2 < 0x800 then Inr [word_of_int (ucs2 div 64) OR 0xC0, word_of_int (ucs2 mod 64) OR 0x80]
      else if ucs2 < 0xFFFF then
        (if 0xD800 \<le> ucs2 \<and> ucs2 \<le> 0xDFFF then Inl (-2)
         else Inr [word_of_int (ucs2 div 4096) OR 0xE0, word_of_int (ucs2 div 64 mod 64) OR 0x80,
                   word_of_int (ucs2 mod 64) OR 0x80])
      else if 0x10000 \<le> ucs2 \<and> ucs2 < 0x10FFFF then
        Inr [0xF0 OR word_of_int (ucs2 div 262144), 0x80 OR word_of_int (ucs2 div 4096 mod 64),
             0x80 OR word_of_int (ucs2 div 64 mod 64), 0x80 OR word_of_int (ucs2 mod 64)]
      else Inl (-1))"

section \<open>Septets\<close>

definition septet :: "u8 \<Rightarrow> bool" where
  "septet a \<longleftrightarrow> unat a < 128"

lemma mask7 [simp]: "a AND (0x7F :: u8) = take_bit 7 a"
proof -
  have "(0x7F :: u8) = mask 7" by (simp add: mask_eq_exp_minus_1)
  then show ?thesis by (simp only: take_bit_eq_mask)
qed

lemma mask7_left [simp]: "(0x7F :: u8) AND a = take_bit 7 a"
  by (metis and.commute mask7)

lemma septet_take_bit: "septet a \<longleftrightarrow> take_bit 7 a = a"
proof -
  have "take_bit 7 a = a \<longleftrightarrow> unat a mod 128 = unat a"
    by (simp add: word_unat_eq_iff take_bit_eq_mod unat_mod)
  then show ?thesis by (auto simp: septet_def)
qed

lemma septet_bit7: "take_bit 7 (a :: u8) = a \<Longrightarrow> 7 \<le> n \<Longrightarrow> \<not> bit a n"
  by (metis bit_take_bit_iff not_le)

lemma unpack_char:
  assumes c: "c \<le> 7" and a: "take_bit 7 a = a" and prev: "drop_bit (8 - c) prev = take_bit c (a :: u8)"
  shows "take_bit 7 (push_bit c (drop_bit c a OR push_bit (7 - c) b) OR drop_bit (8 - c) prev) = a"
  using c septet_bit7 [OF a] unfolding prev
  by (intro bit_word_eqI) (auto simp: bit_simps)

lemma pack_top:
  assumes "c \<le> 6" "take_bit 7 (a :: u8) = a"
  shows "drop_bit (7 - c) (drop_bit c a OR push_bit (7 - c) b) = take_bit (Suc c) (b :: u8)"
  using assms(1) septet_bit7 [OF assms(2)]
  by (intro bit_word_eqI) (auto simp: bit_simps)


lemma pack_first:
  assumes "take_bit 7 (a :: u8) = a"
  shows "take_bit 7 (a OR push_bit 7 b) = a" "drop_bit 7 (a OR push_bit 7 b) = take_bit (Suc 0) b"
  using pack_top [of 0 a b] septet_bit7 [OF assms] assms
  by (auto intro!: bit_word_eqI simp: bit_simps)

lemma length_pack_from:
  "1 \<le> c \<Longrightarrow> c \<le> 7 \<Longrightarrow> xs \<noteq> [] \<or> c = 1 \<Longrightarrow> length (pack_from c xs beyond) = (7 * length xs + 1 - c) div 8 + 1"
proof (induction c xs beyond rule: pack_from.induct)
  case (3 c a b rest beyond)
  then show ?case by (cases "c = 7") auto
qed auto

text \<open>Unpacking follows packing: with \<open>c\<close> bits of the next septet in the previous octet, the
  rest of the septets comes out.\<close>

lemma unpack_pack:
  "(\<forall>a rest c prev. xs = a # rest \<longrightarrow> list_all septet xs \<longrightarrow> c \<le> 6 \<longrightarrow> 1 \<le> c \<longrightarrow>
      drop_bit (8 - c) prev = take_bit c a \<longrightarrow>
      unpack_from c prev (pack_from (Suc c) xs beyond) (length xs) = xs) \<and>
   (\<forall>b prev. list_all septet xs \<longrightarrow> septet b \<longrightarrow> drop_bit 1 prev = b \<longrightarrow>
      unpack_from 7 prev (pack_from 1 xs beyond) (Suc (length xs)) = b # xs)"
proof (induction xs rule: length_induct)
  case (1 xs)
  have first: "unpack_from c prev (pack_from (Suc c) xs beyond) (length xs) = xs"
    if xs: "xs = a # rest" "list_all septet xs" and c: "c \<le> 6" "1 \<le> c"
      and prev: "drop_bit (8 - c) prev = take_bit c a" for a rest c prev
  proof (cases rest)
    case Nil
    with xs c prev show ?thesis
      using unpack_char [of c a prev 0] by (simp add: septet_take_bit)
  next
    case (Cons b r)
    define o1 where "o1 = drop_bit c a OR push_bit (7 - c) b"
    have sept: "take_bit 7 a = a" "take_bit 7 b = b" "list_all septet (b # r)" "septet b" "list_all septet r"
      using xs Cons by (auto simp: septet_take_bit)
    have top: "drop_bit (7 - c) o1 = take_bit (Suc c) b"
      using pack_top [of c a b] c sept unfolding o1_def by simp
    have out: "take_bit 7 (push_bit c o1 OR drop_bit (8 - c) prev) = a"
      using unpack_char [of c a prev b] c sept prev unfolding o1_def by simp
    show ?thesis
    proof (cases "c = 6")
      case True
      have "unpack_from 7 o1 (pack_from 1 r beyond) (Suc (length r)) = b # r"
        using 1 [rule_format, of r] xs Cons sept top True by simp
      then show ?thesis using out True xs Cons sept unfolding o1_def by simp
    next
      case False
      have "unpack_from (Suc c) o1 (pack_from (Suc (Suc c)) (b # r) beyond) (length (b # r)) = b # r"
        using 1 [rule_format, of "b # r"] xs Cons sept top False c by simp
      then show ?thesis using out False xs Cons sept c unfolding o1_def by simp
    qed
  qed
  have second: "unpack_from 7 prev (pack_from 1 xs beyond) (Suc (length xs)) = b # xs"
    if xs: "list_all septet xs" and b: "septet b" "drop_bit 1 prev = b" for b prev
  proof -
    have out: "take_bit 7 (push_bit 7 o1 OR drop_bit 1 prev) = b" for o1
      using b septet_bit7 [of b] by (intro bit_word_eqI) (auto simp: bit_simps septet_take_bit)
    consider "xs = []" | a where "xs = [a]" | a a' r where "xs = a # a' # r" by (metis list.exhaust)
    then show ?thesis
    proof cases
      case 3
      have sept: "take_bit 7 a = a" "take_bit 7 a' = a'" "list_all septet (a' # r)"
        using xs 3 by (auto simp: septet_take_bit)
      have "unpack_from 1 (a OR push_bit 7 a') (pack_from 2 (a' # r) beyond) (length (a' # r)) = a' # r"
        using 1 [rule_format, of "a' # r"] 3 sept pack_first [of a a'] by (simp add: numeral_2_eq_2)
      then show ?thesis using 3 out sept pack_first [of a a'] by (simp add: numeral_2_eq_2)
    qed (use out xs in \<open>auto simp: septet_take_bit\<close>)
  qed
  show ?case using first second by blast
qed

lemma septet_round_trip:
  assumes "list_all septet xs" "xs \<noteq> []"
  shows "DecodePDUMessage_GSM_7bit (pack_from 1 xs beyond) (length xs) = Some xs"
proof (cases xs rule: remdups_adj.cases)
  case (3 a a' r)
  have sept: "take_bit 7 a = a" "take_bit 7 a' = a'" "list_all septet (a' # r)"
    using assms 3 by (auto simp: septet_take_bit)
  then have "unpack_from 1 (a OR push_bit 7 a') (pack_from 2 (a' # r) beyond) (length (a' # r)) = a' # r"
    using conjunct1 [OF unpack_pack, of "a' # r"] pack_first [of a a'] by (simp add: numeral_2_eq_2)
  then show ?thesis using 3 sept pack_first [of a a']
    by (simp add: DecodePDUMessage_GSM_7bit_def numeral_2_eq_2)
qed (use assms in \<open>auto simp: DecodePDUMessage_GSM_7bit_def septet_take_bit\<close>)

section \<open>The text of a message\<close>

definition gsm_ascii :: "u8 \<Rightarrow> bool" where
  "gsm_ascii c \<longleftrightarrow> c \<in> {10, 12, 13} \<or> (32 \<le> c \<and> c < 127 \<and> c \<noteq> 96)"

definition gsm_code :: "u8 \<Rightarrow> u8 list" where
  "gsm_code c = (let v = latin1_to_gsm7bits ! unat c in if v < 0 then [0x1B, word_of_int (- v)] else [word_of_int v])"

definition gsm_code_ok :: "u8 \<Rightarrow> bool" where
  "gsm_code_ok c \<longleftrightarrow> c AND 0xE0 \<noteq> 0xC0 \<and> c AND 0xF0 \<noteq> 0xE0 \<and> list_all (\<lambda>d. unat d < 128) (gsm_code c) \<and>
     (case gsm_code c of
        [d] \<Rightarrow> d \<noteq> 0x1B \<and> gsm7bits_to_latin1 ! unat d = c
      | [e, d] \<Rightarrow> e = 0x1B \<and> gsm7bits_extend_to_latin1 ! unat d = c
      | _ \<Rightarrow> False)"

lemma gsm_code_table:
  "list_all (\<lambda>n. gsm_code_ok (of_nat n)) ([10, 12, 13] @ [32..<96] @ [97..<127])"
  by code_simp

lemma gsm_ascii_code:
  assumes "gsm_ascii c"
  shows "gsm_code_ok c"
proof -
  have "unat c \<in> {10, 12, 13} \<union> {32..<96} \<union> {97..<127}"
    using assms by (auto simp: gsm_ascii_def word_le_nat_alt word_less_nat_alt word_unat_eq_iff)
  then have "unat c \<in> set ([10, 12, 13] @ [32..<96] @ [97..<127])"
    unfolding set_append set_upt by simp
  then have "gsm_code_ok (of_nat (unat c))" using gsm_code_table unfolding list_all_iff by blast
  then show ?thesis by simp
qed

lemma gsm_code_cases:
  assumes "gsm_code_ok c"
  obtains (plain) d where "gsm_code c = [d]" "unat d < 128" "d \<noteq> 0x1B" "gsm7bits_to_latin1 ! unat d = c"
  | (escaped) d where "gsm_code c = [0x1B, d]" "unat d < 128" "gsm7bits_extend_to_latin1 ! unat d = c"
  using assms unfolding gsm_code_ok_def by (auto split: list.splits)

lemma AsciiToG7bit_code:
  assumes "gsm_code_ok c"
  shows "AsciiToG7bit (c # cs) = gsm_code c @ AsciiToG7bit cs"
  using assms by (simp add: gsm_code_ok_def gsm_code_def Let_def)

lemma G7bitToAscii_code:
  assumes "gsm_code_ok c"
  shows "G7bitToAscii (gsm_code c @ ds) False False = c # G7bitToAscii ds False False"
  using assms by (cases rule: gsm_code_cases) simp_all

lemma gsm_text_round_trip: "list_all gsm_ascii s \<Longrightarrow> G7bitToAscii (AsciiToG7bit s) False False = s"
  by (induction s) (simp_all add: AsciiToG7bit_code G7bitToAscii_code gsm_ascii_code del: AsciiToG7bit.simps(2))

lemma gsm_text_septets: "list_all gsm_ascii s \<Longrightarrow> list_all septet (AsciiToG7bit s)"
proof (induction s)
  case (Cons c s)
  then have "gsm_code_ok c" by (simp add: gsm_ascii_code)
  then have "list_all septet (gsm_code c)" by (simp add: gsm_code_ok_def septet_def [abs_def])
  with Cons show ?case by (simp add: AsciiToG7bit_code gsm_ascii_code del: AsciiToG7bit.simps(2))
qed simp

lemma gsm_text_nonempty: "AsciiToG7bit s = [] \<longleftrightarrow> s = []"
  by (cases s) (simp_all add: Let_def)

section \<open>Numbers in a message\<close>

lemma nibble_table:
  "list_all (\<lambda>a. unat ((0xF0 OR of_nat a :: u8) AND 0x0F) = a \<and>
     list_all (\<lambda>b. unat ((((0xF0 OR of_nat a :: u8) AND 0x0F) OR push_bit 4 (of_nat b)) AND 0x0F) = a \<and>
       unat (drop_bit 4 ((((0xF0 OR of_nat a :: u8) AND 0x0F) OR push_bit 4 (of_nat b)) AND 0xF0)) = b) [0..<10]) [0..<10]"
  by code_simp

lemma nibbles:
  assumes "is_digit a"
  shows "unat ((0xF0 OR digit_value a) AND 0x0F) + 48 = of_char a"
    and "is_digit b \<Longrightarrow> unat ((((0xF0 OR digit_value a) AND 0x0F) OR push_bit 4 (digit_value b)) AND 0x0F) + 48 = of_char a"
    and "is_digit b \<Longrightarrow>
      unat (drop_bit 4 ((((0xF0 OR digit_value a) AND 0x0F) OR push_bit 4 (digit_value b)) AND 0xF0)) + 48 = of_char b"
proof -
  have nat: "of_char c - 48 \<in> {0..<10::nat}" "(of_char c :: nat) - 48 + 48 = of_char c" if "is_digit c" for c
    using that by (auto simp: is_digit_def)
  note table = nibble_table [unfolded list_all_iff set_upt]
  show "unat ((0xF0 OR digit_value a) AND 0x0F) + 48 = of_char a"
    using bspec [OF table nat(1) [OF assms]] nat(2) [OF assms] unfolding digit_value_def by metis
  assume b: "is_digit b"
  have "unat ((((0xF0 OR digit_value a) AND 0x0F) OR push_bit 4 (digit_value b)) AND 0x0F) = of_char a - 48 \<and>
    unat (drop_bit 4 ((((0xF0 OR digit_value a) AND 0x0F) OR push_bit 4 (digit_value b)) AND 0xF0)) = of_char b - 48"
    using bspec [OF conjunct2 [OF bspec [OF table nat(1) [OF assms]]] nat(1) [OF b]] unfolding digit_value_def .
  then show "unat ((((0xF0 OR digit_value a) AND 0x0F) OR push_bit 4 (digit_value b)) AND 0x0F) + 48 = of_char a"
    "unat (drop_bit 4 ((((0xF0 OR digit_value a) AND 0x0F) OR push_bit 4 (digit_value b)) AND 0xF0)) + 48 = of_char b"
    using nat(2) [OF assms] nat(2) [OF b] by metis+
qed

lemma length_phone_octets [simp]: "length (phone_octets ds) = (length ds + 1) div 2"
  by (induction ds rule: phone_octets.induct) auto

lemma phone_octets_nth:
  "list_all is_digit ds \<Longrightarrow> i < length ds \<Longrightarrow>
   unat (if i mod 2 = 0 then phone_octets ds ! (i div 2) AND 0x0F else drop_bit 4 (phone_octets ds ! (i div 2) AND 0xF0)) + 48
     = (of_char (ds ! i) :: nat)"
proof (induction ds arbitrary: i rule: phone_octets.induct)
  case (2 a)
  then show ?case using nibbles(1) [of a] by simp
next
  case (3 a b ds)
  consider "i = 0" | "i = 1" | j where "i = Suc (Suc j)" by (metis One_nat_def not0_implies_Suc)
  then show ?case
  proof cases
    case 3
    with "3.prems" "3.IH" [of j] show ?thesis by (cases "j mod 2 = 0") simp_all
  qed (use "3.prems" nibbles(2,3) [of a b] in simp_all)
qed simp

lemma phone_round_trip:
  assumes "list_all is_digit ds"
  shows "DecodePhoneNumber (phone_octets ds @ more) (length ds) = ds"
proof (rule nth_equalityI)
  fix i assume i: "i < length (DecodePhoneNumber (phone_octets ds @ more) (length ds))"
  then have "i < length ds" by (simp add: DecodePhoneNumber_def)
  then have "i div 2 < length (phone_octets ds)" by simp
  then show "DecodePhoneNumber (phone_octets ds @ more) (length ds) ! i = ds ! i"
    using phone_octets_nth [OF assms \<open>i < length ds\<close>] \<open>i < length ds\<close>
    by (cases "i mod 2 = 0") (simp_all add: DecodePhoneNumber_def nth_append del: length_phone_octets)
qed (simp add: DecodePhoneNumber_def)

section \<open>Unicode\<close>

lemma tag_table:
  "list_all (\<lambda>n. unat (of_nat n OR 0x80 :: u8) = 128 + n) [0..<64]"
  "list_all (\<lambda>n. unat (of_nat n OR 0xC0 :: u8) = 192 + n) [0..<32]"
  "list_all (\<lambda>n. unat (of_nat n OR 0xE0 :: u8) = 224 + n) [0..<16]"
  "list_all (\<lambda>n. unat (of_nat n OR 0xF0 :: u8) = 240 + n) [0..<8]"
  by code_simp+

lemma tags:
  "n < 64 \<Longrightarrow> unat (of_nat n OR 0x80 :: u8) = 128 + n"
  "n < 32 \<Longrightarrow> unat (of_nat n OR 0xC0 :: u8) = 192 + n"
  "n < 16 \<Longrightarrow> unat (of_nat n OR 0xE0 :: u8) = 224 + n"
  "n < 8 \<Longrightarrow> unat (of_nat n OR 0xF0 :: u8) = 240 + n"
  using tag_table unfolding list_all_iff set_upt by (meson atLeastLessThan_iff le0)+

text \<open>The encoder on natural code points, with its bytes as numbers.\<close>

fun utf8_bytes :: "nat \<Rightarrow> nat list" where
  "utf8_bytes cp =
     (if cp < 0x80 then [cp]
      else if cp < 0x800 then [192 + cp div 64, 128 + cp mod 64]
      else if cp < 0x10000 then [224 + cp div 4096, 128 + cp div 64 mod 64, 128 + cp mod 64]
      else [240 + cp div 262144, 128 + cp div 4096 mod 64, 128 + cp div 64 mod 64, 128 + cp mod 64])"

lemma ucs2_to_utf8_bytes:
  assumes "ucs2_to_utf8 (int cp) = Inr bs"
  shows "map unat bs = utf8_bytes cp" "cp < 0x10FFFF" "cp \<noteq> 0xFFFF" "\<not> (0xD800 \<le> cp \<and> cp \<le> 0xDFFF)"
proof -
  have ints: "int cp div 64 = int (cp div 64)" "int cp mod 64 = int (cp mod 64)" "int cp div 4096 = int (cp div 4096)"
    "int cp div 262144 = int (cp div 262144)" "int (cp div 64) mod 64 = int (cp div 64 mod 64)"
    "int (cp div 4096) mod 64 = int (cp div 4096 mod 64)" by (simp_all add: zdiv_int zmod_int)
  show "map unat bs = utf8_bytes cp"
    using assms unfolding ucs2_to_utf8_def ints
    by (auto simp: tags or.commute [of 240] or.commute [of 128] unat_of_nat simp del: of_nat_div of_nat_mod split: if_splits)
  show "cp < 0x10FFFF" "cp \<noteq> 0xFFFF" "\<not> (0xD800 \<le> cp \<and> cp \<le> 0xDFFF)"
    using assms by (auto simp: ucs2_to_utf8_def split: if_splits)
qed


lemma div_rem: "(r :: nat) < n \<Longrightarrow> (q * n + r) div n = q \<and> (q * n + r) mod n = r"
  by simp

lemma utf8_tags:
  "(128 + x mod 64) div 64 = (2 :: nat)" "(128 + x mod 64) mod 64 = (x mod 64 :: nat)"
  "x < 32 \<Longrightarrow> (192 + x) div 32 = (6 :: nat)" "x < 32 \<Longrightarrow> (192 + x) mod 32 = x"
  "x < 16 \<Longrightarrow> (224 + x) div 32 = (7 :: nat)" "x < 16 \<Longrightarrow> (224 + x) div 16 = (14 :: nat)" "x < 16 \<Longrightarrow> (224 + x) mod 16 = x"
  "x < 8 \<Longrightarrow> (240 + x) div 32 = (7 :: nat)" "x < 8 \<Longrightarrow> (240 + x) div 16 = (15 :: nat)"
  "x < 8 \<Longrightarrow> (240 + x) div 8 = (30 :: nat)" "x < 8 \<Longrightarrow> (240 + x) mod 8 = x"
  using div_rem [of "x mod 64" 64 2] div_rem [of x 32 6] div_rem [of x 32 7] div_rem [of x 16 14] div_rem [of x 16 15]
    div_rem [of x 8 30] div_rem [of "x + 16" 32 7] by (simp_all add: ac_simps)

lemma sextets:
  fixes cp :: nat
  shows "cp div 4096 * 4096 + cp div 64 mod 64 * 64 + cp mod 64 = cp"
    "cp div 262144 * 262144 + cp div 4096 mod 64 * 4096 + cp div 64 mod 64 * 64 + cp mod 64 = cp"
proof -
  have "cp div 4096 * 64 + cp div 64 mod 64 = cp div 64" "cp div 262144 * 64 + cp div 4096 mod 64 = cp div 4096"
    "cp div 64 * 64 + cp mod 64 = cp"
    using div_mult_mod_eq [of "cp div 64" 64] div_mult_mod_eq [of "cp div 4096" 64]
    by (simp_all add: div_mult2_eq [symmetric])
  then show "cp div 4096 * 4096 + cp div 64 mod 64 * 64 + cp mod 64 = cp"
    and "cp div 262144 * 262144 + cp div 4096 mod 64 * 4096 + cp div 64 mod 64 * 64 + cp mod 64 = cp"
    by linarith+
qed

lemma utf8_char_bytes:
  assumes "map unat bs = utf8_bytes cp" "cp < 0x110000" "\<not> (0xD800 \<le> cp \<and> cp \<le> 0xDFFF)"
  shows "utf8_char (bs @ rest) = Some (cp, length bs)"
proof -
  have len: "length bs = length (utf8_bytes cp)" using assms(1) length_map by metis
  have nth: "unat ((bs @ rest) ! i) = utf8_bytes cp ! i" if "i < length bs" for i
    using that assms(1) by (metis nth_append nth_map)
  consider "cp < 0x80" | "0x80 \<le> cp" "cp < 0x800" | "0x800 \<le> cp" "cp < 0x10000" | "0x10000 \<le> cp"
    by linarith
  then show ?thesis
  proof cases
    case 1
    with len nth [of 0] show ?thesis by (simp add: utf8_char_def)
  next
    case 2
    with len nth [of 0] nth [of 1] show ?thesis by (simp add: utf8_char_def Let_def utf8_tags)
  next
    case 3
    with assms(3) len nth [of 0] nth [of 1] nth [of 2] show ?thesis
      by (simp add: utf8_char_def Let_def utf8_tags sextets)
  next
    case 4
    with assms(2) len nth [of 0] nth [of 1] nth [of 2] nth [of 3] show ?thesis
      by (simp add: utf8_char_def Let_def utf8_tags sextets)
  qed
qed

text \<open>A text of code points the encoder accepts is converted to the units of its code points.\<close>

lemma utf8_loop_step:
  assumes "ucs2_to_utf8 (int cp) = Inr bs" "0 < cp" "length units + length (utf16_units cp) \<le> capacity"
  shows "utf8_loop capacity units (bs @ rest) = utf8_loop capacity (units @ utf16_units cp) rest"
proof -
  note b = ucs2_to_utf8_bytes [OF assms(1)]
  have "utf8_char (bs @ rest) = Some (cp, length bs)" using utf8_char_bytes [of bs cp] b by simp
  moreover obtain x xs where "bs = x # xs" using b(1) by (cases bs) (auto split: if_splits)
  moreover have "x \<noteq> 0" using b(1) \<open>bs = x # xs\<close> assms(2) by (auto split: if_splits)
  ultimately show ?thesis using assms(3) by (subst utf8_loop.simps) simp
qed

lemma utf8_loop_text:
  assumes "list_all2 (\<lambda>cp bs. 0 < cp \<and> ucs2_to_utf8 (int cp) = Inr bs) cps bss"
    and "length units + length (concat (map utf16_units cps)) \<le> capacity"
  shows "utf8_loop capacity units (concat bss) = Some (units @ concat (map utf16_units cps))"
  using assms
proof (induction cps bss arbitrary: units rule: list_all2_induct)
  case Nil
  then show ?case by (simp add: utf8_loop.simps)
next
  case (Cons cp cps bs bss)
  then show ?case using utf8_loop_step [of cp bs units capacity] by simp
qed

end
