(* ===== verification/Sms_Pdu.thy ===== *)
theory Sms_Pdu
  imports Sms_Text
begin

text \<open>
  The messages of the SMS library, \<open>application/libqmodem-sms/src/pdu.c\<close>: encoding a message of
  the GSM alphabet, splitting a Unicode message into parts, and decoding a received message with
  its user data header.

  Buffers are lists of octets and every read is checked, so a read outside the buffer gives
  \<open>Undefined\<close>. Outputs are only given for a successful call. \<open>timegm\<close> is a parameter.
\<close>

unbundle bit_operations_syntax

abbreviation SMS_MAX_PDU_LENGTH :: nat where "SMS_MAX_PDU_LENGTH \<equiv> 256"
abbreviation SMS_MAX_PARTS :: nat where "SMS_MAX_PARTS \<equiv> 16"
abbreviation SMS_MAX_7BIT_TEXT_LENGTH :: nat where "SMS_MAX_7BIT_TEXT_LENGTH \<equiv> 160"
abbreviation SMS_SUBMIT :: u8 where "SMS_SUBMIT \<equiv> 0x11"
abbreviation TYPE_OF_ADDRESS_UNKNOWN :: u8 where "TYPE_OF_ADDRESS_UNKNOWN \<equiv> 0x81"
abbreviation TYPE_OF_ADDRESS_INTERNATIONAL_PHONE :: u8 where "TYPE_OF_ADDRESS_INTERNATIONAL_PHONE \<equiv> 0x91"
abbreviation TYPE_OF_ADDRESS_ALPHANUMERIC :: u8 where "TYPE_OF_ADDRESS_ALPHANUMERIC \<equiv> 0xD0"

section \<open>Encoding a message of the GSM alphabet\<close>

text \<open>The service centre. A number that cannot be encoded gives the length 0, as no number does.\<close>

definition smsc_octets :: "string option \<Rightarrow> nat \<Rightarrow> u8 list" where
  "smsc_octets service_center_number buffer_size =
     (case service_center_number of
        None \<Rightarrow> [0]
      | Some n \<Rightarrow>
          if n = [] then [0]
          else case EncodePhoneNumber n (buffer_size - 2) of
                 None \<Rightarrow> [0]
               | Some os \<Rightarrow> of_nat (length os + 1) # TYPE_OF_ADDRESS_INTERNATIONAL_PHONE # os)"

text \<open>The destination without its plus sign, and whether it had one.\<close>

definition address_digits :: "string \<Rightarrow> bool \<times> string" where
  "address_digits normalized =
     (let international = (hd normalized = CHR ''+'')
      in (international, if international then tl normalized else normalized))"

definition type_of_address :: "bool \<Rightarrow> u8" where
  "type_of_address international =
     (if international then TYPE_OF_ADDRESS_INTERNATIONAL_PHONE else TYPE_OF_ADDRESS_UNKNOWN)"

text \<open>Message type, reference and destination, after \<open>used\<close> octets. When the number does not fit,
  the length \<open>-1\<close> is added to the octets written and only the digit count is kept.\<close>

definition submit_address :: "bool \<Rightarrow> string \<Rightarrow> nat \<Rightarrow> nat \<Rightarrow> u8 list" where
  "submit_address international number used buffer_size =
     [SMS_SUBMIT, 0, of_nat (length number)] @
     (case EncodePhoneNumber number (buffer_size - (used + 2) - 2) of
        None \<Rightarrow> []
      | Some os \<Rightarrow> type_of_address international # os)"

text \<open>\<open>beyond\<close> is what the text buffer holds after the converted text. Converting a long text writes
  past the end of that buffer before its length is looked at.\<close>

definition pdu_encode :: "string option \<Rightarrow> string \<Rightarrow> u8 list \<Rightarrow> u8 \<Rightarrow> nat \<Rightarrow> u8 list c_result" where
  "pdu_encode service_center_number phone_number sms_text beyond buffer_size =
     (case sms_normalize_number phone_number 22 of
        None \<Rightarrow> Failed (-1)
      | Some normalized \<Rightarrow>
          let (international, number) = address_digits normalized in
          if buffer_size < 2 then Failed (-1)
          else let out1 = smsc_octets service_center_number buffer_size in
          if length out1 + 4 > buffer_size then Failed (-1)
          else let out2 = out1 @ submit_address international number (length out1) buffer_size in
          if length out2 + 4 > buffer_size then Failed (-1)
          else let sms_text_7bit = AsciiToG7bit sms_text in
          if length sms_text_7bit > 2 * SMS_MAX_7BIT_TEXT_LENGTH then Undefined
          else if length sms_text_7bit > SMS_MAX_7BIT_TEXT_LENGTH then Failed (-1)
          else let out3 = out2 @ [0, 0, 0xB0, of_nat (length sms_text_7bit)] in
          case EncodePDUMessage sms_text_7bit beyond (buffer_size - length out3) of
            Done octets \<Rightarrow> Done (out3 @ octets)
          | Failed e \<Rightarrow> Failed (-1)
          | Undefined \<Rightarrow> Undefined)"

section \<open>Encoding a Unicode message in parts\<close>

definition high_surrogate :: "u16 \<Rightarrow> bool" where
  "high_surrogate u \<longleftrightarrow> 0xD800 \<le> u \<and> u \<le> 0xDBFF"

text \<open>How many of the remaining units the next part takes: at most \<open>limit\<close>, and one less when the
  part would end between the two units of a pair.\<close>

definition take_units :: "nat \<Rightarrow> u16 list \<Rightarrow> nat" where
  "take_units limit rest =
     (let t = min (length rest) limit
      in if t < length rest \<and> t > 0 \<and> high_surrogate (rest ! (t - 1)) then t - 1 else t)"

lemma take_units_pos: "rest \<noteq> [] \<Longrightarrow> 0 < take_units 67 rest"
  by (cases rest) (auto simp: take_units_def Let_def)

function count_parts :: "u16 list \<Rightarrow> nat" where
  "count_parts rest = (if rest = [] then 0 else Suc (count_parts (drop (take_units 67 rest) rest)))"
  by pat_completeness auto
termination
  by (relation "measure length") (auto simp: take_units_pos)

declare count_parts.simps [simp del]

definition total_parts :: "u16 list \<Rightarrow> nat" where
  "total_parts units = (if length units \<le> 70 then 1 else count_parts units)"

definition ucs2_octets :: "u16 list \<Rightarrow> u8 list" where
  "ucs2_octets us = concat (map (\<lambda>u. [ucast (drop_bit 8 u), ucast u]) us)"

text \<open>One part: \<open>part\<close> counts from 0. The header of a part of several names the message, the number
  of parts and the part.\<close>

definition part_header :: "nat \<Rightarrow> u32 \<Rightarrow> nat \<Rightarrow> u8 list" where
  "part_header n_parts reference part =
     (if n_parts > 1 then [5, 0, 3, ucast reference, of_nat n_parts, of_nat (part + 1)] else [])"

definition part_pdu :: "bool \<Rightarrow> string \<Rightarrow> nat \<Rightarrow> u32 \<Rightarrow> nat \<Rightarrow> u16 list \<Rightarrow> u8 list option" where
  "part_pdu international number n_parts reference part us =
     (case EncodePhoneNumber number (SMS_MAX_PDU_LENGTH - 5) of
        None \<Rightarrow> None
      | Some os \<Rightarrow>
          Some ([0, SMS_SUBMIT OR (if n_parts > 1 then 0x40 else 0), 0, of_nat (length number),
                 type_of_address international] @ os @
                [0, 0x08, 0xB0, of_nat (length us * 2 + (if n_parts > 1 then 6 else 0))] @
                part_header n_parts reference part @ ucs2_octets us))"

text \<open>The loop over the parts; \<open>n\<close> parts are left.\<close>

fun parts_loop :: "bool \<Rightarrow> string \<Rightarrow> nat \<Rightarrow> u32 \<Rightarrow> nat \<Rightarrow> u16 list \<Rightarrow> u8 list list option" where
  "parts_loop international number n_parts reference 0 rest = Some []"
| "parts_loop international number n_parts reference (Suc n) rest =
     (let t = take_units (if n_parts = 1 then 70 else 67) rest in
      case part_pdu international number n_parts reference (n_parts - Suc n) (take t rest) of
        None \<Rightarrow> None
      | Some pdu \<Rightarrow>
          (case parts_loop international number n_parts reference n (drop t rest) of
             None \<Rightarrow> None
           | Some pdus \<Rightarrow> Some (pdu # pdus)))"

definition pdu_encode_ucs2_parts :: "string \<Rightarrow> u8 list \<Rightarrow> nat \<Rightarrow> u32 \<Rightarrow> u8 list list option" where
  "pdu_encode_ucs2_parts phone_number utf8_text max_parts reference =
     (if phone_number = [] \<or> max_parts < 1 \<or> max_parts > SMS_MAX_PARTS then None
      else case sms_normalize_number phone_number 22 of
        None \<Rightarrow> None
      | Some normalized \<Rightarrow>
          let (international, number) = address_digits normalized in
          case utf8_to_utf16 utf8_text (SMS_MAX_PARTS * 67) of
            None \<Rightarrow> None
          | Some units \<Rightarrow>
              let n_parts = total_parts units in
              if n_parts > max_parts then None
              else parts_loop international number n_parts reference n_parts units)"

section \<open>Decoding\<close>

text \<open>A checked read.\<close>

definition read_at :: "u8 list \<Rightarrow> nat \<Rightarrow> (nat \<Rightarrow> 'a c_result) \<Rightarrow> 'a c_result" where
  "read_at buffer i k = (if i < length buffer then k (unat (buffer ! i)) else Undefined)"

record udh_info =
  ui_present :: bool
  ui_bytes :: nat
  ui_turkish_locking :: bool
  ui_turkish_single :: bool
  ui_concat_ref :: nat
  ui_concat_total :: nat
  ui_concat_part :: nat

definition zero_udh :: udh_info where
  "zero_udh = \<lparr>ui_present = False, ui_bytes = 0, ui_turkish_locking = False, ui_turkish_single = False,
     ui_concat_ref = 0, ui_concat_total = 0, ui_concat_part = 0\<rparr>"

text \<open>The language shift elements.\<close>

definition udh_shift :: "u8 list \<Rightarrow> nat \<Rightarrow> nat \<Rightarrow> nat \<Rightarrow> udh_info \<Rightarrow> udh_info c_result" where
  "udh_shift buffer pos iei iedl info =
     (if iei \<in> {0x24, 0x25} \<and> iedl \<ge> 1
      then read_at buffer (pos + 2) (\<lambda>v.
             Done (if v \<noteq> 1 then info
                   else if iei = 0x24 then info\<lparr>ui_turkish_locking := True\<rparr>
                   else info\<lparr>ui_turkish_single := True\<rparr>))
      else Done info)"

text \<open>The concatenation elements.\<close>

definition udh_concat :: "u8 list \<Rightarrow> nat \<Rightarrow> nat \<Rightarrow> nat \<Rightarrow> udh_info \<Rightarrow> udh_info c_result" where
  "udh_concat buffer pos iei iedl info =
     (if iei = 0 \<and> iedl = 3
      then read_at buffer (pos + 2) (\<lambda>r. read_at buffer (pos + 3) (\<lambda>t. read_at buffer (pos + 4) (\<lambda>p.
             Done (info\<lparr>ui_concat_ref := r, ui_concat_total := t, ui_concat_part := p\<rparr>))))
      else if iei = 0x08 \<and> iedl = 4
      then read_at buffer (pos + 2) (\<lambda>h. read_at buffer (pos + 3) (\<lambda>l. read_at buffer (pos + 4) (\<lambda>t.
             read_at buffer (pos + 5) (\<lambda>p.
               Done (info\<lparr>ui_concat_ref := h * 256 + l, ui_concat_total := t, ui_concat_part := p\<rparr>)))))
      else Done info)"

text \<open>One element: the position after it and what is known.\<close>

definition udh_element :: "u8 list \<Rightarrow> nat \<Rightarrow> nat \<Rightarrow> udh_info \<Rightarrow> (nat \<times> udh_info) c_result" where
  "udh_element buffer pos fin info =
     (if pos + 2 > fin then Failed (-1)
      else read_at buffer pos (\<lambda>iei. read_at buffer (pos + 1) (\<lambda>iedl.
        if pos + 2 + iedl > fin then Failed (-1)
        else case udh_shift buffer pos iei iedl info of
               Failed e \<Rightarrow> Failed e
             | Undefined \<Rightarrow> Undefined
             | Done info1 \<Rightarrow>
                 (case udh_concat buffer pos iei iedl info1 of
                    Failed e \<Rightarrow> Failed e
                  | Undefined \<Rightarrow> Undefined
                  | Done info2 \<Rightarrow> Done (pos + 2 + iedl, info2)))))"

lemma udh_element_advances: "udh_element buffer pos fin info = Done (pos', info') \<Longrightarrow> pos < pos' \<and> pos' \<le> fin"
  by (auto simp: udh_element_def read_at_def split: if_splits c_result.splits)

function udh_loop :: "u8 list \<Rightarrow> nat \<Rightarrow> nat \<Rightarrow> udh_info \<Rightarrow> udh_info c_result" where
  "udh_loop buffer pos fin info =
     (if pos < fin then
        (case udh_element buffer pos fin info of
           Done (pos', info') \<Rightarrow> udh_loop buffer pos' fin info'
         | Failed e \<Rightarrow> Failed e
         | Undefined \<Rightarrow> Undefined)
      else Done info)"
  by pat_completeness auto
termination
  by (relation "measure (\<lambda>(buffer, pos, fin, info). fin - pos)") (auto dest: udh_element_advances)

declare udh_loop.simps [simp del]

definition parse_udh :: "u8 list \<Rightarrow> nat \<Rightarrow> bool \<Rightarrow> udh_info c_result" where
  "parse_udh buffer user_data_start has_udh =
     (if \<not> has_udh then Done zero_udh
      else if user_data_start \<ge> length buffer then Failed (-1)
      else read_at buffer user_data_start (\<lambda>udhl.
        let first = user_data_start + 1; fin = first + udhl in
        if fin > length buffer then Failed (-1)
        else case udh_loop buffer first fin (zero_udh\<lparr>ui_present := True, ui_bytes := udhl + 1\<rparr>) of
               Done info \<Rightarrow>
                 Done (if ui_concat_total info \<le> 1
                       then info\<lparr>ui_concat_ref := 0, ui_concat_total := 0, ui_concat_part := 0\<rparr> else info)
             | Failed e \<Rightarrow> Failed e
             | Undefined \<Rightarrow> Undefined))"

text \<open>The sender: \<open>ds\<close> is \<open>sms_deliver_start\<close> and \<open>n\<close> the number of digits announced. An
  alphanumeric sender of length 0 writes before the start of the output.\<close>

definition decode_sender :: "u8 list \<Rightarrow> nat \<Rightarrow> nat \<Rightarrow> nat \<Rightarrow> string c_result" where
  "decode_sender buffer ds n type_octet =
     (let octets = take ((n + 1) div 2) (drop (ds + 3) buffer) in
      if length octets < (n + 1) div 2 then Undefined
      else if type_octet = unat TYPE_OF_ADDRESS_ALPHANUMERIC then
        (case DecodePDUMessage_GSM_7bit octets n of
           None \<Rightarrow> Undefined
         | Some chars \<Rightarrow>
             if chars = [] then Undefined
             else Done (map (\<lambda>b. char_of (unat b)) (G7bitToAscii (butlast chars) False False)))
      else Done (DecodePhoneNumber octets n))"

record tm =
  tm_year :: int
  tm_mon :: int
  tm_mday :: int
  tm_hour :: int
  tm_min :: int
  tm_sec :: int

definition decode_time :: "u8 list \<Rightarrow> nat \<Rightarrow> tm c_result" where
  "decode_time buffer pid =
     (if pid + 7 < length buffer then
        (let field = (\<lambda>i. int (SwapDecimalNibble (buffer ! (pid + i)))) in
         Done \<lparr>tm_year = 100 + field 2, tm_mon = field 3 - 1, tm_mday = field 4, tm_hour = field 5,
               tm_min = field 6, tm_sec = field 7\<rparr>)
      else Undefined)"

text \<open>The text: \<open>start\<close> is \<open>sms_start\<close>, \<open>n\<close> the length announced and \<open>skip\<close> the
  octets of the header. \<open>None\<close> inside the result stands for an output buffer left as it was.\<close>

definition decode_text :: "u8 list \<Rightarrow> nat \<Rightarrow> nat \<Rightarrow> nat \<Rightarrow> nat \<Rightarrow> udh_info \<Rightarrow> (nat \<times> u8 list option) c_result" where
  "decode_text buffer start n tp_dcs skip udh =
     (if tp_dcs div 4 mod 4 = 0 then
        (case DecodePDUMessage_GSM_7bit (drop (start + 1) buffer) n of
           None \<Rightarrow> Undefined
         | Some chars \<Rightarrow>
             let septets = (if skip > 0 then (skip * 8 + 6) div 7 else 0) in
             if length chars \<noteq> n then Failed (-1)
             else if septets > n then Failed (-1)
             else let body = take septets chars @
                       G7bitToAscii (drop septets chars) (ui_turkish_locking udh) (ui_turkish_single udh)
                  in Done (length body, Some body))
      else if tp_dcs div 4 mod 4 = 2 then
        (if start + 1 + n > length buffer then Undefined
         else Done (n, Some (take n (drop (start + 1) buffer))))
      else Done (n, None))"

text \<open>The terminator goes after the text, or over its last byte.\<close>

definition terminate_text :: "nat \<Rightarrow> nat \<times> u8 list option \<Rightarrow> (nat \<times> u8 list option) c_result" where
  "terminate_text sms_text_size r =
     (if fst r < sms_text_size then Done r
      else if sms_text_size = 0 then Undefined
      else Done (fst r, map_option (\<lambda>t. t[sms_text_size - 1 := 0]) (snd r)))"

record decoded_sms =
  sm_time :: int
  sm_sender :: string
  sm_length :: nat
  sm_text :: "u8 list option"
  sm_tp_dcs :: nat
  sm_ref_number :: nat
  sm_total_parts :: nat
  sm_part_number :: nat
  sm_skip_bytes :: nat

text \<open>From the text length on: \<open>time\<close> and \<open>sender\<close> are decoded.\<close>

definition decode_user_data ::
  "u8 list \<Rightarrow> nat \<Rightarrow> nat \<Rightarrow> int \<Rightarrow> string \<Rightarrow> nat \<Rightarrow> udh_info \<Rightarrow> decoded_sms c_result" where
  "decode_user_data buffer pid sms_start time sender sms_text_size udh =
     read_at buffer sms_start (\<lambda>n.
       if sms_text_size < n then Failed (-1)
       else read_at buffer (pid + 1) (\<lambda>tp_dcs.
         let skip = (if ui_present udh then ui_bytes udh else 0) in
         case decode_text buffer sms_start n tp_dcs skip udh of
           Failed e \<Rightarrow> Failed e
         | Undefined \<Rightarrow> Undefined
         | Done r \<Rightarrow>
             (case terminate_text sms_text_size r of
                Failed e \<Rightarrow> Failed e
              | Undefined \<Rightarrow> Undefined
              | Done (len, body) \<Rightarrow>
                  Done \<lparr>sm_time = time, sm_sender = sender, sm_length = len, sm_text = body, sm_tp_dcs = tp_dcs,
                    sm_ref_number = ui_concat_ref udh, sm_total_parts = ui_concat_total udh,
                    sm_part_number = ui_concat_part udh, sm_skip_bytes = skip\<rparr>)))"

definition pdu_decode ::
  "(tm \<Rightarrow> int) \<Rightarrow> u8 list \<Rightarrow> nat \<Rightarrow> nat \<Rightarrow> decoded_sms c_result" where
  "pdu_decode timegm buffer sender_phone_number_size sms_text_size =
     (if buffer = [] then Failed (-1)
      else let ds = 1 + unat (hd buffer) in
      if ds + 1 > length buffer then Failed (-2)
      else read_at buffer (ds + 1) (\<lambda>n.
        if n + 1 > sender_phone_number_size then Failed (-3)
        else read_at buffer (ds + 2) (\<lambda>type_octet.
          case decode_sender buffer ds n type_octet of
            Failed e \<Rightarrow> Failed e
          | Undefined \<Rightarrow> Undefined
          | Done sender \<Rightarrow>
              let pid = ds + 3 + (n + 1) div 2; sms_start = pid + 9 in
              case decode_time buffer pid of
                Failed e \<Rightarrow> Failed e
              | Undefined \<Rightarrow> Undefined
              | Done t \<Rightarrow>
                  if sms_start + 1 \<ge> length buffer then Failed (-1)
                  else case parse_udh buffer (sms_start + 1) (unat (buffer ! ds) div 64 mod 2 = 1) of
                    Failed e \<Rightarrow> Failed (-1)
                  | Undefined \<Rightarrow> Undefined
                  | Done udh \<Rightarrow> decode_user_data buffer pid sms_start (timegm t) sender sms_text_size udh)))"

section \<open>The user data header\<close>

lemma udh_element_defined: "fin \<le> length buffer \<Longrightarrow> udh_element buffer pos fin info \<noteq> Undefined"
  by (auto simp: udh_element_def udh_shift_def udh_concat_def read_at_def split: c_result.splits)

lemma udh_loop_defined: "fin \<le> length buffer \<Longrightarrow> udh_loop buffer pos fin info \<noteq> Undefined"
proof (induction buffer pos fin info rule: udh_loop.induct)
  case (1 buffer pos fin info)
  then show ?case
    using udh_element_defined [of fin buffer pos info]
    by (subst udh_loop.simps) (auto split: c_result.splits)
qed

text \<open>The element a part of a longer message carries.\<close>

lemma parse_udh_part:
  assumes "1 < unat t"
  shows "parse_udh (pre @ [5, 0, 3, r, t, p] @ rest) (length pre) True =
    Done \<lparr>ui_present = True, ui_bytes = 6, ui_turkish_locking = False, ui_turkish_single = False,
          ui_concat_ref = unat r, ui_concat_total = unat t, ui_concat_part = unat p\<rparr>"
proof -
  let ?b = "pre @ [5, 0, 3, r, t, p] @ rest" and ?s = "length pre"
  have nth: "unat (?b ! ?s) = 5" "unat (?b ! (?s + 1)) = 0" "unat (?b ! (?s + 1 + 1)) = 3" "?b ! (?s + 1 + 2) = r"
    "?b ! (?s + 1 + 3) = t" "?b ! (?s + 1 + 4) = p"
    by (simp_all add: nth_append)
  let ?i0 = "zero_udh\<lparr>ui_present := True, ui_bytes := 6\<rparr>"
  let ?i1 = "?i0\<lparr>ui_concat_ref := unat r, ui_concat_total := unat t, ui_concat_part := unat p\<rparr>"
  have elem: "udh_element ?b (?s + 1) (?s + 6) ?i0 = Done (?s + 6, ?i1)"
    unfolding udh_element_def read_at_def nth udh_shift_def udh_concat_def by simp
  have "udh_loop ?b (?s + 1) (?s + 6) ?i0 = Done ?i1"
    using elem by (subst udh_loop.simps) (simp, simp add: udh_loop.simps)
  then show ?thesis
    using assms unfolding parse_udh_def read_at_def nth Let_def 
    by (simp add: zero_udh_def add.commute [of 6])
qed

section \<open>Parts\<close>

lemma take_units_le: "take_units limit rest \<le> limit" "take_units limit rest \<le> length rest"
  by (auto simp: take_units_def Let_def)

text \<open>The units of the first \<open>n\<close> parts.\<close>

primrec unit_parts :: "nat \<Rightarrow> nat \<Rightarrow> u16 list \<Rightarrow> u16 list list" where
  "unit_parts limit 0 rest = []"
| "unit_parts limit (Suc n) rest = take (take_units limit rest) rest # unit_parts limit n (drop (take_units limit rest) rest)"

lemma length_unit_parts [simp]: "length (unit_parts limit n rest) = n"
  by (induction n arbitrary: rest) auto

lemma unit_parts_bound: "us \<in> set (unit_parts limit n rest) \<Longrightarrow> length us \<le> limit"
  by (induction n arbitrary: rest) (auto simp: take_units_le min.coboundedI2 intro: le_trans [OF min.cobounded2 take_units_le(1)])

lemma concat_unit_parts: "concat (unit_parts 67 (count_parts rest) rest) = rest"
proof (induction rest rule: count_parts.induct)
  case (1 rest)
  then show ?case by (cases "rest = []") (simp_all add: count_parts.simps [of rest] count_parts.simps [of "[]"])
qed

lemma count_parts_pos: "rest \<noteq> [] \<Longrightarrow> 0 < count_parts rest"
  by (subst count_parts.simps) simp

lemma concat_total_parts:
  "concat (unit_parts (if total_parts units = 1 then 70 else 67) (total_parts units) units) = units"
proof (cases "length units \<le> 70")
  case True
  then show ?thesis by (simp add: total_parts_def take_units_def Let_def)
next
  case False
  then have two: "count_parts units \<noteq> 1"
  proof -
    have "take_units 67 units < length units" using take_units_le(1) [of 67 units] False by linarith
    then have "0 < count_parts (drop (take_units 67 units) units)" using count_parts_pos by simp
    then show ?thesis using False by (subst count_parts.simps) auto
  qed
  with False show ?thesis by (simp add: total_parts_def concat_unit_parts)
qed

text \<open>The loop writes one message for every part.\<close>

lemma parts_loop_messages:
  assumes "\<And>part us. part_pdu international number N reference part us = Some (msg part us)"
  shows "n \<le> N \<Longrightarrow> parts_loop international number N reference n rest =
    Some (map (\<lambda>i. msg (N - n + i) (unit_parts (if N = 1 then 70 else 67) n rest ! i)) [0..<n])"
proof (induction n arbitrary: rest)
  case (Suc n)
  have shift: "Suc (N + i - Suc n) = N + i - n" for i using Suc.prems by simp
  show ?case
    using Suc by (simp add: assms Let_def upt_conv_Cons map_Suc_upt [symmetric] shift del: upt_Suc)
qed simp

section \<open>Surrogate pairs\<close>

definition low_surrogate :: "u16 \<Rightarrow> bool" where
  "low_surrogate u \<longleftrightarrow> 0xDC00 \<le> u \<and> u \<le> 0xDFFF"

text \<open>Well-formed UTF-16: surrogates only in pairs.\<close>

fun utf16_ok :: "u16 list \<Rightarrow> bool" where
  "utf16_ok [] = True"
| "utf16_ok [u] \<longleftrightarrow> \<not> high_surrogate u \<and> \<not> low_surrogate u"
| "utf16_ok (u # v # us) \<longleftrightarrow>
     (if high_surrogate u then low_surrogate v \<and> utf16_ok us else \<not> low_surrogate u \<and> utf16_ok (v # us))"

lemma surrogates_disjoint: "high_surrogate u \<Longrightarrow> \<not> low_surrogate u"
  by (auto simp: high_surrogate_def low_surrogate_def word_le_nat_alt)

lemma utf16_ok_append: "utf16_ok xs \<Longrightarrow> utf16_ok (xs @ ys) = utf16_ok ys"
proof (induction xs rule: utf16_ok.induct)
  case (2 u)
  then show ?case by (cases ys) auto
qed auto

lemma utf16_ok_pair: "utf16_ok us \<Longrightarrow> Suc i < length us \<Longrightarrow> high_surrogate (us ! i) \<Longrightarrow> low_surrogate (us ! Suc i)"
proof (induction us arbitrary: i rule: utf16_ok.induct)
  case (3 u v us)
  show ?case
  proof (cases "high_surrogate u")
    case True
    consider "i = 0" | "i = 1" | j where "i = Suc (Suc j)" by (metis One_nat_def not0_implies_Suc)
    then show ?thesis
    proof cases
      case 2
      with "3.prems" True surrogates_disjoint [of v] show ?thesis by auto
    next
      fix j assume "i = Suc (Suc j)"
      with 3 True show ?thesis by auto
    qed (use "3.prems" True in auto)
  next
    case False
    with 3 show ?thesis by (cases i) auto
  qed
qed auto

lemma utf16_ok_split:
  "utf16_ok us \<Longrightarrow> t \<le> length us \<Longrightarrow> t = 0 \<or> \<not> high_surrogate (us ! (t - 1)) \<Longrightarrow> utf16_ok (take t us) \<and> utf16_ok (drop t us)"
proof (induction us arbitrary: t rule: utf16_ok.induct)
  case (2 u)
  then show ?case by (cases t) auto
next
  case (3 u v us)
  consider "t = 0" | "t = 1" | j where "t = Suc (Suc j)" by (metis One_nat_def not0_implies_Suc)
  then show ?case
  proof cases
    case 2
    with 3 show ?thesis by auto
  next
    fix j assume t: "t = Suc (Suc j)"
    show ?thesis
    proof (cases "high_surrogate u")
      case True
      have "j = 0 \<or> \<not> high_surrogate (us ! (j - 1))" using 3(5) t by (cases j) auto
      with "3.IH"(1) [of j] "3.prems" True t show ?thesis by auto
    next
      case False
      with "3.IH"(2) [of "Suc j"] "3.prems" t show ?thesis by auto
    qed
  qed (use "3.prems" in auto)
qed auto

lemma take_units_split:
  assumes "utf16_ok us"
  shows "utf16_ok (take (take_units limit us) us) \<and> utf16_ok (drop (take_units limit us) us)"
proof (rule utf16_ok_split [OF assms])
  show "take_units limit us \<le> length us" by (rule take_units_le)
  define t where "t = min (length us) limit"
  show "take_units limit us = 0 \<or> \<not> high_surrogate (us ! (take_units limit us - 1))"
  proof (cases "t < length us \<and> t > 0 \<and> high_surrogate (us ! (t - 1))")
    case True
    then have eq: "take_units limit us = t - 1" unfolding take_units_def t_def Let_def by simp
    show ?thesis
    proof (cases "t = 1")
      case False
      with True have "Suc (t - 2) = t - 1" "Suc (t - 2) < length us" by auto
      then show ?thesis
        using utf16_ok_pair [OF assms, of "t - 2"] surrogates_disjoint True eq by (auto simp: numeral_2_eq_2)
    qed (use eq in simp)
  next
    case False
    then have eq: "take_units limit us = t" unfolding take_units_def t_def Let_def by auto
    show ?thesis
    proof (cases "t < length us")
      case True
      with False eq show ?thesis by auto
    next
      case all: False
      then have "t = length us" unfolding t_def by simp
      show ?thesis
      proof (cases "us = []")
        case False
        then have "\<not> high_surrogate (last us)" using assms
        proof (induction us rule: utf16_ok.induct)
          case (3 u v us)
          then show ?case by (cases "us = []") (auto dest: surrogates_disjoint split: if_splits)
        qed auto
        with eq \<open>t = length us\<close> False show ?thesis by (simp add: last_conv_nth)
      qed (use eq t_def in simp)
    qed
  qed
qed

lemma unit_parts_ok: "utf16_ok us \<Longrightarrow> p \<in> set (unit_parts limit n us) \<Longrightarrow> utf16_ok p"
  by (induction n arbitrary: us) (auto dest: take_units_split)

lemma surrogate_value:
  assumes "x < 1024"
  shows "unat (0xD800 OR of_nat x :: u16) = 0xD800 + x" "unat (0xDC00 OR of_nat x :: u16) = 0xDC00 + x"
proof -
  have "take_bit 10 x = x" using assms by (simp add: take_bit_eq_mod)
  then have "take_bit 10 (of_nat x :: u16) = of_nat x" by (metis take_bit_of_nat)
  then have "push_bit 10 k OR of_nat x = push_bit 10 k + (of_nat x :: u16)" for k
    by (intro disjunctive_add [symmetric]) (metis bit_push_bit_iff bit_take_bit_iff linorder_not_le)
  from this [of 54] this [of 55] have "0xD800 OR of_nat x = (of_nat (0xD800 + x) :: u16)"
    "0xDC00 OR of_nat x = (of_nat (0xDC00 + x) :: u16)" by simp_all
  then show "unat (0xD800 OR of_nat x :: u16) = 0xD800 + x" "unat (0xDC00 OR of_nat x :: u16) = 0xDC00 + x"
    using assms by (simp_all only: unat_of_nat) simp_all
qed

lemma utf16_units_ok:
  assumes "cp < 0x110000" "\<not> (0xD800 \<le> cp \<and> cp \<le> 0xDFFF)"
  shows "utf16_ok (utf16_units cp)"
proof (cases "cp \<le> 0xFFFF")
  case True
  then have "unat (of_nat cp :: u16) = cp" by (simp add: unat_of_nat)
  with assms True show ?thesis
    by (auto simp: utf16_units_def high_surrogate_def low_surrogate_def word_le_nat_alt simp del: unat_of_nat)
next
  case False
  define a b where "a = (cp - 0x10000) div 1024" and "b = (cp - 0x10000) mod 1024"
  have "a < 1024" "b < 1024" using assms(1) False unfolding a_def b_def by auto
  then show ?thesis
    using False surrogate_value [of a] surrogate_value [of b] unfolding utf16_units_def a_def [symmetric] b_def [symmetric]
    by (simp add: high_surrogate_def low_surrogate_def word_le_nat_alt)
qed

lemma sextet_bounds:
  "(a :: nat) mod 32 * 64 + b mod 64 < 0x800" "(a :: nat) mod 16 * 4096 + b mod 64 * 64 + c mod 64 < 0x10000"
proof -
  have "a mod 32 \<le> 31" "a mod 16 \<le> 15" "b mod 64 \<le> 63" "c mod 64 \<le> 63" by simp_all
  then show "a mod 32 * 64 + b mod 64 < 0x800" "a mod 16 * 4096 + b mod 64 * 64 + c mod 64 < 0x10000" by linarith+
qed

lemma utf8_branches:
  assumes "(if a < 128 then Some (a, 1) else if B then (if x < 128 then None else Some (x, 2))
      else if C then (if y < 0x800 \<or> 0xD800 \<le> y \<and> y \<le> 0xDFFF then None else Some (y, 3))
      else if D then (if z < 0x10000 \<or> z > 0x10FFFF then None else Some (z, 4)) else None) = Some (cp, n :: nat)"
    and "x < 0x800" "y < (0x10000 :: nat)"
  shows "cp < 0x110000 \<and> \<not> (0xD800 \<le> cp \<and> cp \<le> 0xDFFF)"
  using assms by (auto split: if_splits)

lemma utf8_char_scalar:
  assumes "utf8_char p = Some (cp, n)"
  shows "cp < 0x110000" "\<not> (0xD800 \<le> cp \<and> cp \<le> 0xDFFF)"
  using utf8_branches [OF assms [unfolded utf8_char_def Let_def] sextet_bounds] by blast+

lemma utf8_loop_ok:
  "utf8_loop capacity units p = Some us \<Longrightarrow> utf16_ok units \<Longrightarrow> utf16_ok us \<and> length us \<le> max capacity (length units)"
proof (induction capacity units p rule: utf8_loop.induct)
  case (1 capacity units p)
  show ?case
  proof (cases "p = [] \<or> hd p = 0")
    case True
    with 1 show ?thesis by (simp add: utf8_loop.simps)
  next
    case False
    then obtain cp n where c: "utf8_char p = Some (cp, n)" "length units + length (utf16_units cp) \<le> capacity"
        and loop: "utf8_loop capacity (units @ utf16_units cp) (drop n p) = Some us"
      using "1.prems"(1) unfolding utf8_loop.simps [of capacity units p] by (auto split: option.splits if_splits)
    have "utf16_ok (units @ utf16_units cp)"
      using "1.prems"(2) utf16_units_ok utf8_char_scalar [OF c(1)] by (simp add: utf16_ok_append)
    then show ?thesis using "1.IH" [OF False c(1) refl _ loop] c(2) by simp
  qed
qed

lemma utf8_to_utf16_ok: "utf8_to_utf16 bytes capacity = Some us \<Longrightarrow> utf16_ok us \<and> length us \<le> capacity"
  using utf8_loop_ok [of capacity "[]" bytes us] by (simp add: utf8_to_utf16_def)

section \<open>Normalised numbers\<close>

definition dialable :: "string \<Rightarrow> bool" where
  "dialable n \<longleftrightarrow> n \<noteq> [] \<and> (is_digit (hd n) \<or> hd n = CHR ''+'') \<and> list_all is_digit (tl n)"

lemma normalize_loop_dialable:
  "normalize_loop capacity out s = Some n \<Longrightarrow> out = [] \<or> dialable out \<Longrightarrow> n = [] \<or> dialable n"
proof (induction capacity out s rule: normalize_loop.induct)
  case (2 capacity out c cs)
  show ?case
  proof (cases "separator_char c")
    case False
    have "dialable (out @ [c])" if "is_digit c \<or> c = CHR ''+'' \<and> out = []"
      using that "2.prems"(2) by (cases out) (auto simp: dialable_def)
    with 2 False show ?thesis by (auto split: if_splits)
  qed (use 2 in simp)
qed auto

lemma normalize_dialable: "sms_normalize_number s capacity = Some n \<Longrightarrow> dialable n \<and> number_shape n"
  using normalize_loop_dialable [of capacity "[]" s n]
  by (auto simp: sms_normalize_number_def number_shape_def split: if_splits option.splits)

lemma address_digits_number:
  assumes "sms_normalize_number s capacity = Some n" "address_digits n = (international, number)"
  shows "list_all is_digit number" "length number \<le> 20" "number \<noteq> []"
  using normalize_dialable [OF assms(1)] assms(2)
  by (cases n; auto simp: address_digits_def dialable_def number_shape_def Let_def is_digit_def split: if_splits)+

lemma length_ucs2_octets [simp]: "length (ucs2_octets us) = 2 * length us"
  by (induction us) (auto simp: ucs2_octets_def)

definition ucs2_message :: "bool \<Rightarrow> string \<Rightarrow> nat \<Rightarrow> u32 \<Rightarrow> nat \<Rightarrow> u16 list \<Rightarrow> u8 list" where
  "ucs2_message international number n_parts reference part us =
     [0, SMS_SUBMIT OR (if n_parts > 1 then 0x40 else 0), 0, of_nat (length number), type_of_address international] @
     phone_octets number @ [0, 0x08, 0xB0, of_nat (length us * 2 + (if n_parts > 1 then 6 else 0))] @
     part_header n_parts reference part @ ucs2_octets us"

lemma part_pdu_message:
  assumes "list_all is_digit number" "length number \<le> 20"
  shows "part_pdu international number n_parts reference part us =
    Some (ucs2_message international number n_parts reference part us)"
  using assms by (simp add: part_pdu_def EncodePhoneNumber_def ucs2_message_def)

text \<open>What a receiver finds in a part: the user data starts after the address and four octets.\<close>

lemma ucs2_message_received:
  assumes "length number \<le> 20" "length us \<le> (if n_parts = 1 then 70 else 67)" "1 \<le> n_parts" "n_parts < 256" "part < n_parts"
  shows "length (ucs2_message international number n_parts reference part us) \<le> SMS_MAX_PDU_LENGTH"
    and "\<exists>udh. parse_udh (ucs2_message international number n_parts reference part us) (9 + (length number + 1) div 2) (n_parts > 1) = Done udh \<and>
      drop (9 + (length number + 1) div 2 + ui_bytes udh) (ucs2_message international number n_parts reference part us) = ucs2_octets us \<and>
      (n_parts > 1 \<longrightarrow> ui_concat_ref udh = unat reference mod 256 \<and> ui_concat_total udh = n_parts \<and> ui_concat_part udh = part + 1)"
proof -
  let ?m = "ucs2_message international number n_parts reference part us"
  define pre where "pre = [0, SMS_SUBMIT OR (if n_parts > 1 then 0x40 else 0), 0, of_nat (length number),
      type_of_address international] @ phone_octets number @
      [0, 0x08, 0xB0, of_nat (length us * 2 + (if n_parts > 1 then 6 else 0) :: nat)]"
  have len: "length pre = 9 + (length number + 1) div 2" unfolding pre_def by simp
  have m: "?m = pre @ part_header n_parts reference part @ ucs2_octets us"
    unfolding pre_def ucs2_message_def by simp
  have "(length number + 1) div 2 \<le> 10" using assms(1) by linarith
  moreover have "length us \<le> 67 \<or> n_parts = 1 \<and> length us \<le> 70" using assms(2) by (auto split: if_splits)
  ultimately show "length ?m \<le> 256"
    unfolding m length_append len part_header_def by auto
  show "\<exists>udh. parse_udh ?m (9 + (length number + 1) div 2) (n_parts > 1) = Done udh \<and>
      drop (9 + (length number + 1) div 2 + ui_bytes udh) ?m = ucs2_octets us \<and>
      (n_parts > 1 \<longrightarrow> ui_concat_ref udh = unat reference mod 256 \<and> ui_concat_total udh = n_parts \<and> ui_concat_part udh = part + 1)"
  proof (cases "n_parts > 1")
    case False
    then show ?thesis unfolding m len [symmetric] by (simp add: parse_udh_def part_header_def zero_udh_def)
  next
    case True
    have octets: "unat (of_nat n_parts :: u8) = n_parts" "unat (of_nat (part + 1) :: u8) = part + 1"
      "unat (ucast reference :: u8) = unat reference mod 256"
      using assms(4,5) by (simp_all add: unat_of_nat unsigned_ucast_eq take_bit_eq_mod del: of_nat_add of_nat_Suc)
    show ?thesis
      using True parse_udh_part [of "of_nat n_parts" pre "ucast reference" "of_nat (part + 1)" "ucs2_octets us"] octets
      unfolding m len [symmetric] part_header_def by (simp del: of_nat_Suc of_nat_add)
  qed
qed

lemma concat_replicate_single [simp]: "concat (replicate n [x]) = replicate n x"
  by (induction n) auto

lemma ascii_text_units:
  assumes "0 < c" "c < 128" "n \<le> capacity"
  shows "utf8_to_utf16 (replicate n (of_nat c)) capacity = Some (replicate n (of_nat c))"
proof -
  have "ucs2_to_utf8 (int c) = Inr [of_nat c]" using assms by (simp add: ucs2_to_utf8_def)
  moreover have "utf16_units c = [of_nat c]" using assms by (simp add: utf16_units_def)
  ultimately show ?thesis
    using assms utf8_loop_text [of "replicate n c" "replicate n [of_nat c]" "[]" capacity]
    by (simp add: utf8_to_utf16_def list_all2_conv_all_nth)
qed

text \<open>C28: a Unicode message to a valid number that fits into the allowed number of parts is encoded.
  The parts carry its UTF-16 units in order, with none lost or repeated; no part ends between the
  two units of a surrogate pair; every message fits its buffer of 256 octets; and the header parser
  of the same library reads back the reference, the number of parts and the position of each
  part.\<close>

theorem ucs2_parts_reassemble:
  assumes "sms_normalize_number phone 22 = Some n" and "number = snd (address_digits n)"
    and "utf8_to_utf16 body (SMS_MAX_PARTS * 67) = Some units"
    and "total_parts units \<le> max_parts" "max_parts \<le> SMS_MAX_PARTS"
  shows "\<exists>pdus parts. pdu_encode_ucs2_parts phone body max_parts reference = Some pdus \<and>
    length pdus = total_parts units \<and> length parts = length pdus \<and> concat parts = units \<and>
    (\<forall>i < length pdus. utf16_ok (parts ! i) \<and> length (pdus ! i) \<le> SMS_MAX_PDU_LENGTH \<and>
      (\<exists>udh. parse_udh (pdus ! i) (9 + (length number + 1) div 2) (length pdus > 1) = Done udh \<and>
        drop (9 + (length number + 1) div 2 + ui_bytes udh) (pdus ! i) = ucs2_octets (parts ! i) \<and>
        (length pdus > 1 \<longrightarrow> ui_concat_ref udh = unat reference mod 256 \<and> ui_concat_total udh = length pdus \<and>
          ui_concat_part udh = i + 1)))"
proof -
  define N where "N = total_parts units"
  define parts where "parts = unit_parts (if N = 1 then 70 else 67) N units"
  obtain international where addr: "address_digits n = (international, number)"
    using assms(2) by (cases "address_digits n") simp
  note num = address_digits_number [OF assms(1) addr]
  have N: "1 \<le> N" "N \<le> 16"
    using assms(4,5) count_parts_pos [of units] unfolding N_def by (cases "units = []"; simp add: total_parts_def)+
  define pdus where "pdus = map (\<lambda>i. ucs2_message international number N reference i (parts ! i)) [0..<N]"
  have "parts_loop international number N reference N units = Some pdus"
    using parts_loop_messages [OF part_pdu_message [OF num(1,2)], where n = N and N = N and rest = units and international = international and reference = reference]
    unfolding pdus_def parts_def by simp
  moreover have "phone \<noteq> []" using assms(1) by (auto simp: sms_normalize_number_def number_shape_def)
  ultimately have "pdu_encode_ucs2_parts phone body max_parts reference = Some pdus"
    using assms(1,3-5) N addr unfolding pdu_encode_ucs2_parts_def N_def by (simp add: Let_def)
  moreover have "concat parts = units" unfolding parts_def N_def by (rule concat_total_parts)
  moreover have part: "utf16_ok (parts ! i)" "length (parts ! i) \<le> (if N = 1 then 70 else 67)" if "i < N" for i
  proof -
    have "parts ! i \<in> set parts" using that by (simp add: parts_def)
    then show "utf16_ok (parts ! i)" "length (parts ! i) \<le> (if N = 1 then 70 else 67)"
      unfolding parts_def by (blast intro: unit_parts_ok unit_parts_bound conjunct1 [OF utf8_to_utf16_ok [OF assms(3)]])+
  qed
  moreover note ucs2_message_received [OF num(2) part(2) N(1)]
  ultimately show ?thesis using N
    by (intro exI [of _ pdus] exI [of _ parts]) (auto simp: pdus_def N_def [symmetric] parts_def)
qed

theorem ucs2_parts_reassemble_witness:
  "\<exists>pdus parts. pdu_encode_ucs2_parts ''+49 151 2345'' (replicate 71 0x61) 2 7 = Some pdus \<and>
    length pdus = 2 \<and> concat parts = replicate 71 0x61 \<and>
    (\<exists>udh. parse_udh (pdus ! 1) 14 True = Done udh \<and> ui_concat_part udh = 2 \<and>
       drop (14 + ui_bytes udh) (pdus ! 1) = ucs2_octets (parts ! 1))"
proof -
  have pre: "sms_normalize_number ''+49 151 2345'' 22 = Some ''+491512345''"
      "''491512345'' = snd (address_digits ''+491512345'')"
      "total_parts (replicate 71 0x61) \<le> 2" "(2 :: nat) \<le> SMS_MAX_PARTS"
    by code_simp+
  have units: "utf8_to_utf16 (replicate 71 0x61) (SMS_MAX_PARTS * 67) = Some (replicate 71 0x61)"
    using ascii_text_units [where c = 97 and n = 71 and capacity = "SMS_MAX_PARTS * 67"] by simp
  have "total_parts (replicate 71 0x61) = 2" by code_simp
  with ucs2_parts_reassemble [OF pre(1,2) units pre(3,4), where reference = 7] obtain pdus parts where
    r: "pdu_encode_ucs2_parts ''+49 151 2345'' (replicate 71 0x61) 2 7 = Some pdus" "length pdus = 2"
      "concat parts = replicate 71 0x61" "\<forall>i < 2. \<exists>udh. parse_udh (pdus ! i) 14 True = Done udh \<and>
        drop (14 + ui_bytes udh) (pdus ! i) = ucs2_octets (parts ! i) \<and> ui_concat_part udh = i + 1"
    by fastforce
  from r(4) [rule_format, of 1] r(1-3) show ?thesis by auto
qed

section \<open>A received message\<close>

text \<open>A delivered message of the GSM alphabet as the standard lays it out: service centre, sender,
  protocol and coding, time stamp and packed text.\<close>

definition deliver_pdu :: "u8 list \<Rightarrow> string \<Rightarrow> u8 list \<Rightarrow> u8 list \<Rightarrow> u8 \<Rightarrow> u8 list" where
  "deliver_pdu smsc number stamp body beyond =
     [of_nat (length smsc)] @ smsc @ [0x04, of_nat (length number), TYPE_OF_ADDRESS_INTERNATIONAL_PHONE] @
     phone_octets number @ [0, 0] @ stamp @ [of_nat (length (AsciiToG7bit body))] @ pack_from 1 (AsciiToG7bit body) beyond"

lemma pack_from_nonempty [simp]: "pack_from c xs beyond \<noteq> []"
  by (induction c xs beyond rule: pack_from.induct) auto

lemma decode_text_packed:
  assumes "list_all gsm_ascii body" "body \<noteq> []" and rest: "drop (start + 1) buffer = pack_from 1 (AsciiToG7bit body) beyond"
  shows "decode_text buffer start (length (AsciiToG7bit body)) 0 0 zero_udh = Done (length body, Some body)"
  using septet_round_trip [OF gsm_text_septets [OF assms(1)], of beyond] gsm_text_round_trip [OF assms(1)] assms(2) gsm_text_nonempty [of body]
  unfolding decode_text_def rest by (simp add: zero_udh_def)

lemma deliver_fields:
  assumes "length smsc < 256" "length number < 256" "length stamp = 7" "length (AsciiToG7bit body) < 256"
    and pdu: "pdu = deliver_pdu smsc number stamp body beyond" and ds: "ds = 1 + length smsc"
    and pid: "pid = ds + 3 + (length number + 1) div 2"
  shows "unat (hd pdu) = length smsc" "unat (pdu ! ds) = 4" "unat (pdu ! (ds + 1)) = length number" "unat (pdu ! (ds + 2)) = 0x91"
    "take ((length number + 1) div 2) (drop (ds + 3) pdu) = phone_octets number"
    "unat (pdu ! (pid + 1)) = 0" "2 \<le> j \<Longrightarrow> j < 9 \<Longrightarrow> pdu ! (pid + j) = stamp ! (j - 2)"
    "unat (pdu ! (pid + 9)) = length (AsciiToG7bit body)"
    "drop (pid + 9 + 1) pdu = pack_from 1 (AsciiToG7bit body) beyond"
    "pid + 9 + 1 < length pdu"
proof -
  let ?g = "AsciiToG7bit body"
  define front where "front = of_nat (length smsc) # smsc"
  define addr where "addr = front @ [0x04, of_nat (length number), TYPE_OF_ADDRESS_INTERNATIONAL_PHONE]"
  define hdr where "hdr = addr @ phone_octets number"
  have len: "length front = ds" "length addr = ds + 3" "length hdr = pid"
    unfolding hdr_def addr_def front_def pid ds by simp_all
  have p1: "pdu = front @ 0x04 # of_nat (length number) # TYPE_OF_ADDRESS_INTERNATIONAL_PHONE #
      phone_octets number @ [0, 0] @ stamp @ [of_nat (length ?g)] @ pack_from 1 ?g beyond"
    unfolding pdu deliver_pdu_def front_def by simp
  have p2: "pdu = addr @ phone_octets number @ [0, 0] @ stamp @ [of_nat (length ?g)] @ pack_from 1 ?g beyond"
    unfolding p1 addr_def by simp
  have p3: "pdu = hdr @ 0 # 0 # stamp @ of_nat (length ?g) # pack_from 1 ?g beyond"
    unfolding p2 hdr_def by simp
  have octet: "unat (of_nat k :: u8) = k" if "k < 256" for k using that by (simp add: unat_of_nat)
  show "unat (hd pdu) = length smsc" using assms(1) unfolding p1 front_def by (simp add: octet)
  show "unat (pdu ! ds) = 4" "unat (pdu ! (ds + 1)) = length number" "unat (pdu ! (ds + 2)) = 0x91"
    using assms(2) unfolding p1 len(1) [symmetric] by (simp_all add: nth_append octet)
  show "take ((length number + 1) div 2) (drop (ds + 3) pdu) = phone_octets number"
    unfolding p2 len(2) [symmetric] by simp
  show "unat (pdu ! (pid + 1)) = 0" unfolding p3 len(3) [symmetric] by (simp add: nth_append)
  show "pdu ! (pid + j) = stamp ! (j - 2)" if "2 \<le> j" "j < 9"
  proof -
    from that(1) obtain i where "j = Suc (Suc i)" by (metis add_2_eq_Suc le_Suc_ex)
    then show ?thesis using that(2) assms(3) unfolding p3 len(3) [symmetric] by (simp add: nth_append)
  qed
  show "unat (pdu ! (pid + 9)) = length ?g"
    using assms(3,4) unfolding p3 len(3) [symmetric] by (simp add: nth_append octet)
  show "drop (pid + 9 + 1) pdu = pack_from 1 ?g beyond"
    using assms(3) unfolding p3 len(3) [symmetric] by simp
  show "pid + 9 + 1 < length pdu"
    using assms(3) unfolding p3 len(3) [symmetric] by simp
qed

lemma length_G7bitToAscii: "length (G7bitToAscii xs locking single) \<le> length xs"
  by (induction xs locking single rule: G7bitToAscii.induct) (auto split: list.splits)




section \<open>Reads outside the message\<close>

lemma parse_udh_defined: "parse_udh buffer start has_udh \<noteq> Undefined"
  using udh_loop_defined [of "start + 1 + unat (buffer ! start)" buffer "start + 1"]
  by (auto simp: parse_udh_def read_at_def Let_def split: c_result.splits)

lemma DecodePDUMessage_nonempty:
  "buffer \<noteq> [] \<Longrightarrow> \<exists>b chars. DecodePDUMessage_GSM_7bit buffer n = Some (b # chars)"
  by (cases buffer) (auto simp: DecodePDUMessage_GSM_7bit_def)

lemma decode_text_defined:
  assumes "start + 1 < length buffer" "tp_dcs div 4 mod 4 = 2 \<longrightarrow> start + 1 + n \<le> length buffer"
  shows "decode_text buffer start n tp_dcs skip udh \<noteq> Undefined"
  using assms DecodePDUMessage_nonempty [of "drop (start + 1) buffer" n]
  by (auto simp: decode_text_def Let_def split: if_splits)

text \<open>C30: decoding reads only octets of the message when the message has its whole header, an
  alphanumeric sender is not empty and a Unicode text is as long as announced. Without these
  conditions it does not: see \<open>pdu_decode_truncated\<close>.\<close>

theorem pdu_decode_in_bounds:
  assumes "buffer \<noteq> []" and ds: "ds = 1 + unat (hd buffer)" and n: "n = unat (buffer ! (ds + 1))"
    and pid: "pid = ds + 3 + (n + 1) div 2" and header: "pid + 9 < length buffer"
    and sender: "unat (buffer ! (ds + 2)) = unat TYPE_OF_ADDRESS_ALPHANUMERIC \<longrightarrow> 0 < n"
    and body: "unat (buffer ! (pid + 1)) div 4 mod 4 = 2 \<longrightarrow> pid + 10 + unat (buffer ! (pid + 9)) \<le> length buffer"
    and "0 < sms_text_size"
  shows "pdu_decode timegm buffer sender_size sms_text_size \<noteq> Undefined"
proof -
  have "decode_sender buffer ds n (unat (buffer ! (ds + 2))) \<noteq> Undefined"
    using header sender DecodePDUMessage_nonempty [of "take ((n + 1) div 2) (drop (ds + 3) buffer)" n] unfolding pid
    by (auto simp: decode_sender_def Let_def)
  moreover have "decode_time buffer pid \<noteq> Undefined" using header by (simp add: decode_time_def)
  moreover have "decode_user_data buffer pid (pid + 9) t s sms_text_size udh \<noteq> Undefined"
    if more: "pid + 10 < length buffer" for t s udh
  proof -
    have "decode_text buffer (pid + 9) (unat (buffer ! (pid + 9))) (unat (buffer ! (pid + 1))) skip udh \<noteq> Undefined" for skip
      by (rule decode_text_defined) (use body more in auto)
    then show ?thesis
      using header assms(8) unfolding decode_user_data_def read_at_def
      by (auto simp: Let_def terminate_text_def split: c_result.splits)
  qed
  moreover have "ds + 2 < length buffer" "ds + 1 < length buffer" using header unfolding pid by auto
  ultimately show ?thesis
    using assms(1) parse_udh_defined unfolding pdu_decode_def read_at_def Let_def ds [symmetric] n [symmetric] pid [symmetric]
    by (auto split: c_result.splits)
qed


theorem pdu_decode_in_bounds_witness:
  "pdu_decode (\<lambda>t. 0) (deliver_pdu [] ''49'' [0x62, 0x11, 0x51, 0x21, 0x03, 0x54, 0x40] [0x48, 0x69] 0) 8 8 \<noteq> Undefined"
proof -
  let ?b = "deliver_pdu [] ''49'' [0x62, 0x11, 0x51, 0x21, 0x03, 0x54, 0x40] [0x48, 0x69] 0"
  have b: "?b = [0, 4, 2, 0x91, 0x94, 0, 0, 0x62, 0x11, 0x51, 0x21, 0x03, 0x54, 0x40, 2, 0xC8, 0x34]" by code_simp
  show ?thesis
    by (rule pdu_decode_in_bounds [where ds = 1 and n = 2 and pid = 5]) (simp_all add: b)
qed

text \<open>A message that ends after its first two octets is read past its end.\<close>

lemma pdu_decode_truncated: "pdu_decode timegm [0x00, 0x04] sender_size text_size = Undefined"
  by (simp add: pdu_decode_def read_at_def)

text \<open>C31: packing septets writes outside its buffer exactly when the text is a multiple of eight
  characters long and the buffer has exactly the octets the text needs: the code then emits one
  octet more than its own check of the buffer asks for.\<close>

theorem pack_overrun_exactly:
  "EncodePDUMessage xs beyond buffer_size = Undefined \<longleftrightarrow> 8 dvd length xs \<and> buffer_size = 7 * length xs div 8"
proof -
  have len: "length (pack_from 1 xs beyond) = 7 * length xs div 8 + 1"
    using length_pack_from [of 1 xs beyond] by simp
  have "7 * n div 8 + 1 > b \<and> \<not> (n * 7 + 7) div 8 > b \<longleftrightarrow> 8 dvd n \<and> b = 7 * n div 8" for n b :: nat
  proof -
    obtain q r where n: "n = 8 * q + r" "r < 8" by (metis mult_div_mod_eq mod_less_divisor zero_less_numeral)
    have d: "7 * n div 8 = 7 * q + 7 * r div 8" "(n * 7 + 7) div 8 = 7 * q + (7 * r + 7) div 8" "8 dvd n \<longleftrightarrow> r = 0"
      using n(2) unfolding n(1) by (simp_all add: algebra_simps div_plus_div_distrib_dvd_left dvd_eq_mod_eq_0)
    have "r \<in> {0, 1, 2, 3, 4, 5, 6, 7}" using n(2) by auto
    then show ?thesis unfolding d by auto
  qed
  then show ?thesis unfolding EncodePDUMessage_def Let_def len by auto
qed

section \<open>The two Unicode conversions\<close>

text \<open>The code points of a UTF-16 text.\<close>

fun utf16_points :: "u16 list \<Rightarrow> nat list" where
  "utf16_points (u # v # us) =
     (if high_surrogate u then (0x10000 + (unat u - 0xD800) * 1024 + (unat v - 0xDC00)) # utf16_points us
      else unat u # utf16_points (v # us))"
| "utf16_points us = map unat us"

lemma utf16_points_units:
  assumes "cp < 0x110000" "\<not> (0xD800 \<le> cp \<and> cp \<le> 0xDFFF)"
  shows "utf16_points (utf16_units cp @ us) = cp # utf16_points us"
proof (cases "cp \<le> 0xFFFF")
  case True
  then have "unat (of_nat cp :: u16) = cp" by (simp add: unat_of_nat)
  with assms True show ?thesis
    by (cases us) (auto simp: utf16_units_def high_surrogate_def word_le_nat_alt simp del: unat_of_nat)
next
  case False
  define a b where "a = (cp - 0x10000) div 1024" and "b = (cp - 0x10000) mod 1024"
  have ab: "a < 1024" "b < 1024" "0x10000 + a * 1024 + b = cp" using assms(1) False unfolding a_def b_def by auto
  then show ?thesis
    using False surrogate_value [of a] surrogate_value [of b] unfolding utf16_units_def a_def [symmetric] b_def [symmetric]
    by (simp add: high_surrogate_def word_le_nat_alt)
qed

lemma utf16_points_text:
  "\<forall>cp \<in> set cps. cp < 0x110000 \<and> \<not> (0xD800 \<le> cp \<and> cp \<le> 0xDFFF) \<Longrightarrow> utf16_points (concat (map utf16_units cps)) = cps"
  by (induction cps) (simp_all add: utf16_points_units)

text \<open>The two Unicode conversions agree. A text of code points that the encoder to UTF-8 accepts
  is taken by the decoder, as long as its units fit, and the well-formed UTF-16 it gives has the same
  code points.\<close>

lemma unicode_round_trip:
  assumes "list_all2 (\<lambda>cp bs. 0 < cp \<and> ucs2_to_utf8 (int cp) = Inr bs) cps bss"
    and "length (concat (map utf16_units cps)) \<le> capacity"
  shows "\<exists>units. utf8_to_utf16 (concat bss) capacity = Some units \<and> utf16_ok units \<and> utf16_points units = cps"
proof -
  have run: "utf8_to_utf16 (concat bss) capacity = Some (concat (map utf16_units cps))"
    using utf8_loop_text [of cps bss "[]" capacity] assms by (simp add: utf8_to_utf16_def)
  have "\<forall>cp \<in> set cps. cp < 0x110000 \<and> \<not> (0xD800 \<le> cp \<and> cp \<le> 0xDFFF)"
  proof
    fix cp assume "cp \<in> set cps"
    then obtain bs where "ucs2_to_utf8 (int cp) = Inr bs"
      using assms(1) by (metis (mono_tags, lifting) in_set_conv_nth list_all2_conv_all_nth)
    from ucs2_to_utf8_bytes [OF this] show "cp < 0x110000 \<and> \<not> (0xD800 \<le> cp \<and> cp \<le> 0xDFFF)" by simp
  qed
  with run utf8_to_utf16_ok [OF run] show ?thesis by (simp add: utf16_points_text)
qed

end
