(* ===== verification/Sip_Digest.thy ===== *)
theory Sip_Digest
  imports QModem_Prelude
begin

text \<open>
  The MD5 digest of the SIP service (\<open>application/qmodem_sipd/src/sip_gateway.c\<close>), compared with
  the algorithm of RFC 1321: equal when the padding of the last block fits, different when it does not.
\<close>

unbundle bit_operations_syntax

section \<open>The digest\<close>

definition md5_left_rotate :: "u32 \<Rightarrow> nat \<Rightarrow> u32" where
  "md5_left_rotate v n = push_bit n v OR drop_bit (32 - n) v"

definition md5_shift :: "nat list" where
  "md5_shift =
     [7, 12, 17, 22, 7, 12, 17, 22, 7, 12, 17, 22, 7, 12, 17, 22,
      5, 9, 14, 20, 5, 9, 14, 20, 5, 9, 14, 20, 5, 9, 14, 20,
      4, 11, 16, 23, 4, 11, 16, 23, 4, 11, 16, 23, 4, 11, 16, 23,
      6, 10, 15, 21, 6, 10, 15, 21, 6, 10, 15, 21, 6, 10, 15, 21]"

definition md5_table :: "u32 list" where
  "md5_table =
     [0xd76aa478, 0xe8c7b756, 0x242070db, 0xc1bdceee, 0xf57c0faf, 0x4787c62a, 0xa8304613, 0xfd469501,
      0x698098d8, 0x8b44f7af, 0xffff5bb1, 0x895cd7be, 0x6b901122, 0xfd987193, 0xa679438e, 0x49b40821,
      0xf61e2562, 0xc040b340, 0x265e5a51, 0xe9b6c7aa, 0xd62f105d, 0x02441453, 0xd8a1e681, 0xe7d3fbc8,
      0x21e1cde6, 0xc33707d6, 0xf4d50d87, 0x455a14ed, 0xa9e3e905, 0xfcefa3f8, 0x676f02d9, 0x8d2a4c8a,
      0xfffa3942, 0x8771f681, 0x6d9d6122, 0xfde5380c, 0xa4beea44, 0x4bdecfa9, 0xf6bb4b60, 0xbebfbc70,
      0x289b7ec6, 0xeaa127fa, 0xd4ef3085, 0x04881d05, 0xd9d4d039, 0xe6db99e5, 0x1fa27cf8, 0xc4ac5665,
      0xf4292244, 0x432aff97, 0xab9423a7, 0xfc93a039, 0x655b59c3, 0x8f0ccc92, 0xffeff47d, 0x85845dd1,
      0x6fa87e4f, 0xfe2ce6e0, 0xa3014314, 0x4e0811a1, 0xf7537e82, 0xbd3af235, 0x2ad7d2bb, 0xeb86d391]"

type_synonym md5_state = "u32 \<times> u32 \<times> u32 \<times> u32"

definition md5_words :: "u8 list \<Rightarrow> u32 list" where
  "md5_words block = map (\<lambda>j. fold (\<lambda>i w. w OR push_bit (i * 8) (ucast (block ! (4 * j + i)))) [0..<4] 0) [0..<16]"

definition md5_round :: "u32 list \<Rightarrow> nat \<Rightarrow> md5_state \<Rightarrow> md5_state" where
  "md5_round ws i = (\<lambda>(a, b, c, d).
     let (f, g) = (if i < 16 then ((b AND c) OR (NOT b AND d), i)
                   else if i < 32 then ((d AND b) OR (NOT d AND c), (5 * i + 1) mod 16)
                   else if i < 48 then (b XOR c XOR d, (3 * i + 5) mod 16)
                   else (c XOR (b OR NOT d), (7 * i) mod 16));
         f = f + (a + md5_table ! i + ws ! g)
     in (d, b + md5_left_rotate f (md5_shift ! i), b, c))"

definition md5_rounds :: "u8 list \<Rightarrow> md5_state \<Rightarrow> md5_state" where
  "md5_rounds block = fold (md5_round (md5_words block)) [0..<64]"

definition md5_add :: "md5_state \<Rightarrow> md5_state \<Rightarrow> md5_state" where
  "md5_add = (\<lambda>(s0, s1, s2, s3) (a, b, c, d). (s0 + a, s1 + b, s2 + c, s3 + d))"

definition md5_length_bytes :: "nat \<Rightarrow> u8 list" where
  "md5_length_bytes len = map (\<lambda>i. ucast (drop_bit (8 * i) (of_nat len * 8 :: u64))) [0..<8]"

text \<open>The loop over the blocks; the message from the current offset on is the third argument. When the
  length does not fit into the last block, the rounds of the extra block go on with the values the
  rounds of the block before it ended with.\<close>

function md5_loop :: "nat \<Rightarrow> md5_state \<Rightarrow> u8 list \<Rightarrow> md5_state" where
  "md5_loop len st input =
     (let remaining = length input in
      if remaining \<ge> 64 then md5_loop len (md5_add st (md5_rounds (take 64 input) st)) (drop 64 input)
      else let block = input @ [0x80] @ replicate (63 - remaining) 0 in
      if remaining \<ge> 56
      then let w = md5_rounds block st; st1 = md5_add st w
           in md5_add st1 (md5_rounds (replicate 56 0 @ md5_length_bytes len) w)
      else md5_add st (md5_rounds (take 56 block @ md5_length_bytes len) st))"
  by pat_completeness auto
termination
  by (relation "measure (\<lambda>(_, _, input). length input)") auto

declare md5_loop.simps [simp del]

definition md5_output :: "md5_state \<Rightarrow> u8 list" where
  "md5_output = (\<lambda>(s0, s1, s2, s3). concat (map (\<lambda>s. map (\<lambda>i. ucast (drop_bit (i * 8) s)) [0..<4]) [s0, s1, s2, s3]))"

definition md5_init :: md5_state where
  "md5_init = (0x67452301, 0xefcdab89, 0x98badcfe, 0x10325476)"

definition md5 :: "u8 list \<Rightarrow> u8 list" where
  "md5 input = md5_output (md5_loop (length input) md5_init input)"

section \<open>The algorithm of RFC 1321\<close>

text \<open>The message is padded to whole blocks, and every block is compressed into the state.\<close>

definition rfc_pad :: "u8 list \<Rightarrow> u8 list" where
  "rfc_pad m = m @ [0x80] @ replicate ((119 - length m mod 64) mod 64) 0 @ md5_length_bytes (length m)"

definition rfc_aux :: "nat \<Rightarrow> u32 \<Rightarrow> u32 \<Rightarrow> u32 \<Rightarrow> u32" where
  "rfc_aux i x y z =
     (if i < 16 then (x AND y) OR (NOT x AND z)
      else if i < 32 then (x AND z) OR (y AND NOT z)
      else if i < 48 then x XOR y XOR z
      else y XOR (x OR NOT z))"

definition rfc_index :: "nat \<Rightarrow> nat" where
  "rfc_index i = (if i < 16 then i else if i < 32 then (1 + 5 * i) mod 16 else if i < 48 then (5 + 3 * i) mod 16 else 7 * i mod 16)"

definition rfc_step :: "u32 list \<Rightarrow> nat \<Rightarrow> md5_state \<Rightarrow> md5_state" where
  "rfc_step ws i = (\<lambda>(a, b, c, d).
     (d, b + word_rotl (md5_shift ! i) (a + rfc_aux i b c d + ws ! rfc_index i + md5_table ! i), b, c))"

definition rfc_compress :: "u8 list \<Rightarrow> md5_state \<Rightarrow> md5_state" where
  "rfc_compress block st = md5_add st (fold (rfc_step (md5_words block)) [0..<64] st)"

function rfc_blocks :: "u8 list \<Rightarrow> md5_state \<Rightarrow> md5_state" where
  "rfc_blocks m st = (if m = [] then st else rfc_blocks (drop 64 m) (rfc_compress (take 64 m) st))"
  by pat_completeness auto
termination
  by (relation "measure (\<lambda>(m, _). length m)") auto

declare rfc_blocks.simps [simp del]

definition md5_rfc1321 :: "u8 list \<Rightarrow> u8 list" where
  "md5_rfc1321 m = md5_output (rfc_blocks (rfc_pad m) md5_init)"

lemma md5_shift_range: "i < 64 \<Longrightarrow> 0 < md5_shift ! i \<and> md5_shift ! i < 32"
proof -
  have "list_all (\<lambda>n. 0 < n \<and> n < 32) md5_shift" "length md5_shift = 64" by (simp_all add: md5_shift_def)
  then show "i < 64 \<Longrightarrow> 0 < md5_shift ! i \<and> md5_shift ! i < 32" by (simp add: list_all_length)
qed

lemma rotate_is_rotl:
  assumes "0 < n" "n < 32"
  shows "md5_left_rotate v n = word_rotl n v"
proof (rule bit_word_eqI)
  fix k assume k: "k < LENGTH(32)"
  show "bit (md5_left_rotate v n) k = bit (word_rotl n v) k"
  proof (cases "n \<le> k")
    case True
    have "\<not> bit v (32 - n + k)" using True assms k bit_imp_le_length [of v "32 - n + k"] by auto
    moreover have "(k + (32 - n)) mod 32 = k - n" using True assms k by (simp add: mod_if)
    ultimately show ?thesis using True assms k by (simp add: md5_left_rotate_def bit_simps bit_word_rotl_iff)
  next
    case False
    then have "(k + (32 - n)) mod 32 = 32 - n + k" using assms k by simp
    then show ?thesis using False assms k by (simp add: md5_left_rotate_def bit_simps bit_word_rotl_iff)
  qed
qed

lemma md5_round_rfc: "i < 64 \<Longrightarrow> md5_round ws i st = rfc_step ws i st"
  using md5_shift_range [of i] rotate_is_rotl
  by (cases st) (simp add: md5_round_def rfc_step_def rfc_aux_def rfc_index_def Let_def ac_simps and.commute or.commute)

lemma md5_rounds_rfc: "md5_add st (md5_rounds block st) = rfc_compress block st"
proof -
  have "fold (md5_round ws) is x = fold (rfc_step ws) is x" if "\<forall>i \<in> set is. i < 64" for ws "is" x
    using that by (induction "is" arbitrary: x) (simp_all add: md5_round_rfc)
  then show ?thesis by (simp add: md5_rounds_def rfc_compress_def)
qed

lemma length_length_bytes [simp]: "length (md5_length_bytes n) = 8"
  by (simp add: md5_length_bytes_def)

text \<open>The loop on the rest of a message is the reference on the padded rest, when the length fits.\<close>

lemma md5_loop_rfc:
  assumes "length input mod 64 < 56"
  shows "md5_loop len st input =
    rfc_blocks (input @ [0x80] @ replicate ((119 - length input mod 64) mod 64) 0 @ md5_length_bytes len) st"
  using assms
proof (induction len st input rule: md5_loop.induct)
  case (1 len st input)
  let ?r = "length input"
  show ?case
  proof (cases "?r \<ge> 64")
    case True
    then have m: "(?r - 64) mod 64 = ?r mod 64" by (simp add: le_mod_geq)
    have "md5_loop len st input = md5_loop len (rfc_compress (take 64 input) st) (drop 64 input)"
      using True by (subst md5_loop.simps) (simp add: md5_rounds_rfc)
    also have "\<dots> = rfc_blocks (drop 64 input @ [0x80] @ replicate ((119 - ?r mod 64) mod 64) 0 @ md5_length_bytes len)
        (rfc_compress (take 64 input) st)"
      using 1 True by (simp add: m md5_rounds_rfc)
    finally show ?thesis using True by (subst rfc_blocks.simps) (simp add: Cons_nth_drop_Suc)
  next
    case False
    then have r: "?r < 56" "?r mod 64 = ?r" using 1(2) by simp_all
    have z: "(119 - ?r) mod 64 = 55 - ?r" using r by (simp add: mod_if)
    let ?b = "input @ [0x80] @ replicate (55 - ?r) 0 @ md5_length_bytes len"
    have "56 - ?r = Suc (55 - ?r)" using r by simp
    then have "take 56 (input @ [0x80] @ replicate (63 - ?r) 0) @ md5_length_bytes len = ?b"
      using r by (simp add: min_def)
    then have "md5_loop len st input = rfc_compress ?b st"
      using r by (subst md5_loop.simps) (simp add: md5_rounds_rfc Let_def)
    moreover have "length ?b = 64" using r by simp
    then have "rfc_blocks ?b st = rfc_compress ?b st"
      by (subst rfc_blocks.simps) (simp add: rfc_blocks.simps)
    ultimately show ?thesis unfolding r(2) z by simp
  qed
qed

lemma md5_rfc: "length input mod 64 < 56 \<Longrightarrow> md5 input = md5_rfc1321 input"
  by (simp add: md5_def md5_rfc1321_def rfc_pad_def md5_loop_rfc)

lemma md5_differs: "md5 (replicate 56 97) \<noteq> md5_rfc1321 (replicate 56 97)"
  by code_simp

end
