(* ===== verification/Sip_Credentials.thy ===== *)
theory Sip_Credentials
  imports Sip_Digest
begin

text \<open>
  The credentials of the SIP service: the stored secret and its file
  (\<open>application/qmodem_sipd/src/sip_gateway.c\<close>) and the configuration they come from
  (\<open>sip_credentials.c\<close>). The configuration library, the random source and the file system are
  parameters. The lemmas show what a generated password and the file written for it are good for.
\<close>

section \<open>Credentials\<close>

abbreviation SIP_REALM :: string where "SIP_REALM \<equiv> ''qmodem-voip''"

record qmodem_voip_sip_credentials =
  cr_username :: string
  cr_ha1 :: string

definition valid_username :: "string option \<Rightarrow> bool" where
  "valid_username username =
     (case username of None \<Rightarrow> False
      | Some v \<Rightarrow> v \<noteq> [] \<and> length v < 64 \<and>
          list_all (\<lambda>c. is_alnum c \<or> c = CHR ''.'' \<or> c = CHR ''_'' \<or> c = CHR ''-'') v)"

definition qmodem_voip_sip_validate_credentials :: "string option \<Rightarrow> string option \<Rightarrow> int" where
  "qmodem_voip_sip_validate_credentials username password =
     (case password of None \<Rightarrow> -1
      | Some p \<Rightarrow>
          if \<not> valid_username username \<or> length p < 8 \<or> length p > 127 then -1
          else if list_ex (\<lambda>c. (of_char c :: nat) < 0x21 \<or> (of_char c :: nat) > 0x7e) p then -1 else 0)"

definition hex_text :: string where
  "hex_text = ''0123456789abcdef''"

definition bytes_hex :: "u8 list \<Rightarrow> string" where
  "bytes_hex bs = concat (map (\<lambda>b. [hex_text ! unat (drop_bit 4 b), hex_text ! unat (b AND 0x0f)]) bs)"

definition ha1_source :: "string \<Rightarrow> string \<Rightarrow> string" where
  "ha1_source username password = username @ '':'' @ SIP_REALM @ '':'' @ password"

definition make_ha1 :: "string \<Rightarrow> string \<Rightarrow> string" where
  "make_ha1 username password = bytes_hex (md5 (map of_char (c_copy 206 (ha1_source username password))))"

text \<open>A file as the service sees it: whether it is a regular file, closed to group and others, and owned
  by the administrator; what it holds, if it can be opened; whether reading fails.\<close>

record sip_file =
  sf_regular :: bool
  sf_private :: bool
  sf_root :: bool
  sf_content :: "string option"
  sf_error :: bool

text \<open>The results of the system calls of a write, and whether the service runs as the administrator.\<close>

record write_env =
  we_created :: bool
  we_mode :: bool
  we_printed :: bool
  we_synced :: bool
  we_closed :: bool
  we_renamed :: bool
  we_root :: bool

definition credentials_text :: "string \<Rightarrow> string \<Rightarrow> string" where
  "credentials_text username ha1 = ''username='' @ username @ [CHR 0x0A] @ ''ha1='' @ ha1 @ [CHR 0x0A]"

definition qmodem_voip_sip_write_credentials ::
  "write_env \<Rightarrow> string option \<Rightarrow> string option \<Rightarrow> string option \<Rightarrow> sip_file option \<Rightarrow> int \<times> sip_file option" where
  "qmodem_voip_sip_write_credentials env path username password file =
     (case (path, username, password) of
        (Some pa, Some u, Some pw) \<Rightarrow>
          if qmodem_voip_sip_validate_credentials username password \<noteq> 0 \<or> length pa + 12 \<ge> 256 then (-1, file)
          else if \<not> we_created env \<or> \<not> (we_mode env \<and> we_printed env \<and> we_synced env \<and> we_closed env) \<or> \<not> we_renamed env
          then (-1, file)
          else (0, Some \<lparr>sf_regular = True, sf_private = True, sf_root = we_root env,
                         sf_content = Some (credentials_text u (make_ha1 u pw)), sf_error = False\<rparr>)
      | _ \<Rightarrow> (-1, file))"

text \<open>The pieces \<open>fgets\<close> returns with a buffer of \<open>n\<close> bytes.\<close>

function fgets_pieces :: "nat \<Rightarrow> string \<Rightarrow> string list" where
  "fgets_pieces n s =
     (if s = [] \<or> n \<le> 1 then []
      else let l = takeWhile (\<lambda>c. c \<noteq> CHR 0x0A) s; piece = take (n - 1) (take (length l + 1) s)
           in piece # fgets_pieces n (drop (length piece) s))"
  by pat_completeness auto
termination
  by (relation "measure (\<lambda>(_, s). length s)") auto

declare fgets_pieces.simps [simp del]

text \<open>One line of the file, with what the lines before it gave; \<open>None\<close> when the file is refused.\<close>

definition credentials_line :: "string \<Rightarrow> string option \<times> string option \<Rightarrow> (string option \<times> string option) option" where
  "credentials_line piece st =
     (case (strchr (c_str piece) CHR ''='', st) of
        (None, _) \<Rightarrow> None
      | (Some rest, (username, ha1)) \<Rightarrow>
          let key = takeWhile (\<lambda>c. c \<noteq> CHR ''='') (c_str piece);
              v = takeWhile (\<lambda>c. c \<noteq> CHR 0x0D \<and> c \<noteq> CHR 0x0A) (tl rest) in
          if key = ''username'' \<and> username = None \<and> valid_username (Some v) then Some (Some v, ha1)
          else if key = ''ha1'' \<and> ha1 = None \<and> length v = 32 \<and> set v \<subseteq> set hex_text then Some (username, Some v)
          else None)"

fun credentials_lines :: "string list \<Rightarrow> string option \<times> string option \<Rightarrow> (string option \<times> string option) option" where
  "credentials_lines [] st = Some st"
| "credentials_lines (l # ls) st = (case credentials_line l st of None \<Rightarrow> None | Some st1 \<Rightarrow> credentials_lines ls st1)"

definition qmodem_voip_sip_read_credentials :: "sip_file option \<Rightarrow> qmodem_voip_sip_credentials option" where
  "qmodem_voip_sip_read_credentials file =
     (case file of None \<Rightarrow> None
      | Some f \<Rightarrow>
          if \<not> sf_regular f \<or> \<not> sf_private f \<or> \<not> sf_root f then None
          else case sf_content f of None \<Rightarrow> None
          | Some content \<Rightarrow>
              (case credentials_lines (fgets_pieces 128 content) (None, None) of
                 Some (Some u, Some h) \<Rightarrow> if sf_error f then None else Some \<lparr>cr_username = u, cr_ha1 = h\<rparr>
               | _ \<Rightarrow> None))"

section \<open>Configuration\<close>

text \<open>The section of the configuration, and the results of the calls that store it.\<close>

record uci_inbound =
  ui_username :: "string option"
  ui_password :: "string option"

record uci_env =
  ue_loaded :: bool
  ue_set :: "string \<Rightarrow> bool"
  ue_saved :: bool
  ue_committed :: bool

definition read_uci_credentials :: "uci_env \<Rightarrow> uci_inbound option \<Rightarrow> (string \<times> string) option" where
  "read_uci_credentials env section =
     (case (if ue_loaded env then section else None) of None \<Rightarrow> None
      | Some s \<Rightarrow>
          (case (ui_username s, ui_password s) of
             (Some u, Some p) \<Rightarrow>
               if length u < 64 \<and> length p < 33 \<and>
                  qmodem_voip_sip_validate_credentials (Some u) (Some p) = 0
               then Some (u, p) else None
           | _ \<Rightarrow> None))"

definition persist_credentials :: "uci_env \<Rightarrow> string \<Rightarrow> string \<Rightarrow> uci_inbound option \<Rightarrow> int \<times> uci_inbound option" where
  "persist_credentials env username password section =
     (if \<not> ue_loaded env then (-1, section)
      else case section of None \<Rightarrow> (-1, None)
      | Some s \<Rightarrow>
          if \<not> (ue_set env ''username'' \<and> ue_set env ''password'' \<and> ue_saved env \<and> ue_committed env) then (-1, section)
          else (0, Some (s\<lparr>ui_username := Some username, ui_password := Some password\<rparr>)))"

definition password_alphabet :: string where
  "password_alphabet = ''ABCDEFGHIJKLMNOPQRSTUVWXYZabcdefghijklmnopqrstuvwxyz0123456789-_''"

definition random_password :: "u8 list \<Rightarrow> string" where
  "random_password bytes = map (\<lambda>b. password_alphabet ! unat (b AND 63)) (take 24 bytes)"

definition qmodem_voip_sip_credentials_sync ::
  "uci_env \<Rightarrow> write_env \<Rightarrow> uci_inbound option \<Rightarrow> sip_file option \<Rightarrow> int \<times> sip_file option" where
  "qmodem_voip_sip_credentials_sync uenv wenv section file =
     (case read_uci_credentials uenv section of None \<Rightarrow> (-1, file)
      | Some (u, p) \<Rightarrow> qmodem_voip_sip_write_credentials wenv (Some ''/var/run/qmodem_voip/sip.conf'') (Some u) (Some p) file)"

text \<open>\<open>random\<close> are the bytes of the random source, if it could be read. The first component is the
  password, when everything succeeded.\<close>

definition qmodem_voip_sip_credentials_generate ::
  "uci_env \<Rightarrow> write_env \<Rightarrow> u8 list option \<Rightarrow> string \<Rightarrow> uci_inbound option \<Rightarrow> sip_file option
   \<Rightarrow> string option \<times> uci_inbound option \<times> sip_file option" where
  "qmodem_voip_sip_credentials_generate uenv wenv random username section file =
     (case random of None \<Rightarrow> (None, section, file)
      | Some bytes \<Rightarrow>
          let password = random_password bytes in
          if qmodem_voip_sip_validate_credentials (Some username) (Some password) \<noteq> 0 then (None, section, file)
          else (case persist_credentials uenv username password section of
                  (r, s1) \<Rightarrow>
                    if r \<noteq> 0 then (None, s1, file)
                    else (case qmodem_voip_sip_write_credentials wenv (Some ''/var/run/qmodem_voip/sip.conf'')
                                 (Some username) (Some password) file of
                            (w, f1) \<Rightarrow> if w \<noteq> 0 then (None, s1, f1) else (Some password, s1, f1))))"

lemma length_md5 [simp]: "length (md5 m) = 16"
  by (simp add: md5_def md5_output_def split: prod.splits)

lemma take_bit_less: "unat (take_bit n (b :: u8)) < 2 ^ n"
proof -
  have "unat (take_bit n b) = take_bit n (unat b)" by (rule unsigned_take_bit_eq)
  then show ?thesis by simp
qed

lemma nibble_less: "unat (drop_bit 4 (b :: u8)) < 16" "unat (b AND 0x0f) < 16"
proof -
  have m: "(0x0f :: u8) = mask 4" by (simp add: mask_eq_exp_minus_1)
  have "unat (drop_bit 4 b) = drop_bit 4 (take_bit 8 (unat b))" using unsigned_drop_bit_eq [of 4 b] by simp
  then have "unat (drop_bit 4 b) = unat b mod 256 div 16" by (simp only: drop_bit_eq_div take_bit_eq_mod) simp
  then show "unat (drop_bit 4 b) < 16" by (simp only: less_mult_imp_div_less)
  show "unat (b AND 0x0f) < 16" unfolding m take_bit_eq_mask [symmetric] using take_bit_less [of 4 b] by simp
qed

lemma takeWhile_until: "c \<notin> set l \<Longrightarrow> takeWhile (\<lambda>x. x \<noteq> c) (l @ c # s) = l"
  by (induction l) auto

lemma bytes_hex_facts: "length (bytes_hex bs) = 2 * length bs" "set (bytes_hex bs) \<subseteq> set hex_text"
proof -
  have l: "length hex_text = 16" by (simp add: hex_text_def)
  show "length (bytes_hex bs) = 2 * length bs" by (induction bs) (simp_all add: bytes_hex_def)
  show "set (bytes_hex bs) \<subseteq> set hex_text"
    using nibble_less l by (induction bs) (simp_all add: bytes_hex_def)
qed

lemma fgets_line:
  assumes "CHR 0x0A \<notin> set l" "length l + 1 < n"
  shows "fgets_pieces n (l @ CHR 0x0A # s) = (l @ [CHR 0x0A]) # fgets_pieces n s"
proof -
  have t: "takeWhile (\<lambda>c. c \<noteq> CHR 0x0A) (l @ CHR 0x0A # s) = l" using assms(1) by (rule takeWhile_until)
  have p: "take (n - 1) (take (length l + 1) (l @ CHR 0x0A # s)) = l @ [CHR 0x0A]" using assms(2) by simp
  show ?thesis by (subst fgets_pieces.simps) (use assms(2) in \<open>simp only: t p Let_def, simp\<close>)
qed

lemma strchr_key: "c \<notin> set k \<Longrightarrow> strchr (k @ c # v) c = Some (c # v)"
  by (induction k) auto

lemma credentials_line_split:
  assumes "CHR ''='' \<notin> set k" "CHR 0x00 \<notin> set k" "CHR 0x00 \<notin> set v" "CHR 0x0A \<notin> set v" "CHR 0x0D \<notin> set v"
  shows "credentials_line (k @ ''='' @ v @ [CHR 0x0A]) (username, ha1) =
     (if k = ''username'' \<and> username = None \<and> valid_username (Some v) then Some (Some v, ha1)
      else if k = ''ha1'' \<and> ha1 = None \<and> length v = 32 \<and> set v \<subseteq> set hex_text then Some (username, Some v)
      else None)"
proof -
  let ?s = "k @ ''='' @ v @ [CHR 0x0A]"
  have c: "c_str ?s = ?s" using assms by (intro c_str_id) auto
  have s: "strchr ?s CHR ''='' = Some (CHR ''='' # v @ [CHR 0x0A])" using strchr_key [OF assms(1)] by simp
  have k: "takeWhile (\<lambda>c. c \<noteq> CHR ''='') ?s = k" using takeWhile_until [OF assms(1)] by simp
  have "takeWhile (\<lambda>c. c \<noteq> CHR 0x0D \<and> c \<noteq> CHR 0x0A) (v @ [CHR 0x0A]) = v"
    using assms(4,5) by (subst takeWhile_append2) auto
  then have v: "takeWhile (\<lambda>c. c \<noteq> CHR 0x0D \<and> c \<noteq> CHR 0x0A) (tl (CHR ''='' # v @ [CHR 0x0A])) = v" by simp
  show ?thesis unfolding credentials_line_def c s k option.case prod.case Let_def v by (rule refl)
qed

lemma username_chars: "valid_username (Some u) \<Longrightarrow> c \<in> set u \<Longrightarrow> c \<noteq> CHR 0x00 \<and> c \<noteq> CHR 0x0A \<and> c \<noteq> CHR 0x0D"
  by (auto simp: valid_username_def list_all_iff is_alnum_def is_digit_def Let_def)

lemma hex_chars: "set h \<subseteq> set hex_text \<Longrightarrow> c \<in> set h \<Longrightarrow> c \<noteq> CHR 0x00 \<and> c \<noteq> CHR 0x0A \<and> c \<noteq> CHR 0x0D"
  by (auto simp: hex_text_def)

text \<open>What was written is read back.\<close>

lemma credentials_text_read:
  assumes u: "valid_username (Some u)" and h: "length h = 32" "set h \<subseteq> set hex_text"
  shows "credentials_lines (fgets_pieces 128 (credentials_text u h)) (None, None) = Some (Some u, Some h)"
proof -
  have uc: "CHR 0x00 \<notin> set u" "CHR 0x0A \<notin> set u" "CHR 0x0D \<notin> set u" using username_chars [OF u] by blast+
  have hc: "CHR 0x00 \<notin> set h" "CHR 0x0A \<notin> set h" "CHR 0x0D \<notin> set h" using hex_chars [OF h(2)] by blast+
  have ul: "length u < 64" using u by (simp add: valid_username_def)
  have t: "credentials_text u h = (''username='' @ u) @ CHR 0x0A # ((''ha1='' @ h) @ CHR 0x0A # [])"
    by (simp add: credentials_text_def)
  have f: "fgets_pieces 128 (credentials_text u h) = [(''username='' @ u) @ [CHR 0x0A], (''ha1='' @ h) @ [CHR 0x0A]]"
    unfolding t using uc hc ul h(1) by (subst fgets_line; simp; subst fgets_line [of "''ha1='' @ h" 128 "[]", simplified]; simp add: fgets_pieces.simps)
  have 1: "credentials_line ((''username='' @ u) @ [CHR 0x0A]) (None, None) = Some (Some u, None)"
    using credentials_line_split [of "''username''" u None None] uc u by simp
  have 2: "credentials_line ((''ha1='' @ h) @ [CHR 0x0A]) (Some u, None) = Some (Some u, Some h)"
    using credentials_line_split [of "''ha1''" h "Some u" None] hc h by simp
  show ?thesis unfolding f by (simp only: credentials_lines.simps 1 2 option.case)
qed

lemma validate_lengths:
  "qmodem_voip_sip_validate_credentials (Some u) (Some p) = 0 \<Longrightarrow> valid_username (Some u) \<and> length u < 64 \<and> 8 \<le> length p \<and> length p \<le> 127"
  by (auto simp: qmodem_voip_sip_validate_credentials_def valid_username_def split: if_splits)

lemma length_ha1_source [simp]: "length (ha1_source u p) = length u + length p + 13"
  by (simp add: ha1_source_def)

lemma make_ha1_rfc:
  assumes "length u < 64" "length p \<le> 127" "(length u + length p + 13) mod 64 < 56"
  shows "make_ha1 u p = bytes_hex (md5_rfc1321 (map of_char (ha1_source u p)))"
  using assms by (simp add: make_ha1_def c_copy_id md5_rfc)

lemma written_read:
  assumes "qmodem_voip_sip_write_credentials env path (Some u) (Some p) file = (0, file')" "we_root env"
  shows "qmodem_voip_sip_read_credentials file' = Some \<lparr>cr_username = u, cr_ha1 = make_ha1 u p\<rparr>"
proof -
  have v: "qmodem_voip_sip_validate_credentials (Some u) (Some p) = 0"
    and f: "file' = Some \<lparr>sf_regular = True, sf_private = True, sf_root = True,
                         sf_content = Some (credentials_text u (make_ha1 u p)), sf_error = False\<rparr>"
    using assms by (auto simp: qmodem_voip_sip_write_credentials_def split: option.splits if_splits)
  have h: "length (make_ha1 u p) = 32" "set (make_ha1 u p) \<subseteq> set hex_text" using bytes_hex_facts by (simp_all add: make_ha1_def)
  show ?thesis using credentials_text_read [OF _ h] validate_lengths [OF v]
    by (simp add: qmodem_voip_sip_read_credentials_def f)
qed

lemma random_password_valid:
  assumes "valid_username (Some u)" "length bytes = 24"
  shows "qmodem_voip_sip_validate_credentials (Some u) (Some (random_password bytes)) = 0" "length (random_password bytes) = 24"
proof -
  have m: "(63 :: u8) = mask 6" "length password_alphabet = 64" by (simp_all add: mask_eq_exp_minus_1 password_alphabet_def)
  have l: "unat ((b :: u8) AND 63) < length password_alphabet" for b
    unfolding m take_bit_eq_mask [symmetric] using take_bit_less [of 6 b] by simp
  have a: "list_all (\<lambda>c. \<not> ((of_char c :: nat) < 0x21 \<or> (of_char c :: nat) > 0x7e)) password_alphabet"
    by (simp add: password_alphabet_def)
  have "\<not> list_ex (\<lambda>c. (of_char c :: nat) < 0x21 \<or> (of_char c :: nat) > 0x7e) (random_password bytes)"
    using a nth_mem [OF l] by (fastforce simp: random_password_def list_ex_iff list_all_iff)
  then show "qmodem_voip_sip_validate_credentials (Some u) (Some (random_password bytes)) = 0" "length (random_password bytes) = 24"
    using assms by (simp_all add: qmodem_voip_sip_validate_credentials_def random_password_def)
qed

text \<open>All calls succeed, as the administrator.\<close>

definition good_write :: write_env where
  "good_write = \<lparr>we_created = True, we_mode = True, we_printed = True, we_synced = True, we_closed = True, we_renamed = True,
     we_root = True\<rparr>"

definition good_uci :: uci_env where
  "good_uci = \<lparr>ue_loaded = True, ue_set = (\<lambda>_. True), ue_saved = True, ue_committed = True\<rparr>"

lemma generate_good:
  assumes "valid_username (Some u)" "length bytes = 24"
  shows "\<exists>file'. qmodem_voip_sip_credentials_generate good_uci good_write (Some bytes) u (Some sec) old =
      (Some (random_password bytes), Some (sec\<lparr>ui_username := Some u, ui_password := Some (random_password bytes)\<rparr>), file') \<and>
    qmodem_voip_sip_read_credentials file' = Some \<lparr>cr_username = u, cr_ha1 = make_ha1 u (random_password bytes)\<rparr>"
proof -
  note v = random_password_valid [OF assms]
  let ?p = "random_password bytes"
  obtain file' where w: "qmodem_voip_sip_write_credentials good_write (Some ''/var/run/qmodem_voip/sip.conf'') (Some u) (Some ?p) old = (0, file')"
    using v by (simp add: qmodem_voip_sip_write_credentials_def good_write_def)
  have p: "persist_credentials good_uci u ?p (Some sec) = (0, Some (sec\<lparr>ui_username := Some u, ui_password := Some ?p\<rparr>))"
    by (simp add: persist_credentials_def good_uci_def)
  have "qmodem_voip_sip_credentials_generate good_uci good_write (Some bytes) u (Some sec) old =
      (Some ?p, Some (sec\<lparr>ui_username := Some u, ui_password := Some ?p\<rparr>), file')"
    by (simp add: qmodem_voip_sip_credentials_generate_def v(1) p w Let_def)
  with written_read [OF w] show ?thesis by (simp add: good_write_def)
qed

text \<open>C21: generated credentials work. For every valid user name and every random bytes a password is
  generated, accepted and stored in the configuration, and the file written for the registrar is read
  back as the user name with the digest a client computes from user name, realm and password, provided
  the length of that text leaves room for the length field in its last block.\<close>

theorem sip_generated_credentials_usable:
  assumes "valid_username (Some u)" "length bytes = 24" "(length u + 37) mod 64 < 56"
  shows "\<exists>password section' file'.
    qmodem_voip_sip_credentials_generate good_uci good_write (Some bytes) u (Some sec) old = (Some password, section', file') \<and>
    read_uci_credentials good_uci section' = Some (u, password) \<and>
    qmodem_voip_sip_read_credentials file' =
      Some \<lparr>cr_username = u, cr_ha1 = bytes_hex (md5_rfc1321 (map of_char (ha1_source u password)))\<rparr>"
proof -
  note v = random_password_valid [OF assms(1,2)]
  have "make_ha1 u (random_password bytes) = bytes_hex (md5_rfc1321 (map of_char (ha1_source u (random_password bytes))))"
    using assms(3) v(2) validate_lengths [OF v(1)] by (intro make_ha1_rfc) (simp_all add: add.commute)
  moreover have "read_uci_credentials good_uci (Some (sec\<lparr>ui_username := Some u, ui_password := Some (random_password bytes)\<rparr>)) =
      Some (u, random_password bytes)"
    using v validate_lengths [OF v(1)] by (simp add: read_uci_credentials_def good_uci_def)
  ultimately show ?thesis using generate_good [OF assms(1,2), of sec old] by (metis (no_types, lifting))
qed

theorem sip_generated_credentials_usable_witness:
  "\<exists>password section' file'.
    qmodem_voip_sip_credentials_generate good_uci good_write (Some (replicate 24 7)) ''alice''
      (Some \<lparr>ui_username = None, ui_password = None\<rparr>) None = (Some password, section', file') \<and>
    qmodem_voip_sip_read_credentials file' =
      Some \<lparr>cr_username = ''alice'', cr_ha1 = bytes_hex (md5_rfc1321 (map of_char (ha1_source ''alice'' password)))\<rparr>"
proof -
  have "valid_username (Some ''alice'')" by code_simp
  from sip_generated_credentials_usable [OF this, of "replicate 24 7" "\<lparr>ui_username = None, ui_password = None\<rparr>" None]
  show ?thesis by auto
qed


end
