(* ===== verification/Sip_Gateway.thy ===== *)
theory Sip_Gateway
  imports Sip_Credentials
begin

text \<open>
  The protocol rules of the SIP service: addresses and session descriptions, the limiter of requests, the
  nonces of the digest authentication and the record of the call
  (\<open>application/qmodem_sipd/src/sip_gateway.c\<close>), the delays of the registration
  (\<open>sip_registration.c\<close>), and the authentication of a request with the descriptions the service
  sends (\<open>sip_consumer.c\<close>). The SIP library is a parameter: what a request carries, and whether the
  digest in it is right.
\<close>

section \<open>Addresses\<close>

text \<open>\<open>sscanf(address, "%u.%u.%u.%u%c", ...)\<close> gives four numbers and nothing more.\<close>

definition scan_dot :: "string \<Rightarrow> (u32 \<times> string) option" where
  "scan_dot s = (case scan_unsigned s of Some (v, CHR ''.'' # rest) \<Rightarrow> Some (v, rest) | _ \<Rightarrow> None)"

definition scan_address :: "string \<Rightarrow> (u32 \<times> u32 \<times> u32 \<times> u32) option" where
  "scan_address s =
     (case scan_dot s of None \<Rightarrow> None
      | Some (a, s1) \<Rightarrow> (case scan_dot s1 of None \<Rightarrow> None
      | Some (b, s2) \<Rightarrow> (case scan_dot s2 of None \<Rightarrow> None
      | Some (c, s3) \<Rightarrow> (case scan_unsigned s3 of Some (d, []) \<Rightarrow> Some (a, b, c, d) | _ \<Rightarrow> None))))"

definition qmodem_voip_sip_valid_lan_address :: "string option \<Rightarrow> bool" where
  "qmodem_voip_sip_valid_lan_address address =
     (case address of None \<Rightarrow> False
      | Some s \<Rightarrow>
          (case scan_address s of None \<Rightarrow> False
           | Some (a, b, c, d) \<Rightarrow> a \<le> 255 \<and> b \<le> 255 \<and> c \<le> 255 \<and> d \<le> 255 \<and> (a \<noteq> 0 \<or> b \<noteq> 0 \<or> c \<noteq> 0 \<or> d \<noteq> 0)))"

section \<open>The limiter of requests\<close>

record qmodem_voip_sip_rate =
  ra_address :: u32
  ra_window_start :: u64
  ra_count :: u32

text \<open>The slot of the address, or else the first of those with the oldest window.\<close>

fun rate_slot :: "u32 \<Rightarrow> qmodem_voip_sip_rate list \<Rightarrow> nat \<Rightarrow> nat option \<Rightarrow> qmodem_voip_sip_rate list \<Rightarrow> nat option" where
  "rate_slot address rates i slot [] = slot"
| "rate_slot address rates i slot (r # rs) =
     (if ra_address r = address then Some i
      else rate_slot address rates (i + 1)
             (case slot of None \<Rightarrow> Some i
              | Some j \<Rightarrow> if ra_window_start r < ra_window_start (rates ! j) then Some i else slot) rs)"

definition qmodem_voip_sip_rate_allow ::
  "qmodem_voip_sip_rate list \<Rightarrow> u32 \<Rightarrow> u64 \<Rightarrow> u32 \<Rightarrow> bool \<times> qmodem_voip_sip_rate list" where
  "qmodem_voip_sip_rate_allow rates address now limit =
     (case rate_slot address rates 0 None rates of
        None \<Rightarrow> (False, rates)
      | Some i \<Rightarrow>
          let s = (if ra_address (rates ! i) \<noteq> address \<or> now - ra_window_start (rates ! i) \<ge> 60
                   then \<lparr>ra_address = address, ra_window_start = now, ra_count = 0\<rparr> else rates ! i)
          in if ra_count s \<ge> limit then (False, rates[i := s])
             else (True, rates[i := s\<lparr>ra_count := ra_count s + 1\<rparr>]))"

section \<open>Session descriptions\<close>

text \<open>\<open>strtok_r\<close>: the maximal parts without a separator.\<close>

function strtok_parts :: "(char \<Rightarrow> bool) \<Rightarrow> string \<Rightarrow> string list" where
  "strtok_parts sep s =
     (let t = dropWhile sep s in
      if t = [] then [] else takeWhile (\<lambda>c. \<not> sep c) t # strtok_parts sep (dropWhile (\<lambda>c. \<not> sep c) t))"
  by pat_completeness auto
termination
proof (relation "measure (\<lambda>(_, s). length s)")
  fix sep :: "char \<Rightarrow> bool" and s t :: string
  assume t: "t = dropWhile sep s" "t \<noteq> []"
  then have "\<not> sep (hd t)" by (metis hd_dropWhile)
  with t(2) have "length (dropWhile (\<lambda>c. \<not> sep c) t) < length t"
    by (cases t) (simp_all add: length_dropWhile_le le_imp_less_Suc)
  also have "\<dots> \<le> length s" using t(1) by (simp add: length_dropWhile_le)
  finally show "((sep, dropWhile (\<lambda>c. \<not> sep c) t), (sep, s)) \<in> measure (\<lambda>(_, s). length s)" by simp
qed simp

declare strtok_parts.simps [simp del]

definition is_line_end :: "char \<Rightarrow> bool" where
  "is_line_end c \<longleftrightarrow> c = CHR 0x0D \<or> c = CHR 0x0A"

text \<open>\<open>strstr\<close>: the rest of the string from the first occurrence on.\<close>

fun strstr :: "string \<Rightarrow> string \<Rightarrow> string option" where
  "strstr s p = (if has_prefix s p then Some s else case s of [] \<Rightarrow> None | _ # cs \<Rightarrow> strstr cs p)"

declare strstr.simps [simp del]

definition sdp_line :: "string \<Rightarrow> u32 \<times> bool \<times> bool \<Rightarrow> (u32 \<times> bool \<times> bool) option" where
  "sdp_line line = (\<lambda>(port, pcma, pcmu).
     if has_prefix line ''m=audio '' then
       (case scan_unsigned (drop 8 line) of
          None \<Rightarrow> None
        | Some (p, _) \<Rightarrow>
            if p = 0 \<or> p > 65535 then None
            else if strstr line '' 0'' = None \<and> strstr line '' 8'' = None then None
            else Some (p, pcma \<or> strstr line '' 8'' \<noteq> None, pcmu \<or> strstr line '' 0'' \<noteq> None))
     else if has_prefix line ''a=rtpmap:8 PCMA/8000'' then Some (port, True, pcmu)
     else if has_prefix line ''a=rtpmap:0 PCMU/8000'' then Some (port, pcma, True)
     else Some (port, pcma, pcmu))"

fun fold_option :: "('a \<Rightarrow> 's \<Rightarrow> 's option) \<Rightarrow> 'a list \<Rightarrow> 's \<Rightarrow> 's option" where
  "fold_option f [] s = Some s"
| "fold_option f (x # xs) s = (case f x s of None \<Rightarrow> None | Some s1 \<Rightarrow> fold_option f xs s1)"

text \<open>The lines of a body; \<open>None\<close> when it is empty or too long.\<close>

definition sdp_lines :: "string \<Rightarrow> string list option" where
  "sdp_lines body = (if body = [] \<or> length body \<ge> 2049 then None else Some (strtok_parts is_line_end (c_str body)))"

definition qmodem_voip_sip_validate_sdp :: "string \<Rightarrow> u32 option" where
  "qmodem_voip_sip_validate_sdp body =
     (case sdp_lines body of None \<Rightarrow> None
      | Some lines \<Rightarrow>
          (case fold_option sdp_line lines (0, False, False) of
             None \<Rightarrow> None
           | Some (port, pcma, pcmu) \<Rightarrow> if port = 0 \<or> (\<not> pcma \<and> \<not> pcmu) then None else Some port))"

record qmodem_voip_sip_media =
  sm_address :: string
  sm_port :: u32
  sm_payload_type :: u32

text \<open>\<open>strtoul(s, &end, 10)\<close> with a 64-bit \<open>unsigned long\<close>.\<close>

definition strtoul_end :: "string \<Rightarrow> u64 \<times> string" where
  "strtoul_end s =
     (let t = dropWhile is_space s;
          neg = (t \<noteq> [] \<and> hd t = CHR ''-'');
          u = (if t \<noteq> [] \<and> (hd t = CHR ''-'' \<or> hd t = CHR ''+'') then tl t else t);
          ds = takeWhile is_digit u;
          v = digits_value 0 ds
      in if ds = [] then (0, s)
         else (word_of_int (if v > 2 ^ 64 - 1 then 2 ^ 64 - 1 else if neg then - v else v), dropWhile is_digit u))"

definition offers :: "u64 \<Rightarrow> string list \<Rightarrow> bool" where
  "offers payload tokens \<longleftrightarrow> list_ex (\<lambda>t. t \<noteq> [] \<and> strtoul_end t = (payload, [])) tokens"

definition media_line :: "string \<Rightarrow> string \<times> u32 \<times> bool \<times> bool \<Rightarrow> (string \<times> u32 \<times> bool \<times> bool) option" where
  "media_line line = (\<lambda>(address, port, pcma, pcmu).
     if has_prefix line ''c=IN IP4 '' then
       (if \<not> qmodem_voip_sip_valid_lan_address (Some (drop 9 line)) \<or> address \<noteq> [] then None
        else Some (c_copy 16 (drop 9 line), port, pcma, pcmu))
     else if has_prefix line ''m=audio '' then
       (case strstr (drop 8 line) '' RTP/AVP '' of
          None \<Rightarrow> None
        | Some formats \<Rightarrow>
            if port \<noteq> 0 then None
            else (case scan_unsigned (drop 8 line) of
                    None \<Rightarrow> None
                  | Some (p, _) \<Rightarrow>
                      if p = 0 \<or> p > 65535 then None
                      else let tokens = strtok_parts (\<lambda>c. c = CHR '' '') (drop 9 formats)
                           in Some (address, p, pcma \<or> offers 8 tokens, pcmu \<or> offers 0 tokens)))
     else Some (address, port, pcma, pcmu))"

definition qmodem_voip_sip_parse_media :: "string \<Rightarrow> qmodem_voip_sip_media option" where
  "qmodem_voip_sip_parse_media body =
     (case sdp_lines body of None \<Rightarrow> None
      | Some lines \<Rightarrow>
          (case fold_option media_line lines ([], 0, False, False) of
             None \<Rightarrow> None
           | Some (address, port, pcma, pcmu) \<Rightarrow>
               if address = [] \<or> port = 0 \<or> (\<not> pcma \<and> \<not> pcmu) then None
               else Some \<lparr>sm_address = c_copy 16 address, sm_port = port, sm_payload_type = (if pcma then 8 else 0)\<rparr>))"

definition qmodem_voip_sip_invite_body_status :: "string \<Rightarrow> nat" where
  "qmodem_voip_sip_invite_body_status body = (if qmodem_voip_sip_validate_sdp body \<noteq> None then 0 else 488)"

text \<open>The descriptions the service sends: the answer to a caller, at the host of the request, which
  \<open>inet_pton\<close> must accept, and the offer for an incoming call.\<close>

abbreviation crlf :: string where "crlf \<equiv> [CHR 0x0D, CHR 0x0A]"

definition lan_answer_body :: "(string \<Rightarrow> bool) \<Rightarrow> string \<Rightarrow> u32 \<Rightarrow> string option" where
  "lan_answer_body inet_pton host payload_type =
     (if payload_type \<noteq> 8 \<and> payload_type \<noteq> 0 then None
      else if host = [] \<or> length host \<ge> 16 then None
      else let address = c_str host;
               body = ''v=0'' @ crlf @ ''o=qmodem_voip 1 1 IN IP4 '' @ address @ crlf @ ''s=QModem VoIP'' @ crlf @
                 ''c=IN IP4 '' @ address @ crlf @ ''t=0 0'' @ crlf @
                 ''m=audio 40000 RTP/AVP '' @ (if payload_type = 8 then ''8 101'' else ''0 101'') @ crlf @
                 (if payload_type = 8 then ''a=rtpmap:8 PCMA/8000'' else ''a=rtpmap:0 PCMU/8000'') @ crlf @
                 ''a=rtpmap:101 telephone-event/8000'' @ crlf @ ''a=sendrecv'' @ crlf
           in if \<not> inet_pton address \<or> length body \<ge> 512 then None else Some body)"

definition incoming_offer_body :: "string \<Rightarrow> string option" where
  "incoming_offer_body address =
     (let body = ''v=0'' @ crlf @ ''o=qmodem_voip 1 1 IN IP4 '' @ address @ crlf @ ''s=QModem VoIP'' @ crlf @
            ''c=IN IP4 '' @ address @ crlf @ ''t=0 0'' @ crlf @ ''m=audio 40000 RTP/AVP 8 0 101'' @ crlf @
            ''a=rtpmap:8 PCMA/8000'' @ crlf @ ''a=rtpmap:0 PCMU/8000'' @ crlf @
            ''a=rtpmap:101 telephone-event/8000'' @ crlf @ ''a=sendrecv'' @ crlf
      in if length body \<ge> 512 then None else Some body)"

section \<open>Nonces\<close>

record qmodem_voip_sip_nonce =
  no_address :: u32
  no_issued :: u64
  no_last_nc :: u64
  no_value :: string

definition zero_nonce :: qmodem_voip_sip_nonce where
  "zero_nonce = \<lparr>no_address = 0, no_issued = 0, no_last_nc = 0, no_value = []\<rparr>"

text \<open>The first free slot, or else the first of the oldest.\<close>

fun nonce_slot :: "qmodem_voip_sip_nonce list \<Rightarrow> nat \<Rightarrow> nat option \<Rightarrow> qmodem_voip_sip_nonce list \<Rightarrow> nat option" where
  "nonce_slot store i slot [] = slot"
| "nonce_slot store i slot (n # ns) =
     (if no_value n = [] then Some i
      else nonce_slot store (i + 1)
             (case slot of None \<Rightarrow> Some i | Some j \<Rightarrow> if no_issued n < no_issued (store ! j) then Some i else slot) ns)"

definition qmodem_voip_sip_nonce_issue ::
  "u8 list option \<Rightarrow> qmodem_voip_sip_nonce list \<Rightarrow> u32 \<Rightarrow> u64 \<Rightarrow> string option \<times> qmodem_voip_sip_nonce list" where
  "qmodem_voip_sip_nonce_issue random store address now =
     (case random of None \<Rightarrow> (None, store)
      | Some r \<Rightarrow>
          (case nonce_slot store 0 None store of
             None \<Rightarrow> (None, store)
           | Some i \<Rightarrow> (Some (bytes_hex r), store[i := zero_nonce\<lparr>no_address := address, no_issued := now, no_value := bytes_hex r\<rparr>])))"

datatype qmodem_voip_sip_nonce_result = NONCE_OK | NONCE_UNKNOWN | NONCE_EXPIRED | NONCE_REPLAYED

text \<open>The slot a request was checked against is part of the result.\<close>

definition qmodem_voip_sip_nonce_check ::
  "qmodem_voip_sip_nonce list \<Rightarrow> u32 \<Rightarrow> string \<Rightarrow> u64 \<Rightarrow> u64 \<Rightarrow> qmodem_voip_sip_nonce_result \<times> nat option" where
  "qmodem_voip_sip_nonce_check store address nonce now nc =
     (case first_index (\<lambda>s. no_address s = address \<and> no_value s = nonce) store of
        None \<Rightarrow> (NONCE_UNKNOWN, None)
      | Some i \<Rightarrow>
          let s = store ! i in
          if now < no_issued s \<or> now - no_issued s \<ge> 60 then (NONCE_EXPIRED, None)
          else if nc = 0 \<or> nc \<le> no_last_nc s then (NONCE_REPLAYED, None)
          else (NONCE_OK, Some i))"

definition qmodem_voip_sip_nonce_commit :: "nat option \<Rightarrow> u64 \<Rightarrow> qmodem_voip_sip_nonce list \<Rightarrow> qmodem_voip_sip_nonce list" where
  "qmodem_voip_sip_nonce_commit slot nc store =
     (case slot of None \<Rightarrow> store
      | Some i \<Rightarrow> if nc > no_last_nc (store ! i) then store[i := (store ! i)\<lparr>no_last_nc := nc\<rparr>] else store)"

section \<open>The record of the call\<close>

datatype qmodem_voip_sip_call_origin = SIP_CALL_LAN | SIP_CALL_CELLULAR

record qmodem_voip_sip_call =
  sc_active :: bool
  sc_established :: bool
  sc_origin :: qmodem_voip_sip_call_origin
  sc_cseq :: u32
  sc_call_id :: string
  sc_remote_tag :: string
  sc_branch :: string

definition qmodem_voip_sip_call_clear :: "qmodem_voip_sip_call \<Rightarrow> qmodem_voip_sip_call" where
  "qmodem_voip_sip_call_clear c = \<lparr>sc_active = False, sc_established = False, sc_origin = SIP_CALL_LAN, sc_cseq = 0,
     sc_call_id = [], sc_remote_tag = [], sc_branch = []\<rparr>"

definition qmodem_voip_sip_call_begin ::
  "qmodem_voip_sip_call \<Rightarrow> qmodem_voip_sip_call_origin \<Rightarrow> string option \<Rightarrow> string option \<Rightarrow> string option \<Rightarrow> u32
   \<Rightarrow> int \<times> qmodem_voip_sip_call" where
  "qmodem_voip_sip_call_begin c origin call_id remote_tag branch cseq =
     (case (call_id, remote_tag, branch) of
        (Some ci, Some rt, Some br) \<Rightarrow>
          if ci = [] \<or> rt = [] \<or> br = [] \<or> length ci \<ge> 128 \<or> length rt \<ge> 96 \<or> length br \<ge> 128 then (-1, c)
          else (0, \<lparr>sc_active = True, sc_established = False, sc_origin = origin, sc_cseq = cseq, sc_call_id = ci,
                    sc_remote_tag = rt, sc_branch = br\<rparr>)
      | _ \<Rightarrow> (-1, c))"

text \<open>\<open>action\<close> is the result of the action, if there is one; the second component is whether it ran.\<close>

definition end_call ::
  "qmodem_voip_sip_call \<Rightarrow> bool \<Rightarrow> string option \<Rightarrow> string option \<Rightarrow> u32 \<Rightarrow> bool \<Rightarrow> int option \<Rightarrow> nat \<times> bool \<times> qmodem_voip_sip_call" where
  "end_call c authenticated call_id remote_tag cseq cancel action =
     (if \<not> authenticated then (401, False, c)
      else if \<not> sc_active c \<or> call_id \<noteq> Some (sc_call_id c) \<or> remote_tag \<noteq> Some (sc_remote_tag c) \<or>
              (cancel \<and> (sc_origin c \<noteq> SIP_CALL_LAN \<or> sc_cseq c \<noteq> cseq)) \<or>
              (\<not> cancel \<and> \<not> sc_established c \<and> sc_origin c \<noteq> SIP_CALL_LAN) then (481, False, c)
      else case action of None \<Rightarrow> (503, False, c)
      | Some r \<Rightarrow> if r \<noteq> 0 then (503, True, c) else (200, True, qmodem_voip_sip_call_clear c))"

definition qmodem_voip_sip_call_cancel ::
  "qmodem_voip_sip_call \<Rightarrow> bool \<Rightarrow> string option \<Rightarrow> string option \<Rightarrow> string option \<Rightarrow> u32 \<Rightarrow> int option \<Rightarrow> nat \<times> bool \<times> qmodem_voip_sip_call" where
  "qmodem_voip_sip_call_cancel c authenticated call_id remote_tag branch cseq action =
     (if branch \<noteq> Some (sc_branch c) then (if authenticated then 481 else 401, False, c)
      else end_call c authenticated call_id remote_tag cseq True action)"

definition qmodem_voip_sip_call_bye ::
  "qmodem_voip_sip_call \<Rightarrow> bool \<Rightarrow> string option \<Rightarrow> string option \<Rightarrow> int option \<Rightarrow> nat \<times> bool \<times> qmodem_voip_sip_call" where
  "qmodem_voip_sip_call_bye c authenticated call_id remote_tag action =
     end_call c authenticated call_id remote_tag 0 False action"

definition qmodem_voip_sip_call_establish :: "qmodem_voip_sip_call \<Rightarrow> string option \<Rightarrow> int \<times> qmodem_voip_sip_call" where
  "qmodem_voip_sip_call_establish c remote_tag =
     (case remote_tag of None \<Rightarrow> (-1, c)
      | Some rt \<Rightarrow> if \<not> sc_active c \<or> rt = [] \<or> length rt \<ge> 96 then (-1, c)
                  else (0, c\<lparr>sc_remote_tag := rt, sc_established := True\<rparr>))"

definition qmodem_voip_sip_call_release :: "qmodem_voip_sip_call \<Rightarrow> qmodem_voip_sip_call" where
  "qmodem_voip_sip_call_release c = qmodem_voip_sip_call_clear c"

section \<open>Registration\<close>

record qmodem_voip_sip_registration_retry =
  rr_attempts :: u64
  rr_failures :: u64
  rr_next_delay_ms :: u32
  rr_scheduled_delay_ms :: u32

abbreviation REGISTER_RETRY_INITIAL_MS :: u32 where "REGISTER_RETRY_INITIAL_MS \<equiv> 5000"
abbreviation REGISTER_RETRY_MAX_MS :: u32 where "REGISTER_RETRY_MAX_MS \<equiv> 300000"

definition qmodem_voip_sip_registration_retry_init :: qmodem_voip_sip_registration_retry where
  "qmodem_voip_sip_registration_retry_init =
     \<lparr>rr_attempts = 0, rr_failures = 0, rr_next_delay_ms = REGISTER_RETRY_INITIAL_MS, rr_scheduled_delay_ms = 0\<rparr>"

definition qmodem_voip_sip_registration_attempt ::
  "qmodem_voip_sip_registration_retry \<Rightarrow> qmodem_voip_sip_registration_retry" where
  "qmodem_voip_sip_registration_attempt r = r\<lparr>rr_attempts := rr_attempts r + 1\<rparr>"

definition qmodem_voip_sip_registration_failed ::
  "qmodem_voip_sip_registration_retry \<Rightarrow> u32 \<Rightarrow> u32 \<times> qmodem_voip_sip_registration_retry" where
  "qmodem_voip_sip_registration_failed r entropy =
     (let delay = rr_next_delay_ms r;
          jitter = ucast ((ucast delay * ucast (entropy mod 21) :: u64) div 100) :: u32
      in (delay - jitter,
          r\<lparr>rr_failures := rr_failures r + 1, rr_scheduled_delay_ms := delay - jitter,
            rr_next_delay_ms := (if delay < REGISTER_RETRY_MAX_MS div 2 then delay * 2 else REGISTER_RETRY_MAX_MS)\<rparr>))"

definition qmodem_voip_sip_registration_succeeded ::
  "qmodem_voip_sip_registration_retry \<Rightarrow> qmodem_voip_sip_registration_retry" where
  "qmodem_voip_sip_registration_succeeded r = r\<lparr>rr_next_delay_ms := REGISTER_RETRY_INITIAL_MS, rr_scheduled_delay_ms := 0\<rparr>"

definition qmodem_voip_sip_registration_retry_started ::
  "qmodem_voip_sip_registration_retry \<Rightarrow> qmodem_voip_sip_registration_retry" where
  "qmodem_voip_sip_registration_retry_started r = r\<lparr>rr_scheduled_delay_ms := 0\<rparr>"

section \<open>Authentication of a request\<close>

text \<open>\<open>strtoul(s, &end, 16)\<close> for at most eight characters.\<close>

definition hex_value :: "char \<Rightarrow> nat option" where
  "hex_value c = (let n = of_char c in
     if 48 \<le> n \<and> n \<le> 57 then Some (n - 48) else if 65 \<le> n \<and> n \<le> 70 then Some (n - 55)
     else if 97 \<le> n \<and> n \<le> 102 then Some (n - 87) else None)"

definition hex_number :: "string \<Rightarrow> nat" where
  "hex_number ds = fold (\<lambda>c n. 16 * n + the (hex_value c)) ds 0"

definition strtoul16 :: "string \<Rightarrow> u64 \<times> string" where
  "strtoul16 s =
     (let t = dropWhile is_space s;
          neg = (t \<noteq> [] \<and> hd t = CHR ''-'');
          u = (if t \<noteq> [] \<and> (hd t = CHR ''-'' \<or> hd t = CHR ''+'') then tl t else t);
          v = (if (has_prefix u ''0x'' \<or> has_prefix u ''0X'') \<and> length u > 2 \<and> hex_value (u ! 2) \<noteq> None then drop 2 u else u);
          ds = takeWhile (\<lambda>c. hex_value c \<noteq> None) v;
          n = of_nat (hex_number ds)
      in if ds = [] then (0, s) else (if neg then - n else n, dropWhile (\<lambda>c. hex_value c \<noteq> None) v))"

record digest_header =
  dh_qop :: string
  dh_nonce :: string
  dh_nc :: string

text \<open>A request: where it comes from, its header if it has one, the times the clock gives, the bytes of
  the random source, and the verdict of the library with its status.\<close>

record sip_request =
  rq_address :: u32
  rq_header :: "digest_header option"
  rq_check_time :: u64
  rq_rate_time :: u64
  rq_nonce_time :: u64
  rq_random :: "u8 list option"
  rq_verified :: bool
  rq_status :: nat

record sip_auth =
  co_nonces :: "qmodem_voip_sip_nonce list"
  co_auth_rates :: "qmodem_voip_sip_rate list"
  co_challenge_nonce :: string

text \<open>The answer: the status, whether it carries a challenge, and whether that is marked stale.\<close>

datatype sip_response = Response nat bool bool

definition request_nc :: "digest_header \<Rightarrow> u64" where
  "request_nc h = fst (strtoul16 (c_str (dh_nc h)))"

definition nonce_check :: "sip_auth \<Rightarrow> sip_request \<Rightarrow> digest_header \<Rightarrow> nat option" where
  "nonce_check app rq h =
     (if dh_qop h \<noteq> ''auth'' \<or> length (dh_nonce h) \<noteq> 32 \<or> length (dh_nc h) \<noteq> 8 then None
      else if snd (strtoul16 (c_str (dh_nc h))) \<noteq> [] then None
      else case qmodem_voip_sip_nonce_check (co_nonces app) (rq_address rq) (c_str (dh_nonce h)) (rq_check_time rq) (request_nc h) of
        (r, slot) \<Rightarrow> if r = NONCE_OK then slot else None)"

text \<open>A request that is not accepted is challenged anew, unless its source asks too often.\<close>

definition challenge :: "bool \<Rightarrow> sip_request \<Rightarrow> sip_auth \<Rightarrow> sip_response \<times> sip_auth" where
  "challenge stale rq app =
     (case qmodem_voip_sip_rate_allow (co_auth_rates app) (rq_address rq) (rq_rate_time rq) 10 of
        (allowed, rates) \<Rightarrow>
          let app1 = app\<lparr>co_auth_rates := rates\<rparr> in
          if \<not> allowed then (Response 403 False False, app1)
          else case qmodem_voip_sip_nonce_issue (rq_random rq) (co_nonces app1) (rq_address rq) (rq_nonce_time rq) of
            (None, _) \<Rightarrow> (Response 503 False False, app1)
          | (Some v, store) \<Rightarrow> (Response 401 True stale, app1\<lparr>co_nonces := store, co_challenge_nonce := v\<rparr>))"

definition authenticate :: "sip_request \<Rightarrow> sip_auth \<Rightarrow> bool \<times> sip_response option \<times> sip_auth" where
  "authenticate rq app =
     (case rq_header rq of
        None \<Rightarrow> (case challenge False rq app of (resp, app1) \<Rightarrow> (False, Some resp, app1))
      | Some h \<Rightarrow>
          (case nonce_check app rq h of
             None \<Rightarrow> (case challenge True rq app of (resp, app1) \<Rightarrow> (False, Some resp, app1))
           | Some slot \<Rightarrow>
               if \<not> rq_verified rq
               then (case qmodem_voip_sip_rate_allow (co_auth_rates app) (rq_address rq) (rq_rate_time rq) 10 of
                       (allowed, rates) \<Rightarrow>
                         (False, Some (Response (if allowed then rq_status rq else 403) False False), app\<lparr>co_auth_rates := rates\<rparr>))
               else (True, None, app\<lparr>co_nonces := qmodem_voip_sip_nonce_commit (Some slot) (request_nc h) (co_nonces app)\<rparr>)))"

end
