(* ===== verification/Sip_Properties.thy ===== *)
theory Sip_Properties
  imports Sip_Gateway
begin

text \<open>
  What the rules of the SIP service give together: nonces are used once and in order, a challenged client
  gets in, the limiter keeps every address within its budget, the descriptions the service sends are
  understood by its own parser, a call is ended once and by its peer, and the registration backs off.
\<close>

section \<open>Nonces are used once\<close>

lemma byte_nibbles: "unat (b :: u8) = 16 * unat (drop_bit 4 b) + unat (b AND 0x0f)"
proof -
  have m: "(0x0f :: u8) = mask 4" by (simp add: mask_eq_exp_minus_1)
  have "unat (drop_bit 4 b) = drop_bit 4 (take_bit 8 (unat b))" using unsigned_drop_bit_eq [of 4 b] by simp
  then have d: "unat (drop_bit 4 b) = unat b mod 256 div 16" by (simp only: drop_bit_eq_div take_bit_eq_mod) simp
  have "unat (take_bit 4 b) = take_bit 4 (unat b)" by (rule unsigned_take_bit_eq)
  then have t: "unat (b AND 0x0f) = unat b mod 16" unfolding m take_bit_eq_mask [symmetric] by (simp only: take_bit_eq_mod) simp
  have "unat b < 256" using unsigned_less [of b] by simp
  then have "unat b mod 256 = unat b" by simp
  then show ?thesis unfolding d t by simp
qed

lemma hex_text_inj: "i < 16 \<Longrightarrow> j < 16 \<Longrightarrow> hex_text ! i = hex_text ! j \<Longrightarrow> i = j"
proof -
  have "distinct hex_text" "length hex_text = 16" by (simp_all add: hex_text_def)
  then show "i < 16 \<Longrightarrow> j < 16 \<Longrightarrow> hex_text ! i = hex_text ! j \<Longrightarrow> i = j" by (simp add: nth_eq_iff_index_eq)
qed

lemma bytes_hex_inj: "bytes_hex xs = bytes_hex ys \<Longrightarrow> xs = ys"
proof (induction xs arbitrary: ys)
  case Nil
  then show ?case by (cases ys) (simp_all add: bytes_hex_def)
next
  case (Cons x xs)
  then obtain y zs where ys: "ys = y # zs" by (cases ys) (auto simp: bytes_hex_def)
  have h: "hex_text ! unat (drop_bit 4 x) = hex_text ! unat (drop_bit 4 y)" "hex_text ! unat (x AND 0x0f) = hex_text ! unat (y AND 0x0f)"
      "bytes_hex xs = bytes_hex zs"
    using Cons.prems by (simp_all add: ys bytes_hex_def)
  have "unat (drop_bit 4 x) = unat (drop_bit 4 y)" "unat (x AND 0x0f) = unat (y AND 0x0f)"
    using hex_text_inj [OF nibble_less(1) nibble_less(1) h(1)] hex_text_inj [OF nibble_less(2) nibble_less(2) h(2)] .
  then have "x = y" using byte_nibbles [of x] byte_nibbles [of y] by (simp add: word_unat_eq_iff)
  with Cons.IH [OF h(3)] ys show ?case by simp
qed

text \<open>What a request does to the nonces.\<close>

lemma nonce_slot_less: "nonce_slot store i slot ns = Some k \<Longrightarrow> (\<forall>j. slot = Some j \<longrightarrow> j < i) \<Longrightarrow> k < i + length ns"
  by (induction store i slot ns rule: nonce_slot.induct) (fastforce split: if_splits option.splits)+

lemma authenticate_cases:
  assumes "authenticate rq app = (ok, resp, app')"
  obtains (same) "\<not> ok" "co_nonces app' = co_nonces app"
  | (issued) r i where "\<not> ok" "rq_random rq = Some r" "i < length (co_nonces app)"
      "co_nonces app' = (co_nonces app)[i := zero_nonce\<lparr>no_address := rq_address rq, no_issued := rq_nonce_time rq, no_value := bytes_hex r\<rparr>]"
  | (accepted) h i where "ok" "rq_header rq = Some h" "i < length (co_nonces app)"
      "no_address (co_nonces app ! i) = rq_address rq" "no_value (co_nonces app ! i) = c_str (dh_nonce h)"
      "no_last_nc (co_nonces app ! i) < request_nc h"
      "co_nonces app' = (co_nonces app)[i := (co_nonces app ! i)\<lparr>no_last_nc := request_nc h\<rparr>]"
proof -
  obtain a rates where ra: "qmodem_voip_sip_rate_allow (co_auth_rates app) (rq_address rq) (rq_rate_time rq) 10 = (a, rates)" by fastforce
  have ch: "co_nonces app1 = co_nonces app \<or> (\<exists>r i. rq_random rq = Some r \<and> i < length (co_nonces app) \<and>
      co_nonces app1 = (co_nonces app)[i := zero_nonce\<lparr>no_address := rq_address rq, no_issued := rq_nonce_time rq, no_value := bytes_hex r\<rparr>])"
    if "challenge st rq app = (rs, app1)" for st rs app1
    using that nonce_slot_less [of "co_nonces app" 0 None "co_nonces app"]
    by (auto simp: challenge_def ra qmodem_voip_sip_nonce_issue_def Let_def split: if_splits option.splits)
  show thesis
  proof (cases "rq_header rq")
    case None
    obtain rs app1 where c: "challenge False rq app = (rs, app1)" by fastforce
    have "\<not> ok" "app' = app1" using assms None c by (simp_all add: authenticate_def)
    then show thesis using ch [OF c] that(1,2) by blast
  next
    case (Some h)
    show thesis
    proof (cases "nonce_check app rq h")
      case None
      obtain rs app1 where c: "challenge True rq app = (rs, app1)" by fastforce
      have "\<not> ok" "app' = app1" using assms Some None c by (simp_all add: authenticate_def)
      then show thesis using ch [OF c] that(1,2) by blast
    next
      case (Some i)
      note h = \<open>rq_header rq = Some h\<close>
      have f: "first_index (\<lambda>s. no_address s = rq_address rq \<and> no_value s = c_str (dh_nonce h)) (co_nonces app) = Some i"
        and nc: "no_last_nc (co_nonces app ! i) < request_nc h"
        using Some by (auto simp: nonce_check_def qmodem_voip_sip_nonce_check_def Let_def not_le split: if_splits option.splits prod.splits)
      from first_index_Some [OF f] have i: "i < length (co_nonces app)" "no_address (co_nonces app ! i) = rq_address rq"
          "no_value (co_nonces app ! i) = c_str (dh_nonce h)" by auto
      show thesis
      proof (cases "rq_verified rq")
        case True
        then have "ok" "co_nonces app' = (co_nonces app)[i := (co_nonces app ! i)\<lparr>no_last_nc := request_nc h\<rparr>]"
          using assms h Some nc by (auto simp: authenticate_def qmodem_voip_sip_nonce_commit_def)
        with that(3) h i nc show thesis by blast
      next
        case False
        then have "\<not> ok" "co_nonces app' = co_nonces app" using assms h Some ra by (auto simp: authenticate_def)
        with that(1) show thesis by blast
      qed
    qed
  qed
qed

text \<open>Every value has one slot, and the free slots belong to nobody.\<close>

definition nonces_ok :: "qmodem_voip_sip_nonce list \<Rightarrow> bool" where
  "nonces_ok store \<longleftrightarrow> (\<forall>i < length store. \<forall>j < length store. i \<noteq> j \<longrightarrow> no_value (store ! i) = no_value (store ! j) \<longrightarrow> no_value (store ! i) = []) \<and>
     (\<forall>s \<in> set store. no_value s = [] \<longrightarrow> no_address s = 0)"

text \<open>The value belongs to the address, and its counts up to \<open>n\<close> are used up.\<close>

definition used_up :: "u32 \<Rightarrow> string \<Rightarrow> u64 \<Rightarrow> qmodem_voip_sip_nonce list \<Rightarrow> bool" where
  "used_up address v n store \<longleftrightarrow> (\<forall>s \<in> set store. no_value s = v \<longrightarrow> no_address s = address \<and> n \<le> no_last_nc s)"

definition unissued :: "sip_request \<Rightarrow> qmodem_voip_sip_nonce list \<Rightarrow> bool" where
  "unissued rq store \<longleftrightarrow> (\<forall>r. rq_random rq = Some r \<longrightarrow> length r = 16 \<and> bytes_hex r \<notin> no_value ` set store)"

lemma nonces_ok_update:
  assumes "nonces_ok store" "i < length store" "no_value s \<notin> no_value ` set store \<or> no_value s = no_value (store ! i)"
    and "no_value s = [] \<longrightarrow> no_address s = 0"
  shows "nonces_ok (store[i := s])"
proof -
  have mem: "no_value (store ! k) \<in> no_value ` set store" if "k < length store" for k using that by simp
  have v: "\<forall>x \<in> set (store[i := s]). no_value x = [] \<longrightarrow> no_address x = 0"
    using assms(1,4) set_update_subset_insert [of store i s] by (auto simp: nonces_ok_def)
  have d: "no_value (store ! j) = no_value (store ! k) \<Longrightarrow> no_value (store ! j) = []"
    if "j < length store" "k < length store" "j \<noteq> k" for j k using assms(1) that by (simp add: nonces_ok_def)
  have "no_value (store ! k) = no_value s \<Longrightarrow> no_value s = []" if "k < length store" "k \<noteq> i" for k
    using assms(2,3) that mem [OF that(1)] d [of k i] by auto
  with d show ?thesis using v assms(2) unfolding nonces_ok_def by (auto simp: nth_list_update)
qed

lemma bytes_hex_nonempty: "length r = 16 \<Longrightarrow> bytes_hex r \<noteq> []"
  using bytes_hex_facts(1) [of r] by auto

lemma nonces_ok_step:
  assumes "authenticate rq app = (ok, resp, app')" "nonces_ok (co_nonces app)" "unissued rq (co_nonces app)"
  shows "nonces_ok (co_nonces app')"
  using assms(1)
proof (cases rule: authenticate_cases)
  case same
  then show ?thesis using assms(2) by simp
next
  case (issued r i)
  then show ?thesis using assms(3) bytes_hex_nonempty unfolding issued(4)
    by (intro nonces_ok_update [OF assms(2)]) (auto simp: unissued_def)
next
  case (accepted h i)
  then show ?thesis using assms(2) unfolding accepted(7)
    by (intro nonces_ok_update [OF assms(2)]) (auto simp: nonces_ok_def)
qed

lemma used_up_step:
  assumes "authenticate rq app = (ok, resp, app')" "used_up a v n (co_nonces app)"
    and "\<forall>r. rq_random rq = Some r \<longrightarrow> bytes_hex r \<noteq> v"
  shows "used_up a v n (co_nonces app')"
  using assms(1)
proof (cases rule: authenticate_cases)
  case same
  then show ?thesis using assms(2) by simp
next
  case (issued r i)
  then show ?thesis using assms(2,3) unfolding used_up_def issued(4)
    by (auto dest!: set_update_subset_insert [THEN subsetD])
next
  case (accepted h i)
  have "no_value (co_nonces app ! i) = v \<longrightarrow> no_address (co_nonces app ! i) = a \<and> n \<le> no_last_nc (co_nonces app ! i)"
    using assms(2) accepted(3) by (simp add: used_up_def)
  then show ?thesis using assms(2) accepted(6) unfolding used_up_def accepted(7)
    by (auto dest!: set_update_subset_insert [THEN subsetD])
qed

lemma accepted_used_up:
  assumes "authenticate rq app = (True, resp, app')" "nonces_ok (co_nonces app)" "rq_address rq \<noteq> 0" "rq_header rq = Some h"
  shows "used_up (rq_address rq) (c_str (dh_nonce h)) (request_nc h) (co_nonces app')" "c_str (dh_nonce h) \<in> no_value ` set (co_nonces app)"
proof -
  from assms(1) obtain i where i: "i < length (co_nonces app)" "no_address (co_nonces app ! i) = rq_address rq"
      "no_value (co_nonces app ! i) = c_str (dh_nonce h)"
      "co_nonces app' = (co_nonces app)[i := (co_nonces app ! i)\<lparr>no_last_nc := request_nc h\<rparr>]"
    by (cases rule: authenticate_cases) (use assms(4) in auto)
  have ne: "c_str (dh_nonce h) \<noteq> []" using assms(2,3) i(1-3) by (auto simp: nonces_ok_def)
  have "no_value (co_nonces app ! j) \<noteq> c_str (dh_nonce h)" if "j < length (co_nonces app)" "j \<noteq> i" for j
    using assms(2) i(1,3) ne that unfolding nonces_ok_def by metis
  then show "used_up (rq_address rq) (c_str (dh_nonce h)) (request_nc h) (co_nonces app')"
    unfolding used_up_def i(4) all_set_conv_all_nth using i(1,2) by (auto simp: nth_list_update)
  show "c_str (dh_nonce h) \<in> no_value ` set (co_nonces app)" using i(1,3) by (metis image_eqI nth_mem)
qed

lemma used_up_blocks:
  assumes "authenticate rq app = (True, resp, app')" "used_up a (c_str (dh_nonce h)) n (co_nonces app)" "rq_header rq = Some h"
  shows "rq_address rq = a \<and> n < request_nc h"
  using assms(1)
proof (cases rule: authenticate_cases)
  case (accepted h' i)
  have "co_nonces app ! i \<in> set (co_nonces app)" using accepted(3) by simp
  then show ?thesis using assms(2,3) accepted by (auto simp: used_up_def)
qed simp_all

fun auth_run :: "sip_request list \<Rightarrow> sip_auth \<Rightarrow> bool list" where
  "auth_run [] app = []"
| "auth_run (rq # rqs) app = (case authenticate rq app of (ok, _, app1) \<Rightarrow> ok # auth_run rqs app1)"

text \<open>The values the requests of a run may draw: of the right length, none twice, none in the store.\<close>

definition drawn :: "sip_request list \<Rightarrow> u8 list list" where
  "drawn rqs = List.map_filter rq_random rqs"

definition fresh_values :: "sip_request list \<Rightarrow> qmodem_voip_sip_nonce list \<Rightarrow> bool" where
  "fresh_values rqs store \<longleftrightarrow> distinct (drawn rqs) \<and> (\<forall>r \<in> set (drawn rqs). length r = 16 \<and> bytes_hex r \<notin> no_value ` set store)"

lemma drawn_Cons: "drawn (rq # rqs) = (case rq_random rq of None \<Rightarrow> drawn rqs | Some r \<Rightarrow> r # drawn rqs)"
  by (simp add: drawn_def List.map_filter_simps split: option.split)

lemma fresh_values_step:
  assumes "fresh_values (rq # rqs) (co_nonces app)" "authenticate rq app = (ok, resp, app')"
  shows "unissued rq (co_nonces app)" "fresh_values rqs (co_nonces app')"
proof -
  show "unissued rq (co_nonces app)" using assms(1) by (auto simp: fresh_values_def unissued_def drawn_Cons)
  have sub: "no_value ` set (co_nonces app') \<subseteq> no_value ` set (co_nonces app) \<union> (case rq_random rq of None \<Rightarrow> {} | Some r \<Rightarrow> {bytes_hex r})"
    using assms(2)
  proof (cases rule: authenticate_cases)
    case (issued r i)
    then show ?thesis by (auto dest!: set_update_subset_insert [THEN subsetD])
  next
    case (accepted h i)
    have "no_value (co_nonces app ! i) \<in> no_value ` set (co_nonces app)" using accepted(3) by simp
    then have "no_value ((co_nonces app ! i)\<lparr>no_last_nc := request_nc h\<rparr>) \<in> no_value ` set (co_nonces app)" by simp
    then show ?thesis unfolding accepted(7) by (auto dest!: set_update_subset_insert [THEN subsetD])
  qed auto
  have "bytes_hex r \<notin> no_value ` set (co_nonces app') \<and> length r = 16" if r: "r \<in> set (drawn rqs)" for r
  proof (cases "rq_random rq")
    case None
    then show ?thesis using assms(1) sub r by (auto simp: fresh_values_def drawn_Cons)
  next
    case (Some q)
    have "r \<noteq> q" "bytes_hex r \<notin> no_value ` set (co_nonces app)" "length r = 16"
      using assms(1) r Some by (auto simp: fresh_values_def drawn_Cons)
    moreover have "bytes_hex r \<noteq> bytes_hex q" using bytes_hex_inj [of r q] \<open>r \<noteq> q\<close> by blast
    ultimately show ?thesis using sub Some by auto
  qed
  moreover have "distinct (drawn rqs)" using assms(1) by (auto simp: fresh_values_def drawn_Cons split: option.splits)
  ultimately show "fresh_values rqs (co_nonces app')" by (simp add: fresh_values_def)
qed

lemma used_up_run:
  assumes "used_up a v n (co_nonces app)" "v \<notin> bytes_hex ` set (drawn rqs)" "j < length rqs" "auth_run rqs app ! j"
    and "rq_header (rqs ! j) = Some h" "c_str (dh_nonce h) = v"
  shows "rq_address (rqs ! j) = a \<and> n < request_nc h"
  using assms
proof (induction rqs arbitrary: app j)
  case (Cons rq rqs)
  obtain ok resp app1 where a: "authenticate rq app = (ok, resp, app1)" by (metis prod_cases3)
  show ?case
  proof (cases j)
    case 0
    then show ?thesis using Cons.prems a used_up_blocks [of rq app resp app1 a h n] by simp
  next
    case (Suc k)
    have "used_up a v n (co_nonces app1)"
      using Cons.prems(1,2) by (intro used_up_step [OF a]) (auto simp: drawn_Cons split: option.splits)
    moreover have "v \<notin> bytes_hex ` set (drawn rqs)" using Cons.prems(2) by (auto simp: drawn_Cons split: option.splits)
    ultimately show ?thesis using Cons.IH [of app1 k] Cons.prems Suc a by simp
  qed
qed simp

lemma auth_run_increasing:
  assumes "nonces_ok (co_nonces app)" "fresh_values rqs (co_nonces app)" "\<forall>rq \<in> set rqs. rq_address rq \<noteq> 0"
    and "i < j" "j < length rqs" "auth_run rqs app ! i" "auth_run rqs app ! j"
    and "rq_header (rqs ! i) = Some h" "rq_header (rqs ! j) = Some h'" "c_str (dh_nonce h) = c_str (dh_nonce h')"
  shows "rq_address (rqs ! i) = rq_address (rqs ! j) \<and> request_nc h < request_nc h'"
  using assms
proof (induction rqs arbitrary: app i j)
  case (Cons rq rqs)
  obtain ok resp app1 where a: "authenticate rq app = (ok, resp, app1)" by (metis prod_cases3)
  note f = fresh_values_step [OF Cons.prems(2) a]
  have ok1: "nonces_ok (co_nonces app1)" by (rule nonces_ok_step [OF a Cons.prems(1) f(1)])
  obtain k where j: "j = Suc k" using Cons.prems(4) by (cases j) auto
  show ?case
  proof (cases i)
    case 0
    have acc: "authenticate rq app = (True, resp, app1)" "rq_header rq = Some h" using Cons.prems(6,8) 0 a by simp_all
    note u = accepted_used_up [OF acc(1) Cons.prems(1) _ acc(2)]
    have "c_str (dh_nonce h) \<notin> bytes_hex ` set (drawn rqs)"
      using u(2) Cons.prems(2,3) by (auto simp: fresh_values_def drawn_Cons split: option.splits)
    from used_up_run [OF u(1) this, of k h'] have "rq_address (rqs ! k) = rq_address rq \<and> request_nc h < request_nc h'"
      using Cons.prems(3,5,7,9,10) j a by simp
    then show ?thesis using 0 j by simp
  next
    case (Suc m)
    then show ?thesis using Cons.IH [of app1 m k] Cons.prems j a ok1 f(2) by simp
  qed
qed simp

section \<open>The limiter is one window for each address\<close>

text \<open>What an address sees: the window it is in and its count, if it has a slot.\<close>

definition rate_view :: "u32 \<Rightarrow> qmodem_voip_sip_rate list \<Rightarrow> (u64 \<times> u32) option" where
  "rate_view a rates = map_option (\<lambda>r. (ra_window_start r, ra_count r)) (find (\<lambda>r. ra_address r = a) rates)"

text \<open>A limiter for one address.\<close>

definition window_allow :: "u64 \<Rightarrow> u32 \<Rightarrow> (u64 \<times> u32) option \<Rightarrow> bool \<times> u64 \<times> u32" where
  "window_allow now limit st =
     (let (w, c) = (case st of None \<Rightarrow> (now, 0) | Some (w, c) \<Rightarrow> if now - w \<ge> 60 then (now, 0) else (w, c))
      in if c \<ge> limit then (False, w, c) else (True, w, c + 1))"

definition zero_rate :: qmodem_voip_sip_rate where
  "zero_rate = \<lparr>ra_address = 0, ra_window_start = 0, ra_count = 0\<rparr>"

text \<open>The table holds addresses of the set, each once, with windows up to the time; the rest is unused.\<close>

definition rates_ok :: "u32 set \<Rightarrow> u64 \<Rightarrow> qmodem_voip_sip_rate list \<Rightarrow> bool" where
  "rates_ok A T rates \<longleftrightarrow> finite A \<and> 0 \<notin> A \<and> card A \<le> length rates \<and>
     (\<forall>r \<in> set rates. r = zero_rate \<or> (ra_address r \<in> A \<and> ra_window_start r \<noteq> 0 \<and> ra_window_start r \<le> T)) \<and>
     (\<forall>i < length rates. \<forall>j < length rates. i \<noteq> j \<longrightarrow> ra_address (rates ! i) = ra_address (rates ! j) \<longrightarrow> ra_address (rates ! i) = 0)"

lemma rate_slot_hit: "first_index (\<lambda>r. ra_address r = a) rs = Some k \<Longrightarrow> rate_slot a rates i slot rs = Some (i + k)"
  by (induction a rates i slot rs arbitrary: k rule: rate_slot.induct) (auto split: if_splits)

lemma rate_slot_miss:
  assumes "\<forall>r \<in> set rs. ra_address r \<noteq> a" "rs = drop i rates" "i \<le> length rates"
    and "case slot of None \<Rightarrow> i = 0 | Some j \<Rightarrow> j < i \<and> (\<forall>m < i. ra_window_start (rates ! j) \<le> ra_window_start (rates ! m))"
    and "rates \<noteq> []"
  shows "\<exists>k < length rates. rate_slot a rates i slot rs = Some k \<and> (\<forall>m < length rates. ra_window_start (rates ! k) \<le> ra_window_start (rates ! m))"
  using assms
proof (induction a rates i slot rs rule: rate_slot.induct)
  case (1 address rates i slot)
  then show ?case by (auto split: option.splits)
next
  case (2 address rates i slot r rs)
  have il: "i < length rates" and r: "r = rates ! i" and rs: "rs = drop (i + 1) rates"
    using 2(3,4) by (metis drop_all linorder_not_le list.distinct(1), metis nth_via_drop, metis drop_Suc list.sel(3) tl_drop Suc_eq_plus1)
  define slot1 where "slot1 = (case slot of None \<Rightarrow> Some i
      | Some j \<Rightarrow> if ra_window_start r < ra_window_start (rates ! j) then Some i else slot)"
  have "case slot1 of None \<Rightarrow> i + 1 = 0
      | Some j \<Rightarrow> j < i + 1 \<and> (\<forall>m < i + 1. ra_window_start (rates ! j) \<le> ra_window_start (rates ! m))"
    using 2(5) r by (auto simp: slot1_def less_Suc_eq split: option.splits)
  moreover have n: "ra_address r \<noteq> address" "\<forall>r \<in> set rs. ra_address r \<noteq> address" using 2(2) by simp_all
  moreover have "rate_slot address rates i slot (r # rs) = rate_slot address rates (i + 1) slot1 rs" using n by (simp add: slot1_def)
  ultimately show ?case using 2(1) [OF n(1), folded slot1_def, OF n(2) rs] il 2(6) by simp
qed

lemma find_update_other: "\<not> P (xs ! i) \<Longrightarrow> \<not> P y \<Longrightarrow> find P (xs[i := y]) = find P xs"
  by (induction xs arbitrary: i) (auto split: nat.splits)

lemma find_update_hit: "i < length xs \<Longrightarrow> P y \<Longrightarrow> \<forall>j < length xs. j \<noteq> i \<longrightarrow> \<not> P (xs ! j) \<Longrightarrow> find P (xs[i := y]) = Some y"
proof (induction xs arbitrary: i)
  case (Cons x xs)
  show ?case
  proof (cases i)
    case (Suc k)
    have "\<not> P x" "\<forall>j < length xs. j \<noteq> k \<longrightarrow> \<not> P (xs ! j)" using Cons.prems(3) Suc by fastforce+
    then show ?thesis using Cons Suc by simp
  qed (use Cons in simp)
qed simp

lemma find_unique: "i < length xs \<Longrightarrow> P (xs ! i) \<Longrightarrow> \<forall>j < length xs. j \<noteq> i \<longrightarrow> \<not> P (xs ! j) \<Longrightarrow> find P xs = Some (xs ! i)"
  using find_update_hit [of i xs P "xs ! i"] by simp

text \<open>An address without a slot gets an unused one.\<close>

lemma free_slot:
  assumes "rates_ok A T rates" "a \<in> A" "\<forall>r \<in> set rates. ra_address r \<noteq> a"
  shows "\<exists>i < length rates. rates ! i = zero_rate"
proof (rule ccontr)
  assume "\<not> ?thesis"
  then have all: "ra_address (rates ! i) \<in> A - {a}" if "i < length rates" for i
    using assms that by (auto simp: rates_ok_def)
  then have nz: "ra_address (rates ! i) \<noteq> 0" if "i < length rates" for i using assms(1) that by (fastforce simp: rates_ok_def)
  have "inj_on (\<lambda>i. ra_address (rates ! i)) {..<length rates}"
    using assms(1) nz by (auto simp: inj_on_def rates_ok_def)
  then have "card ((\<lambda>i. ra_address (rates ! i)) ` {..<length rates}) = length rates" by (simp add: card_image)
  moreover have "card ((\<lambda>i. ra_address (rates ! i)) ` {..<length rates}) \<le> card (A - {a})"
    using all assms(1) by (intro card_mono) (auto simp: rates_ok_def)
  moreover have "card (A - {a}) < card A" using assms(1,2) by (intro psubset_card_mono) (auto simp: rates_ok_def)
  ultimately show False using assms(1) by (simp add: rates_ok_def)
qed

lemma chosen_slot:
  assumes "rates_ok A T rates" "a \<in> A"
  obtains i where "i < length rates" "rate_slot a rates 0 None rates = Some i"
    "ra_address (rates ! i) = a \<or> (rates ! i = zero_rate \<and> (\<forall>r \<in> set rates. ra_address r \<noteq> a))"
    "\<forall>j < length rates. j \<noteq> i \<longrightarrow> ra_address (rates ! j) \<noteq> a"
proof (cases "first_index (\<lambda>r. ra_address r = a) rates")
  case None
  then have n: "\<forall>r \<in> set rates. ra_address r \<noteq> a" by (simp add: first_index_None)
  obtain z where z: "z < length rates" "rates ! z = zero_rate" using free_slot [OF assms n] by blast
  then have "rates \<noteq> []" by auto
  then obtain k where k: "k < length rates" "rate_slot a rates 0 None rates = Some k"
      "\<forall>m < length rates. ra_window_start (rates ! k) \<le> ra_window_start (rates ! m)"
    using rate_slot_miss [OF n, of 0 rates None] by auto
  then have "ra_window_start (rates ! k) = 0" using z by (metis order.antisym qmodem_voip_sip_rate.select_convs(2) word_zero_le zero_rate_def)
  moreover have "rates ! k \<in> set rates" using k(1) by simp
  ultimately have "rates ! k = zero_rate" using assms(1) by (auto simp: rates_ok_def)
  then show thesis using that [of k] k n by auto
next
  case (Some i)
  from first_index_Some [OF Some] have i: "i < length rates" "ra_address (rates ! i) = a" by auto
  have "a \<noteq> 0" using assms by (auto simp: rates_ok_def)
  then have "\<forall>j < length rates. j \<noteq> i \<longrightarrow> ra_address (rates ! j) \<noteq> a" using assms(1) i unfolding rates_ok_def by metis
  then show thesis using that [of i] i rate_slot_hit [OF Some, of rates 0 None] by simp
qed

lemma rate_allow_refines:
  assumes "rates_ok A T rates" "a \<in> A" "T \<le> now" "now \<noteq> 0" "qmodem_voip_sip_rate_allow rates a now limit = (ok, rates')"
  shows "rates_ok A now rates'" "(ok, the (rate_view a rates')) = window_allow now limit (rate_view a rates)" "rate_view a rates' \<noteq> None"
    "b \<noteq> a \<Longrightarrow> b \<noteq> 0 \<Longrightarrow> rate_view b rates' = rate_view b rates"
proof -
  obtain i where i: "i < length rates" "rate_slot a rates 0 None rates = Some i"
    "ra_address (rates ! i) = a \<or> (rates ! i = zero_rate \<and> (\<forall>r \<in> set rates. ra_address r \<noteq> a))"
    "\<forall>j < length rates. j \<noteq> i \<longrightarrow> ra_address (rates ! j) \<noteq> a"
    using chosen_slot [OF assms(1,2)] .
  have a0: "a \<noteq> 0" using assms(1,2) by (auto simp: rates_ok_def)
  define s where "s = (if ra_address (rates ! i) \<noteq> a \<or> now - ra_window_start (rates ! i) \<ge> 60
                   then \<lparr>ra_address = a, ra_window_start = now, ra_count = 0\<rparr> else rates ! i)"
  define s' where "s' = (if ra_count s \<ge> limit then s else s\<lparr>ra_count := ra_count s + 1\<rparr>)"
  have r: "rates' = rates[i := s']" "ok \<longleftrightarrow> \<not> ra_count s \<ge> limit"
    using assms(5) i(2) by (auto simp: qmodem_voip_sip_rate_allow_def Let_def s_def s'_def split: if_splits)
  have mem: "rates ! i \<in> set rates" using i(1) by simp
  have sa: "ra_address s' = a" "ra_window_start s' \<noteq> 0" "ra_window_start s' \<le> now"
    using assms(1,3,4) mem a0 i(3) by (auto simp: s'_def s_def rates_ok_def zero_rate_def)
  have v: "rate_view a rates = (if ra_address (rates ! i) = a then Some (ra_window_start (rates ! i), ra_count (rates ! i)) else None)"
    using i find_unique [of i rates "\<lambda>r. ra_address r = a"] by (auto simp: rate_view_def find_None_iff)
  have v': "rate_view a rates' = Some (ra_window_start s', ra_count s')"
    using find_update_hit [of i rates "\<lambda>r. ra_address r = a" s'] i sa by (simp add: rate_view_def r)
  show "(ok, the (rate_view a rates')) = window_allow now limit (rate_view a rates)" "rate_view a rates' \<noteq> None"
    unfolding v v' by (auto simp: window_allow_def r(2) s'_def s_def Let_def)
  show "rate_view b rates' = rate_view b rates" if "b \<noteq> a" "b \<noteq> 0"
    unfolding rate_view_def r(1) using that sa(1) i(3) by (subst find_update_other) (auto simp: zero_rate_def)
  have "\<forall>x \<in> set rates'. x = zero_rate \<or> (ra_address x \<in> A \<and> ra_window_start x \<noteq> 0 \<and> ra_window_start x \<le> now)"
    using assms(1-3) sa set_update_subset_insert [of rates i s'] unfolding rates_ok_def r(1) by (auto dest: order_trans)
  moreover have "ra_address (rates' ! j) = 0"
    if "j < length rates" "k < length rates" "j \<noteq> k" "ra_address (rates' ! j) = ra_address (rates' ! k)" for j k
  proof -
    have "j \<noteq> i \<and> k \<noteq> i" using that i(1,4) sa(1) unfolding r(1) by (metis nth_list_update_eq nth_list_update_neq)
    then show ?thesis using assms(1) that unfolding rates_ok_def r(1) by (metis nth_list_update_neq)
  qed
  ultimately show "rates_ok A now rates'" using assms(1) unfolding rates_ok_def r(1) by simp
qed

text \<open>The requests of a client that a limiter allows in a run, and the state after a run; a request is a
  client and a time.\<close>

fun allowed_to :: "('s \<Rightarrow> 'k \<Rightarrow> u64 \<Rightarrow> bool \<times> 's) \<Rightarrow> 'k \<Rightarrow> ('k \<times> u64) list \<Rightarrow> 's \<Rightarrow> nat" where
  "allowed_to allow a [] s = 0"
| "allowed_to allow a ((b, now) # rqs) s =
     (case allow s b now of (ok, s1) \<Rightarrow> (if ok \<and> b = a then 1 else 0) + allowed_to allow a rqs s1)"

fun limiter_after :: "('s \<Rightarrow> 'k \<Rightarrow> u64 \<Rightarrow> bool \<times> 's) \<Rightarrow> ('k \<times> u64) list \<Rightarrow> 's \<Rightarrow> 's" where
  "limiter_after allow [] s = s"
| "limiter_after allow ((b, now) # rqs) s = limiter_after allow rqs (snd (allow s b now))"

text \<open>Requests in the order of time, from clients of the set.\<close>

definition requests_ok :: "'k set \<Rightarrow> u64 \<Rightarrow> ('k \<times> u64) list \<Rightarrow> bool" where
  "requests_ok A T rqs \<longleftrightarrow> sorted (T # map snd rqs) \<and> (\<forall>(b, t) \<in> set rqs. b \<in> A \<and> t \<noteq> 0)"

lemma requests_ok_Cons: "requests_ok A T ((b, t) # rqs) \<longleftrightarrow> T \<le> t \<and> b \<in> A \<and> t \<noteq> 0 \<and> requests_ok A t rqs"
  by (auto simp: requests_ok_def dest: order_trans)

text \<open>How many more requests a client can make from a time on, when less than a minute is left.\<close>

definition budget :: "u64 \<Rightarrow> u32 \<Rightarrow> (u64 \<times> u32) option \<Rightarrow> nat" where
  "budget t0 limit st = (case st of None \<Rightarrow> unat limit
     | Some (w, c) \<Rightarrow> if t0 \<le> w then unat limit - unat c else unat limit - unat c + unat limit)"

lemma budget_le: "budget t0 limit st \<le> 2 * unat limit"
  by (auto simp: budget_def split: option.splits)

lemma u64_diff_less: "(w :: u64) \<le> t \<Longrightarrow> t - w \<ge> 60 \<longleftrightarrow> unat t - unat w \<ge> 60"
  by (simp add: word_le_nat_alt unat_sub)

lemma window_budget:
  assumes "window_allow t limit st = (ok, w', c')" "t0 \<le> t" "unat t < unat t0 + 60"
    and "\<forall>w c. st = Some (w, c) \<longrightarrow> w \<le> t \<and> c \<le> limit"
  shows "budget t0 limit (Some (w', c')) + (if ok then 1 else 0) \<le> budget t0 limit st" "w' \<le> t \<and> c' \<le> limit"
proof -
  define w c where "w = fst (case st of None \<Rightarrow> (t, 0) | Some (w, c) \<Rightarrow> if t - w \<ge> 60 then (t, 0) else (w, c))"
    and "c = snd (case st of None \<Rightarrow> (t, 0 :: u32) | Some (w, c) \<Rightarrow> if t - w \<ge> 60 then (t, 0) else (w, c))"
  have r: "ok \<longleftrightarrow> \<not> limit \<le> c" "w' = w" "c' = (if limit \<le> c then c else c + 1)"
    using assms(1) unfolding window_allow_def Let_def w_def c_def by (auto split: prod.splits if_splits)
  have wt: "w \<le> t" "c \<le> limit" using assms(4) by (auto simp: w_def c_def split: option.splits if_splits)
  have b: "budget t0 limit (Some (w, c)) \<le> budget t0 limit st"
  proof (cases st)
    case None
    then show ?thesis using assms(2) by (simp add: budget_def w_def c_def)
  next
    case (Some p)
    obtain v d where p: "p = (v, d)" by fastforce
    have v: "v \<le> t" using assms(4) Some p by simp
    show ?thesis
    proof (cases "t - v \<ge> 60")
      case True
      then have "\<not> t0 \<le> v" using u64_diff_less [OF v] assms(3) by (simp add: word_le_nat_alt)
      then show ?thesis using True Some p assms(2) by (simp add: budget_def w_def c_def)
    next
      case False
      then show ?thesis using Some p by (simp add: budget_def w_def c_def)
    qed
  qed
  have c1: "unat (c + 1) = unat c + 1" if "\<not> limit \<le> c"
  proof -
    have "unat c < unat limit" using that by (simp add: word_le_nat_alt)
    moreover have "unat limit < 2 ^ LENGTH(32)" by (rule unsigned_less)
    ultimately have "unat c + 1 < 2 ^ 32" by simp
    then show ?thesis by (simp add: unat_word_ariths(1))
  qed
  have "budget t0 limit (Some (w', c')) + (if ok then 1 else 0) \<le> budget t0 limit (Some (w, c))"
    using r c1 by (auto simp: budget_def word_le_nat_alt)
  with b show "budget t0 limit (Some (w', c')) + (if ok then 1 else 0) \<le> budget t0 limit st" by simp
  show "w' \<le> t \<and> c' \<le> limit" using r wt c1 by (auto simp: word_le_nat_alt)
qed

text \<open>What the service relies on: every client sees a window of its own, whatever the others do.\<close>

locale window_limiter =
  fixes allow :: "'s \<Rightarrow> 'k \<Rightarrow> u64 \<Rightarrow> bool \<times> 's"
    and view :: "'k \<Rightarrow> 's \<Rightarrow> (u64 \<times> u32) option"
    and ok :: "u64 \<Rightarrow> 's \<Rightarrow> bool"
    and clients :: "'k set"
    and limit :: u32
  assumes allow_ok: "ok T s \<Longrightarrow> a \<in> clients \<Longrightarrow> T \<le> now \<Longrightarrow> now \<noteq> 0 \<Longrightarrow> ok now (snd (allow s a now))"
    and allow_own: "ok T s \<Longrightarrow> a \<in> clients \<Longrightarrow> T \<le> now \<Longrightarrow> now \<noteq> 0 \<Longrightarrow>
      \<exists>r w c. window_allow now limit (view a s) = (r, w, c) \<and> fst (allow s a now) = r \<and> view a (snd (allow s a now)) = Some (w, c)"
    and allow_other: "ok T s \<Longrightarrow> a \<in> clients \<Longrightarrow> T \<le> now \<Longrightarrow> now \<noteq> 0 \<Longrightarrow> b \<in> clients \<Longrightarrow> b \<noteq> a \<Longrightarrow>
      view b (snd (allow s a now)) = view b s"
    and view_le: "ok T s \<Longrightarrow> a \<in> clients \<Longrightarrow> view a s = Some (w, c) \<Longrightarrow> w \<le> T"
begin

text \<open>One request: the budget of the client pays for it, and its count stays within the limit.\<close>

lemma allow_step:
  assumes "ok T s" "b \<in> clients" "a \<in> clients" "T \<le> t" "t \<noteq> 0" "\<forall>w c. view a s = Some (w, c) \<longrightarrow> c \<le> limit" "allow s b t = (r, s1)"
  shows "\<forall>w c. view a s1 = Some (w, c) \<longrightarrow> c \<le> limit"
    "t0 \<le> t \<Longrightarrow> unat t < unat t0 + 60 \<Longrightarrow> budget t0 limit (view a s1) + (if r \<and> b = a then 1 else 0) \<le> budget t0 limit (view a s)"
proof -
  have s1: "s1 = snd (allow s b t)" "r = fst (allow s b t)" using assms(7) by simp_all
  show "\<forall>w c. view a s1 = Some (w, c) \<longrightarrow> c \<le> limit"
    "t0 \<le> t \<Longrightarrow> unat t < unat t0 + 60 \<Longrightarrow> budget t0 limit (view a s1) + (if r \<and> b = a then 1 else 0) \<le> budget t0 limit (view a s)"
  proof (atomize (full), cases "b = a")
    case False
    then have "view a s1 = view a s" using allow_other [OF assms(1,2,4,5,3)] s1 by simp
    then show "(\<forall>w c. view a s1 = Some (w, c) \<longrightarrow> c \<le> limit) \<and> (t0 \<le> t \<longrightarrow> unat t < unat t0 + 60 \<longrightarrow>
        budget t0 limit (view a s1) + (if r \<and> b = a then 1 else 0) \<le> budget t0 limit (view a s))"
      using assms(6) False by simp
  next
    case True
    obtain w c where w: "window_allow t limit (view a s) = (r, w, c)" "view a s1 = Some (w, c)"
      using allow_own [OF assms(1,2,4,5)] s1 True by auto
    have st: "\<forall>w c. view a s = Some (w, c) \<longrightarrow> w \<le> t \<and> c \<le> limit"
      using view_le [OF assms(1,3)] assms(4,6) by (meson order_trans)
    note b = window_budget [OF w(1) _ _ st]
    from b(2) [of t] have "c \<le> limit" by simp
    then show "(\<forall>w c. view a s1 = Some (w, c) \<longrightarrow> c \<le> limit) \<and> (t0 \<le> t \<longrightarrow> unat t < unat t0 + 60 \<longrightarrow>
        budget t0 limit (view a s1) + (if r \<and> b = a then 1 else 0) \<le> budget t0 limit (view a s))"
      using b(1) [of t0] w(2) True by simp
  qed
qed

lemma allowed_budget:
  assumes "ok T s" "requests_ok clients T rqs" "a \<in> clients" "\<forall>(b, t) \<in> set rqs. t0 \<le> t \<and> unat t < unat t0 + 60"
    and "\<forall>w c. view a s = Some (w, c) \<longrightarrow> c \<le> limit"
  shows "allowed_to allow a rqs s \<le> budget t0 limit (view a s)"
  using assms
proof (induction rqs arbitrary: T s)
  case (Cons rq rqs)
  obtain b t where rq: "rq = (b, t)" by fastforce
  obtain r s1 where al: "allow s b t = (r, s1)" by fastforce
  have q: "T \<le> t" "b \<in> clients" "t \<noteq> 0" "requests_ok clients t rqs" using Cons.prems(2) by (simp_all add: rq requests_ok_Cons)
  have t: "t0 \<le> t" "unat t < unat t0 + 60" "\<forall>(b, t) \<in> set rqs. t0 \<le> t \<and> unat t < unat t0 + 60" using Cons.prems(4) rq by auto
  note st = allow_step [OF Cons.prems(1) q(2) Cons.prems(3) q(1,3) Cons.prems(5) al]
  have "ok t s1" using allow_ok [OF Cons.prems(1) q(2,1,3)] al by simp
  then have "allowed_to allow a rqs s1 \<le> budget t0 limit (view a s1)" by (rule Cons.IH [OF _ q(4) Cons.prems(3) t(3) st(1)])
  then show ?case using st(2) [OF t(1,2)] by (simp add: rq al)
qed simp

lemma after_ok:
  assumes "ok T s" "requests_ok clients T rqs" "a \<in> clients" "\<forall>w c. view a s = Some (w, c) \<longrightarrow> c \<le> limit"
  shows "ok (last (T # map snd rqs)) (limiter_after allow rqs s) \<and>
    (\<forall>w c. view a (limiter_after allow rqs s) = Some (w, c) \<longrightarrow> c \<le> limit)"
  using assms
proof (induction rqs arbitrary: T s)
  case (Cons rq rqs)
  obtain b t where rq: "rq = (b, t)" by fastforce
  obtain r s1 where al: "allow s b t = (r, s1)" by fastforce
  have q: "T \<le> t" "b \<in> clients" "t \<noteq> 0" "requests_ok clients t rqs" using Cons.prems(2) by (simp_all add: rq requests_ok_Cons)
  have "ok t s1" using allow_ok [OF Cons.prems(1) q(2,1,3)] al by simp
  from Cons.IH [OF this q(4) Cons.prems(3) allow_step(1) [OF Cons.prems(1) q(2) Cons.prems(3) q(1,3) Cons.prems(4) al]]
  show ?case by (simp add: rq al)
qed simp

text \<open>Within any minute a client is allowed at most twice its limit.\<close>

lemma minute_bound:
  assumes "ok 0 s" "requests_ok clients 0 (earlier @ minute)" "a \<in> clients" "view a s = None"
    and "\<forall>(b, t) \<in> set minute. t0 \<le> t \<and> unat t < unat t0 + 60"
  shows "allowed_to allow a minute (limiter_after allow earlier s) \<le> 2 * unat limit"
proof -
  have "requests_ok clients 0 earlier" and m: "requests_ok clients (last (0 # map snd earlier)) minute"
    using assms(2) by (auto simp: requests_ok_def sorted_append last_map)
  then have "ok (last (0 # map snd earlier)) (limiter_after allow earlier s)"
      "\<forall>w c. view a (limiter_after allow earlier s) = Some (w, c) \<longrightarrow> c \<le> limit"
    using after_ok [OF assms(1) _ assms(3)] assms(4) by simp_all
  from allowed_budget [OF this(1) m assms(3,5) this(2)] budget_le show ?thesis by (rule order_trans)
qed

end

lemma rate_view_le:
  assumes "rates_ok A T rates" "rate_view a rates = Some (w, c)" "a \<noteq> 0"
  shows "w \<le> T"
  using assms by (auto simp: rate_view_def find_Some_iff rates_ok_def zero_rate_def) (metis nth_mem qmodem_voip_sip_rate.select_convs(1))

interpretation sip_rates: window_limiter "\<lambda>rates a now. qmodem_voip_sip_rate_allow rates a now limit" rate_view "rates_ok A" A limit for A limit
proof
  fix T rates a now b w c
  assume ok: "rates_ok A T rates" and a: "a \<in> A"
  have n0: "x \<noteq> 0" if "x \<in> A" for x using ok that by (auto simp: rates_ok_def)
  show "rate_view a rates = Some (w, c) \<Longrightarrow> w \<le> T" by (rule rate_view_le [OF ok _ n0 [OF a]])
  assume t: "T \<le> now" "now \<noteq> 0"
  obtain r rates1 where al: "qmodem_voip_sip_rate_allow rates a now limit = (r, rates1)" by fastforce
  note ref = rate_allow_refines [OF ok a t al]
  show "rates_ok A now (snd (qmodem_voip_sip_rate_allow rates a now limit))" using ref(1) al by simp
  show "\<exists>r w c. window_allow now limit (rate_view a rates) = (r, w, c) \<and> fst (qmodem_voip_sip_rate_allow rates a now limit) = r \<and>
      rate_view a (snd (qmodem_voip_sip_rate_allow rates a now limit)) = Some (w, c)" using ref(2,3) al by auto
  show "b \<in> A \<Longrightarrow> b \<noteq> a \<Longrightarrow> rate_view b (snd (qmodem_voip_sip_rate_allow rates a now limit)) = rate_view b rates"
    using ref(4) [of b] al n0 by simp
qed

section \<open>Descriptions\<close>

lemma strtok_line:
  assumes "l \<noteq> []" "\<forall>c \<in> set l. \<not> is_line_end c"
  shows "strtok_parts is_line_end (l @ crlf @ s) = l # strtok_parts is_line_end s"
proof -
  have d: "dropWhile is_line_end (l @ crlf @ s) = l @ crlf @ s" using assms by (cases l) auto
  have e: "is_line_end CHR 0x0D" "is_line_end CHR 0x0A" by (simp_all add: is_line_end_def)
  have t: "takeWhile (\<lambda>c. \<not> is_line_end c) (l @ crlf @ s) = l" "dropWhile (\<lambda>c. \<not> is_line_end c) (l @ crlf @ s) = crlf @ s"
    using assms(2) e by (simp_all add: takeWhile_append2 dropWhile_append2)
  have "strtok_parts is_line_end (l @ crlf @ s) = l # strtok_parts is_line_end (crlf @ s)"
    by (subst strtok_parts.simps) (use assms(1) in \<open>simp only: d t Let_def, simp\<close>)
  also have "strtok_parts is_line_end (crlf @ s) = strtok_parts is_line_end s"
    by (subst (1 2) strtok_parts.simps) (simp add: e)
  finally show ?thesis .
qed

lemma strtok_end: "strtok_parts is_line_end [] = []"
  by (simp add: strtok_parts.simps)

definition plain_text :: "string \<Rightarrow> bool" where
  "plain_text s \<longleftrightarrow> s \<noteq> [] \<and> (\<forall>c \<in> set s. \<not> is_line_end c \<and> c \<noteq> CHR 0x00)"

lemma sdp_lines_join:
  assumes "\<forall>l \<in> set ls. plain_text l" "ls \<noteq> []" "length (concat (map (\<lambda>l. l @ crlf) ls)) < 2049"
  shows "sdp_lines (concat (map (\<lambda>l. l @ crlf) ls)) = Some ls"
proof -
  have "strtok_parts is_line_end (concat (map (\<lambda>l. l @ crlf) ls)) = ls" using assms(1)
    by (induction ls) (simp_all add: strtok_end strtok_line [simplified] plain_text_def)
  moreover have "c_str (concat (map (\<lambda>l. l @ crlf) ls)) = concat (map (\<lambda>l. l @ crlf) ls)"
    using assms(1) by (intro c_str_id) (auto simp: plain_text_def)
  moreover have "concat (map (\<lambda>l. l @ crlf) ls) \<noteq> []" using assms(2) by (cases ls) auto
  ultimately show ?thesis using assms(3) by (simp only: sdp_lines_def) simp
qed

lemma media_line_other:
  "\<not> has_prefix l ''c=IN IP4 '' \<Longrightarrow> \<not> has_prefix l ''m=audio '' \<Longrightarrow> media_line l st = Some st"
  by (simp add: media_line_def split: prod.splits)

lemma media_line_address:
  assumes "qmodem_voip_sip_valid_lan_address (Some address)" "length address < 16"
  shows "media_line (''c=IN IP4 '' @ address) ([], port, pcma, pcmu) = Some (address, port, pcma, pcmu)"
proof -
  have "has_prefix (''c=IN IP4 '' @ address) ''c=IN IP4 ''" "drop 9 (''c=IN IP4 '' @ address) = address"
    by (simp_all add: has_prefix_def)
  then show ?thesis using assms unfolding media_line_def by (simp only: prod.case if_True c_copy_id simp_thms if_False)
qed

lemma scan_port: "scan_unsigned ''40000 RTP/AVP 8 101'' = Some (40000, '' RTP/AVP 8 101'')"
  "scan_unsigned ''40000 RTP/AVP 0 101'' = Some (40000, '' RTP/AVP 0 101'')"
  "scan_unsigned ''40000 RTP/AVP 8 0 101'' = Some (40000, '' RTP/AVP 8 0 101'')"
  by code_simp+

lemma media_line_audio:
  "media_line ''m=audio 40000 RTP/AVP 8 101'' (address, 0, False, False) = Some (address, 40000, True, False)"
  "media_line ''m=audio 40000 RTP/AVP 0 101'' (address, 0, False, False) = Some (address, 40000, False, True)"
  "media_line ''m=audio 40000 RTP/AVP 8 0 101'' (address, 0, False, False) = Some (address, 40000, True, True)"
proof -
  have f: "strstr ''40000 RTP/AVP 8 101'' '' RTP/AVP '' = Some '' RTP/AVP 8 101''"
      "strstr ''40000 RTP/AVP 0 101'' '' RTP/AVP '' = Some '' RTP/AVP 0 101''"
      "strstr ''40000 RTP/AVP 8 0 101'' '' RTP/AVP '' = Some '' RTP/AVP 8 0 101''" by code_simp+
  have t: "offers 8 (strtok_parts (\<lambda>c. c = CHR '' '') ''8 101'')" "\<not> offers 0 (strtok_parts (\<lambda>c. c = CHR '' '') ''8 101'')"
      "\<not> offers 8 (strtok_parts (\<lambda>c. c = CHR '' '') ''0 101'')" "offers 0 (strtok_parts (\<lambda>c. c = CHR '' '') ''0 101'')"
      "offers 8 (strtok_parts (\<lambda>c. c = CHR '' '') ''8 0 101'')" "offers 0 (strtok_parts (\<lambda>c. c = CHR '' '') ''8 0 101'')"
    by code_simp+
  show "media_line ''m=audio 40000 RTP/AVP 8 101'' (address, 0, False, False) = Some (address, 40000, True, False)"
    "media_line ''m=audio 40000 RTP/AVP 0 101'' (address, 0, False, False) = Some (address, 40000, False, True)"
    "media_line ''m=audio 40000 RTP/AVP 8 0 101'' (address, 0, False, False) = Some (address, 40000, True, True)"
    by (simp_all add: media_line_def has_prefix_def f scan_port t Let_def)
qed

text \<open>The dotted text of an address.\<close>

definition digit_char :: "nat \<Rightarrow> char" where
  "digit_char n = char_of (48 + n)"

definition octet_text :: "u8 \<Rightarrow> string" where
  "octet_text b = (let n = unat b in
     if n < 10 then [digit_char n]
     else if n < 100 then [digit_char (n div 10), digit_char (n mod 10)]
     else [digit_char (n div 100), digit_char (n div 10 mod 10), digit_char (n mod 10)])"

definition dotted :: "u8 \<Rightarrow> u8 \<Rightarrow> u8 \<Rightarrow> u8 \<Rightarrow> string" where
  "dotted a b c d = octet_text a @ ''.'' @ octet_text b @ ''.'' @ octet_text c @ ''.'' @ octet_text d"

lemma digit_char_facts:
  assumes "n < 10"
  shows "of_char (digit_char n) = 48 + n" "is_digit (digit_char n)" "\<not> is_space (digit_char n)" "digit_char n \<noteq> CHR ''-''"
    "digit_char n \<noteq> CHR ''+''" "\<not> is_line_end (digit_char n)" "digit_char n \<noteq> CHR 0x00"
proof -
  have "(of_char (digit_char n) :: nat) = 48 + n" using assms by (simp add: digit_char_def)
  then show c: "of_char (digit_char n) = 48 + n" by (simp only: of_char_of)
  then show "is_digit (digit_char n)" "\<not> is_space (digit_char n)" using assms by (simp_all add: is_digit_def is_space_def)
  show "digit_char n \<noteq> CHR ''-''" "digit_char n \<noteq> CHR ''+''" "\<not> is_line_end (digit_char n)" "digit_char n \<noteq> CHR 0x00"
    using c by (auto simp: is_line_end_def)
qed

lemma octet_digits: "n < 256 \<Longrightarrow> n div 100 < 10" "n < 100 \<Longrightarrow> n div 10 < 10" for n :: nat by auto

lemma octet_value: "10 * int (n div 10) + int (n mod 10) = int n" "100 * int (n div 100) + (10 * int (n div 10 mod 10) + int (n mod 10)) = int n"
proof -
  have a: "10 * int (m div 10) + int (m mod 10) = int m" for m
    by (simp add: zdiv_int zmod_int)
  show "10 * int (n div 10) + int (n mod 10) = int n" by (rule a)
  have "n div 100 = n div 10 div 10" by (simp add: div_mult2_eq [symmetric])
  then show "100 * int (n div 100) + (10 * int (n div 10 mod 10) + int (n mod 10)) = int n"
    using a [of n] a [of "n div 10"] by linarith
qed

lemma octet_text_facts: "octet_text b \<noteq> []" "length (octet_text b) \<le> 3" "\<forall>c \<in> set (octet_text b). is_digit c \<and> \<not> is_line_end c \<and> c \<noteq> CHR 0x00"
    "\<not> is_space (hd (octet_text b))" "hd (octet_text b) \<noteq> CHR ''-''" "hd (octet_text b) \<noteq> CHR ''+''"
    "digits_value 0 (octet_text b) = uint b"
proof -
  have b: "unat b < 256" using unsigned_less [of b] by simp
  show "octet_text b \<noteq> []" "length (octet_text b) \<le> 3" by (simp_all add: octet_text_def Let_def)
  show "\<forall>c \<in> set (octet_text b). is_digit c \<and> \<not> is_line_end c \<and> c \<noteq> CHR 0x00"
    "\<not> is_space (hd (octet_text b))" "hd (octet_text b) \<noteq> CHR ''-''" "hd (octet_text b) \<noteq> CHR ''+''"
    using octet_digits [of "unat b"] b by (auto simp: octet_text_def Let_def digit_char_facts)
  have "digits_value 0 (octet_text b) = int (unat b)"
  proof -
    consider "unat b < 10" | "10 \<le> unat b" "unat b < 100" | "100 \<le> unat b" by linarith
    then show ?thesis
    proof cases
      case 1
      then show ?thesis by (simp add: octet_text_def digit_char_facts)
    next
      case 2
      then show ?thesis using octet_digits(2) [of "unat b"] octet_value(1) [of "unat b"]
        by (simp add: octet_text_def Let_def digit_char_facts)
    next
      case 3
      then show ?thesis using octet_digits(1) [of "unat b"] octet_value(2) [of "unat b"] b
        by (simp add: octet_text_def Let_def digit_char_facts)
    qed
  qed
  then show "digits_value 0 (octet_text b) = uint b" by simp
qed

lemma scan_digits:
  assumes "\<forall>c \<in> set (c # cs). is_digit c" "\<not> is_space c" "c \<noteq> CHR ''-''" "c \<noteq> CHR ''+''"
    and "rest = [] \<or> \<not> is_digit (hd rest)" "digits_value 0 (c # cs) \<le> 2 ^ 64 - 1"
  shows "scan_unsigned ((c # cs) @ rest) = Some (word_of_int (digits_value 0 (c # cs)), rest)"
proof -
  define ds where "ds = c # cs"
  have d: "dropWhile is_space (ds @ rest) = ds @ rest" "hd (ds @ rest) = c" "ds @ rest \<noteq> []" "ds \<noteq> []"
    using assms(2) by (simp_all add: ds_def)
  have "takeWhile is_digit rest = []" "dropWhile is_digit rest = rest" using assms(5) by (cases rest; simp)+
  then have t: "takeWhile is_digit (ds @ rest) = ds" "dropWhile is_digit (ds @ rest) = rest"
    using assms(1) unfolding ds_def [symmetric] by (simp_all add: takeWhile_append2 dropWhile_append2)
  have v: "\<not> digits_value 0 ds > 2 ^ 64 - 1" using assms(6) unfolding ds_def [symmetric] by linarith
  show ?thesis unfolding ds_def [symmetric] scan_unsigned_def Let_def
    by (simp only: d t v assms(3,4) if_False simp_thms)
qed

lemma scan_octet:
  assumes "rest = [] \<or> \<not> is_digit (hd rest)"
  shows "scan_unsigned (octet_text b @ rest) = Some (ucast b, rest)"
proof -
  note f = octet_text_facts [of b]
  obtain c cs where o: "octet_text b = c # cs" using f(1) by (cases "octet_text b") auto
  have "digits_value 0 (octet_text b) \<le> 2 ^ 64 - 1" using uint_lt2p [of b] f(7) by simp
  then have "scan_unsigned (octet_text b @ rest) = Some (word_of_int (digits_value 0 (octet_text b)), rest)"
    using scan_digits [of c cs rest] f(3,4,5,6) assms unfolding o by simp
  then show ?thesis by (simp only: f(7)) simp
qed

lemma dotted_valid: "(a, b, c, d) \<noteq> (0, 0, 0, 0) \<Longrightarrow> qmodem_voip_sip_valid_lan_address (Some (dotted a b c d))"
proof -
  assume n: "(a, b, c, d) \<noteq> (0, 0, 0, 0)"
  have s: "scan_dot (octet_text x @ ''.'' @ rest) = Some (ucast x, rest)" for x rest
    by (simp add: scan_dot_def scan_octet is_digit_def)
  have "scan_address (dotted a b c d) = Some (ucast a, ucast b, ucast c, ucast d)"
    using scan_octet [of "[]" d] by (simp only: scan_address_def dotted_def s option.case prod.case) simp
  moreover have "(ucast x :: u32) \<le> 255" "(ucast x :: u32) = 0 \<longleftrightarrow> x = 0" for x :: u8
  proof -
    have "uint x < 256" using uint_lt2p [of x] by simp
    then show "(ucast x :: u32) \<le> 255" by (simp add: word_le_def unsigned_ucast_eq take_bit_int_eq_self)
    show "(ucast x :: u32) = 0 \<longleftrightarrow> x = 0" by transfer simp
  qed
  ultimately show ?thesis using n by (simp add: qmodem_voip_sip_valid_lan_address_def)
qed

lemma dotted_facts: "length (dotted a b c d) < 16" "plain_text (dotted a b c d)"
proof -
  show "length (dotted a b c d) < 16"
    using octet_text_facts(2) [of a] octet_text_facts(2) [of b] octet_text_facts(2) [of c] octet_text_facts(2) [of d] by (simp add: dotted_def)
  have "\<not> is_line_end CHR ''.''" by (simp add: is_line_end_def)
  then show "plain_text (dotted a b c d)"
    using octet_text_facts(3) [of a] octet_text_facts(3) [of b] octet_text_facts(3) [of c] octet_text_facts(3) [of d]
    by (auto simp: dotted_def plain_text_def)
qed

definition text_of :: "string list \<Rightarrow> string" where
  "text_of ls = concat (map (\<lambda>l. l @ crlf) ls)"

definition description_lines :: "string \<Rightarrow> string \<Rightarrow> string list \<Rightarrow> string list" where
  "description_lines address formats maps =
     ''v=0'' # (''o=qmodem_voip 1 1 IN IP4 '' @ address) # ''s=QModem VoIP'' # (''c=IN IP4 '' @ address) # ''t=0 0'' #
      (''m=audio 40000 RTP/AVP '' @ formats) # maps @ [''a=rtpmap:101 telephone-event/8000'', ''a=sendrecv'']"

lemma answer_lines:
  assumes "inet_pton address" "plain_text address" "length address < 16" "payload = 8 \<or> payload = 0"
  shows "lan_answer_body inet_pton address payload = Some (text_of (description_lines address (if payload = 8 then ''8 101'' else ''0 101'')
    [if payload = 8 then ''a=rtpmap:8 PCMA/8000'' else ''a=rtpmap:0 PCMU/8000'']))"
proof -
  have "c_str address = address" "address \<noteq> []" using assms(2) by (auto simp: plain_text_def intro: c_str_id)
  then show ?thesis using assms unfolding lan_answer_body_def text_of_def description_lines_def by auto
qed

lemma offer_lines:
  assumes "length address < 16"
  shows "incoming_offer_body address = Some (text_of (description_lines address ''8 0 101'' [''a=rtpmap:8 PCMA/8000'', ''a=rtpmap:0 PCMU/8000'']))"
  using assms unfolding incoming_offer_body_def text_of_def description_lines_def by simp

lemma description_split:
  assumes "plain_text address" "length address < 16" "plain_text formats" "length formats < 16" "\<forall>l \<in> set maps. plain_text l \<and> length l < 24" "length maps < 3"
  shows "sdp_lines (text_of (description_lines address formats maps)) = Some (description_lines address formats maps)"
  unfolding text_of_def
proof (rule sdp_lines_join)
  show "\<forall>l \<in> set (description_lines address formats maps). plain_text l"
    using assms(1,3,5) by (auto simp: description_lines_def plain_text_def is_line_end_def)
  show "description_lines address formats maps \<noteq> []" by (simp add: description_lines_def)
  have "length (concat (map (\<lambda>l. l @ crlf) maps)) \<le> 26 * length maps" using assms(5) by (induction maps) auto
  then show "length (concat (map (\<lambda>l. l @ crlf) (description_lines address formats maps))) < 2049"
    using assms(2,4,6) by (simp add: description_lines_def)
qed

lemma fold_option_append: "fold_option f (xs @ ys) s = (case fold_option f xs s of None \<Rightarrow> None | Some s1 \<Rightarrow> fold_option f ys s1)"
  by (induction xs arbitrary: s) (auto split: option.split)

lemma media_maps:
  "media_line ''a=rtpmap:8 PCMA/8000'' st = Some st" "media_line ''a=rtpmap:0 PCMU/8000'' st = Some st"
  "media_line ''a=rtpmap:101 telephone-event/8000'' st = Some st" "media_line ''a=sendrecv'' st = Some st"
  "media_line ''v=0'' st = Some st" "media_line ''s=QModem VoIP'' st = Some st" "media_line ''t=0 0'' st = Some st"
  "media_line (''o=qmodem_voip 1 1 IN IP4 '' @ address) st = Some st"
  by (rule media_line_other; simp add: has_prefix_def)+

lemma description_media:
  assumes "qmodem_voip_sip_valid_lan_address (Some address)" "length address < 16" "address \<noteq> []"
    and "set maps \<subseteq> {''a=rtpmap:8 PCMA/8000'', ''a=rtpmap:0 PCMU/8000''}"
    and "media_line (''m=audio 40000 RTP/AVP '' @ formats) (address, 0, False, False) = Some (address, 40000, pcma, pcmu)"
  shows "fold_option media_line (description_lines address formats maps) ([], 0, False, False) = Some (address, 40000, pcma, pcmu)"
proof -
  have "fold_option media_line maps st = Some st" for st using assms(4) by (induction maps) (auto simp: media_maps)
  then show ?thesis
    by (simp only: description_lines_def fold_option_append fold_option.simps media_maps media_line_address [OF assms(1,2)]
        assms(5) option.case)
qed

lemma sdp_others:
  "sdp_line ''a=rtpmap:101 telephone-event/8000'' st = Some st" "sdp_line ''a=sendrecv'' st = Some st"
  "sdp_line ''v=0'' st = Some st" "sdp_line ''s=QModem VoIP'' st = Some st" "sdp_line ''t=0 0'' st = Some st"
  "sdp_line (''o=qmodem_voip 1 1 IN IP4 '' @ address) st = Some st" "sdp_line (''c=IN IP4 '' @ address) st = Some st"
  by (simp_all add: sdp_line_def has_prefix_def split: prod.splits)

lemma description_valid:
  assumes "sdp_line (''m=audio 40000 RTP/AVP '' @ formats) (0, False, False) = Some (40000, pcma, pcmu)" "pcma \<or> pcmu"
    and "set maps \<subseteq> {''a=rtpmap:8 PCMA/8000'', ''a=rtpmap:0 PCMU/8000''}"
  shows "\<exists>pcma pcmu. fold_option sdp_line (description_lines address formats maps) (0, False, False) = Some (40000, pcma, pcmu) \<and> (pcma \<or> pcmu)"
proof -
  have m: "sdp_line ''a=rtpmap:8 PCMA/8000'' (port, pcma, pcmu) = Some (port, True, pcmu)"
    "sdp_line ''a=rtpmap:0 PCMU/8000'' (port, pcma, pcmu) = Some (port, pcma, True)" for port pcma pcmu
    by (simp_all add: sdp_line_def has_prefix_def)
  have "\<exists>pcma' pcmu'. fold_option sdp_line maps (40000, pcma, pcmu) = Some (40000, pcma', pcmu') \<and> (pcma' \<or> pcmu')"
    using assms(2,3) by (induction maps arbitrary: pcma pcmu) (auto simp: m)
  then show ?thesis
    by (elim exE conjE) (simp only: description_lines_def fold_option_append fold_option.simps sdp_others assms(1) option.case, blast)
qed

lemma sdp_audio:
  "sdp_line ''m=audio 40000 RTP/AVP 8 101'' (0, False, False) = Some (40000, True, False)"
  "sdp_line ''m=audio 40000 RTP/AVP 0 101'' (0, False, False) = Some (40000, False, True)"
  "sdp_line ''m=audio 40000 RTP/AVP 8 0 101'' (0, False, False) = Some (40000, True, True)"
  by code_simp+

section \<open>The end of a call\<close>

text \<open>A request to end the call: CANCEL of the transaction, or BYE. \<open>er_action\<close> is what ending the
  cellular call would give.\<close>

record end_request =
  er_branch :: "string option"
  er_authenticated :: bool
  er_call_id :: "string option"
  er_remote_tag :: "string option"
  er_cseq :: u32
  er_action :: "int option"

datatype end_kind = Cancel_Request end_request | Bye_Request end_request

fun end_request_of :: "end_kind \<Rightarrow> end_request" where
  "end_request_of (Cancel_Request e) = e"
| "end_request_of (Bye_Request e) = e"

fun end_step :: "end_kind \<Rightarrow> qmodem_voip_sip_call \<Rightarrow> nat \<times> bool \<times> qmodem_voip_sip_call" where
  "end_step (Cancel_Request e) c =
     qmodem_voip_sip_call_cancel c (er_authenticated e) (er_call_id e) (er_remote_tag e) (er_branch e) (er_cseq e) (er_action e)"
| "end_step (Bye_Request e) c = qmodem_voip_sip_call_bye c (er_authenticated e) (er_call_id e) (er_remote_tag e) (er_action e)"

text \<open>The answers of a run with whether the action ran.\<close>

fun end_run :: "end_kind list \<Rightarrow> qmodem_voip_sip_call \<Rightarrow> (nat \<times> bool) list" where
  "end_run [] c = []"
| "end_run (e # es) c = (case end_step e c of (status, acted, c1) \<Rightarrow> (status, acted) # end_run es c1)"

lemma end_call_cases:
  assumes "end_call c auth ci rt cseq cancel action = (status, acted, c')"
  obtains "status \<noteq> 200" "c' = c" "acted \<longrightarrow> auth \<and> sc_active c \<and> ci = Some (sc_call_id c) \<and> rt = Some (sc_remote_tag c)" "status \<in> {401, 481} \<or> sc_active c"
  | "status = 200" "acted" "c' = qmodem_voip_sip_call_clear c" "auth" "sc_active c" "ci = Some (sc_call_id c)" "rt = Some (sc_remote_tag c)"
      "action = Some 0"
  using assms unfolding end_call_def by (auto split: if_splits option.splits)

lemma end_step_cases:
  assumes "end_step e c = (status, acted, c')"
  obtains "status \<noteq> 200" "c' = c" "sc_active c \<or> (status \<in> {401, 481} \<and> \<not> acted)"
      "acted \<longrightarrow> er_authenticated (end_request_of e) \<and> er_call_id (end_request_of e) = Some (sc_call_id c) \<and> er_remote_tag (end_request_of e) = Some (sc_remote_tag c)"
  | "status = 200" "acted" "\<not> sc_active c'" "sc_active c" "er_authenticated (end_request_of e)" "er_call_id (end_request_of e) = Some (sc_call_id c)"
      "er_remote_tag (end_request_of e) = Some (sc_remote_tag c)" "er_action (end_request_of e) = Some 0"
proof (cases e)
  case (Bye_Request x)
  have "end_call c (er_authenticated x) (er_call_id x) (er_remote_tag x) 0 False (er_action x) = (status, acted, c')"
    using assms Bye_Request by (simp add: qmodem_voip_sip_call_bye_def)
  then show ?thesis by (rule end_call_cases) (rule that; auto simp: Bye_Request qmodem_voip_sip_call_clear_def)+
next
  case (Cancel_Request x)
  show ?thesis
  proof (cases "er_branch x = Some (sc_branch c)")
    case True
    then have "end_call c (er_authenticated x) (er_call_id x) (er_remote_tag x) (er_cseq x) True (er_action x) = (status, acted, c')"
      using assms Cancel_Request by (simp add: qmodem_voip_sip_call_cancel_def)
    then show ?thesis by (rule end_call_cases) (rule that; auto simp: Cancel_Request qmodem_voip_sip_call_clear_def)+
  next
    case False
    then show ?thesis using assms Cancel_Request that(1) by (auto simp: qmodem_voip_sip_call_cancel_def split: if_splits)
  qed
qed

lemma end_run_inactive: "\<not> sc_active c \<Longrightarrow> x \<in> set (end_run es c) \<Longrightarrow> fst x \<in> {401, 481} \<and> \<not> snd x"
proof (induction es)
  case (Cons e es)
  obtain st ac c1 where s: "end_step e c = (st, ac, c1)" by (metis prod_cases3)
  from s Cons.prems(1) have "c1 = c" "st \<in> {401, 481}" "\<not> ac" by (auto elim: end_step_cases)
  then show ?case using Cons s by auto
qed simp

lemma length_end_run [simp]: "length (end_run es c) = length es"
  by (induction es c rule: end_run.induct) (auto split: prod.split)

lemma end_run_acted:
  assumes "i < length es" "snd (end_run es c ! i)"
  shows "er_authenticated (end_request_of (es ! i)) \<and> er_call_id (end_request_of (es ! i)) = Some (sc_call_id c) \<and>
    er_remote_tag (end_request_of (es ! i)) = Some (sc_remote_tag c)"
  using assms
proof (induction es arbitrary: i)
  case (Cons e es)
  obtain st ac c1 where s: "end_step e c = (st, ac, c1)" by (metis prod_cases3)
  from s show ?case
  proof (cases rule: end_step_cases)
    case 1
    then show ?thesis using Cons s by (cases i) auto
  next
    case 2
    then have "\<not> snd (end_run es c1 ! k)" if "k < length es" for k using end_run_inactive [of c1 "end_run es c1 ! k" es] that by simp
    then show ?thesis using Cons.prems 2 s by (cases i) auto
  qed
qed simp

lemma end_run_once:
  assumes "i < j" "j < length es" "fst (end_run es c ! i) = 200"
  shows "fst (end_run es c ! j) \<in> {401, 481} \<and> \<not> snd (end_run es c ! j)"
  using assms
proof (induction es arbitrary: i j)
  case (Cons e es)
  obtain st ac c1 where s: "end_step e c = (st, ac, c1)" by (metis prod_cases3)
  obtain k where j: "j = Suc k" "k < length es" using Cons.prems(1,2) by (cases j) auto
  from s show ?case
  proof (cases rule: end_step_cases)
    case 1
    then obtain m where "i = Suc m" using Cons.prems(3) s by (cases i) auto
    then show ?thesis using Cons.IH [of m k] Cons.prems s j 1(2) by simp
  next
    case 2
    then show ?thesis using end_run_inactive [of c1 "end_run es c1 ! k" es] j s by simp
  qed
qed simp

section \<open>The delays of the registration\<close>

datatype registration_event = Attempted | Failed u32 | Succeeded | Retry_Started

fun registration_step :: "registration_event \<Rightarrow> qmodem_voip_sip_registration_retry \<Rightarrow> qmodem_voip_sip_registration_retry" where
  "registration_step Attempted r = qmodem_voip_sip_registration_attempt r"
| "registration_step (Failed entropy) r = snd (qmodem_voip_sip_registration_failed r entropy)"
| "registration_step Succeeded r = qmodem_voip_sip_registration_succeeded r"
| "registration_step Retry_Started r = qmodem_voip_sip_registration_retry_started r"

text \<open>The failures since the last success.\<close>

fun failures_in_row :: "registration_event list \<Rightarrow> nat \<Rightarrow> nat" where
  "failures_in_row [] n = n"
| "failures_in_row (Failed e # es) n = failures_in_row es (n + 1)"
| "failures_in_row (Succeeded # es) n = failures_in_row es 0"
| "failures_in_row (_ # es) n = failures_in_row es n"

definition backoff_ms :: "nat \<Rightarrow> nat" where
  "backoff_ms n = min 300000 (5000 * 2 ^ n)"

lemma backoff_step:
  assumes "unat (d :: u32) = backoff_ms n"
  shows "unat (if d < REGISTER_RETRY_MAX_MS div 2 then d * 2 else REGISTER_RETRY_MAX_MS) = backoff_ms (n + 1)"
proof (cases "d < REGISTER_RETRY_MAX_MS div 2")
  case True
  then have "unat d < 150000" by (simp add: word_less_nat_alt)
  then have "backoff_ms n < 150000" "unat (d * 2) = unat d * 2" using assms by (simp_all add: unat_word_ariths)
  then show ?thesis using True assms by (simp add: backoff_ms_def min_def split: if_splits)
next
  case False
  then have "unat d \<ge> 150000" by (simp add: word_less_nat_alt)
  then have "5000 * 2 ^ n \<ge> (150000 :: nat)" using assms by (simp add: backoff_ms_def)
  then show ?thesis using False by (simp add: backoff_ms_def)
qed

lemma registration_delay:
  assumes "unat (rr_next_delay_ms r) = backoff_ms n"
  shows "unat (rr_next_delay_ms (fold registration_step es r)) = backoff_ms (failures_in_row es n)"
  using assms
proof (induction es arbitrary: r n)
  case (Cons e es)
  show ?case
  proof (cases e)
    case (Failed x)
    have "unat (rr_next_delay_ms (registration_step e r)) = backoff_ms (n + 1)"
      using backoff_step [OF Cons.prems] unfolding Failed by (simp add: qmodem_voip_sip_registration_failed_def Let_def)
    from Cons.IH [OF this] show ?thesis using Failed by simp
  next
    case Succeeded
    have "unat (rr_next_delay_ms (registration_step e r)) = backoff_ms 0"
      by (simp add: Succeeded qmodem_voip_sip_registration_succeeded_def backoff_ms_def)
    from Cons.IH [OF this] show ?thesis using Succeeded by simp
  qed (use Cons in \<open>simp_all add: qmodem_voip_sip_registration_attempt_def qmodem_voip_sip_registration_retry_started_def\<close>)
qed simp

lemma failed_delay:
  assumes "unat (rr_next_delay_ms r) = D" "D \<le> 300000" "qmodem_voip_sip_registration_failed r entropy = (delay, r')"
  shows "unat delay \<le> D" "4 * D \<le> 5 * unat delay" "rr_scheduled_delay_ms r' = delay"
proof -
  let ?d = "rr_next_delay_ms r" and ?e = "unat (entropy mod 21)"
  define j where "j = (ucast ((ucast ?d * ucast (entropy mod 21) :: u64) div 100) :: u32)"
  have e: "?e \<le> 20" by (simp add: unat_mod less_Suc_eq_le [symmetric])
  have "unat (ucast ?d * ucast (entropy mod 21) :: u64) = D * ?e"
  proof -
    have "D * ?e \<le> 300000 * 20" using assms(2) e by (rule mult_le_mono)
    moreover have "unat (ucast x :: u64) = unat x" for x :: u32
    proof -
      have "unat x < 2 ^ LENGTH(32)" by (rule unsigned_less)
      then show ?thesis by (simp add: unsigned_ucast_eq take_bit_nat_eq_self)
    qed
    ultimately show ?thesis using assms(1) by (simp add: unat_word_ariths del: unat_mod)
  qed
  then have u: "unat ((ucast ?d * ucast (entropy mod 21) :: u64) div 100) = D * ?e div 100" by (simp add: unat_div)
  have b: "D * ?e div 100 \<le> D div 5"
  proof -
    have "D * ?e div 100 \<le> D * 20 div 100" using e by (intro div_le_mono mult_le_mono2)
    then show ?thesis by simp
  qed
  have j: "unat j = D * ?e div 100"
    using b assms(2) u by (simp add: j_def unsigned_ucast_eq take_bit_nat_eq_self)
  have le: "unat j \<le> unat ?d" using b j assms(1) by (simp add: div_le_dividend order_trans)
  have r: "delay = ?d - j" "rr_scheduled_delay_ms r' = delay"
    using assms(3) unfolding qmodem_voip_sip_registration_failed_def Let_def j_def by auto
  have d: "unat delay = D - D * ?e div 100" using r(1) le j assms(1) by (simp add: unat_sub word_le_nat_alt)
  show "unat delay \<le> D" "4 * D \<le> 5 * unat delay" using d b by linarith+
  show "rr_scheduled_delay_ms r' = delay" by (rule r(2))
qed

section \<open>Properties\<close>

definition first_nc :: string where
  "first_nc = ''00000001''"

lemma first_nc_value: "strtoul16 first_nc = (1, [])" "c_str first_nc = first_nc" "length first_nc = 8"
  by code_simp+

lemma bytes_hex_c_str: "c_str (bytes_hex r) = bytes_hex r"
  by (intro c_str_id) (use bytes_hex_facts(2) hex_chars in blast)

lemma challenge_issues:
  assumes "rq_header rq = None" "fst (qmodem_voip_sip_rate_allow (co_auth_rates app) (rq_address rq) (rq_rate_time rq) 10)"
    and "rq_random rq = Some r" "co_nonces app \<noteq> []"
  shows "\<exists>app1 i. authenticate rq app = (False, Some (Response 401 True False), app1) \<and> i < length (co_nonces app) \<and> co_challenge_nonce app1 = bytes_hex r \<and>
    co_nonces app1 = (co_nonces app)[i := zero_nonce\<lparr>no_address := rq_address rq, no_issued := rq_nonce_time rq, no_value := bytes_hex r\<rparr>]"
proof -
  obtain rates where ra: "qmodem_voip_sip_rate_allow (co_auth_rates app) (rq_address rq) (rq_rate_time rq) 10 = (True, rates)"
    using assms(2) by (metis eq_fst_iff)
  have "\<exists>k. nonce_slot store i slot ns = Some k" if "slot \<noteq> None \<or> ns \<noteq> []" for store i slot ns
    using that by (induction store i slot ns rule: nonce_slot.induct) (auto split: option.splits)
  then obtain i where i: "nonce_slot (co_nonces app) 0 None (co_nonces app) = Some i" using assms(4) by blast
  then have "i < length (co_nonces app)" using nonce_slot_less [OF i] by simp
  then show ?thesis using i by (simp add: authenticate_def challenge_def ra assms(1,3) qmodem_voip_sip_nonce_issue_def) blast
qed

lemma answer_accepted:
  assumes "i < length (co_nonces app)" "no_value (co_nonces app ! i) = bytes_hex r" "no_address (co_nonces app ! i) = rq_address rq"
    and "\<forall>j < length (co_nonces app). j \<noteq> i \<longrightarrow> no_value (co_nonces app ! j) \<noteq> bytes_hex r" "length r = 16"
    and "no_last_nc (co_nonces app ! i) = 0" "no_issued (co_nonces app ! i) \<le> rq_check_time rq" "rq_check_time rq - no_issued (co_nonces app ! i) < 60"
    and "rq_header rq = Some \<lparr>dh_qop = ''auth'', dh_nonce = bytes_hex r, dh_nc = first_nc\<rparr>" "rq_verified rq"
  shows "authenticate rq app = (True, None, app\<lparr>co_nonces := (co_nonces app)[i := (co_nonces app ! i)\<lparr>no_last_nc := 1\<rparr>]\<rparr>)"
proof -
  let ?h = "\<lparr>dh_qop = ''auth'', dh_nonce = bytes_hex r, dh_nc = first_nc\<rparr>"
  have f: "first_index (\<lambda>s. no_address s = rq_address rq \<and> no_value s = bytes_hex r) (co_nonces app) = Some i"
    by (rule first_index_unique) (use assms(1-4) in auto)
  have nc: "request_nc ?h = 1" by (simp add: request_nc_def first_nc_value)
  have "qmodem_voip_sip_nonce_check (co_nonces app) (rq_address rq) (bytes_hex r) (rq_check_time rq) 1 = (NONCE_OK, Some i)"
    using assms(6-8) by (simp add: qmodem_voip_sip_nonce_check_def f Let_def not_le not_less)
  then have "nonce_check app rq ?h = Some i"
    by (simp add: nonce_check_def bytes_hex_c_str first_nc_value nc bytes_hex_facts(1) assms(5))
  then show ?thesis using assms(6,9,10) nc by (simp add: authenticate_def qmodem_voip_sip_nonce_commit_def)
qed

text \<open>C17: a challenged client gets in, once. A request without credentials, from a source within its
  rate, is challenged with a new value; the same source is accepted when it answers within a minute with
  that value, the count one and a digest the library verifies, and the same request sent again is not.\<close>

theorem sip_challenge_answered:
  assumes "rq_header rq = None" "fst (qmodem_voip_sip_rate_allow (co_auth_rates app) (rq_address rq) (rq_rate_time rq) 10)"
    and "rq_random rq = Some r" "length r = 16" "bytes_hex r \<notin> no_value ` set (co_nonces app)" "co_nonces app \<noteq> []"
    and "rq_address answer = rq_address rq" "rq_nonce_time rq \<le> rq_check_time answer" "rq_check_time answer - rq_nonce_time rq < 60"
    and "rq_header answer = Some \<lparr>dh_qop = ''auth'', dh_nonce = bytes_hex r, dh_nc = first_nc\<rparr>" "rq_verified answer"
    and "nonces_ok (co_nonces app)" "rq_address rq \<noteq> 0"
  shows "\<exists>app1 app2. authenticate rq app = (False, Some (Response 401 True False), app1) \<and> co_challenge_nonce app1 = bytes_hex r \<and>
    authenticate answer app1 = (True, None, app2) \<and> \<not> fst (authenticate answer app2)"
proof -
  obtain app1 i where c: "authenticate rq app = (False, Some (Response 401 True False), app1)" "i < length (co_nonces app)"
      "co_challenge_nonce app1 = bytes_hex r"
      "co_nonces app1 = (co_nonces app)[i := zero_nonce\<lparr>no_address := rq_address rq, no_issued := rq_nonce_time rq, no_value := bytes_hex r\<rparr>]"
    using challenge_issues [OF assms(1-3,6)] by blast
  have other: "\<forall>j < length (co_nonces app1). j \<noteq> i \<longrightarrow> no_value (co_nonces app1 ! j) \<noteq> bytes_hex r"
    using assms(5) c(4) by (auto simp: nth_list_update) (metis imageI nth_mem)
  have i: "co_nonces app1 ! i = zero_nonce\<lparr>no_address := rq_address rq, no_issued := rq_nonce_time rq, no_value := bytes_hex r\<rparr>"
    "i < length (co_nonces app1)" using c(2,4) by simp_all
  define app2 where "app2 = app1\<lparr>co_nonces := (co_nonces app1)[i := (co_nonces app1 ! i)\<lparr>no_last_nc := 1\<rparr>]\<rparr>"
  have a: "authenticate answer app1 = (True, None, app2)" unfolding app2_def
    by (rule answer_accepted [OF i(2)]) (use i other assms(4,7-11) in \<open>simp_all add: zero_nonce_def\<close>)
  have un: "unissued rq (co_nonces app)" using assms(3-5) by (simp add: unissued_def)
  have ok1: "nonces_ok (co_nonces app1)" by (rule nonces_ok_step [OF c(1) assms(12) un])
  have u: "used_up (rq_address rq) (bytes_hex r) 1 (co_nonces app2)"
    using accepted_used_up(1) [OF a ok1 _ assms(10)] assms(7,13) by (simp add: bytes_hex_c_str request_nc_def first_nc_value)
  have "\<not> fst (authenticate answer app2)"
  proof
    assume "fst (authenticate answer app2)"
    then obtain resp app3 where a3: "authenticate answer app2 = (True, resp, app3)" by (metis prod.collapse)
    then show False
      by (cases rule: authenticate_cases)
        (use u assms(10) in \<open>auto simp: used_up_def bytes_hex_c_str request_nc_def first_nc_value not_le [symmetric]\<close>)
  qed
  then show ?thesis using c(1,3) a by blast
qed

theorem sip_challenge_answered_witness:
  "\<exists>app1 app2.
     authenticate \<lparr>rq_address = 5, rq_header = None, rq_check_time = 0, rq_rate_time = 100, rq_nonce_time = 100, rq_random = Some (replicate 16 3),
       rq_verified = False, rq_status = 403\<rparr>
       \<lparr>co_nonces = replicate 32 zero_nonce, co_auth_rates = replicate 32 zero_rate, co_challenge_nonce = []\<rparr> =
       (False, Some (Response 401 True False), app1) \<and>
     authenticate \<lparr>rq_address = 5, rq_header = Some \<lparr>dh_qop = ''auth'', dh_nonce = bytes_hex (replicate 16 3), dh_nc = first_nc\<rparr>, rq_check_time = 130,
       rq_rate_time = 130, rq_nonce_time = 130, rq_random = None, rq_verified = True, rq_status = 200\<rparr> app1 = (True, None, app2)"
proof -
  let ?rq = "\<lparr>rq_address = 5, rq_header = None, rq_check_time = 0, rq_rate_time = 100, rq_nonce_time = 100, rq_random = Some (replicate 16 3),
       rq_verified = False, rq_status = 403\<rparr>"
  let ?app = "\<lparr>co_nonces = replicate 32 zero_nonce, co_auth_rates = replicate 32 zero_rate, co_challenge_nonce = []\<rparr>"
  let ?answer = "\<lparr>rq_address = 5, rq_header = Some \<lparr>dh_qop = ''auth'', dh_nonce = bytes_hex (replicate 16 3), dh_nc = first_nc\<rparr>, rq_check_time = 130,
       rq_rate_time = 130, rq_nonce_time = 130, rq_random = None, rq_verified = True, rq_status = 200\<rparr>"
  have r: "fst (qmodem_voip_sip_rate_allow (co_auth_rates ?app) (rq_address ?rq) (rq_rate_time ?rq) 10)" by code_simp
  have n: "bytes_hex (replicate 16 3) \<notin> no_value ` set (co_nonces ?app)"
    using bytes_hex_nonempty [of "replicate 16 3"] by (simp add: zero_nonce_def)
  have o: "nonces_ok (co_nonces ?app)" by (simp add: nonces_ok_def zero_nonce_def)
  show ?thesis using sip_challenge_answered [of ?rq ?app "replicate 16 3" ?answer, OF _ r _ _ n _ _ _ _ _ _ o] by auto
qed

text \<open>C9: no request is accepted twice. In every run of the service, if the random source never repeats
  itself, two accepted requests that use the same nonce come from the same address, and the later one has
  the greater count.\<close>

theorem sip_nonce_counts_increase:
  assumes "co_nonces app = replicate 32 zero_nonce" "distinct (drawn rqs)" "\<forall>r \<in> set (drawn rqs). length r = 16"
    and "\<forall>rq \<in> set rqs. rq_address rq \<noteq> 0" "i < j" "j < length rqs" "auth_run rqs app ! i" "auth_run rqs app ! j"
    and "rq_header (rqs ! i) = Some h" "rq_header (rqs ! j) = Some h'" "c_str (dh_nonce h) = c_str (dh_nonce h')"
  shows "rq_address (rqs ! i) = rq_address (rqs ! j) \<and> request_nc h < request_nc h'"
proof -
  have "nonces_ok (co_nonces app)" by (simp add: assms(1) nonces_ok_def zero_nonce_def)
  moreover have "fresh_values rqs (co_nonces app)"
    using assms(2,3) bytes_hex_nonempty by (auto simp: fresh_values_def assms(1) zero_nonce_def)
  ultimately show ?thesis using auth_run_increasing [OF _ _ assms(4-)] by blast
qed

text \<open>The client is challenged at 100 and answers with the counts one and two.\<close>

definition sample_request :: "u64 \<Rightarrow> digest_header option \<Rightarrow> u8 list option \<Rightarrow> sip_request" where
  "sample_request now h random = \<lparr>rq_address = 5, rq_header = h, rq_check_time = now, rq_rate_time = now, rq_nonce_time = now,
     rq_random = random, rq_verified = True, rq_status = 200\<rparr>"

definition sample_answer :: "string \<Rightarrow> digest_header" where
  "sample_answer nc = \<lparr>dh_qop = ''auth'', dh_nonce = bytes_hex (replicate 16 3), dh_nc = nc\<rparr>"

definition sample_requests :: "sip_request list" where
  "sample_requests = [sample_request 100 None (Some (replicate 16 3)), sample_request 110 (Some (sample_answer ''00000001'')) None,
     sample_request 120 (Some (sample_answer ''00000002'')) None]"

definition sample_auth :: sip_auth where
  "sample_auth = \<lparr>co_nonces = replicate 32 zero_nonce, co_auth_rates = replicate 32 zero_rate, co_challenge_nonce = []\<rparr>"

theorem sip_nonce_counts_increase_witness:
  "auth_run sample_requests sample_auth = [False, True, True] \<and>
   request_nc (sample_answer ''00000001'') < request_nc (sample_answer ''00000002'')"
proof -
  have a: "auth_run sample_requests sample_auth = [False, True, True]" by code_simp
  have d: "drawn sample_requests = [replicate 16 3]"
    by (simp add: drawn_def sample_requests_def sample_request_def List.map_filter_simps)
  have l: "length sample_requests = 3" "sample_requests ! 1 = sample_request 110 (Some (sample_answer ''00000001'')) None"
    "sample_requests ! 2 = sample_request 120 (Some (sample_answer ''00000002'')) None" by (simp_all add: sample_requests_def)
  have n: "\<forall>rq \<in> set sample_requests. rq_address rq \<noteq> 0" by (simp add: sample_requests_def sample_request_def)
  have "request_nc (sample_answer ''00000001'') < request_nc (sample_answer ''00000002'')"
    using sip_nonce_counts_increase [of sample_auth sample_requests 1 2 "sample_answer ''00000001''" "sample_answer ''00000002''"] n
    unfolding a d l by (simp add: sample_auth_def sample_request_def sample_answer_def)
  with a show ?thesis by simp
qed

text \<open>C20: the limiter holds. When no more addresses ask than the table has slots, and the clock does not
  go back, then within any minute an address is allowed at most twice its limit, whatever the others do.\<close>

theorem sip_rate_bounded:
  assumes "finite A" "card A \<le> n" "0 \<notin> A" "a \<in> A" "requests_ok A 0 (earlier @ minute)"
    and "\<forall>(b, t) \<in> set minute. t0 \<le> t \<and> unat t < unat t0 + 60"
  shows "allowed_to (\<lambda>rates b now. qmodem_voip_sip_rate_allow rates b now limit) a minute
      (limiter_after (\<lambda>rates b now. qmodem_voip_sip_rate_allow rates b now limit) earlier (replicate n zero_rate)) \<le> 2 * unat limit"
proof (rule sip_rates.minute_bound [OF _ assms(5,4) _ assms(6)])
  show "rates_ok A 0 (replicate n zero_rate)" using assms(1-3) by (simp add: rates_ok_def zero_rate_def)
  show "rate_view a (replicate n zero_rate) = None" using assms(3,4) by (auto simp: rate_view_def find_None_iff zero_rate_def)
qed

theorem sip_rate_bounded_witness:
  "allowed_to (\<lambda>rates b now. qmodem_voip_sip_rate_allow rates b now 1) 5 [(5, 100), (5, 110), (7, 120), (5, 159)]
      (limiter_after (\<lambda>rates b now. qmodem_voip_sip_rate_allow rates b now 1) [(5, 99)] (replicate 32 zero_rate)) \<le> 2 \<and>
   allowed_to (\<lambda>rates b now. qmodem_voip_sip_rate_allow rates b now 1) 5 [(5, 100), (5, 110), (7, 120), (5, 159)]
      (limiter_after (\<lambda>rates b now. qmodem_voip_sip_rate_allow rates b now 1) [(5, 99)] (replicate 32 zero_rate)) = 1"
proof -
  have "requests_ok {5, 7} 0 ([(5, 99)] @ [(5, 100), (5, 110), (7, 120), (5, 159)])" by (simp add: requests_ok_def)
  note sip_rate_bounded [OF _ _ _ _ this, of 32 5 100 1]
  moreover have "allowed_to (\<lambda>rates b now. qmodem_voip_sip_rate_allow rates b now 1) 5 [(5, 100), (5, 110), (7, 120), (5, 159)]
      (limiter_after (\<lambda>rates b now. qmodem_voip_sip_rate_allow rates b now 1) [(5, 99)] (replicate 32 zero_rate)) = 1" by code_simp
  ultimately show ?thesis by auto
qed

lemma maps_plain: "set maps \<subseteq> {''a=rtpmap:8 PCMA/8000'', ''a=rtpmap:0 PCMU/8000''} \<Longrightarrow> \<forall>l \<in> set maps. plain_text l \<and> length l < 24"
  by (auto simp: plain_text_def is_line_end_def)

lemma description_parsed:
  assumes "qmodem_voip_sip_valid_lan_address (Some address)" "length address < 16" "plain_text address"
    and "plain_text formats" "length formats < 16" "set maps \<subseteq> {''a=rtpmap:8 PCMA/8000'', ''a=rtpmap:0 PCMU/8000''}" "length maps < 3" "pcma \<or> pcmu"
    and "media_line (''m=audio 40000 RTP/AVP '' @ formats) (address, 0, False, False) = Some (address, 40000, pcma, pcmu)"
  shows "qmodem_voip_sip_parse_media (text_of (description_lines address formats maps)) =
      Some \<lparr>sm_address = address, sm_port = 40000, sm_payload_type = (if pcma then 8 else 0)\<rparr>"
proof -
  have "address \<noteq> []" using assms(3) by (simp add: plain_text_def)
  then show ?thesis
    using description_split [OF assms(3,2,4,5) maps_plain [OF assms(6)] assms(7)] description_media [OF assms(1,2) _ assms(6,9)] assms(8)
    unfolding qmodem_voip_sip_parse_media_def by (simp add: c_copy_id assms(2))
qed

lemma description_accepted:
  assumes "length address < 16" "plain_text address"
    and "plain_text formats" "length formats < 16" "set maps \<subseteq> {''a=rtpmap:8 PCMA/8000'', ''a=rtpmap:0 PCMU/8000''}" "length maps < 3" "pcma \<or> pcmu"
    and "sdp_line (''m=audio 40000 RTP/AVP '' @ formats) (0, False, False) = Some (40000, pcma, pcmu)"
  shows "qmodem_voip_sip_invite_body_status (text_of (description_lines address formats maps)) = 0"
  using description_split [OF assms(2,1,3,4) maps_plain [OF assms(5)] assms(6)] description_valid [OF assms(8,7,5), of address]
  unfolding qmodem_voip_sip_invite_body_status_def qmodem_voip_sip_validate_sdp_def by auto

text \<open>C22: the descriptions the service sends are understood by its own rules. For every address but
  0.0.0.0 and both codecs the answer to a caller is built, is valid as the body of an INVITE, and is parsed
  back to the address, the port 40000 and the codec; the offer for an incoming call likewise, with the
  A-law codec.\<close>

theorem sip_descriptions_understood:
  assumes "(a, b, c, d) \<noteq> (0, 0, 0, 0)" "payload = 8 \<or> payload = 0" "inet_pton (dotted a b c d)"
  shows "\<exists>answer offer. lan_answer_body inet_pton (dotted a b c d) payload = Some answer \<and> incoming_offer_body (dotted a b c d) = Some offer \<and>
    qmodem_voip_sip_parse_media answer = Some \<lparr>sm_address = dotted a b c d, sm_port = 40000, sm_payload_type = payload\<rparr> \<and>
    qmodem_voip_sip_parse_media offer = Some \<lparr>sm_address = dotted a b c d, sm_port = 40000, sm_payload_type = 8\<rparr> \<and>
    qmodem_voip_sip_invite_body_status answer = 0 \<and> qmodem_voip_sip_invite_body_status offer = 0"
proof -
  let ?d = "dotted a b c d"
  note v = dotted_valid [OF assms(1)] and f = dotted_facts [of a b c d]
  have p: "plain_text ''8 101''" "plain_text ''0 101''" "plain_text ''8 0 101''" by (simp_all add: plain_text_def is_line_end_def)
  note answer = answer_lines [of inet_pton ?d payload, OF assms(3) f(2,1) assms(2)]
  note parsed = description_parsed [OF v f(1,2)]
  note accepted = description_accepted [OF f(1,2)]
  show ?thesis unfolding answer offer_lines [OF f(1)]
    using assms(2) parsed [OF p(1), of _ True False] parsed [OF p(2), of _ False True] parsed [OF p(3), of _ True True]
      accepted [OF p(1), of _ True False] accepted [OF p(2), of _ False True] accepted [OF p(3), of _ True True]
      media_line_audio sdp_audio by auto
qed

theorem sip_descriptions_understood_witness:
  "\<exists>answer. lan_answer_body (\<lambda>s. qmodem_voip_sip_valid_lan_address (Some s)) (dotted 192 168 1 1) 8 = Some answer \<and>
    qmodem_voip_sip_parse_media answer = Some \<lparr>sm_address = dotted 192 168 1 1, sm_port = 40000, sm_payload_type = 8\<rparr>"
  using sip_descriptions_understood [of 192 168 1 1 8 "\<lambda>s. qmodem_voip_sip_valid_lan_address (Some s)"] dotted_valid [of 192 168 1 1] by auto

text \<open>A call is ended once, and only by its peer. In every run of CANCEL and BYE requests against a
  call, the cellular call is only ended for an authenticated request that carries the call's identifier and
  the peer's tag, and after a request was answered with 200 every later one is refused without an action.\<close>

lemma sip_call_ended_once:
  assumes "i < length es"
  shows "(snd (end_run es c ! i) \<longrightarrow> er_authenticated (end_request_of (es ! i)) \<and> er_call_id (end_request_of (es ! i)) = Some (sc_call_id c) \<and>
      er_remote_tag (end_request_of (es ! i)) = Some (sc_remote_tag c)) \<and>
    (\<forall>j. i < j \<longrightarrow> j < length es \<longrightarrow> fst (end_run es c ! i) = 200 \<longrightarrow> fst (end_run es c ! j) \<in> {401, 481} \<and> \<not> snd (end_run es c ! j))"
  using end_run_acted [OF assms] end_run_once by blast

text \<open>The registration backs off. After any events since the start, the delay scheduled by a failure
  lies between 80 and 100 percent of five seconds doubled for every failure since the last success, up to
  five minutes.\<close>

lemma sip_registration_backoff:
  assumes "qmodem_voip_sip_registration_failed (fold registration_step es qmodem_voip_sip_registration_retry_init) entropy = (delay, r)"
  shows "unat delay \<le> backoff_ms (failures_in_row es 0) \<and> 4 * backoff_ms (failures_in_row es 0) \<le> 5 * unat delay \<and>
    rr_scheduled_delay_ms r = delay"
proof -
  have "unat (rr_next_delay_ms (fold registration_step es qmodem_voip_sip_registration_retry_init)) = backoff_ms (failures_in_row es 0)"
    by (rule registration_delay) (simp add: qmodem_voip_sip_registration_retry_init_def backoff_ms_def)
  moreover have "backoff_ms (failures_in_row es 0) \<le> 300000" by (simp add: backoff_ms_def)
  ultimately show ?thesis using failed_delay [OF _ _ assms] by blast
qed

end
