(* ===== verification/Sip_Consumer.thy ===== *)
theory Sip_Consumer
  imports Sip_Gateway Media_Socket Rtp_Transport
begin

text \<open>
  The SIP service itself (\<open>application/qmodem_sipd/src/sip_consumer.c\<close>): the handlers of requests and
  responses, of the events of the voice daemon and of the timers, and the bridge between RTP and the media
  socket. A handler takes the answers of the world and the state of the service, and gives the new state and
  its effects in order. The SIP library, the bus and the sockets are parameters. Headers the service only
  formats for the library (contact and identity of the service) are left out of the effects, and so are log
  lines.
\<close>

unbundle bit_operations_syntax

section \<open>State\<close>

text \<open>A response to an INVITE that is kept: the call it belongs to, and its session description.\<close>

record lan_response =
  lr_call_id :: string
  lr_body :: string

record consumer =
  cs_auth :: sip_auth
  cs_binding :: string
  cs_expires :: u32
  cs_binding_until :: int
  cs_invite_rates :: "qmodem_voip_sip_rate list"
  cs_call :: qmodem_voip_sip_call
  cs_media :: qmodem_voip_sip_media
  cs_media_sock :: qmodem_voip_media_socket_client
  cs_media_socket_path :: string
  cs_media_revision :: u64
  cs_media_attached :: bool
  cs_media_watched :: bool
  cs_rtp_fd :: bool
  cs_rtp_attached :: bool
  cs_media_attach_timeout :: bool
  cs_media_attach_attempts :: u32
  cs_rtp_peer :: "u32 \<times> u16"
  cs_rtp_codec :: u32
  cs_rtp_sequence :: u16
  cs_rtp_timestamp :: u32
  cs_rtp_ssrc :: u32
  cs_pending_lan_response :: "lan_response option"
  cs_lan_address :: string
  cs_outbound :: bool
  cs_outbound_invite :: "string option"
  cs_lan_answer :: "lan_response option"
  cs_dialog_contact :: string
  cs_lan_acked :: bool
  cs_lan_bye_pending :: bool
  cs_lan_bye_timeout :: bool
  cs_incoming_number :: string
  cs_incoming_caller_id_withheld :: bool
  cs_incoming_ringing :: bool
  cs_invite_alerted :: bool
  cs_sms_modem :: string

text \<open>What the service does to the world: a response to the request at hand, with the marks of a
  challenge; a response with a description; the final response to the waiting INVITE; a call of the voice
  daemon on the bus; a text message; requests to the peer; and a datagram to the media socket or the RTP
  peer.\<close>

datatype sip_effect =
    Respond nat bool bool
  | Respond_Registered u32 string
  | Respond_Description lan_response
  | Final_Response lan_response nat
  | Action string "string option"
  | Send_Sms string string
  | Send_Invite string string "string option"
  | Send_Ack
  | Send_Bye string
  | Send_Cancel string
  | To_Media "u8 list"
  | To_Rtp "u32 \<times> u16" "u8 list"

type_synonym consumer_step = "consumer \<Rightarrow> consumer \<times> sip_effect list"

fun perform :: "consumer_step list \<Rightarrow> consumer_step" where
  "perform [] c = (c, [])"
| "perform (f # fs) c = (case f c of (c1, e1) \<Rightarrow> case perform fs c1 of (c2, e2) \<Rightarrow> (c2, e1 @ e2))"

definition respond :: "nat \<Rightarrow> consumer_step" where
  "respond status c = (c, [Respond status False False])"

definition action :: "string \<Rightarrow> string option \<Rightarrow> consumer_step" where
  "action name number c = (c, [Action name number])"

text \<open>The answers of the world to one handler: the result of a call of the daemon by its name, the clock,
  what the library could create and send, the translation of an address, the status of the daemon (the
  revision, when the call is active), the reply to the request for a session, the connection to the media
  socket, and whether the RTP socket could be bound.\<close>

record sip_env =
  se_action :: "string \<Rightarrow> bool"
  se_now :: int
  se_created :: bool
  se_answer_made :: bool
  se_response_addr :: bool
  se_sent :: bool
  se_bye_made :: bool
  se_ack :: bool
  se_invite :: "string option"
  se_offer_made :: bool
  se_inet_pton :: "string \<Rightarrow> u32 option"
  se_status :: "u64 option"
  se_session :: "bool \<times> string option"
  se_media_fd :: "int option"
  se_exchange :: "u8 list \<Rightarrow> u8 list option"
  se_rtp_bound :: bool
  se_sms_object :: bool
  se_sms_sent :: bool

section \<open>Requests\<close>

datatype sip_method = REGISTER | INVITE | UPDATE | ACK | MESSAGE | OPTIONS | CANCEL | BYE | OTHER

text \<open>A contact header: whether it is the star, its expiry if it has one, whether the library could print
  its address, and what the buffer holds then.\<close>

record sip_contact =
  ct_star :: bool
  ct_expires :: "int option"
  ct_printed :: bool
  ct_text :: string

text \<open>A request: what the authentication looks at, whether it came over a secure connection the service
  opened itself, and its headers. \<open>mg_plain\<close> is whether its body is plain text.\<close>

record sip_message =
  mg_method :: sip_method
  mg_length :: nat
  mg_auth :: sip_request
  mg_trusted :: bool
  mg_contact :: "sip_contact option"
  mg_expires :: "int option"
  mg_body :: "string option"
  mg_plain :: bool
  mg_user :: string
  mg_host :: string
  mg_call_id :: "string option"
  mg_from_tag :: "string option"
  mg_branch :: "string option"
  mg_cseq :: "int option"

definition rate_allow :: "sip_message \<Rightarrow> u32 \<Rightarrow> consumer \<Rightarrow> bool \<times> consumer" where
  "rate_allow m limit c =
     (case qmodem_voip_sip_rate_allow (cs_invite_rates c) (rq_address (mg_auth m)) (rq_rate_time (mg_auth m)) limit of
        (allowed, rates) \<Rightarrow> (allowed, c\<lparr>cs_invite_rates := rates\<rparr>))"

definition trusted_outbound_request :: "sip_message \<Rightarrow> consumer \<Rightarrow> bool" where
  "trusted_outbound_request m c \<longleftrightarrow> cs_outbound c \<and> mg_trusted m"

text \<open>The guard of the handlers: what follows is done for a request that authenticates itself, the others
  are answered by the authentication; or also for a trusted one.\<close>

definition if_authenticated :: "sip_message \<Rightarrow> consumer_step \<Rightarrow> consumer_step" where
  "if_authenticated m f c =
     (case authenticate (mg_auth m) (cs_auth c) of
        (ok, resp, a) \<Rightarrow>
          perform [\<lambda>c. (c, case resp of None \<Rightarrow> [] | Some (Response status ch stale) \<Rightarrow> [Respond status ch stale]),
            if ok then f else (\<lambda>c. (c, []))] (c\<lparr>cs_auth := a\<rparr>))"

definition if_admitted :: "sip_message \<Rightarrow> consumer_step \<Rightarrow> consumer_step" where
  "if_admitted m f c = (if trusted_outbound_request m c then f c else if_authenticated m f c)"

definition request_expiry :: "sip_message \<Rightarrow> sip_contact \<Rightarrow> u32" where
  "request_expiry m ct =
     (let v = (case ct_expires ct of Some v \<Rightarrow> v | None \<Rightarrow> (case mg_expires m of Some v \<Rightarrow> v | None \<Rightarrow> 3600))
      in if v = 0 then 0 else if v < 60 then 60 else if v > 3600 then 3600 else word_of_int v)"

definition binding_active :: "sip_env \<Rightarrow> consumer \<Rightarrow> bool" where
  "binding_active env c \<longleftrightarrow> cs_binding c \<noteq> [] \<and> se_now env < cs_binding_until c"

definition sip_number :: "sip_message \<Rightarrow> string option" where
  "sip_number m = (if mg_user m = [] \<or> length (mg_user m) \<ge> 64 then None
     else if set (mg_user m) \<subseteq> set ''0123456789+*#,p'' then Some (mg_user m) else None)"

definition supported_sdp :: "sip_message \<Rightarrow> qmodem_voip_sip_media option" where
  "supported_sdp m = (case mg_body m of None \<Rightarrow> None
     | Some body \<Rightarrow> if length body > 2048 then None else qmodem_voip_sip_parse_media body)"

definition copy_pj_string :: "nat \<Rightarrow> string \<Rightarrow> string option" where
  "copy_pj_string n v = (if v = [] \<or> length v \<ge> n then None else Some (c_str v))"

definition request_identity :: "sip_message \<Rightarrow> (string \<times> string \<times> string \<times> u32) option" where
  "request_identity m =
     (case (mg_call_id m, mg_from_tag m, mg_cseq m, mg_branch m) of
        (Some i, Some t, Some n, Some b) \<Rightarrow>
          if n < 0 then None
          else (case (copy_pj_string 128 i, copy_pj_string 96 t, copy_pj_string 128 b) of
                  (Some i1, Some t1, Some b1) \<Rightarrow> Some (i1, t1, b1, word_of_int n)
                | _ \<Rightarrow> None)
      | _ \<Rightarrow> None)"

definition set_lan_answer :: "sip_env \<Rightarrow> sip_message \<Rightarrow> u32 \<Rightarrow> string option" where
  "set_lan_answer env m payload_type =
     (case lan_answer_body (\<lambda>s. se_inet_pton env s \<noteq> None) (mg_host m) payload_type of
        None \<Rightarrow> None
      | Some body \<Rightarrow> if se_answer_made env then Some body else None)"

definition remember_lan_answer :: "lan_response option \<Rightarrow> consumer_step" where
  "remember_lan_answer response c =
     (c\<lparr>cs_lan_answer := response, cs_lan_acked := False, cs_lan_bye_pending := False, cs_lan_bye_timeout := False\<rparr>, [])"

definition clear_dialog_contact :: consumer_step where
  "clear_dialog_contact c = (c\<lparr>cs_dialog_contact := []\<rparr>, [])"

definition save_dialog_contact :: "sip_message \<Rightarrow> consumer_step" where
  "save_dialog_contact m c =
     (case mg_contact m of None \<Rightarrow> (c, [])
      | Some ct \<Rightarrow> if ct_star ct then (c, []) else (c\<lparr>cs_dialog_contact := (if ct_printed ct then ct_text ct else [])\<rparr>, []))"

definition call_release :: consumer_step where
  "call_release c = (c\<lparr>cs_call := qmodem_voip_sip_call_release (cs_call c)\<rparr>, [])"

section \<open>Media\<close>

definition detach_media :: consumer_step where
  "detach_media c =
     (case qmodem_voip_media_socket_client_detach (cs_media_sock c) of
        (client, sent) \<Rightarrow>
          (c\<lparr>cs_media_sock := client, cs_media_watched := False, cs_rtp_fd := False, cs_media_attached := False, cs_rtp_attached := False\<rparr>,
           case sent of None \<Rightarrow> [] | Some d \<Rightarrow> [To_Media d]))"

definition stop_media :: consumer_step where
  "stop_media = perform [detach_media, action ''hangup'' None]"

definition rtp_open :: "sip_env \<Rightarrow> consumer \<Rightarrow> bool \<times> consumer" where
  "rtp_open env c = (if cs_rtp_fd c then (True, c) else if se_rtp_bound env then (True, c\<lparr>cs_rtp_fd := True\<rparr>) else (False, c))"

definition ubus_issue_socket_session :: "sip_env \<Rightarrow> consumer \<Rightarrow> bool \<times> consumer" where
  "ubus_issue_socket_session env c =
     (let client = (case snd (se_session env) of None \<Rightarrow> cs_media_sock c
                    | Some s \<Rightarrow> (cs_media_sock c)\<lparr>cl_session_id := c_copy 64 s\<rparr>)
      in (fst (se_session env) \<and> cl_session_id client \<noteq> [], c\<lparr>cs_media_sock := client\<rparr>))"

definition attach_media :: "sip_env \<Rightarrow> consumer \<Rightarrow> bool \<times> consumer" where
  "attach_media env c =
     (if cs_media_attached c then (True, c)
      else
        let port = ucast (sm_port (cs_media c)) :: u16;
            c1 = c\<lparr>cs_rtp_codec := sm_payload_type (cs_media c), cs_rtp_peer := (0, port)\<rparr> in
        case se_inet_pton env (sm_address (cs_media c)) of
          None \<Rightarrow> (False, c1)
        | Some a \<Rightarrow>
            let c2 = c1\<lparr>cs_rtp_peer := (a, port)\<rparr> in
            case se_status env of
              None \<Rightarrow> (False, c2)
            | Some revision \<Rightarrow>
                case ubus_issue_socket_session env (c2\<lparr>cs_media_revision := revision\<rparr>) of
                  (issued, c3) \<Rightarrow>
                    if \<not> issued then (False, c3)
                    else case qmodem_voip_media_socket_client_attach (se_media_fd env) (se_exchange env) (cs_media_sock c3)
                           (cs_media_socket_path c3) revision (cl_session_id (cs_media_sock c3)) of
                      (result, client) \<Rightarrow>
                        if result \<noteq> 0 then (False, c3\<lparr>cs_media_sock := client\<rparr>)
                        else (True, c3\<lparr>cs_media_sock := client, cs_media_watched := True, cs_media_attached := True,
                                        cs_rtp_attached := True\<rparr>))"

section \<open>Requests to the peer\<close>

definition send_dialog_bye :: "sip_env \<Rightarrow> consumer_step" where
  "send_dialog_bye env c =
     (c, case cs_outbound_invite c of
           None \<Rightarrow> []
         | Some i \<Rightarrow> if sc_active (cs_call c) \<and> sc_established (cs_call c) \<and> cs_dialog_contact c \<noteq> [] \<and> se_bye_made env
                    then [Send_Bye i] else [])"

definition send_lan_bye :: "sip_env \<Rightarrow> consumer_step" where
  "send_lan_bye env c =
     (c, case cs_lan_answer c of
           None \<Rightarrow> []
         | Some r \<Rightarrow> if cs_dialog_contact c \<noteq> [] \<and> se_bye_made env then [Send_Bye (lr_call_id r)] else [])"

definition lan_bye_flush :: "sip_env \<Rightarrow> consumer_step" where
  "lan_bye_flush env = perform [send_lan_bye env, remember_lan_answer None, clear_dialog_contact]"

definition lan_bye_wait :: "sip_env \<Rightarrow> consumer_step" where
  "lan_bye_wait env c = lan_bye_flush env (c\<lparr>cs_lan_bye_timeout := False\<rparr>)"

definition send_invite_cancel :: "sip_env \<Rightarrow> consumer_step" where
  "send_invite_cancel env c =
     (c, case cs_outbound_invite c of
           None \<Rightarrow> []
         | Some i \<Rightarrow> if sc_active (cs_call c) \<and> \<not> sc_established (cs_call c) \<and> sc_origin (cs_call c) = SIP_CALL_CELLULAR \<and> se_created env
                    then [Send_Cancel i] else [])"

definition remember_outbound_invite :: "string option \<Rightarrow> consumer_step" where
  "remember_outbound_invite request c = (c\<lparr>cs_outbound_invite := request\<rparr>, [])"

text \<open>The identity of the caller, unless it is withheld or not a plain number.\<close>

definition asserted_identity :: "consumer \<Rightarrow> string option" where
  "asserted_identity c =
     (if \<not> cs_incoming_caller_id_withheld c \<and> cs_incoming_number c \<noteq> [] \<and> set (cs_incoming_number c) \<subseteq> set ''0123456789+''
      then Some (c_copy 160 (''<sip:'' @ cs_incoming_number c @ ''@'' @ cs_lan_address c @ ''>'')) else None)"

definition flush_owed_bye :: "sip_env \<Rightarrow> consumer_step" where
  "flush_owed_bye env c = (if cs_lan_bye_pending c then lan_bye_flush env c else (c, []))"

definition offer_call :: "sip_env \<Rightarrow> consumer_step" where
  "offer_call env c =
     (case (se_invite env, incoming_offer_body (cs_lan_address c)) of
        (Some i, Some body) \<Rightarrow>
          if \<not> se_offer_made env then (c, [])
          else (case copy_pj_string 128 i of
                  None \<Rightarrow> (c, [])
                | Some call_id \<Rightarrow>
                    (case qmodem_voip_sip_call_begin (cs_call c) SIP_CALL_CELLULAR (Some call_id) (Some ''pending'') (Some ''pending'') 1 of
                       (result, call) \<Rightarrow>
                         if result \<noteq> 0 then (c, [])
                         else let c1 = c\<lparr>cs_call := call, cs_outbound_invite := Some i, cs_dialog_contact := [], cs_invite_alerted := False\<rparr>
                              in if se_sent env then (c1, [Send_Invite i body (asserted_identity c1)])
                                 else perform [remember_outbound_invite None, clear_dialog_contact, call_release] c1))
      | _ \<Rightarrow> (c, []))"

definition send_incoming_invite :: "sip_env \<Rightarrow> consumer_step" where
  "send_incoming_invite env c =
     (if \<not> binding_active env c \<or> sc_active (cs_call c) then (c, []) else perform [flush_owed_bye env, offer_call env] c)"

definition resend_incoming_invite :: "sip_env \<Rightarrow> consumer_step" where
  "resend_incoming_invite env c =
     (if cs_outbound c \<or> \<not> cs_incoming_ringing c \<or> sc_established (cs_call c) then (c, [])
      else if sc_active (cs_call c) then
        (if cs_invite_alerted c then (c, [])
         else perform [send_invite_cancel env, call_release, remember_outbound_invite None, send_incoming_invite env] c)
      else send_incoming_invite env c)"

section \<open>Handlers of requests\<close>

definition update_binding :: "sip_env \<Rightarrow> u32 \<Rightarrow> sip_contact \<Rightarrow> consumer \<Rightarrow> consumer" where
  "update_binding env requested ct c =
     (if requested = 0 then c\<lparr>cs_binding := [], cs_expires := 0, cs_binding_until := 0\<rparr>
      else if \<not> ct_printed ct then c\<lparr>cs_binding := ct_text ct\<rparr>
      else c\<lparr>cs_binding := ct_text ct, cs_expires := requested, cs_binding_until := se_now env + uint requested\<rparr>)"

definition registered :: "sip_env \<Rightarrow> consumer_step" where
  "registered env c = perform
     [\<lambda>c. (c, [Respond_Registered (cs_expires c) (if cs_binding c \<noteq> [] then cs_binding c else ''none'')]),
      \<lambda>c. if cs_binding c \<noteq> [] then resend_incoming_invite env c else (c, [])] c"

definition register_contact :: "sip_env \<Rightarrow> sip_message \<Rightarrow> consumer_step" where
  "register_contact env m = if_authenticated m (\<lambda>c.
     case mg_contact m of
       None \<Rightarrow> respond 400 c
     | Some ct \<Rightarrow>
         if ct_star ct then respond 400 c
         else let requested = request_expiry m ct; c1 = update_binding env requested ct c
              in if requested \<noteq> 0 \<and> \<not> ct_printed ct then respond 400 c1
                 else if se_created env then registered env c1 else (c1, []))"

definition response_to :: "sip_message \<Rightarrow> string \<Rightarrow> lan_response" where
  "response_to m body = \<lparr>lr_call_id = (case mg_call_id m of Some i \<Rightarrow> i | None \<Rightarrow> []), lr_body = body\<rparr>"

text \<open>The last part of an INVITE that was accepted: the answer is prepared and kept until the call is
  active.\<close>

definition refuse_call :: consumer_step where
  "refuse_call = perform [action ''hangup'' None, call_release, respond 503]"

definition invite_answer :: "sip_env \<Rightarrow> sip_message \<Rightarrow> qmodem_voip_sip_media \<Rightarrow> consumer_step" where
  "invite_answer env m media = perform
     [\<lambda>c. (c\<lparr>cs_media := media\<rparr>, []), flush_owed_bye env, remember_lan_answer None, clear_dialog_contact, save_dialog_contact m,
      \<lambda>c. case (if se_created env then set_lan_answer env m (sm_payload_type media) else None) of
            None \<Rightarrow> refuse_call c
          | Some body \<Rightarrow>
              if \<not> se_response_addr env then refuse_call c
              else perform [respond 100, respond 180] (c\<lparr>cs_pending_lan_response := Some (response_to m body)\<rparr>)]"

definition invite_originate :: "sip_env \<Rightarrow> sip_message \<Rightarrow> qmodem_voip_sip_media \<Rightarrow> consumer_step" where
  "invite_originate env m media c =
     (case (sip_number m, request_identity m) of
        (Some number, Some (call_id, remote_tag, branch, cseq)) \<Rightarrow>
          perform [action ''originate'' (Some number), \<lambda>c.
            if \<not> se_action env ''originate'' then respond 503 c
            else (case qmodem_voip_sip_call_begin (cs_call c) SIP_CALL_LAN (Some call_id) (Some remote_tag) (Some branch) cseq of
                    (result, call) \<Rightarrow>
                      if result \<noteq> 0 then perform [action ''hangup'' None, respond 503] c
                      else invite_answer env m media (c\<lparr>cs_call := call\<rparr>))] c
      | _ \<Rightarrow> respond 488 c)"

definition clear_stale_call :: consumer_step where
  "clear_stale_call c = (if sc_active (cs_call c) then perform [stop_media, call_release] c else (c, []))"

definition invite_call :: "sip_env \<Rightarrow> sip_message \<Rightarrow> consumer_step" where
  "invite_call env m c =
     (case rate_allow m 5 c of (allowed, c1) \<Rightarrow>
        if \<not> allowed then respond 503 c1
        else if_admitted m (\<lambda>c.
          case supported_sdp m of
            None \<Rightarrow> respond 488 c
          | Some media \<Rightarrow>
              if \<not> binding_active env c then respond 486 c
              else perform [clear_stale_call, invite_originate env m media] c) c1)"

text \<open>A request that belongs to the call at hand.\<close>

definition in_dialog :: "sip_message \<Rightarrow> consumer \<Rightarrow> bool" where
  "in_dialog m c \<longleftrightarrow> sc_active (cs_call c) \<and> sc_established (cs_call c) \<and> sc_origin (cs_call c) = SIP_CALL_LAN \<and>
     (case request_identity m of None \<Rightarrow> False
      | Some (call_id, remote_tag, _, _) \<Rightarrow> call_id = sc_call_id (cs_call c) \<and> remote_tag = sc_remote_tag (cs_call c))"

definition refresh_sent :: "sip_env \<Rightarrow> sip_message \<Rightarrow> string \<Rightarrow> consumer_step" where
  "refresh_sent env m body c =
     (if se_sent env then perform [save_dialog_contact m, \<lambda>c. (c, [Respond_Description (response_to m body)])] c else (c, []))"

definition refresh_answer :: "sip_env \<Rightarrow> sip_message \<Rightarrow> qmodem_voip_sip_media \<Rightarrow> string \<Rightarrow> consumer_step" where
  "refresh_answer env m media body c =
     (let c1 = c\<lparr>cs_media := media\<rparr>;
          c2 = c1\<lparr>cs_rtp_codec := sm_payload_type media, cs_rtp_peer := (fst (cs_rtp_peer c1), ucast (sm_port media))\<rparr>
      in if \<not> cs_media_attached c1 then refresh_sent env m body c1
         else case se_inet_pton env (sm_address media) of
             None \<Rightarrow> respond 488 c2
           | Some a \<Rightarrow> refresh_sent env m body (c2\<lparr>cs_rtp_peer := (a, ucast (sm_port media))\<rparr>))"

definition in_dialog_media_refresh :: "sip_env \<Rightarrow> sip_message \<Rightarrow> consumer_step" where
  "in_dialog_media_refresh env m = if_admitted m (\<lambda>c.
     case supported_sdp m of
       None \<Rightarrow> respond 488 c
     | Some media \<Rightarrow>
         (case (if se_created env then set_lan_answer env m (sm_payload_type media) else None) of
            None \<Rightarrow> respond 503 c
          | Some body \<Rightarrow> refresh_answer env m media body c))"

text \<open>The peer of a call that rang at the telephone may end it without a digest.\<close>

definition bye_in_dialog :: "string \<Rightarrow> string \<Rightarrow> consumer \<Rightarrow> bool" where
  "bye_in_dialog call_id remote_tag c \<longleftrightarrow> sc_active (cs_call c) \<and> sc_established (cs_call c) \<and> sc_origin (cs_call c) = SIP_CALL_CELLULAR \<and>
     call_id = sc_call_id (cs_call c) \<and> remote_tag = sc_remote_tag (cs_call c)"

definition ended_by_peer :: consumer_step where
  "ended_by_peer c = perform
     [\<lambda>c. (c\<lparr>cs_media_attach_timeout := False, cs_pending_lan_response := None\<rparr>, []), remember_lan_answer None, stop_media] c"

definition forget_owed_bye :: "bool \<Rightarrow> string \<Rightarrow> consumer_step" where
  "forget_owed_bye cancel call_id c =
     (case cs_lan_answer c of
        Some r \<Rightarrow> if \<not> cancel \<and> cs_lan_bye_pending c \<and> lr_call_id r = call_id
                 then perform [remember_lan_answer None, clear_dialog_contact] c else (c, [])
      | None \<Rightarrow> (c, []))"

definition end_matched :: "sip_env \<Rightarrow> bool \<Rightarrow> string \<times> string \<times> string \<times> u32 \<Rightarrow> consumer_step" where
  "end_matched env cancel = (\<lambda>(call_id, remote_tag, branch, cseq) c.
     case (let hung = Some (if se_action env ''hangup'' then 0 else -1) in
           if cancel then qmodem_voip_sip_call_cancel (cs_call c) True (Some call_id) (Some remote_tag) (Some branch) cseq hung
           else qmodem_voip_sip_call_bye (cs_call c) True (Some call_id) (Some remote_tag) hung) of
       (status, acted, call) \<Rightarrow>
         perform [if acted then action ''hangup'' None else (\<lambda>c. (c, [])), if status = 200 then ended_by_peer else (\<lambda>c. (c, [])), respond status]
           (c\<lparr>cs_call := call\<rparr>))"

definition consumer_end_call :: "sip_env \<Rightarrow> bool \<Rightarrow> sip_message \<Rightarrow> consumer_step" where
  "consumer_end_call env cancel m c =
     (case request_identity m of
        None \<Rightarrow> respond 400 c
      | Some (call_id, remote_tag, branch, cseq) \<Rightarrow>
          (let rest = perform [forget_owed_bye cancel call_id, end_matched env cancel (call_id, remote_tag, branch, cseq)]
           in if cancel \<or> bye_in_dialog call_id remote_tag c then rest c else if_admitted m rest c))"

definition message_to_sms :: "sip_env \<Rightarrow> sip_message \<Rightarrow> consumer_step" where
  "message_to_sms env m = if_admitted m (\<lambda>c.
     if cs_sms_modem c = [] \<or> \<not> se_sms_object env then respond 480 c
     else case mg_body m of None \<Rightarrow> respond 415 c
     | Some body \<Rightarrow>
         if \<not> mg_plain m then respond 415 c
         else if body = [] \<or> length body > 2048 then respond 413 c
         else case sip_number m of None \<Rightarrow> respond 400 c
         | Some number \<Rightarrow>
             if mg_call_id m = None \<or> mg_cseq m = None then respond 400 c
             else perform [\<lambda>c. (c, [Send_Sms number (c_str body)]), respond (if se_sms_sent env then 200 else 503)] c)"

definition ack_received :: "sip_env \<Rightarrow> sip_message \<Rightarrow> consumer_step" where
  "ack_received env m c =
     (case (cs_lan_answer c, mg_call_id m) of
        (Some r, Some i) \<Rightarrow> if i = lr_call_id r then flush_owed_bye env (c\<lparr>cs_lan_acked := True\<rparr>) else (c, [])
      | _ \<Rightarrow> (c, []))"

definition on_request :: "sip_env \<Rightarrow> sip_message \<Rightarrow> consumer_step" where
  "on_request env m c =
     (if mg_length m > 4096 then respond 413 c
      else case mg_method m of
        REGISTER \<Rightarrow> if cs_outbound c then respond 405 c else register_contact env m c
      | INVITE \<Rightarrow> if in_dialog m c then in_dialog_media_refresh env m c else invite_call env m c
      | UPDATE \<Rightarrow> if in_dialog m c then in_dialog_media_refresh env m c else respond 405 c
      | ACK \<Rightarrow> ack_received env m c
      | MESSAGE \<Rightarrow> message_to_sms env m c
      | OPTIONS \<Rightarrow> respond (if trusted_outbound_request m c then 200 else 403) c
      | CANCEL \<Rightarrow> consumer_end_call env True m c
      | BYE \<Rightarrow> consumer_end_call env False m c
      | OTHER \<Rightarrow> respond 405 c)"

section \<open>Handlers of responses\<close>

record sip_answer =
  rs_status :: nat
  rs_call_id :: "string option"
  rs_to_tag :: "string option"
  rs_body :: "string option"
  rs_contact :: "string option"

definition response_matches :: "sip_answer \<Rightarrow> consumer \<Rightarrow> bool" where
  "response_matches r c \<longleftrightarrow> sc_active (cs_call c) \<and> sc_origin (cs_call c) = SIP_CALL_CELLULAR \<and>
     (case rs_call_id r of None \<Rightarrow> False | Some i \<Rightarrow> copy_pj_string 128 i = Some (sc_call_id (cs_call c)))"

definition response_tag :: "sip_answer \<Rightarrow> string option" where
  "response_tag r = (case rs_to_tag r of None \<Rightarrow> None | Some t \<Rightarrow> copy_pj_string 96 t)"

text \<open>The telephone takes the call: the modem answers, both directions of the audio are attached and the
  call is established, or all of it is taken back.\<close>

definition attach_both :: "sip_env \<Rightarrow> consumer \<Rightarrow> bool \<times> consumer" where
  "attach_both env c = (case rtp_open env c of (opened, c1) \<Rightarrow> if opened then attach_media env c1 else (False, c1))"

definition take_back_answer :: "sip_env \<Rightarrow> sip_answer \<Rightarrow> consumer_step" where
  "take_back_answer env r c =
     (case (case response_tag r of None \<Rightarrow> (-1, cs_call c) | Some tag \<Rightarrow> qmodem_voip_sip_call_establish (cs_call c) (Some tag)) of
        (result, call) \<Rightarrow>
          perform [if result = 0 then send_dialog_bye env else (\<lambda>c. (c, [])), stop_media, call_release] (c\<lparr>cs_call := call\<rparr>))"

definition answer_call :: "sip_env \<Rightarrow> sip_answer \<Rightarrow> consumer_step" where
  "answer_call env r c =
     (case (if se_action env ''answer'' then attach_both env c else (False, c)) of
        (attached, c1) \<Rightarrow>
          perform [action ''answer'' None,
            case (if attached then response_tag r else None) of
              Some tag \<Rightarrow> (\<lambda>c. (c\<lparr>cs_call := snd (qmodem_voip_sip_call_establish (cs_call c) (Some tag))\<rparr>, []))
            | None \<Rightarrow> take_back_answer env r] c1)"

definition send_outbound_ack :: "sip_env \<Rightarrow> consumer \<Rightarrow> bool" where
  "send_outbound_ack env c \<longleftrightarrow> cs_outbound_invite c \<noteq> None \<and> se_ack env"

definition reject_call :: consumer_step where
  "reject_call = perform [action ''reject'' None, call_release]"

definition accepted_by_phone :: "sip_env \<Rightarrow> sip_answer \<Rightarrow> consumer_step" where
  "accepted_by_phone env r c =
     (if \<not> send_outbound_ack env c then reject_call c
      else perform [\<lambda>c. (c, [Send_Ack]),
        case (case rs_body r of None \<Rightarrow> None | Some body \<Rightarrow> qmodem_voip_sip_parse_media body) of
          None \<Rightarrow> reject_call
        | Some media \<Rightarrow> (\<lambda>c. answer_call env r
            (c\<lparr>cs_dialog_contact := (case rs_contact r of None \<Rightarrow> cs_dialog_contact c | Some t \<Rightarrow> t), cs_media := media\<rparr>))] c)"

definition on_response :: "sip_env \<Rightarrow> sip_answer \<Rightarrow> consumer_step" where
  "on_response env r c =
     (let success = (200 \<le> rs_status r \<and> rs_status r < 300) in
      if \<not> response_matches r c \<or> rs_status r = 401 \<or> rs_status r = 407 then (c, [])
      else if sc_established (cs_call c) then (c, if success \<and> send_outbound_ack env c then [Send_Ack] else [])
      else if success then accepted_by_phone env r c
      else if rs_status r \<ge> 300 then
        perform [if rs_status r \<in> {486, 600, 603} then action ''reject'' None else (\<lambda>c. (c, [])),
          \<lambda>c. (c\<lparr>cs_incoming_ringing := False\<rparr>, []), call_release, remember_outbound_invite None] c
      else (c, []))"

text \<open>The events of the transaction of an INVITE: a message, with its status and content, or the end of
  the transaction, with its status and the call it belongs to.\<close>

datatype transaction_event = Received nat sip_answer | Terminated nat "string option"

definition incoming_invite_cb :: "sip_env \<Rightarrow> transaction_event \<Rightarrow> consumer_step" where
  "incoming_invite_cb env ev c =
     (case ev of
        Received status r \<Rightarrow> if status < 200 then (c\<lparr>cs_invite_alerted := True\<rparr>, []) else on_response env r c
      | Terminated status i \<Rightarrow>
          if status < 300 \<or> \<not> sc_active (cs_call c) \<or> sc_established (cs_call c) then (c, [])
          else (case i of None \<Rightarrow> (c, [])
            | Some v \<Rightarrow> if copy_pj_string 128 v = Some (sc_call_id (cs_call c))
                       then perform [call_release, remember_outbound_invite None] c else (c, [])))"

text \<open>With an external server the INVITE is sent again with credentials when it is challenged. \<open>retry\<close> is
  the call of the new request, if the library could make it, and whether it could be sent.\<close>

definition outbound_invite_cb :: "sip_env \<Rightarrow> (string \<times> bool) option \<Rightarrow> transaction_event \<Rightarrow> consumer_step" where
  "outbound_invite_cb env retry ev c =
     (case ev of
        Terminated status i \<Rightarrow> (c, [])
      | Received status r \<Rightarrow>
          if status < 200 then (c, [])
          else if status = 401 \<or> status = 407 then
            (case retry of
               Some (i, True) \<Rightarrow> (c\<lparr>cs_outbound_invite := Some i\<rparr>, [])
             | Some (i, False) \<Rightarrow> reject_call (c\<lparr>cs_outbound_invite := Some i\<rparr>)
             | None \<Rightarrow> reject_call c)
          else on_response env r c)"

section \<open>Timers and events of the daemon\<close>

definition give_up_attaching :: "lan_response \<Rightarrow> consumer_step" where
  "give_up_attaching response = perform
     [\<lambda>c. (c\<lparr>cs_pending_lan_response := None\<rparr>, [Final_Response response 480]), stop_media, call_release]"

definition establish_waiting :: consumer_step where
  "establish_waiting c =
     (if sc_remote_tag (cs_call c) = [] then (c, [])
      else (c\<lparr>cs_call := snd (qmodem_voip_sip_call_establish (cs_call c) (Some (sc_remote_tag (cs_call c))))\<rparr>, []))"

definition answer_waiting :: "sip_env \<Rightarrow> lan_response \<Rightarrow> consumer_step" where
  "answer_waiting env response = perform
     ([\<lambda>c. (c\<lparr>cs_pending_lan_response := None\<rparr>, []), remember_lan_answer (Some response)] @
      (if se_sent env then [\<lambda>c. (c, [Final_Response response 200]), establish_waiting]
       else [remember_lan_answer None, stop_media]))"

definition media_attach_retry :: "sip_env \<Rightarrow> consumer_step" where
  "media_attach_retry env c0 =
     (let c = c0\<lparr>cs_media_attach_timeout := False\<rparr> in
      case cs_pending_lan_response c of
        None \<Rightarrow> (c, [])
      | Some response \<Rightarrow>
          if \<not> sc_active (cs_call c) then (c, [])
          else (case attach_both env (c\<lparr>cs_media_attach_attempts := cs_media_attach_attempts c + 1\<rparr>) of
                  (attached, c1) \<Rightarrow>
                    if attached then answer_waiting env response c1
                    else if cs_media_attach_attempts c1 < 20 then (c1\<lparr>cs_media_attach_timeout := True\<rparr>, [])
                    else give_up_attaching response c1))"

text \<open>An event of the voice daemon. Members the event does not have are \<open>None\<close>.\<close>

record daemon_event =
  de_event :: "string option"
  de_state :: "string option"
  de_revision :: "u64 option"
  de_remote_number :: "string option"
  de_withheld :: "bool option"
  de_answer_owner :: "string option"

definition event_ends_call :: "string \<Rightarrow> string \<Rightarrow> string \<Rightarrow> consumer \<Rightarrow> bool" where
  "event_ends_call event state owner c \<longleftrightarrow> event = ''release'' \<or>
     (sc_active (cs_call c) \<and> (state = ''idle'' \<or> state = ''disabled'' \<or> state = ''fault'')) \<or>
     (sc_active (cs_call c) \<and> \<not> sc_established (cs_call c) \<and> sc_origin (cs_call c) = SIP_CALL_CELLULAR \<and>
      owner \<noteq> ''none'' \<and> owner \<noteq> (if cs_outbound c then ''external_sip'' else ''lan_sip''))"

definition call_ended :: "sip_env \<Rightarrow> consumer_step" where
  "call_ended env c =
     (let lan_bye = (sc_active (cs_call c) \<and> sc_established (cs_call c) \<and> sc_origin (cs_call c) = SIP_CALL_LAN \<and> cs_lan_answer c \<noteq> None) in
      perform
        [\<lambda>c. (c\<lparr>cs_incoming_number := [], cs_incoming_caller_id_withheld := False, cs_media_attach_timeout := False,
               cs_pending_lan_response := None\<rparr>,
             case cs_pending_lan_response c of None \<Rightarrow> [] | Some response \<Rightarrow> [Final_Response response 480]),
         send_invite_cancel env, send_dialog_bye env, detach_media, call_release, remember_outbound_invite None,
         \<lambda>c. if lan_bye \<and> \<not> cs_lan_acked c then (c\<lparr>cs_lan_bye_pending := True, cs_lan_bye_timeout := True\<rparr>, [])
             else if lan_bye then lan_bye_flush env c
             else perform [remember_lan_answer None, clear_dialog_contact] c] c)"

definition consumer_event :: "sip_env \<Rightarrow> daemon_event \<Rightarrow> consumer_step" where
  "consumer_event env ev c =
     (case (de_event ev, de_state ev) of
        (Some event, Some state) \<Rightarrow>
          let c1 = c\<lparr>cs_incoming_number := (case de_remote_number ev of None \<Rightarrow> cs_incoming_number c | Some n \<Rightarrow> c_copy 64 n),
                     cs_incoming_caller_id_withheld := (case de_withheld ev of None \<Rightarrow> cs_incoming_caller_id_withheld c | Some b \<Rightarrow> b),
                     cs_media_revision := (case de_revision ev of None \<Rightarrow> cs_media_revision c | Some v \<Rightarrow> v),
                     cs_incoming_ringing := (state = ''incoming_ringing'')\<rparr>;
              owner = (case de_answer_owner ev of None \<Rightarrow> ''none'' | Some owner \<Rightarrow> owner)
          in if event_ends_call event state owner c1 then call_ended env c1
             else if event = ''call_state'' \<and> state = ''active'' \<and> sc_active (cs_call c1) then
               (if cs_pending_lan_response c1 \<noteq> None \<and> \<not> cs_media_attach_timeout c1
                then (c1\<lparr>cs_media_attach_attempts := 0, cs_media_attach_timeout := True\<rparr>, []) else (c1, []))
             else if event = ''ring'' then send_incoming_invite env c1
             else (c1, [])
      | _ \<Rightarrow> (c, []))"

section \<open>The bridge between RTP and the media socket\<close>

definition g711_bridge_encode :: "u32 \<Rightarrow> i16 list \<Rightarrow> u8 list option" where
  "g711_bridge_encode codec input =
     (if codec = 8 then Some (map qmodem_g711_alaw_encode input)
      else if codec = 0 then Some (map qmodem_g711_ulaw_encode input) else None)"

definition g711_bridge_decode :: "u32 \<Rightarrow> u8 list \<Rightarrow> i16 list option" where
  "g711_bridge_decode codec input =
     (if codec = 8 then Some (map qmodem_g711_alaw_decode input)
      else if codec = 0 then Some (map qmodem_g711_ulaw_decode input) else None)"

definition bridge_header :: "consumer \<Rightarrow> u8 list" where
  "bridge_header c = [0x80, ucast (cs_rtp_codec c)] @ be_bytes16 (cs_rtp_sequence c) @ be_bytes32 (cs_rtp_timestamp c) @
     be_bytes32 (cs_rtp_ssrc c)"

text \<open>A datagram of the daemon. \<open>message\<close> is what the buffer on the stack held before; \<open>sent\<close> is whether
  the packet could be sent as a whole.\<close>

definition media_readable :: "read_result \<Rightarrow> u8 list \<Rightarrow> bool \<Rightarrow> consumer_step" where
  "media_readable result message sent c =
     (case qmodem_voip_media_socket_client_read result (cs_media_sock c) message of
        (r, m) \<Rightarrow>
          if r < 0 then stop_media c
          else if r = 0 then (c, [])
          else if hd_type (read_header m) \<noteq> SOCKET_PCM_CAPTURE \<or> hd_payload_length (read_header m) \<noteq> of_nat PCM_SIZE then (c, [])
          else case g711_bridge_encode (cs_rtp_codec c) (pm_samples (read_pcm (drop HEADER_SIZE m))) of
              None \<Rightarrow> (c, [])
            | Some payload \<Rightarrow>
                let packet = bridge_header c @ payload; sending = (cs_rtp_attached c \<and> cs_rtp_fd c) in
                if sending \<and> \<not> sent then stop_media c
                else (c\<lparr>cs_rtp_sequence := cs_rtp_sequence c + 1, cs_rtp_timestamp := cs_rtp_timestamp c + 160\<rparr>,
                      if sending then [To_Rtp (cs_rtp_peer c) packet] else []))"

text \<open>The offset of the audio in a packet; every byte looked at is inside the packet.\<close>

definition bridge_offset :: "u8 list \<Rightarrow> nat option" where
  "bridge_offset packet =
     (if length packet < RTP_HEADER_SIZE \<or> drop_bit 6 (packet ! 0) \<noteq> 2 then None
      else let offset = RTP_HEADER_SIZE + unat (packet ! 0 AND 15) * 4 in
      if offset > length packet then None
      else if packet ! 0 AND 0x10 = 0 then Some offset
      else if length packet - offset < 4 then None
      else let extension_words = unat (packet ! (offset + 2)) * 256 + unat (packet ! (offset + 3)) in
      if extension_words > (length packet - offset - 4) div 4 then None
      else Some (offset + 4 + extension_words * 4))"

definition media_playback_to_modem :: "u32 \<Rightarrow> bool \<Rightarrow> u8 list \<Rightarrow> consumer \<Rightarrow> int \<times> sip_effect list" where
  "media_playback_to_modem now sent packet c =
     (case bridge_offset packet of
        None \<Rightarrow> (-1, [])
      | Some offset \<Rightarrow>
          if ucast (packet ! 1 AND 127) \<noteq> cs_rtp_codec c \<or> length packet - offset \<noteq> QMODEM_VOIP_MEDIA_SAMPLES then (-1, [])
          else case g711_bridge_decode (cs_rtp_codec c) (drop offset packet) of
              None \<Rightarrow> (-1, [])
            | Some samples \<Rightarrow>
                (case qmodem_voip_media_socket_client_write sent (cs_media_sock c) SOCKET_PCM_PLAYBACK
                    (pcm_bytes \<lparr>pm_sequence = cl_outbound_sequence (cs_media_sock c), pm_timestamp_ms = now, pm_samples = samples\<rparr>) of
                   (r, d) \<Rightarrow> (if r \<noteq> 0 then -1 else 0, case d of None \<Rightarrow> [] | Some bytes \<Rightarrow> [To_Media bytes])))"

text \<open>What the socket gives: nothing, an error, or a packet with its source, which may not be of the
  internet family.\<close>

datatype rtp_received = Rtp_Again | Rtp_Error | Rtp_Packet "(u32 \<times> u16) option" "u8 list"

definition rtp_readable :: "rtp_received \<Rightarrow> u32 \<Rightarrow> bool \<Rightarrow> consumer_step" where
  "rtp_readable received now sent c =
     (if \<not> cs_rtp_attached c \<or> \<not> cs_rtp_fd c then (c, [])
      else case received of
          Rtp_Again \<Rightarrow> (c, [])
        | Rtp_Error \<Rightarrow> stop_media c
        | Rtp_Packet source packet \<Rightarrow>
            (case source of None \<Rightarrow> (c, [])
             | Some (a, port) \<Rightarrow>
                 if a \<noteq> fst (cs_rtp_peer c) then (c, [])
                 else let c1 = c\<lparr>cs_rtp_peer := (a, port)\<rparr> in (c1, snd (media_playback_to_modem now sent (take 2048 packet) c1))))"

end
