(* ===== verification/Sip_Calls.thy ===== *)
theory Sip_Calls
  imports Sip_Consumer
begin

text \<open>Theorems about the SIP service as a whole: what every handler keeps, what a request must bring to have
  an effect on calls, how a waiting INVITE is answered, and what the bridge does with the audio.\<close>

section \<open>The invariant\<close>

text \<open>The record of a call: established only while active, with a tag that fits its buffer.\<close>

definition sip_call_ok :: "qmodem_voip_sip_call \<Rightarrow> bool" where
  "sip_call_ok k \<longleftrightarrow> (sc_established k \<longrightarrow> sc_active k) \<and> (sc_active k \<longrightarrow> sc_remote_tag k \<noteq> [] \<and> length (sc_remote_tag k) < 96)"

text \<open>Audio is attached only while the call is established, in both directions and with open sockets; a
  BYE is owed only for an answer that is still known.\<close>

definition consumer_ok :: "consumer \<Rightarrow> bool" where
  "consumer_ok c \<longleftrightarrow> sip_call_ok (cs_call c) \<and> cs_rtp_attached c = cs_media_attached c \<and>
     (cs_media_attached c \<longrightarrow> sc_established (cs_call c) \<and> cs_rtp_fd c \<and> cs_media_watched c) \<and>
     (cs_lan_bye_pending c \<longrightarrow> cs_lan_answer c \<noteq> None)"

text \<open>The steps that do not touch the call keep it, and those that stop the audio may do anything to it.\<close>

lemma sip_call_ok_clear [simp]: "sip_call_ok (qmodem_voip_sip_call_clear k)" "sip_call_ok (qmodem_voip_sip_call_release k)"
  "\<not> sc_active (qmodem_voip_sip_call_clear k)" "\<not> sc_active (qmodem_voip_sip_call_release k)"
  "\<not> sc_established (qmodem_voip_sip_call_clear k)" "\<not> sc_established (qmodem_voip_sip_call_release k)"
  by (simp_all add: sip_call_ok_def qmodem_voip_sip_call_release_def qmodem_voip_sip_call_clear_def)

lemma call_begin_ok:
  "qmodem_voip_sip_call_begin k origin i t b n = (r, k') \<Longrightarrow> r = 0 \<Longrightarrow> sip_call_ok k' \<and> sc_active k' \<and> \<not> sc_established k'"
  by (auto simp: qmodem_voip_sip_call_begin_def sip_call_ok_def split: option.splits if_splits)

lemma call_begin_fails: "qmodem_voip_sip_call_begin k origin i t b n = (r, k') \<Longrightarrow> r \<noteq> 0 \<Longrightarrow> k' = k"
  by (auto simp: qmodem_voip_sip_call_begin_def split: option.splits if_splits)

lemma call_establish_ok: "sip_call_ok k \<Longrightarrow> sip_call_ok (snd (qmodem_voip_sip_call_establish k t))"
  by (auto simp: qmodem_voip_sip_call_establish_def sip_call_ok_def split: option.splits)

lemma call_establish_done:
  "sc_active k \<Longrightarrow> t \<noteq> [] \<Longrightarrow> length t < 96 \<Longrightarrow> sc_established (snd (qmodem_voip_sip_call_establish k (Some t)))"
  by (simp add: qmodem_voip_sip_call_establish_def)

lemma perform_fst [simp]: "fst (perform [] c) = c" "fst (perform (f # fs) c) = fst (perform fs (fst (f c)))"
  by (simp_all split: prod.split)

lemma perform_snd [simp]: "snd (perform [] c) = []" "snd (perform (f # fs) c) = snd (f c) @ snd (perform fs (fst (f c)))"
  by (simp_all split: prod.split)

declare perform.simps [simp del]

lemmas step_defs = respond_def action_def remember_lan_answer_def clear_dialog_contact_def save_dialog_contact_def call_release_def
  send_dialog_bye_def send_lan_bye_def send_invite_cancel_def remember_outbound_invite_def

text \<open>What the small steps leave alone, in the fields the invariant is about.\<close>

definition same_core :: "consumer \<Rightarrow> consumer \<Rightarrow> bool" where
  "same_core c c' \<longleftrightarrow> cs_call c' = cs_call c \<and> cs_media_attached c' = cs_media_attached c \<and> cs_rtp_attached c' = cs_rtp_attached c \<and>
     cs_rtp_fd c' = cs_rtp_fd c \<and> cs_media_watched c' = cs_media_watched c"

lemma same_core_refl [simp]: "same_core c c"
  by (simp add: same_core_def)

lemma same_core_trans: "same_core a b \<Longrightarrow> same_core b c \<Longrightarrow> same_core a c"
  by (simp add: same_core_def)

definition bye_ok :: "consumer \<Rightarrow> bool" where
  "bye_ok c \<longleftrightarrow> (cs_lan_bye_pending c \<longrightarrow> cs_lan_answer c \<noteq> None)"

lemma same_core_ok: "same_core c c' \<Longrightarrow> consumer_ok c \<Longrightarrow> bye_ok c' \<Longrightarrow> consumer_ok c'"
  by (simp add: consumer_ok_def same_core_def bye_ok_def)

lemma consumer_ok_bye: "consumer_ok c \<Longrightarrow> bye_ok c"
  by (simp add: consumer_ok_def bye_ok_def)

text \<open>No audio: then the record of the call may change freely.\<close>

definition quiet :: "consumer \<Rightarrow> bool" where
  "quiet c \<longleftrightarrow> \<not> cs_media_attached c \<and> \<not> cs_rtp_attached c \<and> bye_ok c"

lemma quiet_ok: "quiet c \<Longrightarrow> sip_call_ok (cs_call c) \<Longrightarrow> consumer_ok c"
  by (simp add: quiet_def consumer_ok_def bye_ok_def)

lemma not_established_quiet: "consumer_ok c \<Longrightarrow> \<not> sc_established (cs_call c) \<Longrightarrow> quiet c"
  by (auto simp: consumer_ok_def quiet_def bye_ok_def)

lemma not_active_quiet: "consumer_ok c \<Longrightarrow> \<not> sc_active (cs_call c) \<Longrightarrow> quiet c"
  by (auto simp: consumer_ok_def sip_call_ok_def quiet_def bye_ok_def)

lemma quiet_core: "same_core c c' \<Longrightarrow> quiet c \<Longrightarrow> bye_ok c' \<Longrightarrow> quiet c'"
  by (simp add: quiet_def same_core_def)

lemma detach_media_quiet: "bye_ok c \<Longrightarrow> quiet (fst (detach_media c))" "cs_call (fst (detach_media c)) = cs_call c"
    "cs_lan_answer (fst (detach_media c)) = cs_lan_answer c" "cs_lan_bye_pending (fst (detach_media c)) = cs_lan_bye_pending c"
    "cs_lan_acked (fst (detach_media c)) = cs_lan_acked c"
  by (simp_all add: detach_media_def quiet_def bye_ok_def split: prod.split)

lemma stop_media_quiet: "bye_ok c \<Longrightarrow> quiet (fst (stop_media c))" "cs_call (fst (stop_media c)) = cs_call c"
  by (simp_all add: stop_media_def action_def detach_media_quiet)

lemma lan_bye_flush_core: "same_core c (fst (lan_bye_flush env c))" "bye_ok (fst (lan_bye_flush env c))"
  by (simp_all add: lan_bye_flush_def step_defs same_core_def bye_ok_def)

lemma flush_owed_bye_core: "same_core c (fst (flush_owed_bye env c))" "bye_ok c \<Longrightarrow> bye_ok (fst (flush_owed_bye env c))"
  by (simp_all add: flush_owed_bye_def lan_bye_flush_core)

lemma call_release_quiet: "quiet c \<Longrightarrow> consumer_ok (fst (call_release c))" "quiet c \<Longrightarrow> quiet (fst (call_release c))"
  by (simp_all add: call_release_def quiet_def consumer_ok_def bye_ok_def)

section \<open>Every handler keeps the invariant\<close>

lemma offer_call_ok:
  assumes "quiet c" "sip_call_ok (cs_call c)"
  shows "consumer_ok (fst (offer_call env c))"
proof -
  have c: "consumer_ok c" by (rule quiet_ok [OF assms])
  have "consumer_ok (c\<lparr>cs_call := k, cs_outbound_invite := i, cs_dialog_contact := [], cs_invite_alerted := False\<rparr>)" if "sip_call_ok k" for k i
    by (rule quiet_ok) (use assms that in \<open>simp_all add: quiet_def bye_ok_def\<close>)
  moreover have "quiet (c\<lparr>cs_call := k, cs_outbound_invite := i, cs_dialog_contact := [], cs_invite_alerted := False\<rparr>)" for k i
    using assms by (simp add: quiet_def bye_ok_def)
  ultimately show ?thesis using c
    by (auto simp: offer_call_def Let_def step_defs consumer_ok_def quiet_def bye_ok_def
        split: option.splits prod.splits dest: call_begin_ok)
qed

lemma send_incoming_invite_ok:
  assumes "consumer_ok c"
  shows "consumer_ok (fst (send_incoming_invite env c))"
proof (cases "\<not> binding_active env c \<or> sc_active (cs_call c)")
  case True
  then show ?thesis using assms by (simp add: send_incoming_invite_def)
next
  case False
  have q: "quiet c" using not_active_quiet [OF assms] False by simp
  have "quiet (fst (flush_owed_bye env c))" "sip_call_ok (cs_call (fst (flush_owed_bye env c)))"
    using quiet_core [OF flush_owed_bye_core(1) q flush_owed_bye_core(2) [OF consumer_ok_bye [OF assms]]]
      flush_owed_bye_core(1) [of c env] assms by (simp_all add: same_core_def consumer_ok_def)
  then show ?thesis using False offer_call_ok by (simp add: send_incoming_invite_def)
qed

lemma resend_incoming_invite_ok:
  assumes "consumer_ok c"
  shows "consumer_ok (fst (resend_incoming_invite env c))"
proof (cases "cs_outbound c \<or> \<not> cs_incoming_ringing c \<or> sc_established (cs_call c)")
  case True
  then show ?thesis using assms by (auto simp: resend_incoming_invite_def)
next
  case False
  have "consumer_ok (fst (remember_outbound_invite None (fst (call_release c))))"
    using call_release_quiet(1) [OF not_established_quiet [OF assms]] False by (simp add: step_defs consumer_ok_def)
  then have "consumer_ok (fst (perform [send_invite_cancel env, call_release, remember_outbound_invite None, send_incoming_invite env] c))"
    using send_incoming_invite_ok by (simp add: send_invite_cancel_def)
  then show ?thesis using False assms send_incoming_invite_ok by (auto simp: resend_incoming_invite_def)
qed

lemma consumer_ok_update [simp]: "consumer_ok (c\<lparr>cs_auth := a\<rparr>) = consumer_ok c" "consumer_ok (c\<lparr>cs_media := media\<rparr>) = consumer_ok c"
  "consumer_ok (c\<lparr>cs_rtp_codec := codec\<rparr>) = consumer_ok c" "consumer_ok (c\<lparr>cs_rtp_peer := peer\<rparr>) = consumer_ok c"
  "consumer_ok (c\<lparr>cs_media_attach_timeout := t\<rparr>) = consumer_ok c" "consumer_ok (c\<lparr>cs_media_attach_attempts := n\<rparr>) = consumer_ok c"
  "consumer_ok (c\<lparr>cs_pending_lan_response := p\<rparr>) = consumer_ok c" "consumer_ok (c\<lparr>cs_incoming_ringing := b\<rparr>) = consumer_ok c"
  "consumer_ok (c\<lparr>cs_outbound_invite := i\<rparr>) = consumer_ok c" "consumer_ok (c\<lparr>cs_dialog_contact := d\<rparr>) = consumer_ok c"
  "consumer_ok (c\<lparr>cs_invite_alerted := b\<rparr>) = consumer_ok c" "consumer_ok (c\<lparr>cs_lan_acked := b\<rparr>) = consumer_ok c"
  "consumer_ok (c\<lparr>cs_lan_bye_timeout := b\<rparr>) = consumer_ok c" "consumer_ok (c\<lparr>cs_rtp_sequence := n1, cs_rtp_timestamp := n2\<rparr>) = consumer_ok c"
  by (simp_all add: consumer_ok_def)

lemma if_authenticated_ok:
  assumes "\<And>c. consumer_ok c \<Longrightarrow> consumer_ok (fst (f c))" "consumer_ok c"
  shows "consumer_ok (fst (if_authenticated m f c))"
proof -
  obtain ok resp a where "authenticate (mg_auth m) (cs_auth c) = (ok, resp, a)" by (metis prod_cases3)
  then show ?thesis using assms by (simp add: if_authenticated_def)
qed

lemma if_admitted_ok:
  assumes "\<And>c. consumer_ok c \<Longrightarrow> consumer_ok (fst (f c))" "consumer_ok c"
  shows "consumer_ok (fst (if_admitted m f c))"
  using assms if_authenticated_ok [of f] by (simp add: if_admitted_def)

lemma register_contact_ok:
  assumes "consumer_ok c"
  shows "consumer_ok (fst (register_contact env m c))"
  unfolding register_contact_def
proof (rule if_authenticated_ok [OF _ assms])
  fix c assume ok: "consumer_ok c"
  have u: "consumer_ok (update_binding env n ct c)" for n ct using ok by (simp add: update_binding_def consumer_ok_def)
  have "consumer_ok (fst (registered env c'))" if "consumer_ok c'" for c'
    using that resend_incoming_invite_ok [of c' env] by (simp add: registered_def)
  then show "consumer_ok (fst (case mg_contact m of None \<Rightarrow> respond 400 c
     | Some ct \<Rightarrow> if ct_star ct then respond 400 c
         else let requested = request_expiry m ct; c1 = update_binding env requested ct c
              in if requested \<noteq> 0 \<and> \<not> ct_printed ct then respond 400 c1
                 else if se_created env then registered env c1 else (c1, [])))"
    using ok u by (simp add: respond_def Let_def split: option.split)
qed

lemma save_dialog_contact_core: "same_core c (fst (save_dialog_contact m c))" "bye_ok c \<Longrightarrow> bye_ok (fst (save_dialog_contact m c))"
  by (simp_all add: save_dialog_contact_def same_core_def bye_ok_def split: option.split)

lemma invite_answer_ok:
  assumes "quiet c" "sip_call_ok (cs_call c)"
  shows "consumer_ok (fst (invite_answer env m media c))"
proof -
  let ?c1 = "fst (flush_owed_bye env (c\<lparr>cs_media := media\<rparr>))"
  let ?c2 = "fst (clear_dialog_contact (fst (remember_lan_answer None ?c1)))"
  let ?c3 = "fst (save_dialog_contact m ?c2)"
  have "quiet (c\<lparr>cs_media := media\<rparr>)" "bye_ok (c\<lparr>cs_media := media\<rparr>)" using assms(1) by (simp_all add: quiet_def bye_ok_def)
  then have q1: "quiet ?c1" by (metis quiet_core flush_owed_bye_core)
  have k1: "cs_call ?c1 = cs_call c" using flush_owed_bye_core(1) [of "c\<lparr>cs_media := media\<rparr>" env] by (simp add: same_core_def)
  have q2: "quiet ?c2" "cs_call ?c2 = cs_call c" using q1 k1 by (simp_all add: step_defs quiet_def bye_ok_def)
  have q3: "quiet ?c3" using q2(1) save_dialog_contact_core [of ?c2 m] quiet_core quiet_def by blast
  have k3: "cs_call ?c3 = cs_call c" using q2(2) save_dialog_contact_core(1) [of ?c2 m] by (simp add: same_core_def)
  have r: "consumer_ok (fst (refuse_call ?c3))" using call_release_quiet(1) [OF q3] by (simp add: refuse_call_def action_def respond_def)
  have "consumer_ok (?c3\<lparr>cs_pending_lan_response := p\<rparr>)" for p
    by (rule quiet_ok) (use q3 k3 assms(2) in \<open>simp_all add: quiet_def bye_ok_def\<close>)
  then show ?thesis using r by (simp add: invite_answer_def respond_def split: option.split)
qed

lemma clear_stale_call_quiet:
  assumes "consumer_ok c"
  shows "quiet (fst (clear_stale_call c)) \<and> sip_call_ok (cs_call (fst (clear_stale_call c)))"
proof (cases "sc_active (cs_call c)")
  case True
  have "quiet (fst (call_release (fst (stop_media c))))"
    by (rule call_release_quiet(2), rule stop_media_quiet(1), rule consumer_ok_bye [OF assms])
  then show ?thesis using True by (simp add: clear_stale_call_def) (simp add: call_release_def)
next
  case False
  then show ?thesis using not_active_quiet [OF assms] assms by (simp add: clear_stale_call_def consumer_ok_def)
qed

lemma invite_originate_ok:
  assumes "quiet c" "sip_call_ok (cs_call c)"
  shows "consumer_ok (fst (invite_originate env m media c))"
proof -
  have c: "consumer_ok c" by (rule quiet_ok [OF assms])
  have "consumer_ok (fst (invite_answer env m media (c\<lparr>cs_call := k\<rparr>)))" if "sip_call_ok k" for k
    by (rule invite_answer_ok) (use assms that in \<open>simp_all add: quiet_def bye_ok_def\<close>)
  then show ?thesis using c
    by (auto simp: invite_originate_def step_defs split: option.splits prod.splits dest: call_begin_ok)
qed

lemma invite_call_ok:
  assumes "consumer_ok c"
  shows "consumer_ok (fst (invite_call env m c))"
proof -
  obtain allowed rates where r: "qmodem_voip_sip_rate_allow (cs_invite_rates c) (rq_address (mg_auth m)) (rq_rate_time (mg_auth m)) 5 = (allowed, rates)"
    by fastforce
  have ok1: "consumer_ok (c\<lparr>cs_invite_rates := rates\<rparr>)" using assms by (simp add: consumer_ok_def)
  have "consumer_ok (fst (if_admitted m (\<lambda>c. case supported_sdp m of None \<Rightarrow> respond 488 c
          | Some media \<Rightarrow> if \<not> binding_active env c then respond 486 c
              else perform [clear_stale_call, invite_originate env m media] c) (c\<lparr>cs_invite_rates := rates\<rparr>)))"
    by (rule if_admitted_ok [OF _ ok1])
      (use clear_stale_call_quiet invite_originate_ok in \<open>auto simp: respond_def split: option.split\<close>)
  then show ?thesis using ok1 by (simp add: invite_call_def rate_allow_def r respond_def)
qed

lemma in_dialog_media_refresh_ok:
  assumes "consumer_ok c"
  shows "consumer_ok (fst (in_dialog_media_refresh env m c))"
proof -
  have sent: "consumer_ok (fst (refresh_sent env m body c))" if "consumer_ok c" for body c
    using that same_core_ok [OF save_dialog_contact_core(1) that save_dialog_contact_core(2) [OF consumer_ok_bye [OF that]]]
    by (simp add: refresh_sent_def)
  have "consumer_ok (fst (refresh_answer env m media body c))" if "consumer_ok c" for media body c
    using that by (simp add: refresh_answer_def Let_def sent respond_def split: option.split)
  then show ?thesis unfolding in_dialog_media_refresh_def
    by (intro if_admitted_ok [OF _ assms]) (auto simp: respond_def split: option.split)
qed

lemma end_call_keeps:
  assumes "end_call k auth i t n cancel act = (status, acted, k')"
  shows "status = 200 \<and> k' = qmodem_voip_sip_call_clear k \<or> status \<noteq> 200 \<and> k' = k"
  using assms unfolding end_call_def by (auto split: if_splits option.splits)

lemma end_matched_ok:
  assumes "consumer_ok c"
  shows "consumer_ok (fst (end_matched env cancel ident c))"
proof -
  obtain i t b n where ident: "ident = (i, t, b, n)" by (metis prod_cases4)
  let ?h = "Some (if se_action env ''hangup'' then 0 else -1)"
  let ?e = "if cancel then qmodem_voip_sip_call_cancel (cs_call c) True (Some i) (Some t) (Some b) n ?h
            else qmodem_voip_sip_call_bye (cs_call c) True (Some i) (Some t) ?h"
  obtain status acted k where e: "?e = (status, acted, k)" by (metis prod_cases3)
  have k: "status = 200 \<and> k = qmodem_voip_sip_call_clear (cs_call c) \<or> status \<noteq> 200 \<and> k = cs_call c"
    using e end_call_keeps [of "cs_call c"]
    by (auto simp: qmodem_voip_sip_call_cancel_def qmodem_voip_sip_call_bye_def split: if_splits)
  have "consumer_ok (fst (ended_by_peer (c\<lparr>cs_call := k\<rparr>)))" if "sip_call_ok k"
  proof -
    let ?c = "fst (remember_lan_answer None (c\<lparr>cs_call := k, cs_media_attach_timeout := False, cs_pending_lan_response := None\<rparr>))"
    have "bye_ok ?c" by (simp add: remember_lan_answer_def bye_ok_def)
    then have "consumer_ok (fst (stop_media ?c))"
      using stop_media_quiet that by (intro quiet_ok) (simp_all add: remember_lan_answer_def)
    then show ?thesis by (simp add: ended_by_peer_def)
  qed
  then show ?thesis using k assms e
    by (auto simp: end_matched_def ident Let_def respond_def action_def split: if_splits)
qed

lemma consumer_end_call_ok:
  assumes "consumer_ok c"
  shows "consumer_ok (fst (consumer_end_call env cancel m c))"
proof -
  have f: "consumer_ok (fst (forget_owed_bye cancel i c))" if "consumer_ok c" for i c
    using that by (auto simp: forget_owed_bye_def step_defs consumer_ok_def split: option.split)
  have "consumer_ok (fst (perform [forget_owed_bye cancel i, end_matched env cancel ident] c))" if "consumer_ok c" for i ident c
    using end_matched_ok [OF f [OF that]] by simp
  then show ?thesis using assms if_admitted_ok [OF _ assms]
    by (auto simp: consumer_end_call_def respond_def Let_def split: option.split)
qed

lemma on_request_ok:
  assumes "consumer_ok c"
  shows "consumer_ok (fst (on_request env m c))"
proof -
  have "consumer_ok (fst (message_to_sms env m c))" unfolding message_to_sms_def
    by (rule if_admitted_ok [OF _ assms]) (auto simp: respond_def split: option.split)
  moreover have "consumer_ok (fst (ack_received env m c))"
  proof -
    have a: "consumer_ok (c\<lparr>cs_lan_acked := True\<rparr>)" using assms by simp
    from same_core_ok [OF flush_owed_bye_core(1) a flush_owed_bye_core(2) [OF consumer_ok_bye [OF a]]]
    show ?thesis using assms by (simp add: ack_received_def split: option.split)
  qed
  ultimately show ?thesis
    using assms register_contact_ok [OF assms] in_dialog_media_refresh_ok [OF assms] invite_call_ok [OF assms] consumer_end_call_ok [OF assms]
    by (simp add: on_request_def respond_def split: sip_method.split)
qed

lemma attach_media_facts:
  assumes "attach_media env c = (a, c1)"
  shows "cs_call c1 = cs_call c" "cs_lan_bye_pending c1 = cs_lan_bye_pending c" "cs_lan_answer c1 = cs_lan_answer c" "cs_rtp_fd c1 = cs_rtp_fd c"
    "cs_pending_lan_response c1 = cs_pending_lan_response c" "cs_media_attach_attempts c1 = cs_media_attach_attempts c"
    "a \<Longrightarrow> \<not> cs_media_attached c \<Longrightarrow> cs_media_attached c1 \<and> cs_rtp_attached c1 \<and> cs_media_watched c1"
    "a \<Longrightarrow> cs_media_attached c \<Longrightarrow> c1 = c"
    "\<not> a \<Longrightarrow> \<not> cs_media_attached c \<and> \<not> cs_media_attached c1 \<and> cs_rtp_attached c1 = cs_rtp_attached c"
  using assms unfolding attach_media_def ubus_issue_socket_session_def Let_def
  by (auto split: if_splits option.splits prod.splits)

lemma attach_both_facts:
  assumes "attach_both env c = (a, c1)" "consumer_ok c"
  shows "cs_call c1 = cs_call c" "bye_ok c1" "cs_pending_lan_response c1 = cs_pending_lan_response c"
    "cs_media_attach_attempts c1 = cs_media_attach_attempts c"
    "a \<Longrightarrow> cs_media_attached c1 \<and> cs_rtp_attached c1 \<and> cs_rtp_fd c1 \<and> cs_media_watched c1"
    "\<not> a \<Longrightarrow> consumer_ok c1"
proof -
  obtain opened c0 where r: "rtp_open env c = (opened, c0)" by fastforce
  have c0: "c0 = c \<or> c0 = c\<lparr>cs_rtp_fd := True\<rparr>" "opened \<Longrightarrow> cs_rtp_fd c0" using r by (auto simp: rtp_open_def split: if_splits)
  have ok0: "consumer_ok c0" using c0(1) assms(2) by (auto simp: consumer_ok_def)
  have eq: "cs_call c0 = cs_call c" "cs_pending_lan_response c0 = cs_pending_lan_response c"
    "cs_media_attach_attempts c0 = cs_media_attach_attempts c" using c0(1) by auto
  have "cs_call c1 = cs_call c \<and> bye_ok c1 \<and> cs_pending_lan_response c1 = cs_pending_lan_response c \<and>
        cs_media_attach_attempts c1 = cs_media_attach_attempts c \<and>
        (a \<longrightarrow> cs_media_attached c1 \<and> cs_rtp_attached c1 \<and> cs_rtp_fd c1 \<and> cs_media_watched c1) \<and> (\<not> a \<longrightarrow> consumer_ok c1)"
  proof (cases opened)
    case True
    then have am: "attach_media env c0 = (a, c1)" using assms(1) r by (simp add: attach_both_def)
    note f = attach_media_facts [OF am]
    have "bye_ok c1" using consumer_ok_bye [OF ok0] f(2,3) by (simp add: bye_ok_def)
    moreover have "a \<longrightarrow> cs_media_attached c1 \<and> cs_rtp_attached c1 \<and> cs_rtp_fd c1 \<and> cs_media_watched c1"
      using f(4,7,8) c0(2) True ok0 by (cases "cs_media_attached c0") (auto simp: consumer_ok_def)
    moreover have "\<not> a \<longrightarrow> consumer_ok c1" using f(1,2,3,9) ok0 by (auto simp: consumer_ok_def)
    ultimately show ?thesis
      using f(1,5,6) eq by simp
  next
    case False
    then have "\<not> a" "c1 = c0" using assms(1) r by (simp_all add: attach_both_def)
    then show ?thesis
      using eq ok0 consumer_ok_bye [OF ok0] by simp
  qed
  then show "cs_call c1 = cs_call c" "bye_ok c1" "cs_pending_lan_response c1 = cs_pending_lan_response c"
    "cs_media_attach_attempts c1 = cs_media_attach_attempts c"
    "a \<Longrightarrow> cs_media_attached c1 \<and> cs_rtp_attached c1 \<and> cs_rtp_fd c1 \<and> cs_media_watched c1" "\<not> a \<Longrightarrow> consumer_ok c1" by blast+
qed

text \<open>With the audio attached the invariant holds as soon as the call is established.\<close>

lemma attached_ok:
  assumes "cs_media_attached c" "cs_rtp_attached c" "cs_rtp_fd c" "cs_media_watched c" "bye_ok c" "sip_call_ok k" "sc_established k"
  shows "consumer_ok (c\<lparr>cs_call := k\<rparr>)"
  using assms by (simp add: consumer_ok_def bye_ok_def)

lemma take_back_answer_ok:
  assumes "bye_ok c" "sip_call_ok (cs_call c)"
  shows "consumer_ok (fst (take_back_answer env r c))"
proof -
  let ?e = "case response_tag r of None \<Rightarrow> (-1, cs_call c) | Some tag \<Rightarrow> qmodem_voip_sip_call_establish (cs_call c) (Some tag)"
  obtain result k where e: "?e = (result, k)" by fastforce
  have "consumer_ok (fst (call_release (fst (stop_media (c\<lparr>cs_call := k\<rparr>)))))"
    by (rule call_release_quiet(1), rule stop_media_quiet(1)) (use assms(1) in \<open>simp add: bye_ok_def\<close>)
  then show ?thesis unfolding take_back_answer_def e by (simp add: send_dialog_bye_def)
qed

text \<open>The tags of the library are texts, so a tag that was copied is not empty.\<close>

definition answer_wf :: "sip_answer \<Rightarrow> bool" where
  "answer_wf r \<longleftrightarrow> (case rs_to_tag r of None \<Rightarrow> True | Some t \<Rightarrow> CHR 0x00 \<notin> set t)"

lemma response_tag_wf: "answer_wf r \<Longrightarrow> response_tag r = Some t \<Longrightarrow> t \<noteq> [] \<and> length t < 96"
  by (auto simp: answer_wf_def response_tag_def copy_pj_string_def c_str_id split: option.splits if_splits)

lemma answer_call_ok:
  assumes "consumer_ok c" "sc_active (cs_call c)" "answer_wf r"
  shows "consumer_ok (fst (answer_call env r c))"
proof -
  obtain a c1 where at: "(if se_action env ''answer'' then attach_both env c else (False, c)) = (a, c1)" by fastforce
  have f: "cs_call c1 = cs_call c" "bye_ok c1" "a \<Longrightarrow> cs_media_attached c1 \<and> cs_rtp_attached c1 \<and> cs_rtp_fd c1 \<and> cs_media_watched c1"
    using at attach_both_facts [OF _ assms(1)] consumer_ok_bye [OF assms(1)] by (auto split: if_splits)
  have tb: "consumer_ok (fst (take_back_answer env r c1))"
    using take_back_answer_ok f(1,2) assms(1) by (simp add: consumer_ok_def)
  show ?thesis
  proof (cases "if a then response_tag r else None")
    case None
    then show ?thesis using tb by (simp add: answer_call_def at action_def)
  next
    case (Some t)
    then have a: "a" "response_tag r = Some t" by (auto split: if_splits)
    have "consumer_ok (c1\<lparr>cs_call := snd (qmodem_voip_sip_call_establish (cs_call c1) (Some t))\<rparr>)"
      by (rule attached_ok)
        (use f a response_tag_wf [OF assms(3) a(2)] assms(1,2) in \<open>simp_all add: call_establish_done call_establish_ok consumer_ok_def\<close>)
    then show ?thesis using Some by (simp add: answer_call_def at action_def)
  qed
qed

lemma reject_call_ok: "consumer_ok c \<Longrightarrow> \<not> sc_established (cs_call c) \<Longrightarrow> consumer_ok (fst (reject_call c))"
  using call_release_quiet(1) [OF not_established_quiet] by (simp add: reject_call_def action_def)

lemma on_response_ok:
  assumes "consumer_ok c" "answer_wf r"
  shows "consumer_ok (fst (on_response env r c))"
proof (cases "\<not> response_matches r c \<or> rs_status r = 401 \<or> rs_status r = 407 \<or> sc_established (cs_call c)")
  case True
  then show ?thesis using assms(1) by (auto simp: on_response_def Let_def)
next
  case False
  then have n: "\<not> sc_established (cs_call c)" "sc_active (cs_call c)" by (auto simp: response_matches_def)
  have rel: "consumer_ok (fst (call_release (c\<lparr>cs_incoming_ringing := False\<rparr>)))"
    by (rule call_release_quiet(1), rule not_established_quiet) (use assms(1) n in simp_all)
  have acc: "consumer_ok (fst (accepted_by_phone env r c))"
    using reject_call_ok [OF assms(1) n(1)] answer_call_ok [OF _ _ assms(2), of "c\<lparr>cs_dialog_contact := _, cs_media := _\<rparr>"] assms(1) n(2)
    by (auto simp: accepted_by_phone_def split: option.split)
  show ?thesis using False rel acc assms(1)
    by (auto simp: on_response_def Let_def action_def remember_outbound_invite_def)
qed

lemma incoming_invite_cb_ok:
  assumes "consumer_ok c" "\<And>status r. ev = Received status r \<Longrightarrow> answer_wf r"
  shows "consumer_ok (fst (incoming_invite_cb env ev c))"
proof (cases ev)
  case (Received status r)
  then show ?thesis using assms(1) on_response_ok [OF assms(1) assms(2) [OF Received]] by (simp add: incoming_invite_cb_def)
next
  case (Terminated status i)
  have "consumer_ok (fst (call_release c))" if "\<not> sc_established (cs_call c)"
    by (rule call_release_quiet(1) [OF not_established_quiet [OF assms(1) that]])
  then show ?thesis using Terminated assms(1)
    by (auto simp: incoming_invite_cb_def remember_outbound_invite_def split: option.split)
qed

lemma outbound_invite_cb_ok:
  assumes "consumer_ok c" "\<And>status r. ev = Received status r \<Longrightarrow> answer_wf r"
    and "\<And>status r. ev = Received status r \<Longrightarrow> status = 401 \<or> status = 407 \<Longrightarrow> \<not> sc_established (cs_call c)"
  shows "consumer_ok (fst (outbound_invite_cb env retry ev c))"
proof (cases ev)
  case (Received status r)
  have "consumer_ok (fst (reject_call (c\<lparr>cs_outbound_invite := i\<rparr>)))" "consumer_ok (fst (reject_call c))" if "status = 401 \<or> status = 407" for i
    using reject_call_ok assms(1) assms(3) [OF Received that] by simp_all
  then show ?thesis using Received assms(1) on_response_ok [OF assms(1) assms(2) [OF Received]]
    by (auto simp: outbound_invite_cb_def split: option.splits prod.splits bool.splits)
next
  case (Terminated status i)
  then show ?thesis using assms(1) by (simp add: outbound_invite_cb_def)
qed

lemma give_up_ok: "bye_ok c \<Longrightarrow> consumer_ok (fst (give_up_attaching response c))"
  by (simp add: give_up_attaching_def, rule call_release_quiet(1), rule stop_media_quiet(1)) (simp add: bye_ok_def)

lemma answer_waiting_ok:
  assumes "cs_media_attached c \<and> cs_rtp_attached c \<and> cs_rtp_fd c \<and> cs_media_watched c" "sip_call_ok (cs_call c)" "sc_active (cs_call c)"
  shows "consumer_ok (fst (answer_waiting env response c))"
proof -
  let ?c = "fst (remember_lan_answer (Some response) (c\<lparr>cs_pending_lan_response := None\<rparr>))"
  have tag: "sc_remote_tag (cs_call c) \<noteq> []" "length (sc_remote_tag (cs_call c)) < 96" using assms(2,3) by (simp_all add: sip_call_ok_def)
  have k: "cs_call ?c = cs_call c" by (simp add: remember_lan_answer_def)
  have sent: "consumer_ok (?c\<lparr>cs_call := snd (qmodem_voip_sip_call_establish (cs_call ?c) (Some (sc_remote_tag (cs_call ?c))))\<rparr>)"
    unfolding k by (rule attached_ok)
      (use assms tag in \<open>simp_all add: remember_lan_answer_def bye_ok_def call_establish_ok call_establish_done\<close>)
  have "consumer_ok (fst (stop_media (fst (remember_lan_answer None ?c))))"
    by (rule quiet_ok, rule stop_media_quiet(1)) (simp_all add: stop_media_quiet remember_lan_answer_def bye_ok_def assms(2))
  then show ?thesis using sent tag k by (simp add: answer_waiting_def establish_waiting_def)
qed

lemma media_attach_retry_ok:
  assumes "consumer_ok c"
  shows "consumer_ok (fst (media_attach_retry env c))"
proof -
  let ?c = "c\<lparr>cs_media_attach_timeout := False, cs_media_attach_attempts := cs_media_attach_attempts c + 1\<rparr>"
  obtain a c1 where at: "attach_both env ?c = (a, c1)" by fastforce
  have okc: "consumer_ok ?c" using assms by simp
  note f = attach_both_facts [OF at okc]
  have "consumer_ok (fst (answer_waiting env response c1))" if "a" "sc_active (cs_call c)" for response
    by (rule answer_waiting_ok [OF f(5)]) (use that f(1) assms in \<open>simp_all add: consumer_ok_def\<close>)
  then show ?thesis using assms f(6) give_up_ok [OF f(2)] at
    by (simp add: media_attach_retry_def Let_def split: option.split)
qed

lemma call_ended_ok:
  assumes "consumer_ok c"
  shows "consumer_ok (fst (call_ended env c))"
proof -
  let ?c1 = "c\<lparr>cs_incoming_number := [], cs_incoming_caller_id_withheld := False, cs_media_attach_timeout := False, cs_pending_lan_response := None\<rparr>"
  let ?c2 = "fst (remember_outbound_invite None (fst (call_release (fst (detach_media ?c1)))))"
  have b: "bye_ok ?c1" using assms by (simp add: consumer_ok_def bye_ok_def)
  have q: "quiet ?c2" "\<not> sc_active (cs_call ?c2)" "sip_call_ok (cs_call ?c2)" "cs_lan_answer ?c2 = cs_lan_answer c"
    using call_release_quiet(2) [OF detach_media_quiet(1) [OF b]]
    by (simp_all add: quiet_def bye_ok_def call_release_def remember_outbound_invite_def detach_media_quiet)
  have "consumer_ok (?c2\<lparr>cs_lan_bye_pending := True, cs_lan_bye_timeout := True\<rparr>)" if "cs_lan_answer c \<noteq> None"
    by (rule quiet_ok) (use q that in \<open>simp_all add: quiet_def bye_ok_def\<close>)
  moreover have "consumer_ok (fst (lan_bye_flush env ?c2))"
    by (rule same_core_ok [OF lan_bye_flush_core(1) quiet_ok [OF q(1,3)] lan_bye_flush_core(2)])
  moreover have "consumer_ok (fst (clear_dialog_contact (fst (remember_lan_answer None ?c2))))"
    by (rule quiet_ok) (use q in \<open>simp_all add: clear_dialog_contact_def remember_lan_answer_def quiet_def bye_ok_def\<close>)
  ultimately show ?thesis
    by (simp add: call_ended_def Let_def send_invite_cancel_def send_dialog_bye_def)
qed

lemma consumer_event_ok:
  assumes "consumer_ok c"
  shows "consumer_ok (fst (consumer_event env ev c))"
proof -
  define c1 where "c1 state = c\<lparr>cs_incoming_number := (case de_remote_number ev of None \<Rightarrow> cs_incoming_number c | Some n \<Rightarrow> c_copy 64 n),
      cs_incoming_caller_id_withheld := (case de_withheld ev of None \<Rightarrow> cs_incoming_caller_id_withheld c | Some b \<Rightarrow> b),
      cs_media_revision := (case de_revision ev of None \<Rightarrow> cs_media_revision c | Some v \<Rightarrow> v),
      cs_incoming_ringing := (state = ''incoming_ringing'')\<rparr>" for state
  have ok: "consumer_ok (c1 state)" for state using assms by (simp add: c1_def consumer_ok_def)
  show ?thesis using assms ok call_ended_ok [OF ok] send_incoming_invite_ok [OF ok]
    unfolding consumer_event_def Let_def c1_def [symmetric] by (auto split: option.split)
qed

lemma media_readable_ok:
  assumes "consumer_ok c"
  shows "consumer_ok (fst (media_readable result message sent c))"
proof -
  have s: "consumer_ok (fst (stop_media c))"
    by (rule quiet_ok [OF stop_media_quiet(1) [OF consumer_ok_bye [OF assms]]]) (use assms in \<open>simp add: stop_media_quiet consumer_ok_def\<close>)
  then show ?thesis using assms
    by (auto simp: media_readable_def Let_def split: prod.split option.split)
qed

lemma rtp_readable_ok:
  assumes "consumer_ok c"
  shows "consumer_ok (fst (rtp_readable received now sent c))"
proof -
  have s: "consumer_ok (fst (stop_media c))"
    by (rule quiet_ok [OF stop_media_quiet(1) [OF consumer_ok_bye [OF assms]]]) (use assms in \<open>simp add: stop_media_quiet consumer_ok_def\<close>)
  then show ?thesis using assms
    by (auto simp: rtp_readable_def Let_def split: rtp_received.split option.split)
qed

section \<open>The service as a system\<close>

text \<open>What can happen to the service: a request, an event of the transaction of its own INVITE, an event of
  the daemon, a timer, a datagram of the daemon or a packet. The tags of the library are texts, and the
  transaction of an INVITE is not challenged after the call was established. The reload of the credentials on
  a signal is not one of these steps: it breaks the invariant, as \<open>Sip_Account\<close> shows.\<close>

inductive sip_step :: "consumer \<Rightarrow> consumer \<Rightarrow> bool" where
  request: "sip_step c (fst (on_request env m c))"
| response: "answer_wf r \<Longrightarrow> sip_step c (fst (on_response env r c))"
| transaction: "(\<forall>status r. ev = Received status r \<longrightarrow> answer_wf r) \<Longrightarrow> sip_step c (fst (incoming_invite_cb env ev c))"
| outbound: "(\<forall>status r. ev = Received status r \<longrightarrow> answer_wf r \<and> (status = 401 \<or> status = 407 \<longrightarrow> \<not> sc_established (cs_call c))) \<Longrightarrow>
    sip_step c (fst (outbound_invite_cb env retry ev c))"
| event: "sip_step c (fst (consumer_event env e c))"
| attach_timer: "sip_step c (fst (media_attach_retry env c))"
| bye_timer: "sip_step c (fst (lan_bye_wait env c))"
| media: "sip_step c (fst (media_readable result message sent c))"
| rtp: "sip_step c (fst (rtp_readable received now sent c))"

definition sip_start :: "consumer \<Rightarrow> bool" where
  "sip_start c \<longleftrightarrow> \<not> sc_active (cs_call c) \<and> \<not> sc_established (cs_call c) \<and> \<not> cs_media_attached c \<and> \<not> cs_rtp_attached c \<and> \<not> cs_lan_bye_pending c"

interpretation sip_service: inductive_invariant sip_start sip_step consumer_ok
proof
  fix c assume "sip_start c"
  then show "consumer_ok c" by (simp add: sip_start_def consumer_ok_def sip_call_ok_def)
next
  fix c c' assume ok: "consumer_ok c" and "sip_step c c'"
  from this(2) show "consumer_ok c'"
  proof cases
    case (bye_timer env)
    have "consumer_ok (c\<lparr>cs_lan_bye_timeout := False\<rparr>)" using ok by simp
    from same_core_ok [OF lan_bye_flush_core(1) this lan_bye_flush_core(2)] show ?thesis by (simp add: bye_timer lan_bye_wait_def)
  qed (use ok in \<open>auto intro: on_request_ok on_response_ok incoming_invite_cb_ok outbound_invite_cb_ok consumer_event_ok
      media_attach_retry_ok media_readable_ok rtp_readable_ok\<close>)
qed

section \<open>What a request must bring\<close>

text \<open>The sender knows the call: CANCEL with all identifiers of the INVITE, or BYE in the dialog of a call
  that rang at the telephone.\<close>

definition knows_call :: "sip_message \<Rightarrow> consumer \<Rightarrow> bool" where
  "knows_call m c \<longleftrightarrow> sc_active (cs_call c) \<and>
     (case request_identity m of None \<Rightarrow> False
      | Some (call_id, remote_tag, branch, cseq) \<Rightarrow>
          call_id = sc_call_id (cs_call c) \<and> remote_tag = sc_remote_tag (cs_call c) \<and>
          (mg_method m = CANCEL \<and> sc_origin (cs_call c) = SIP_CALL_LAN \<and> branch = sc_branch (cs_call c) \<and> cseq = sc_cseq (cs_call c) \<or>
           mg_method m = BYE \<and> sc_origin (cs_call c) = SIP_CALL_CELLULAR \<and> sc_established (cs_call c)))"

text \<open>Effects that only concern the sender of the request: an answer, or the BYE it is owed.\<close>

fun harmless :: "sip_effect \<Rightarrow> bool" where
  "harmless (Respond status ch stale) = True"
| "harmless (Send_Bye i) = True"
| "harmless _ = False"

definition untouched :: "consumer \<Rightarrow> consumer \<times> sip_effect list \<Rightarrow> bool" where
  "untouched c r \<longleftrightarrow> cs_call (fst r) = cs_call c \<and> cs_binding (fst r) = cs_binding c \<and> cs_media_attached (fst r) = cs_media_attached c \<and>
     cs_rtp_peer (fst r) = cs_rtp_peer c \<and> (\<forall>x \<in> set (snd r). harmless x)"

lemma untouched_respond [simp]: "untouched c (respond status c)"
  by (simp add: untouched_def respond_def)

lemma if_authenticated_refused:
  assumes "\<not> fst (authenticate (mg_auth m) (cs_auth c))"
  shows "untouched c (if_authenticated m f c)"
proof -
  obtain ok resp a where au: "authenticate (mg_auth m) (cs_auth c) = (ok, resp, a)" by (metis prod_cases3)
  then show ?thesis using assms
    by (auto simp: if_authenticated_def untouched_def split: option.splits sip_response.splits)
qed

lemma if_admitted_refused:
  "\<not> trusted_outbound_request m c \<Longrightarrow> \<not> fst (authenticate (mg_auth m) (cs_auth c)) \<Longrightarrow> untouched c (if_admitted m f c)"
  by (simp add: if_admitted_def if_authenticated_refused)

lemma invite_call_refused:
  assumes "\<not> trusted_outbound_request m c" "\<not> fst (authenticate (mg_auth m) (cs_auth c))"
  shows "untouched c (invite_call env m c)"
proof -
  obtain allowed rates where r: "qmodem_voip_sip_rate_allow (cs_invite_rates c) (rq_address (mg_auth m)) (rq_rate_time (mg_auth m)) 5 = (allowed, rates)"
    by fastforce
  have "untouched (c\<lparr>cs_invite_rates := rates\<rparr>) (if_admitted m f (c\<lparr>cs_invite_rates := rates\<rparr>))" for f
    by (rule if_admitted_refused) (use assms in \<open>simp_all add: trusted_outbound_request_def\<close>)
  then show ?thesis by (auto simp: invite_call_def rate_allow_def r respond_def untouched_def)
qed

lemma cancel_refused:
  assumes "\<not> knows_call m c" "mg_method m = CANCEL"
  shows "untouched c (consumer_end_call env True m c)"
proof (cases "request_identity m")
  case None
  then show ?thesis by (simp add: consumer_end_call_def)
next
  case (Some p)
  obtain i t b n where p: "p = (i, t, b, n)" by (metis prod_cases4)
  have f: "forget_owed_bye True i c = (c, [])" by (simp add: forget_owed_bye_def split: option.split)
  have "qmodem_voip_sip_call_cancel (cs_call c) True (Some i) (Some t) (Some b) n act = (481, False, cs_call c)" for act
    using assms Some p by (auto simp: knows_call_def qmodem_voip_sip_call_cancel_def end_call_def)
  then have "end_matched env True (i, t, b, n) c = respond 481 c"
    by (simp add: end_matched_def Let_def respond_def perform.simps)
  then have "fst (consumer_end_call env True m c) = c" "snd (consumer_end_call env True m c) = [Respond 481 False False]"
    using Some p f by (simp_all add: consumer_end_call_def respond_def)
  then show ?thesis by (simp add: untouched_def)
qed

lemma bye_refused:
  assumes "\<not> knows_call m c" "mg_method m = BYE" "\<not> trusted_outbound_request m c" "\<not> fst (authenticate (mg_auth m) (cs_auth c))"
  shows "untouched c (consumer_end_call env False m c)"
proof (cases "request_identity m")
  case None
  then show ?thesis by (simp add: consumer_end_call_def)
next
  case (Some p)
  obtain i t b n where p: "p = (i, t, b, n)" by (metis prod_cases4)
  have "\<not> bye_in_dialog i t c" using assms(1,2) Some p by (auto simp: knows_call_def bye_in_dialog_def)
  then show ?thesis using Some p if_admitted_refused [OF assms(3,4)] by (simp add: consumer_end_call_def Let_def)
qed

lemma ack_untouched: "untouched c (ack_received env m c)"
proof -
  have "untouched c (flush_owed_bye env (c\<lparr>cs_lan_acked := True\<rparr>))"
    by (auto simp: untouched_def flush_owed_bye_def lan_bye_flush_def step_defs split: option.split)
  then show ?thesis by (auto simp: ack_received_def untouched_def split: option.split)
qed

text \<open>C2: an outsider is powerless. A request that is not trusted and not authenticated, and that does not
  carry the identifiers of the call, starts and ends no call, sends no message, offers and cancels nothing
  and changes neither the registration nor the audio.\<close>

theorem sip_outsider_powerless:
  assumes "\<not> trusted_outbound_request m c" "\<not> fst (authenticate (mg_auth m) (cs_auth c))" "\<not> knows_call m c"
  shows "untouched c (on_request env m c)"
proof -
  note refused = if_admitted_refused [OF assms(1,2)] if_authenticated_refused [OF assms(2)]
  show ?thesis using assms refused invite_call_refused [OF assms(1,2)] cancel_refused [OF assms(3)] bye_refused [OF assms(3) _ assms(1,2)] ack_untouched
    by (simp add: on_request_def register_contact_def in_dialog_media_refresh_def message_to_sms_def split: sip_method.split)
qed

section \<open>A waiting INVITE is answered\<close>

fun final_response :: "sip_effect \<Rightarrow> bool" where
  "final_response (Final_Response r status) = True"
| "final_response _ = False"

text \<open>One firing of the timer: the INVITE still waits with one attempt more, or it was answered.\<close>

lemma detach_media_no_final: "filter final_response (snd (detach_media c)) = []"
  by (simp add: detach_media_def split: prod.split option.split)

lemma stop_media_no_final: "filter final_response (snd (stop_media c)) = []"
  by (simp add: stop_media_def action_def detach_media_no_final)

lemma detach_media_pending: "cs_pending_lan_response (fst (detach_media c)) = cs_pending_lan_response c"
  by (simp add: detach_media_def split: prod.split)

lemma attach_step:
  assumes "consumer_ok c" "cs_pending_lan_response c = Some r" "sc_active (cs_call c)" "cs_media_attach_attempts c = of_nat k" "k < 20"
    and "se_sent env"
  shows "consumer_ok (fst (media_attach_retry env c))"
    and "(cs_pending_lan_response (fst (media_attach_retry env c)) = Some r \<and> sc_active (cs_call (fst (media_attach_retry env c))) \<and>
         cs_media_attach_attempts (fst (media_attach_retry env c)) = of_nat (k + 1) \<and> k + 1 < 20 \<and> snd (media_attach_retry env c) = []) \<or>
       (cs_pending_lan_response (fst (media_attach_retry env c)) = None \<and>
        (\<exists>status \<in> {200, 480}. filter final_response (snd (media_attach_retry env c)) = [Final_Response r status]))"
proof -
  show "consumer_ok (fst (media_attach_retry env c))" by (rule media_attach_retry_ok [OF assms(1)])
  let ?c = "c\<lparr>cs_media_attach_timeout := False, cs_media_attach_attempts := cs_media_attach_attempts c + 1\<rparr>"
  obtain a c1 where at: "attach_both env ?c = (a, c1)" by fastforce
  have "consumer_ok ?c" using assms(1) by simp
  note f = attach_both_facts [OF at this]
  have n: "cs_media_attach_attempts c1 = of_nat (k + 1)" using f(4) assms(4) by simp
  have lt: "cs_media_attach_attempts c1 < 20 \<longleftrightarrow> k + 1 < 20"
  proof -
    have "unat (of_nat (k + 1) :: u32) = k + 1" using assms(5) by (simp only: unsigned_of_nat) (simp add: take_bit_nat_eq_self)
    then show ?thesis unfolding n word_less_nat_alt by simp
  qed
  have m: "media_attach_retry env c = (if a then answer_waiting env r c1 else if k + 1 < 20 then (c1\<lparr>cs_media_attach_timeout := True\<rparr>, [])
      else give_up_attaching r c1)"
    using assms(2,3) at lt by (simp add: media_attach_retry_def)
  have "cs_pending_lan_response (fst (answer_waiting env r c1)) = None" "snd (answer_waiting env r c1) = [Final_Response r 200]"
    using assms(6) by (simp_all add: answer_waiting_def establish_waiting_def remember_lan_answer_def)
  moreover have "cs_pending_lan_response (fst (give_up_attaching r c1)) = None"
    "filter final_response (snd (give_up_attaching r c1)) = [Final_Response r 480]"
    by (simp_all add: give_up_attaching_def call_release_def stop_media_no_final) (simp add: stop_media_def action_def detach_media_pending)
  ultimately show "(cs_pending_lan_response (fst (media_attach_retry env c)) = Some r \<and> sc_active (cs_call (fst (media_attach_retry env c))) \<and>
         cs_media_attach_attempts (fst (media_attach_retry env c)) = of_nat (k + 1) \<and> k + 1 < 20 \<and> snd (media_attach_retry env c) = []) \<or>
       (cs_pending_lan_response (fst (media_attach_retry env c)) = None \<and>
        (\<exists>status \<in> {200, 480}. filter final_response (snd (media_attach_retry env c)) = [Final_Response r status]))"
    unfolding m using f(1,3) n assms(2,3) by simp
qed

lemma attach_done: "cs_pending_lan_response c = None \<Longrightarrow>
    cs_pending_lan_response (fst (perform (map media_attach_retry envs) c)) = None \<and> snd (perform (map media_attach_retry envs) c) = []"
  by (induction envs arbitrary: c) (simp_all add: media_attach_retry_def)

lemma attach_run:
  assumes "consumer_ok c" "cs_pending_lan_response c = Some r" "sc_active (cs_call c)" "cs_media_attach_attempts c = of_nat k" "k < 20"
    and "20 \<le> k + length envs" "\<forall>env \<in> set envs. se_sent env"
  shows "cs_pending_lan_response (fst (perform (map media_attach_retry envs) c)) = None \<and>
    (\<exists>status \<in> {200, 480}. filter final_response (snd (perform (map media_attach_retry envs) c)) = [Final_Response r status])"
  using assms
proof (induction envs arbitrary: c k)
  case (Cons env envs)
  have s: "se_sent env" using Cons.prems(7) by simp
  note st = attach_step [OF Cons.prems(1-5) s]
  let ?c = "fst (media_attach_retry env c)"
  from st(2) show ?case
  proof
    assume w: "cs_pending_lan_response ?c = Some r \<and> sc_active (cs_call ?c) \<and> cs_media_attach_attempts ?c = of_nat (k + 1) \<and> k + 1 < 20 \<and>
      snd (media_attach_retry env c) = []"
    then show ?thesis using Cons.IH [OF st(1), of "k + 1"] Cons.prems(6,7) by simp
  next
    assume d: "cs_pending_lan_response ?c = None \<and> (\<exists>status \<in> {200, 480}. filter final_response (snd (media_attach_retry env c)) = [Final_Response r status])"
    then show ?thesis using attach_done [of ?c envs] by auto
  qed
qed simp


section \<open>The end of a call\<close>

text \<open>C40: a release event of any call ends the call at hand. Whatever revision the event carries, a waiting
  INVITE is answered with 480 and the record of the call is cleared, but the daemon is not told to hang up. A
  late event of an earlier call thus leaves the cellular call of a new INVITE without its telephone.\<close>

theorem sip_stale_release_ends_call:
  assumes "de_event ev = Some ''release''" "de_state ev = Some state" "cs_pending_lan_response c = Some r"
  shows "Final_Response r 480 \<in> set (snd (consumer_event env ev c)) \<and> \<not> sc_active (cs_call (fst (consumer_event env ev c))) \<and>
    (\<forall>name number. Action name number \<notin> set (snd (consumer_event env ev c)))"
proof -
  have d: "\<forall>name number. Action name number \<notin> set (snd (detach_media x))" for x
    by (simp add: detach_media_def split: prod.split option.split)
  have fl: "cs_call (fst (lan_bye_flush env x)) = cs_call x" "\<forall>name number. Action name number \<notin> set (snd (lan_bye_flush env x))" for x
    by (auto simp: lan_bye_flush_def step_defs split: option.split)
  have "Final_Response r 480 \<in> set (snd (call_ended env x)) \<and> \<not> sc_active (cs_call (fst (call_ended env x))) \<and>
      (\<forall>name number. Action name number \<notin> set (snd (call_ended env x)))" if "cs_pending_lan_response x = Some r" for x
    using that d fl by (auto simp: call_ended_def Let_def step_defs split: option.split)
  then show ?thesis using assms by (simp add: consumer_event_def Let_def event_ends_call_def)
qed

section \<open>Audio from end to end\<close>

lemma bridge_capture:
  assumes "qmodem_voip_media_socket_client_read (Read d) (cs_media_sock c) buf = (1, m)" "m = datagram SOCKET_PCM_CAPTURE (pcm_bytes p) @ rest"
    and "length (pm_samples p) = QMODEM_VOIP_MEDIA_SAMPLES" "cs_rtp_attached c" "cs_rtp_fd c" "g711_bridge_encode (cs_rtp_codec c) (pm_samples p) = Some out"
  shows "media_readable (Read d) buf True c =
    (c\<lparr>cs_rtp_sequence := cs_rtp_sequence c + 1, cs_rtp_timestamp := cs_rtp_timestamp c + 160\<rparr>, [To_Rtp (cs_rtp_peer c) (bridge_header c @ out)])"
proof -
  have h: "read_header m = \<lparr>hd_magic = SOCKET_MAGIC, hd_version = SOCKET_VERSION, hd_type = SOCKET_PCM_CAPTURE, hd_payload_length = of_nat PCM_SIZE\<rparr>"
    using datagram_header(1) [of SOCKET_PCM_CAPTURE "pcm_bytes p" rest] assms(2) length_pcm_bytes [OF assms(3)] by simp
  have "drop HEADER_SIZE m = pcm_bytes p @ rest" using assms(2) by (simp add: datagram_def)
  then have p: "read_pcm (drop HEADER_SIZE m) = p" by (simp add: pcm_round_trip [OF assms(3)])
  show ?thesis unfolding media_readable_def using assms(1,4-6) by (simp add: h p Let_def)
qed

lemma plain_offset:
  assumes "length rest = 10"
  shows "bridge_offset ([0x80, b] @ rest @ payload) = Some RTP_HEADER_SIZE"
proof -
  have "(0x80 :: u8) AND 15 = 0" "drop_bit 6 (0x80 :: u8) = 2" "(0x80 :: u8) AND 0x10 = 0" by code_simp+
  then show ?thesis using assms by (simp add: bridge_offset_def)
qed

lemma bridge_playback:
  assumes "length rest = 10" "length payload = QMODEM_VOIP_MEDIA_SAMPLES" "ucast (b AND 127) = cs_rtp_codec c" "0 \<le> cl_fd (cs_media_sock c)"
    and "g711_bridge_decode (cs_rtp_codec c) payload = Some samples"
  shows "media_playback_to_modem now True ([0x80, b] @ rest @ payload) c =
    (0, [To_Media (datagram SOCKET_PCM_PLAYBACK (pcm_bytes \<lparr>pm_sequence = cl_outbound_sequence (cs_media_sock c), pm_timestamp_ms = now, pm_samples = samples\<rparr>))])"
proof -
  let ?p = "\<lparr>pm_sequence = cl_outbound_sequence (cs_media_sock c), pm_timestamp_ms = now, pm_samples = samples\<rparr>"
  have "length samples = QMODEM_VOIP_MEDIA_SAMPLES" using assms(2,5) by (auto simp: g711_bridge_decode_def split: if_splits)
  then have len: "length (pcm_bytes ?p) = PCM_SIZE" by (intro length_pcm_bytes) simp
  have d: "drop RTP_HEADER_SIZE ([0x80, b] @ rest @ payload) = payload" "([0x80, b] @ rest @ payload) ! 1 = b" using assms(1) by simp_all
  have "qmodem_voip_media_socket_client_write True (cs_media_sock c) SOCKET_PCM_PLAYBACK (pcm_bytes ?p) = (0, Some (datagram SOCKET_PCM_PLAYBACK (pcm_bytes ?p)))"
    using assms(4) len by (simp add: qmodem_voip_media_socket_client_write_def datagram_def)
  then show ?thesis unfolding media_playback_to_modem_def plain_offset [OF assms(1)] d option.case
    using assms(1-3,5) by simp
qed

text \<open>C13: the audio passes between modem and telephone. The oldest frame the daemon has from the modem leaves
  the service as one RTP packet to the telephone, coded and numbered; and an RTP packet of the telephone with
  the agreed codec reaches the daemon's queue to the modem, decoded.\<close>

theorem sip_audio_end_to_end:
  assumes "ms_running s" "first_index (\<lambda>p. pe_attached p \<and> pe_fd p \<ge> 0) (ms_peers s) = Some i"
    and "mq_wf (me_modem_to_canonical e)" "mq_contents (me_modem_to_canonical e) = (samples, ts) # ds" "mq_wf (me_canonical_to_modem e)"
    and "length samples = QMODEM_VOIP_MEDIA_SAMPLES" "0 \<le> cl_fd (cs_media_sock c)" "cs_rtp_attached c" "cs_rtp_fd c"
    and "g711_bridge_encode (cs_rtp_codec c) samples = Some out" "g711_bridge_decode (cs_rtp_codec c) payload = Some pcm_in"
    and "length rest = 10" "length payload = QMODEM_VOIP_MEDIA_SAMPLES" "ucast (b AND 127) = cs_rtp_codec c"
  shows "(\<exists>s' e' d. qmodem_voip_media_socket_service True s e = (0, s', e', Some (pe_fd (ms_peers s ! i), d)) \<and>
      mq_contents (me_modem_to_canonical e') = ds \<and>
      media_readable (Read d) buf True c =
        (c\<lparr>cs_rtp_sequence := cs_rtp_sequence c + 1, cs_rtp_timestamp := cs_rtp_timestamp c + 160\<rparr>, [To_Rtp (cs_rtp_peer c) (bridge_header c @ out)])) \<and>
    (\<exists>d e'. rtp_readable (Rtp_Packet (Some (fst (cs_rtp_peer c), port)) ([0x80, b] @ rest @ payload)) now True c =
        (c\<lparr>cs_rtp_peer := (fst (cs_rtp_peer c), port)\<rparr>, [To_Media d]) \<and>
      channel_peer authorized clock call stale i [Read d] s e = (s, e', []) \<and>
      mq_contents (me_canonical_to_modem e') = lastn QMODEM_VOIP_MEDIA_QUEUE_FRAMES (mq_contents (me_canonical_to_modem e) @ [(pcm_in, ucast now)]))"
proof
  let ?pcm = "\<lparr>pm_sequence = pe_outbound_sequence (ms_peers s ! i), pm_timestamp_ms = ucast ts, pm_samples = samples\<rparr>"
  obtain s' e' d where d: "qmodem_voip_media_socket_service True s e = (0, s', e', Some (pe_fd (ms_peers s ! i), d))"
      "mq_contents (me_modem_to_canonical e') = ds"
      "qmodem_voip_media_socket_client_read (Read d) (cs_media_sock c) buf = (1, datagram SOCKET_PCM_CAPTURE (pcm_bytes ?pcm) @ drop 340 buf)"
    using capture_datagram [OF assms(1-4,6,7), of buf] by blast
  have "media_readable (Read d) buf True c =
      (c\<lparr>cs_rtp_sequence := cs_rtp_sequence c + 1, cs_rtp_timestamp := cs_rtp_timestamp c + 160\<rparr>, [To_Rtp (cs_rtp_peer c) (bridge_header c @ out)])"
    by (rule bridge_capture [OF d(3) refl]) (use assms(6,8-10) in simp_all)
  with d(1,2) show "\<exists>s' e' d. qmodem_voip_media_socket_service True s e = (0, s', e', Some (pe_fd (ms_peers s ! i), d)) \<and>
      mq_contents (me_modem_to_canonical e') = ds \<and>
      media_readable (Read d) buf True c =
        (c\<lparr>cs_rtp_sequence := cs_rtp_sequence c + 1, cs_rtp_timestamp := cs_rtp_timestamp c + 160\<rparr>, [To_Rtp (cs_rtp_peer c) (bridge_header c @ out)])"
    by blast
next
  let ?c = "c\<lparr>cs_rtp_peer := (fst (cs_rtp_peer c), port)\<rparr>"
  let ?p = "\<lparr>pm_sequence = cl_outbound_sequence (cs_media_sock c), pm_timestamp_ms = now, pm_samples = pcm_in\<rparr>"
  have len: "length pcm_in = QMODEM_VOIP_MEDIA_SAMPLES" using assms(11,13) by (auto simp: g711_bridge_decode_def split: if_splits)
  have "media_playback_to_modem now True ([0x80, b] @ rest @ payload) ?c = (0, [To_Media (datagram SOCKET_PCM_PLAYBACK (pcm_bytes ?p))])"
    using bridge_playback [of rest payload b ?c pcm_in now] assms(7,11-14) by simp
  moreover have "take 2048 ([0x80, b] @ rest @ payload) = [0x80, b] @ rest @ payload" using assms(12,13) by simp
  ultimately have r: "rtp_readable (Rtp_Packet (Some (fst (cs_rtp_peer c), port)) ([0x80, b] @ rest @ payload)) now True c =
      (?c, [To_Media (datagram SOCKET_PCM_PLAYBACK (pcm_bytes ?p))])"
    unfolding rtp_readable_def Let_def using assms(8,9) by (simp only: rtp_received.case option.case prod.case fst_conv snd_conv simp_thms if_False)
  have att: "pe_attached (ms_peers s ! i)" using first_index_Some [OF assms(2)] by simp
  obtain m e' where "qmodem_voip_media_socket_client_write True (cs_media_sock c) SOCKET_PCM_PLAYBACK (pcm_bytes ?p) = (0, Some m)"
      "channel_peer authorized clock call stale i [Read m] s e = (s, e', [])"
      "mq_contents (me_canonical_to_modem e') = lastn QMODEM_VOIP_MEDIA_QUEUE_FRAMES (mq_contents (me_canonical_to_modem e) @ [(pcm_in, ucast now)])"
    using playback_accepted [OF att assms(5,7) len] by blast
  moreover have "m = datagram SOCKET_PCM_PLAYBACK (pcm_bytes ?p)"
    using calculation(1) assms(7) length_pcm_bytes [of ?p] len by (simp add: qmodem_voip_media_socket_client_write_def datagram_def)
  ultimately show "\<exists>d e'. rtp_readable (Rtp_Packet (Some (fst (cs_rtp_peer c), port)) ([0x80, b] @ rest @ payload)) now True c =
        (c\<lparr>cs_rtp_peer := (fst (cs_rtp_peer c), port)\<rparr>, [To_Media d]) \<and>
      channel_peer authorized clock call stale i [Read d] s e = (s, e', []) \<and>
      mq_contents (me_canonical_to_modem e') = lastn QMODEM_VOIP_MEDIA_QUEUE_FRAMES (mq_contents (me_canonical_to_modem e) @ [(pcm_in, ucast now)])"
    using r by blast
qed

section \<open>Samples\<close>

definition sample_env :: sip_env where
  "sample_env = \<lparr>se_action = (\<lambda>_. True), se_now = 1000, se_created = True, se_answer_made = True, se_response_addr = True, se_sent = True,
     se_bye_made = True, se_ack = True, se_invite = Some ''invite-1'', se_offer_made = True, se_inet_pton = (\<lambda>_. Some 5), se_status = Some 3,
     se_session = (True, Some ''session''), se_media_fd = Some 4, se_exchange = (\<lambda>_. Some (datagram SOCKET_STATE_CHANGE [])),
     se_rtp_bound = True, se_sms_object = True, se_sms_sent = True\<rparr>"

definition sample_idle :: consumer where
  "sample_idle = \<lparr>cs_auth = \<lparr>co_nonces = replicate 32 zero_nonce, co_auth_rates = [], co_challenge_nonce = []\<rparr>,
     cs_binding = ''sip:phone@192.168.1.20'', cs_expires = 3600, cs_binding_until = 4000,
     cs_invite_rates = [\<lparr>ra_address = 0, ra_window_start = 0, ra_count = 0\<rparr>], cs_call = qmodem_voip_sip_call_clear
       \<lparr>sc_active = False, sc_established = False, sc_origin = SIP_CALL_LAN, sc_cseq = 0, sc_call_id = [], sc_remote_tag = [], sc_branch = []\<rparr>,
     cs_media = \<lparr>sm_address = [], sm_port = 0, sm_payload_type = 0\<rparr>,
     cs_media_sock = \<lparr>cl_fd = -1, cl_attached = False, cl_call_revision = 0, cl_session_id = [], cl_outbound_sequence = 0, cl_dropped = 0\<rparr>,
     cs_media_socket_path = ''/tmp/media'', cs_media_revision = 0, cs_media_attached = False, cs_media_watched = False, cs_rtp_fd = False,
     cs_rtp_attached = False, cs_media_attach_timeout = False, cs_media_attach_attempts = 0, cs_rtp_peer = (0, 0), cs_rtp_codec = 0,
     cs_rtp_sequence = 0, cs_rtp_timestamp = 0, cs_rtp_ssrc = 0, cs_pending_lan_response = None, cs_lan_address = ''192.168.1.1'',
     cs_outbound = True, cs_outbound_invite = None, cs_lan_answer = None, cs_dialog_contact = [], cs_lan_acked = False,
     cs_lan_bye_pending = False, cs_lan_bye_timeout = False, cs_incoming_number = [], cs_incoming_caller_id_withheld = False,
     cs_incoming_ringing = False, cs_invite_alerted = False, cs_sms_modem = []\<rparr>"

definition sample_event :: "string \<Rightarrow> string \<Rightarrow> daemon_event" where
  "sample_event event state = \<lparr>de_event = Some event, de_state = Some state, de_revision = Some 3, de_remote_number = None,
     de_withheld = None, de_answer_owner = None\<rparr>"

definition sample_ok :: sip_answer where
  "sample_ok = \<lparr>rs_status = 200, rs_call_id = Some ''invite-1'', rs_to_tag = Some ''phone'', rs_body = incoming_offer_body ''192.168.1.20'',
     rs_contact = Some ''sip:phone@192.168.1.20''\<rparr>"

definition sample_invite :: "bool \<Rightarrow> sip_method \<Rightarrow> sip_message" where
  "sample_invite trusted method = \<lparr>mg_method = method, mg_length = 600,
     mg_auth = \<lparr>rq_address = 5, rq_header = None, rq_check_time = 1000, rq_rate_time = 1000, rq_nonce_time = 1000, rq_random = None,
       rq_verified = False, rq_status = 403\<rparr>,
     mg_trusted = trusted, mg_contact = None, mg_expires = None, mg_body = incoming_offer_body ''192.168.1.20'', mg_plain = False,
     mg_user = ''10086'', mg_host = ''192.168.1.1'', mg_call_id = Some ''call-7'', mg_from_tag = Some ''tag-7'', mg_branch = Some ''branch-7'',
     mg_cseq = Some 1\<rparr>"

text \<open>A call rang at the telephone, which took it.\<close>

definition sample_talking :: consumer where
  "sample_talking = fst (on_response sample_env sample_ok (fst (consumer_event sample_env (sample_event ''ring'' ''incoming_ringing'') sample_idle)))"

text \<open>The telephone called, and the cellular call became active.\<close>

definition sample_waiting :: consumer where
  "sample_waiting = fst (consumer_event sample_env (sample_event ''call_state'' ''active'')
     (fst (on_request sample_env (sample_invite True INVITE) sample_idle)))"

lemma sample_reached: "reach sip_start sip_step sample_idle" "reach sip_start sip_step sample_talking" "reach sip_start sip_step sample_waiting"
proof -
  have s: "sip_start sample_idle" by (simp add: sip_start_def sample_idle_def qmodem_voip_sip_call_clear_def)
  show r: "reach sip_start sip_step sample_idle" by (rule reach.intros(1) [of sip_start, OF s])
  have w: "answer_wf sample_ok" by code_simp
  show "reach sip_start sip_step sample_talking" unfolding sample_talking_def
    by (rule reach.intros(2), rule reach.intros(2), rule r, rule sip_step.event, rule sip_step.response [OF w])
  show "reach sip_start sip_step sample_waiting" unfolding sample_waiting_def
    by (rule reach.intros(2), rule reach.intros(2), rule r, rule sip_step.request, rule sip_step.event)
qed

lemma sample_values: "cs_media_attached sample_talking"
  "cs_pending_lan_response sample_waiting = Some \<lparr>lr_call_id = ''call-7'', lr_body = the (lan_answer_body (\<lambda>_. True) ''192.168.1.1'' 8)\<rparr>"
  "sc_active (cs_call sample_waiting)" "cs_media_attach_attempts sample_waiting = 0"
  by code_simp+

text \<open>C7: audio needs a call. In every state the handlers of requests, responses, events, timers, datagrams and
  packets reach, the audio is attached only while the call is
  active and established, in both directions and with both sockets open; and when a BYE is owed to the
  telephone, the answer it refers to is still there, so that the handlers never follow a null pointer to it.\<close>

theorem sip_media_needs_call:
  assumes "reach sip_start sip_step c"
  shows "(cs_media_attached c \<longrightarrow> sc_active (cs_call c) \<and> sc_established (cs_call c) \<and> cs_rtp_attached c \<and> cs_rtp_fd c \<and> cs_media_watched c) \<and>
    (cs_lan_bye_pending c \<longrightarrow> cs_lan_answer c \<noteq> None)"
  using sip_service.reach_inv [OF assms] by (simp add: consumer_ok_def sip_call_ok_def)

theorem sip_media_needs_call_witness:
  "cs_media_attached sample_talking \<and> sc_active (cs_call sample_talking) \<and> sc_established (cs_call sample_talking) \<and> cs_rtp_fd sample_talking"
  using sip_media_needs_call [OF sample_reached(2)] sample_values(1) by simp

theorem sip_outsider_powerless_witness:
  "\<not> knows_call ((sample_invite False CANCEL)\<lparr>mg_branch := Some ''other''\<rparr>) sample_waiting \<and>
   untouched sample_waiting (on_request sample_env ((sample_invite False CANCEL)\<lparr>mg_branch := Some ''other''\<rparr>) sample_waiting)"
proof -
  let ?m = "(sample_invite False CANCEL)\<lparr>mg_branch := Some ''other''\<rparr>"
  have "\<not> trusted_outbound_request ?m sample_waiting" "\<not> fst (authenticate (mg_auth ?m) (cs_auth sample_waiting))"
    and k: "\<not> knows_call ?m sample_waiting" by code_simp+
  then show ?thesis using sip_outsider_powerless [of ?m sample_waiting sample_env] by blast
qed


theorem sip_stale_release_ends_call_witness:
  "sc_active (cs_call sample_waiting) \<and>
   \<not> sc_active (cs_call (fst (consumer_event sample_env ((sample_event ''release'' ''idle'')\<lparr>de_revision := Some 2\<rparr>) sample_waiting))) \<and>
   Action ''hangup'' None \<notin> set (snd (consumer_event sample_env ((sample_event ''release'' ''idle'')\<lparr>de_revision := Some 2\<rparr>) sample_waiting))"
  using sip_stale_release_ends_call [of "(sample_event ''release'' ''idle'')\<lparr>de_revision := Some 2\<rparr>" "''idle''" sample_waiting, OF _ _ sample_values(2)]
    sample_values(3) by (simp add: sample_event_def)

theorem sip_audio_end_to_end_witness:
  "\<exists>d e'. rtp_readable (Rtp_Packet (Some (5, 4000)) ([0x80, 8] @ replicate 10 0 @ replicate 160 0xd5)) 20 True sample_talking =
      (sample_talking\<lparr>cs_rtp_peer := (5, 4000)\<rparr>, [To_Media d]) \<and>
    channel_peer (\<lambda>_. False) 0 sample_call [] 0 [Read d] (sample_socket\<lparr>ms_peers := [zero_peer\<lparr>pe_fd := 8, pe_attached := True\<rparr>]\<rparr>)
      (sample_engine\<lparr>me_modem_to_canonical := mq_put (replicate 160 1, 20) (qmodem_voip_media_queue_init True)\<rparr>) =
      (sample_socket\<lparr>ms_peers := [zero_peer\<lparr>pe_fd := 8, pe_attached := True\<rparr>]\<rparr>, e', []) \<and>
    mq_contents (me_canonical_to_modem e') = [(map qmodem_g711_alaw_decode (replicate 160 0xd5), 20)]"
proof -
  let ?s = "sample_socket\<lparr>ms_peers := [zero_peer\<lparr>pe_fd := 8, pe_attached := True\<rparr>]\<rparr>"
  let ?q = "mq_put (replicate 160 1, 20) (qmodem_voip_media_queue_init True)"
  let ?e = "sample_engine\<lparr>me_modem_to_canonical := ?q\<rparr>"
  have wf: "mq_wf (qmodem_voip_media_queue_init True)" "mq_contents (qmodem_voip_media_queue_init True) = []"
    by (simp_all add: mq_wf_def mq_contents_def qmodem_voip_media_queue_init_def zero_queue_def)
  have e: "mq_wf (me_modem_to_canonical ?e)" "mq_contents (me_modem_to_canonical ?e) = [(replicate 160 1, 20)]"
      "mq_wf (me_canonical_to_modem ?e)" "mq_contents (me_canonical_to_modem ?e) = []"
    using wf mq.push_wf mq.push_contents [OF wf(1)] by (simp_all add: sample_engine_def zero_engine_def lastn_def)
  have c: "0 \<le> cl_fd (cs_media_sock sample_talking)" "cs_rtp_attached sample_talking" "cs_rtp_fd sample_talking" "cs_rtp_codec sample_talking = 8"
    "fst (cs_rtp_peer sample_talking) = 5" "ucast ((8 :: u8) AND 127) = cs_rtp_codec sample_talking" by code_simp+
  have s: "ms_running ?s" "first_index (\<lambda>p. pe_attached p \<and> pe_fd p \<ge> 0) (ms_peers ?s) = Some 0" by (simp_all add: sample_socket_def)
  have g: "g711_bridge_encode (cs_rtp_codec sample_talking) (replicate 160 1) = Some (map qmodem_g711_alaw_encode (replicate 160 1))"
    "g711_bridge_decode (cs_rtp_codec sample_talking) (replicate 160 0xd5) = Some (map qmodem_g711_alaw_decode (replicate 160 0xd5))"
    by (simp_all add: c(4) g711_bridge_encode_def g711_bridge_decode_def)
  have "mq_contents (me_canonical_to_modem ?e) @ [(x, 20)] = [(x, 20)]" for x using e(4) by simp
  then show ?thesis
    using conjunct2 [OF sip_audio_end_to_end [OF s e(1-3) _ c(1-3) g _ _ c(6), of "replicate 10 0" "[]" 4000 20 "\<lambda>_. False" 0 sample_call "[]"]]
    unfolding c(5) by (simp add: lastn_def)
qed

end
