(* ===== verification/Sip_Account.thy ===== *)
theory Sip_Account
  imports Sip_Properties Sip_Calls
begin

text \<open>
  The rest of the SIP service (\<open>application/qmodem_sipd/src/sip_consumer.c\<close>): its own registration at an
  external server with the timer that repeats it, the delivery of text messages to the telephone, and the
  reload of the credentials on a signal. Theorems: the registration is always pursued, every accepted message
  is answered exactly once, and what a reload does to a call.
\<close>

section \<open>State\<close>

text \<open>The fields of the service these handlers use, beside those of the calls. A timer that is pending is
  \<open>Some\<close> of its delay. \<open>ap_message_request\<close> is the deferred request on the bus.\<close>

record sip_app =
  ap_consumer :: consumer
  ap_username :: string
  ap_ha1 :: string
  ap_running :: bool
  ap_reload_requested :: bool
  ap_regc :: bool
  ap_outbound_aor :: string
  ap_outbound_interval :: u32
  ap_outbound_registered :: bool
  ap_outbound_register_retry :: "u32 option"
  ap_registration_retry :: qmodem_voip_sip_registration_retry
  ap_listen_port :: u32
  ap_message_request :: nat
  ap_message_timeout :: bool
  ap_message_active :: bool
  ap_message_auth_retried :: bool

abbreviation ap_outbound :: "sip_app \<Rightarrow> bool" where
  "ap_outbound a \<equiv> cs_outbound (ap_consumer a)"

abbreviation set_binding :: "string \<Rightarrow> u32 \<Rightarrow> sip_app \<Rightarrow> sip_app" where
  "set_binding binding expires a \<equiv> a\<lparr>ap_consumer := (ap_consumer a)\<lparr>cs_binding := binding, cs_expires := expires\<rparr>\<rparr>"

section \<open>Registration at the external server\<close>

text \<open>The random number is a parameter. So are, below, whether the library could make the request and send
  it, and the clock.\<close>

definition schedule_outbound_register_retry :: "u32 \<Rightarrow> sip_app \<Rightarrow> sip_app" where
  "schedule_outbound_register_retry entropy a =
     (if \<not> ap_running a \<or> \<not> ap_outbound a \<or> ap_outbound_register_retry a \<noteq> None then a
      else case qmodem_voip_sip_registration_failed (ap_registration_retry a) entropy of
        (delay, r) \<Rightarrow> a\<lparr>ap_registration_retry := r, ap_outbound_register_retry := Some delay\<rparr>)"

text \<open>What the library reports: whether the transaction succeeded, the status of the response, and the
  granted time.\<close>

record regc_param =
  rp_success :: bool
  rp_code :: int
  rp_expiration :: u32

definition outbound_regc_cb :: "u32 \<Rightarrow> int \<Rightarrow> regc_param option \<Rightarrow> sip_app \<Rightarrow> sip_app" where
  "outbound_regc_cb entropy now param a =
     (case param of None \<Rightarrow> a
      | Some p \<Rightarrow>
          if rp_success p \<and> rp_code p \<ge> 200 \<and> rp_code p < 300 \<and> rp_expiration p > 0 then
            (let a1 = a\<lparr>ap_outbound_registered := True, ap_outbound_register_retry := None,
                      ap_registration_retry := qmodem_voip_sip_registration_succeeded (ap_registration_retry a)\<rparr> in
             if length (ap_outbound_aor a1) \<ge> 384
             then schedule_outbound_register_retry entropy (a1\<lparr>ap_outbound_registered := False\<rparr>)
             else let expires = (if rp_expiration p \<noteq> 0 then rp_expiration p else ap_outbound_interval a1);
                      a2 = set_binding (ap_outbound_aor a1) expires a1 in
               a2\<lparr>ap_consumer := (ap_consumer a2)\<lparr>cs_binding_until := now + uint expires\<rparr>\<rparr>)
          else schedule_outbound_register_retry entropy (set_binding [] 0 (a\<lparr>ap_outbound_registered := False\<rparr>)))"

text \<open>The second component says whether a request was sent.\<close>

definition outbound_register :: "bool \<Rightarrow> bool \<Rightarrow> u32 \<Rightarrow> sip_app \<Rightarrow> sip_app \<times> bool" where
  "outbound_register created sent entropy a =
     (if \<not> ap_outbound a \<or> \<not> ap_regc a then (a, False)
      else let a1 = a\<lparr>ap_registration_retry := qmodem_voip_sip_registration_attempt (ap_registration_retry a)\<rparr> in
        if \<not> created then (schedule_outbound_register_retry entropy a1, False)
        else if \<not> sent then (schedule_outbound_register_retry entropy a1, False)
        else (a1, True))"

text \<open>The timer is no longer pending when its handler runs.\<close>

definition outbound_register_retry :: "bool \<Rightarrow> bool \<Rightarrow> u32 \<Rightarrow> sip_app \<Rightarrow> sip_app \<times> bool" where
  "outbound_register_retry created sent entropy a =
     outbound_register created sent entropy
       (a\<lparr>ap_outbound_register_retry := None,
          ap_registration_retry := qmodem_voip_sip_registration_retry_started (ap_registration_retry a)\<rparr>)"

section \<open>Messages to the telephone\<close>

text \<open>The answer to the deferred request on the bus, and the request to the telephone: its target, sender and
  recipient, the content, and the headers for the reply, the cellular sender and the identifier.\<close>

datatype message_effect =
    Message_Reply nat string int "string option"
  | Send_Message string string string string "string option" "string option" string
  | Resend_Message

definition complete_message :: "string \<Rightarrow> int \<Rightarrow> string option \<Rightarrow> sip_app \<Rightarrow> sip_app \<times> message_effect list" where
  "complete_message status sip_status error a =
     (if \<not> ap_message_active a then (a, [])
      else (a\<lparr>ap_message_timeout := False, ap_message_active := False, ap_message_auth_retried := False\<rparr>,
            [Message_Reply (ap_message_request a) status sip_status error]))"

definition message_timeout :: "sip_app \<Rightarrow> sip_app \<times> message_effect list" where
  "message_timeout a = complete_message ''error'' 408 (Some ''SIP MESSAGE timed out'') (a\<lparr>ap_message_timeout := False\<rparr>)"

text \<open>An event of the transaction: its status, and whether it is a received response.\<close>

record message_event =
  mv_status :: int
  mv_received :: bool

text \<open>The event is \<open>None\<close> when it is not about the state of a transaction. \<open>retried\<close> says whether the library
  could add the credentials, and \<open>sent\<close> whether it could send the request again.\<close>

definition message_response :: "bool \<Rightarrow> bool \<Rightarrow> message_event option \<Rightarrow> sip_app \<Rightarrow> sip_app \<times> message_effect list" where
  "message_response retried sent event a =
     (case event of None \<Rightarrow> (a, [])
      | Some ev \<Rightarrow>
          if mv_status ev < 200 then (a, [])
          else if ap_outbound a \<and> \<not> ap_message_auth_retried a \<and> mv_received ev \<and> (mv_status ev = 401 \<or> mv_status ev = 407) then
            (let a1 = a\<lparr>ap_message_auth_retried := True\<rparr> in
             if retried \<and> sent then (a1, [Resend_Message])
             else complete_message ''error'' 503 (Some ''SIP MESSAGE authentication failed'') a1)
          else if mv_status ev \<ge> 200 \<and> mv_status ev < 300 then complete_message ''success'' (mv_status ev) None a
          else complete_message ''error'' (mv_status ev) (Some ''remote SIP endpoint rejected MESSAGE'') a)"

text \<open>The arguments of the method, and the answers of the world.\<close>

record message_args =
  ma_recipient :: "string option"
  ma_content :: "string option"
  ma_id :: "string option"
  ma_sender :: "string option"

record message_env =
  mn_env :: sip_env
  mn_parsed :: "string \<Rightarrow> bool"
  mn_created :: bool
  mn_body :: bool
  mn_sent :: bool

text \<open>The address of a user at the service.\<close>

definition service_uri :: "string \<Rightarrow> sip_app \<Rightarrow> string" where
  "service_uri user a = take 383
     ((if ap_outbound a then ''sips'' else ''sip'') @ '':'' @ user @ ''@'' @ cs_lan_address (ap_consumer a) @ '':'' @
      dec_nat (unat (ap_listen_port a)) @ (if ap_outbound a then '';transport=tls'' else []))"

definition send_message_method ::
  "message_env \<Rightarrow> nat \<Rightarrow> message_args \<Rightarrow> sip_app \<Rightarrow> ubus_status \<times> sip_app \<times> message_effect list" where
  "send_message_method env request args a =
     (case (ma_recipient args, ma_content args, ma_id args) of
        (Some recipient, Some content, Some message_id) \<Rightarrow>
          if ap_message_active a then (UBUS_STATUS_INVALID_ARGUMENT, a, [])
          else if content = [] \<or> length content > 2048 \<or> length recipient \<ge> 384 then (UBUS_STATUS_INVALID_ARGUMENT, a, [])
          else if \<not> binding_active (mn_env env) (ap_consumer a) then (UBUS_STATUS_NOT_FOUND, a, [])
          else let target = take 383 (if ap_outbound a then recipient else cs_binding (ap_consumer a)) in
          if \<not> mn_parsed env target then (UBUS_STATUS_INVALID_ARGUMENT, a, [])
          else if \<not> mn_created env \<or> \<not> mn_body env then (UBUS_STATUS_UNKNOWN_ERROR, a, [])
          else let reply = (case ma_sender args of None \<Rightarrow> None
                     | Some s \<Rightarrow> if s \<noteq> [] \<and> set s \<subseteq> set ''0123456789+*#,p'' \<and> length s < 384 then Some (service_uri s a) else None);
                   a1 = a\<lparr>ap_message_request := request, ap_message_active := True, ap_message_auth_retried := False,
                         ap_message_timeout := True\<rparr> in
          if mn_sent env
          then (UBUS_STATUS_OK, a1, [Send_Message target (service_uri (ap_username a) a) recipient content reply (ma_sender args) message_id])
          else (UBUS_STATUS_OK, complete_message ''error'' 503 (Some ''SIP MESSAGE could not be sent'') a1)
      | _ \<Rightarrow> (UBUS_STATUS_INVALID_ARGUMENT, a, []))"

section \<open>Reload\<close>

definition load_credentials :: "sip_file option \<Rightarrow> sip_app \<Rightarrow> int \<times> sip_app" where
  "load_credentials file a =
     (case qmodem_voip_sip_read_credentials file of
        None \<Rightarrow> (-1, a)
      | Some cr \<Rightarrow> (0, a\<lparr>ap_username := cr_username cr, ap_ha1 := cr_ha1 cr\<rparr>))"

text \<open>The first lines of the main loop.\<close>

definition reload_if_requested :: "sip_file option \<Rightarrow> sip_app \<Rightarrow> sip_app" where
  "reload_if_requested credentials a =
     (if \<not> ap_reload_requested a then a
      else let c = ap_consumer a;
               a1 = a\<lparr>ap_reload_requested := False, ap_consumer := c\<lparr>cs_media_attach_timeout := False\<rparr>\<rparr>;
               a2 = (if ap_outbound a then a1 else snd (load_credentials credentials a1));
               a3 = set_binding [] 0 a2
           in a3\<lparr>ap_consumer := (ap_consumer a3)\<lparr>cs_call := qmodem_voip_sip_call_release (cs_call (ap_consumer a3))\<rparr>\<rparr>)"

section \<open>The registration is pursued\<close>

text \<open>What happens to the registration: its timer fires, the library reports, or the service is stopped. The
  flag is set while a request is on its way.\<close>

inductive registration_progress :: "sip_app \<times> bool \<Rightarrow> sip_app \<times> bool \<Rightarrow> bool" where
  fires: "ap_outbound_register_retry a \<noteq> None \<Longrightarrow> outbound_register_retry created sent entropy a = (a', now_sent) \<Longrightarrow>
    registration_progress (a, flying) (a', flying \<or> now_sent)"
| reported: "registration_progress (a, flying) (outbound_regc_cb entropy now (Some p) a, False)"
| stopped: "registration_progress (a, flying) (a\<lparr>ap_running := False\<rparr>, flying)"

text \<open>The start of the program, after the configuration was read and the library was set up.\<close>

definition registration_start :: "sip_app \<times> bool \<Rightarrow> bool" where
  "registration_start = (\<lambda>(a, flying). \<exists>a0 created sent entropy. (a, flying) = outbound_register created sent entropy a0 \<and>
     ap_outbound a0 \<and> ap_regc a0 \<and> ap_running a0 \<and> length (ap_outbound_aor a0) < 320 \<and> \<not> ap_outbound_registered a0 \<and>
     ap_outbound_register_retry a0 = None \<and> cs_binding (ap_consumer a0) = [] \<and>
     ap_registration_retry a0 = qmodem_voip_sip_registration_retry_init)"

definition retry_ok :: "sip_app \<Rightarrow> bool" where
  "retry_ok a \<longleftrightarrow> ap_outbound a \<and> ap_regc a \<and> length (ap_outbound_aor a) < 320 \<and>
     (\<exists>n. unat (rr_next_delay_ms (ap_registration_retry a)) = backoff_ms n) \<and>
     (\<forall>d. ap_outbound_register_retry a = Some d \<longrightarrow> 4000 \<le> unat d \<and> unat d \<le> 300000 \<and> \<not> ap_outbound_registered a) \<and>
     cs_binding (ap_consumer a) = (if ap_outbound_registered a then ap_outbound_aor a else [])"

definition registration_ok :: "sip_app \<times> bool \<Rightarrow> bool" where
  "registration_ok = (\<lambda>(a, flying). retry_ok a \<and>
     (ap_running a \<longrightarrow> ap_outbound_registered a \<or> ap_outbound_register_retry a \<noteq> None \<or> flying))"

lemma backoff_bounds: "5000 \<le> backoff_ms n" "backoff_ms n \<le> 300000"
  by (simp_all add: backoff_ms_def)

lemma schedule_retry_ok:
  assumes "retry_ok a" "\<not> ap_outbound_registered a"
  shows "retry_ok (schedule_outbound_register_retry entropy a)"
    "ap_running a \<Longrightarrow> ap_outbound_register_retry (schedule_outbound_register_retry entropy a) \<noteq> None"
proof -
  obtain n where n: "unat (rr_next_delay_ms (ap_registration_retry a)) = backoff_ms n" using assms(1) by (auto simp: retry_ok_def)
  obtain delay r where f: "qmodem_voip_sip_registration_failed (ap_registration_retry a) entropy = (delay, r)" by fastforce
  have "unat (rr_next_delay_ms r) = backoff_ms (n + 1)"
    using backoff_step [OF n] f by (auto simp: qmodem_voip_sip_registration_failed_def Let_def)
  then have "\<exists>n. unat (rr_next_delay_ms r) = backoff_ms n" by blast
  moreover have "4000 \<le> unat delay" "unat delay \<le> 300000"
    using failed_delay(1,2) [OF n backoff_bounds(2) f] backoff_bounds [of n] by linarith+
  ultimately show "retry_ok (schedule_outbound_register_retry entropy a)"
    using assms by (simp add: schedule_outbound_register_retry_def f retry_ok_def)
  show "ap_running a \<Longrightarrow> ap_outbound_register_retry (schedule_outbound_register_retry entropy a) \<noteq> None"
    using assms(1) by (simp add: schedule_outbound_register_retry_def f retry_ok_def)
qed

lemma schedule_keeps [simp]:
  "ap_running (schedule_outbound_register_retry entropy a) = ap_running a"
  "ap_outbound_registered (schedule_outbound_register_retry entropy a) = ap_outbound_registered a"
  by (simp_all add: schedule_outbound_register_retry_def split: prod.split)

lemma outbound_register_ok:
  assumes "retry_ok a" "\<not> ap_outbound_registered a" "outbound_register created sent entropy a = (a', now_sent)"
  shows "registration_ok (a', now_sent)"
proof -
  let ?a = "a\<lparr>ap_registration_retry := qmodem_voip_sip_registration_attempt (ap_registration_retry a)\<rparr>"
  have "retry_ok ?a" using assms(1) by (simp add: retry_ok_def qmodem_voip_sip_registration_attempt_def)
  from schedule_retry_ok [OF this, of entropy] this show ?thesis
    using assms by (auto simp: outbound_register_def registration_ok_def Let_def retry_ok_def split: if_splits)
qed

lemma reported_ok:
  assumes "retry_ok a"
  shows "registration_ok (outbound_regc_cb entropy now (Some p) a, False)"
proof -
  let ?a = "set_binding [] 0 (a\<lparr>ap_outbound_registered := False\<rparr>)"
  have "retry_ok ?a" using assms by (auto simp: retry_ok_def)
  note failed = schedule_retry_ok [OF this, of entropy]
  have "\<exists>n. 5000 = backoff_ms n" by (intro exI [of _ 0]) (simp add: backoff_ms_def)
  then show ?thesis using assms failed
    by (auto simp: outbound_regc_cb_def registration_ok_def Let_def retry_ok_def qmodem_voip_sip_registration_succeeded_def)
qed

interpretation registration: inductive_invariant registration_start registration_progress registration_ok
proof
  fix s assume "registration_start s"
  then obtain a flying a0 created sent entropy where s: "s = (a, flying)" "outbound_register created sent entropy a0 = (a, flying)"
    "ap_outbound a0" "ap_regc a0" "length (ap_outbound_aor a0) < 320" "\<not> ap_outbound_registered a0"
    "ap_outbound_register_retry a0 = None" "cs_binding (ap_consumer a0) = []" "ap_registration_retry a0 = qmodem_voip_sip_registration_retry_init"
    by (cases s) (auto simp: registration_start_def)
  have "\<exists>n. 5000 = backoff_ms n" by (intro exI [of _ 0]) (simp add: backoff_ms_def)
  then have "retry_ok a0" using s by (simp add: retry_ok_def qmodem_voip_sip_registration_retry_init_def)
  then show "registration_ok s" using outbound_register_ok s(1,2,6) by blast
next
  fix s t assume ok: "registration_ok s" and "registration_progress s t"
  from this(2) show "registration_ok t"
  proof cases
    case (fires a created sent entropy a' now_sent flying)
    let ?a = "a\<lparr>ap_outbound_register_retry := None,
      ap_registration_retry := qmodem_voip_sip_registration_retry_started (ap_registration_retry a)\<rparr>"
    have "retry_ok ?a" "\<not> ap_outbound_registered ?a"
      using ok fires(1,3) by (auto simp: registration_ok_def retry_ok_def qmodem_voip_sip_registration_retry_started_def)
    from outbound_register_ok [OF this, of created sent entropy a' now_sent] show ?thesis
      using fires by (auto simp: outbound_register_retry_def registration_ok_def)
  next
    case (reported a flying entropy now p)
    then show ?thesis using reported_ok ok by (simp add: registration_ok_def)
  next
    case (stopped a flying)
    then show ?thesis using ok by (simp add: registration_ok_def retry_ok_def)
  qed
qed


section \<open>Every message is answered once\<close>

text \<open>What happens to the messages: a call of the method with its request on the bus, the timer if it is
  armed, an event of a transaction, and any change of the calls by the other handlers.\<close>

datatype message_op =
    Msg_Send message_env nat message_args
  | Msg_Timer
  | Msg_Event bool bool "message_event option"
  | Msg_Service consumer

text \<open>The requests that were accepted, the effects, and the state.\<close>

fun message_step :: "message_op \<Rightarrow> sip_app \<Rightarrow> nat list \<times> message_effect list \<times> sip_app" where
  "message_step (Msg_Send env request args) a =
     (case send_message_method env request args a of (status, a', fx) \<Rightarrow> (if status = UBUS_STATUS_OK then [request] else [], fx, a'))"
| "message_step Msg_Timer a = (if ap_message_timeout a then case message_timeout a of (a', fx) \<Rightarrow> ([], fx, a') else ([], [], a))"
| "message_step (Msg_Event retried sent ev) a = (case message_response retried sent ev a of (a', fx) \<Rightarrow> ([], fx, a'))"
| "message_step (Msg_Service c) a = ([], [], a\<lparr>ap_consumer := c\<rparr>)"

fun message_run :: "message_op list \<Rightarrow> sip_app \<Rightarrow> nat list \<times> message_effect list \<times> sip_app" where
  "message_run [] a = ([], [], a)"
| "message_run (op # ops) a =
     (case message_step op a of (rs, fx, a1) \<Rightarrow> case message_run ops a1 of (rs', fx', a2) \<Rightarrow> (rs @ rs', fx @ fx', a2))"

fun replied :: "message_effect list \<Rightarrow> nat list" where
  "replied [] = []"
| "replied (Message_Reply request status code error # fx) = request # replied fx"
| "replied (_ # fx) = replied fx"

text \<open>A reply reports success exactly for the final statuses that mean it.\<close>

fun reply_right :: "message_effect \<Rightarrow> bool" where
  "reply_right (Message_Reply request status code error) =
     (if 200 \<le> code \<and> code < 300 then status = ''success'' \<and> error = None else status = ''error'' \<and> error \<noteq> None \<and> 300 \<le> code)"
| "reply_right _ = True"

definition waiting :: "sip_app \<Rightarrow> nat list" where
  "waiting a = (if ap_message_active a then [ap_message_request a] else [])"

lemma replied_append [simp]: "replied (fx @ fx') = replied fx @ replied fx'"
  by (induction fx rule: replied.induct) simp_all

lemmas message_defs = complete_message_def message_timeout_def message_response_def send_message_method_def Let_def waiting_def

lemma message_step_replies:
  assumes "message_step op a = (rs, fx, a')" "ap_message_timeout a = ap_message_active a"
  shows "waiting a @ rs = replied fx @ waiting a'" "ap_message_timeout a' = ap_message_active a'" "\<forall>e \<in> set fx. reply_right e"
proof -
  have "waiting a @ rs = replied fx @ waiting a' \<and> ap_message_timeout a' = ap_message_active a' \<and> (\<forall>e \<in> set fx. reply_right e)"
  proof (cases op)
    case (Msg_Send env request args)
    then show ?thesis using assms
      by (auto simp: message_defs split: option.splits if_splits)
  next
    case (Msg_Event retried sent ev)
    then show ?thesis using assms by (auto simp: message_defs split: option.splits if_splits)
  qed (use assms in \<open>auto simp: message_defs split: if_splits\<close>)
  then show "waiting a @ rs = replied fx @ waiting a'" "ap_message_timeout a' = ap_message_active a'" "\<forall>e \<in> set fx. reply_right e" by auto
qed

lemma message_run_replies:
  assumes "message_run ops a = (rs, fx, a')" "ap_message_timeout a = ap_message_active a"
  shows "waiting a @ rs = replied fx @ waiting a' \<and> ap_message_timeout a' = ap_message_active a' \<and> (\<forall>e \<in> set fx. reply_right e)"
  using assms
proof (induction ops arbitrary: a rs fx)
  case (Cons op ops)
  obtain rs1 fx1 a1 where s: "message_step op a = (rs1, fx1, a1)" by (metis prod.exhaust)
  obtain rs2 fx2 where r: "message_run ops a1 = (rs2, fx2, a')" "rs = rs1 @ rs2" "fx = fx1 @ fx2"
    using Cons.prems(1) s by (auto split: prod.splits)
  note step = message_step_replies [OF s Cons.prems(2)]
  have "waiting a @ rs = replied fx1 @ waiting a1 @ rs2" using step(1) r(2) by (metis append.assoc)
  then show ?case using Cons.IH [OF r(1) step(2)] step(3) r(3) by auto
qed simp

text \<open>C18: every accepted message is answered exactly once, in the order of the requests. Whatever happens, the
  requests that were accepted are those answered and the one that still waits; that one has its timer armed,
  which answers it when nothing else does. A reply reports success only for a status between 200 and 299.\<close>

theorem sip_message_answered_once:
  assumes "\<not> ap_message_active a" "\<not> ap_message_timeout a" "message_run ops a = (accepted, fx, a')"
  shows "accepted = replied fx @ waiting a' \<and> (ap_message_active a' \<longrightarrow> ap_message_timeout a') \<and>
    replied (snd (message_timeout a')) = waiting a' \<and> waiting (fst (message_timeout a')) = [] \<and> (\<forall>e \<in> set fx. reply_right e)"
  using message_run_replies [OF assms(3)] assms(1,2) by (auto simp: message_defs)

section \<open>A reload during a call\<close>

lemma end_inactive:
  assumes "\<not> sc_active (cs_call c)"
  shows "cs_media_attached (fst (end_matched env False ids c)) = cs_media_attached c"
    "Action name number \<notin> set (snd (end_matched env False ids c))"
  using assms by (auto simp: end_matched_def qmodem_voip_sip_call_bye_def Sip_Gateway.end_call_def Let_def step_defs split: prod.split)

lemma bye_inactive:
  assumes "\<not> sc_active (cs_call c)" "mg_method m = BYE"
  shows "cs_media_attached (fst (on_request env m c)) = cs_media_attached c \<and> Action name number \<notin> set (snd (on_request env m c))"
proof -
  have f: "\<not> sc_active (cs_call (fst (forget_owed_bye False i x)))" "cs_media_attached (fst (forget_owed_bye False i x)) = cs_media_attached x"
    "snd (forget_owed_bye False i x) = []" if "\<not> sc_active (cs_call x)" for i x
    using that by (auto simp: forget_owed_bye_def step_defs split: option.split)
  show ?thesis using assms end_inactive f
    by (auto simp: on_request_def consumer_end_call_def bye_in_dialog_def if_admitted_def if_authenticated_def Let_def respond_def
      split: option.splits prod.splits sip_response.splits if_splits)
qed

text \<open>C39: a reload forgets the call but not its audio. When the credentials are generated anew during a call, the
  record of the call is cleared while the audio stays attached with its sockets; no request then follows to
  the voice daemon, and the BYE with which the telephone ends the call neither hangs up the cellular call nor
  stops the audio.\<close>

theorem sip_reload_strands_call:
  assumes "ap_reload_requested a" "cs_media_attached (ap_consumer a)" "mg_method m = BYE"
  shows "let c = ap_consumer (reload_if_requested credentials a) in
    \<not> sc_active (cs_call c) \<and> cs_media_attached c \<and> cs_rtp_fd c = cs_rtp_fd (ap_consumer a) \<and>
    cs_media_attached (fst (on_request env m c)) \<and> (\<forall>name number. Action name number \<notin> set (snd (on_request env m c)))"
proof -
  define c where "c = ap_consumer (reload_if_requested credentials a)"
  have "\<not> sc_active (cs_call c)" "cs_media_attached c" "cs_rtp_fd c = cs_rtp_fd (ap_consumer a)"
    using assms(1,2) by (simp_all add: c_def reload_if_requested_def Let_def load_credentials_def qmodem_voip_sip_call_release_def
      qmodem_voip_sip_call_clear_def split: option.split)
  then show ?thesis using bye_inactive [OF _ assms(3)] unfolding c_def [symmetric] Let_def by simp
qed

section \<open>Samples\<close>

definition sample_app :: sip_app where
  "sample_app = \<lparr>ap_consumer = sample_idle\<lparr>cs_binding := ''sip:phone@192.168.1.20'', cs_binding_until := 5000, cs_outbound := False\<rparr>,
     ap_username = ''phone'', ap_ha1 = [], ap_running = True, ap_reload_requested = False, ap_regc = False, ap_outbound_aor = ''sips:line@example.org'',
     ap_outbound_interval = 300, ap_outbound_registered = False, ap_outbound_register_retry = None,
     ap_registration_retry = qmodem_voip_sip_registration_retry_init, ap_listen_port = 5060, ap_message_request = 0,
     ap_message_timeout = False, ap_message_active = False, ap_message_auth_retried = False\<rparr>"

definition sample_message_env :: message_env where
  "sample_message_env = \<lparr>mn_env = sample_env, mn_parsed = (\<lambda>_. True), mn_created = True, mn_body = True, mn_sent = True\<rparr>"

definition sample_message :: message_args where
  "sample_message = \<lparr>ma_recipient = Some ''sip:phone@router'', ma_content = Some ''hello'', ma_id = Some ''m1'', ma_sender = Some ''10086''\<rparr>"

text \<open>The service with its account, whose first request could not be sent.\<close>

definition sample_account :: sip_app where
  "sample_account = fst (outbound_register True False 0
     (sample_app\<lparr>ap_consumer := sample_idle\<lparr>cs_binding := [], cs_outbound := True\<rparr>, ap_regc := True\<rparr>))"

text \<open>Two messages. The first times out; the response to it comes after the second was sent.\<close>

definition sample_messages :: "message_op list" where
  "sample_messages =
     [Msg_Send sample_message_env 1 sample_message, Msg_Timer, Msg_Send sample_message_env 2 sample_message,
      Msg_Event True True (Some \<lparr>mv_status = 200, mv_received = True\<rparr>)]"

text \<open>The response to the first message is taken for that to the second: the handler of responses does not
  know which message a transaction carries, and reports the second as delivered.\<close>

lemma sip_late_message_response:
  "filter (\<lambda>e. replied [e] \<noteq> []) (fst (snd (message_run sample_messages sample_app))) =
     [Message_Reply 1 ''error'' 408 (Some ''SIP MESSAGE timed out''), Message_Reply 2 ''success'' 200 None]"
  by code_simp

theorem sip_message_answered_once_witness:
  "fst (message_run sample_messages sample_app) = [1, 2] \<and>
   [1, 2] = replied (fst (snd (message_run sample_messages sample_app))) @ waiting (snd (snd (message_run sample_messages sample_app)))"
proof -
  have a: "\<not> ap_message_active sample_app" "\<not> ap_message_timeout sample_app" by (simp_all add: sample_app_def)
  obtain accepted fx a' where r: "message_run sample_messages sample_app = (accepted, fx, a')" by (metis prod.exhaust)
  have "fst (message_run sample_messages sample_app) = [1, 2]" by code_simp
  then have "accepted = [1, 2]" using r by (simp only: fst_conv)
  with sip_message_answered_once [OF a r] show ?thesis unfolding r fst_conv snd_conv by metis
qed


theorem sip_reload_strands_call_witness:
  "sc_active (cs_call sample_talking) \<and>
   (let c = ap_consumer (reload_if_requested None (sample_app\<lparr>ap_consumer := sample_talking, ap_reload_requested := True\<rparr>)) in
    \<not> sc_active (cs_call c) \<and> cs_media_attached (fst (on_request sample_env (sample_invite True BYE) c)))"
proof -
  have "sc_active (cs_call sample_talking)" by code_simp
  then show ?thesis
    using sip_reload_strands_call [of "sample_app\<lparr>ap_consumer := sample_talking, ap_reload_requested := True\<rparr>" "sample_invite True BYE" None sample_env]
      sample_values(1) by (simp add: Let_def sample_invite_def)
qed

end
