(* ===== verification/Spec2Isabelle.thy ===== *)
theory Spec2Isabelle
  imports At_Port Media_Invariant Call_History Sms_Pdu Sip_Account
begin

text \<open>
  QModem is a package of programs that run a cellular modem on a router. This library models the
  programs of the package that carry its logic: the daemon that owns the modem's AT ports, the daemon
  that runs voice calls with its media engine, the SIP service that gives telephones on the local network
  the cellular line, and the library that encodes and decodes text messages.
  All paths below are under \<open>src/application\<close>.

  \<^bold>\<open>The parts and how they interact.\<close> The AT daemon (\<open>ubus_at_daemon\<close>) opens the serial ports of
  the modem, cuts what they deliver into lines, answers the commands of other programs and publishes
  every line on the bus. The voice daemon (\<open>voipd\<close>) receives those lines, keeps the state of the one
  voice call, sends AT commands and moves the audio between the modem (a serial port, a PCM socket or a
  USB sound card) and a far end (a browser, an RTP peer, or a local consumer on a media socket, which is
  the SIP service \<open>qmodem_sipd\<close>). The SIP service authenticates the requests of its clients, answers
  them with session descriptions and maps their calls to the voice daemon. Ended calls go to a history file. The message library
  (\<open>libqmodem-sms\<close>) turns texts into protocol data units and back.

  \<^bold>\<open>Theories.\<close>
  \<^item> \<open>QModem_Prelude\<close>: machine words, C strings and the C library functions used on them, ring buffers,
    reachability, and two interfaces shared by the components as locales: \<open>inductive_invariant\<close> (an
    initial condition and a step relation keep an invariant) and \<open>bounded_fifo\<close> (a bounded queue that
    drops its oldest element refines a list). Every state machine below interprets the first, both
    kinds of queue interpret the second.
  \<^item> \<open>Json_Values\<close>: the values of the JSON library and its functions as parameters.
  \<^item> \<open>Call_State\<close>: \<open>voipd/src/call_state.c\<close>, one definition for each function, with the command and
    event callbacks as parameters. \<open>Voip_Daemon\<close>: the handlers of \<open>voipd/src/daemon_core.c\<close> and
    \<open>at_direct.c\<close>; a handler takes the context and the answers of the world and gives the new context
    and its effects in order. \<open>Voip_Properties\<close>: the theorems about every reachable context.
  \<^item> \<open>At_Control\<close>, \<open>At_Line_Events\<close>, \<open>At_Port\<close>: \<open>control.c\<close> (leases and registrations),
    \<open>line_events.c\<close> (the queue between the readers and the event loop), \<open>at_handler.c\<close>,
    \<open>port_manager.c\<close> and \<open>event_callback.c\<close> of \<open>ubus_at_daemon/src\<close>.
  \<^item> \<open>G711\<close>, \<open>Modem_Profile\<close>, \<open>Media_Core\<close>, \<open>Media_Serial\<close>, \<open>Media_Alsa\<close>, \<open>Rtp_Transport\<close>,
    \<open>Browser_Media\<close>, \<open>Media_Socket\<close>: the files of the same names in \<open>voipd/src\<close>
    (\<open>Media_Serial\<close> also \<open>media_pcm_socket.c\<close>, \<open>Media_Socket\<close> also the client
    \<open>qmodem_sipd/src/media_socket_client.c\<close>). The engine, which the code shares by a pointer, is passed
    along and returned.
  \<^item> \<open>Media_Manager\<close>: \<open>media_manager.c\<close> and the preparation in \<open>main.c\<close>, which put these parts together:
    the requests for media, the timer, the reports, and what the effects of the daemon's handlers do to
    the media. \<open>Media_Invariant\<close>: the theorems about every state this system reaches.
  \<^item> \<open>Call_History\<close>: \<open>voipd/src/call_history.c\<close> with the JSON library and the file as parameters.
  \<^item> \<open>Sms_Text\<close>, \<open>Sms_Pdu\<close>: \<open>pdu.c\<close> and \<open>ucs2_to_utf8.c\<close> of \<open>libqmodem-sms/src\<close>.
  \<^item> \<open>Sip_Digest\<close>, \<open>Sip_Credentials\<close>, \<open>Sip_Gateway\<close>: \<open>sip_gateway.c\<close>, \<open>sip_credentials.c\<close>,
    \<open>sip_registration.c\<close> and, of \<open>sip_consumer.c\<close>, the authentication and the session descriptions, all in
    \<open>qmodem_sipd/src\<close>. \<open>Sip_Properties\<close>: the theorems about these rules, with the locale \<open>window_limiter\<close>
    for what the service relies on in its limiter.
  \<^item> \<open>Sip_Consumer\<close>: the handlers of \<open>sip_consumer.c\<close> for requests, responses, events of the voice daemon
    and timers, and its bridge between RTP and the media socket. A handler is a step that gives the new
    state and its effects; the SIP library, the bus and the sockets are parameters. \<open>Sip_Calls\<close>: the
    theorems about every state these handlers reach. \<open>Sip_Account\<close>: the service's own registration at a
    server, the messages it delivers to the telephone, and the reload of the credentials, with their theorems.

  \<^bold>\<open>Representation.\<close> A C structure is a record with the source's fields, an enumeration a datatype,
  an unsigned integer a word of its width, a character string the list of its characters before the
  terminator. A pointer that may be null is an option. System calls, libraries and clocks are parameters
  of the definitions that use them: their results arrive as arguments, and a loop over a system call
  runs over the list of its results. Undefined behaviour of C (an access outside a buffer) is the value
  \<open>None\<close>, or \<open>Undefined\<close> in the message library, so that a theorem that a result is \<open>Some\<close> shows that no
  buffer is overrun.

  \<^bold>\<open>What is shown.\<close> For the voice call: an invariant of every reachable state, that a line is handled
  once, that the record of an ended call is not lost, that an answered call has one owner, the commands
  sent, and the effect of the polls of the call list. For the AT daemon: exclusive leases, unique
  registrations, the line queue as a bounded first-in first-out queue without a lost wake-up in any
  interleaving, framing that does not depend on how the bytes arrive, the end of a command's answer, and
  that no descriptor leaks. For the media: the frame queues refine lists and erase what was read, one
  session at a time, exact conversion and round trip of RTP packets, capture and playback as streams of
  bytes, single use of browser tokens, the order of a browser's frames, admission to the media socket and
  the agreement of its two ends, that a granted token leads to an attached browser, and that nothing
  holds the audio once the call is over. For the messages: reassembly of a Unicode message from its parts,
  decoding of delivered messages, and the absence of accesses outside the message. For the SIP service: a
  request without credentials or knowledge of the call changes nothing, no request is accepted twice in any
  run, a challenged client gets in, the limiter bounds every minute, audio is attached only to an
  established call, a waiting INVITE gets its one answer, audio passes between modem and telephone,
  generated credentials are those a client computes, the service understands its own descriptions, a call is
  ended once, the registration is always pursued and backs off within its bounds, and every message is
  answered once. Several theorems state where the code fails:
  the playback buffer, the septet packer, a browser that reconnects, sessions shared by two peers, the digest
  of a text whose last block has no room for the length, release events that come late, and a reload
  during a call, which is therefore not a step of the system of \<open>Sip_Calls\<close>.

  \<^bold>\<open>Fuel and bounds.\<close> The cutting of serial frames takes the number of buffered bytes as fuel, which
  suffices since each round removes at least one byte. All other recursion is structural or has a
  termination proof; the buffers have their sizes in C.

  \<^bold>\<open>Not modelled.\<close> Kernel drivers, the vendor's connection manager and firmware tool, the shell and Lua
  scripts and the web interface. Of the voice daemon: the floating-point tone test and the two
  helper programs it starts. Of the SIP service: the reading of its configuration,
  its start and shutdown, and the programs that activate it. Threads are modelled only where their interleaving matters: in the line
  queue of the AT daemon, and the capture thread of the serial port as a step of the media system.
\<close>

end
